(* ===== verification/Prelude.thy ===== *)
theory Prelude
  imports Main "HOL-Library.Char_ord" "HOL-Library.List_Lexorder"
    "HOL-Library.Product_Lexorder" "HOL-Library.Option_ord" "HOL-Library.Multiset"
begin

text \<open>
  Shared vocabulary of the development: the parts of the Rust standard library that the modelled
  crates use, together with the lemmas every component rests on.

  \<^item> A Rust \<open>String\<close> is the list of its UTF-8 bytes (\<^typ>\<open>string\<close>). The order of
    \<open>HOL-Library.List_Lexorder\<close> over \<open>Char_ord\<close> is the bytewise order of Rust's \<open>Ord\<close>;
    tuples and options are ordered as Rust derives it (\<open>Product_Lexorder\<close>, \<open>Option_ord\<close>).
  \<^item> A \<open>BTreeMap\<close> is an association list in strictly increasing key order, so that its
    iteration order is the list order; a \<open>BTreeSet\<close> is a strictly increasing list. The locale
    \<open>ordered_map\<close> is the contract the clients rely on.
  \<^item> \<open>sort_by\<close> with a key is \<^const>\<open>sort_key\<close> (stable, as Rust's), \<open>dedup\<close> is
    \<^const>\<open>remdups_adj\<close>.
  \<^item> \<open>usize\<close> and \<open>u64\<close> are \<^typ>\<open>nat\<close>; the saturating and checked operations of the
    source are written out with the 64-bit maximum.
\<close>

named_theorems bt_simps \<open>rules for the sorted association list that models BTreeMap\<close>
named_theorems str_simps \<open>rules for the string operations of the standard library\<close>

subsection \<open>Fallible code\<close>

type_synonym ('e, 'a) outcome = "'e + 'a"

definition and_then :: "('e, 'a) outcome \<Rightarrow> ('a \<Rightarrow> ('e, 'b) outcome) \<Rightarrow> ('e, 'b) outcome" where
  "and_then r f = (case r of Inl e \<Rightarrow> Inl e | Inr a \<Rightarrow> f a)"

lemma and_then_simps [simp]:
  "and_then (Inl e) f = Inl e"
  "and_then (Inr a) f = f a"
  by (simp_all add: and_then_def)

lemma and_then_eq_Inr [simp]: "and_then r f = Inr b \<longleftrightarrow> (\<exists>a. r = Inr a \<and> f a = Inr b)"
  by (cases r) simp_all

lemma and_then_eq_Inl:
  "and_then r f = Inl e \<longleftrightarrow> r = Inl e \<or> (\<exists>a. r = Inr a \<and> f a = Inl e)"
  by (cases r) auto

lemma and_then_cong [fundef_cong]:
  "r = r' \<Longrightarrow> (\<And>a. r' = Inr a \<Longrightarrow> f a = g a) \<Longrightarrow> and_then r f = and_then r' g"
  by (cases r') simp_all

definition ok_or :: "'e \<Rightarrow> 'a option \<Rightarrow> ('e, 'a) outcome" where
  "ok_or e r = (case r of None \<Rightarrow> Inl e | Some a \<Rightarrow> Inr a)"

lemma ok_or_simps [simp]:
  "ok_or e None = Inl e"
  "ok_or e (Some a) = Inr a"
  by (simp_all add: ok_or_def)

lemma ok_or_eq_Inr [simp]: "ok_or e r = Inr a \<longleftrightarrow> r = Some a"
  by (cases r) simp_all

definition map_error :: "('e \<Rightarrow> 'f) \<Rightarrow> ('e, 'a) outcome \<Rightarrow> ('f, 'a) outcome" where
  "map_error f r = (case r of Inl e \<Rightarrow> Inl (f e) | Inr a \<Rightarrow> Inr a)"

lemma map_error_eq_Inr [simp]: "map_error f r = Inr a \<longleftrightarrow> r = Inr a"
  by (cases r) (simp_all add: map_error_def)

lemma map_error_eq_Inl [simp]: "map_error f r = Inl e \<longleftrightarrow> (\<exists>e'. r = Inl e' \<and> e = f e')"
  by (cases r) (auto simp: map_error_def)

text \<open>A loop of checks that returns on the first error.\<close>

fun check_all :: "('a \<Rightarrow> ('e, unit) outcome) \<Rightarrow> 'a list \<Rightarrow> ('e, unit) outcome" where
  "check_all f [] = Inr ()"
| "check_all f (x # xs) = and_then (f x) (\<lambda>_. check_all f xs)"

lemma check_all_eq_Inr [simp]: "check_all f xs = Inr u \<longleftrightarrow> (\<forall>x \<in> set xs. f x = Inr ())"
  by (induction xs) auto

lemma check_all_eq_Inl: "check_all f xs = Inl e \<Longrightarrow> \<exists>x \<in> set xs. f x = Inl e"
  by (induction xs) (auto simp: and_then_eq_Inl)

lemma check_all_error_iff: "(\<exists>e. check_all f xs = Inl e) \<longleftrightarrow> (\<exists>x \<in> set xs. \<exists>e. f x = Inl e)"
proof (induction xs)
  case (Cons a xs)
  then show ?case by (cases "f a") auto
qed simp

text \<open>A mapped iterator collected into a result: the values, or the first error.\<close>

fun collect_all :: "('a \<Rightarrow> ('e, 'b) outcome) \<Rightarrow> 'a list \<Rightarrow> ('e, 'b list) outcome" where
  "collect_all f [] = Inr []"
| "collect_all f (x # xs) = and_then (f x) (\<lambda>y. and_then (collect_all f xs) (\<lambda>ys. Inr (y # ys)))"

lemma collect_all_eq_Inr: "collect_all f xs = Inr ys \<longleftrightarrow> list_all2 (\<lambda>x y. f x = Inr y) xs ys"
  by (induction xs arbitrary: ys) (auto simp: list_all2_Cons1)

lemma collect_all_eq_Inl:
  "collect_all f xs = Inl e \<Longrightarrow> \<exists>x \<in> set xs. f x = Inl e"
  by (induction xs) (auto simp: and_then_eq_Inl)

subsection \<open>Machine integers\<close>

definition usize_max :: nat where
  "usize_max = 2 ^ 64 - 1"

definition saturating_add :: "nat \<Rightarrow> nat \<Rightarrow> nat" where
  "saturating_add a b = min (a + b) usize_max"

definition checked_add :: "nat \<Rightarrow> nat \<Rightarrow> nat option" where
  "checked_add a b = (if a + b \<le> usize_max then Some (a + b) else None)"

lemma saturating_add_le [simp]: "saturating_add a b \<le> usize_max"
  by (simp add: saturating_add_def)

lemma saturating_add_exact: "a + b \<le> usize_max \<Longrightarrow> saturating_add a b = a + b"
  by (simp add: saturating_add_def)

lemma saturating_add_ge: "a \<le> usize_max \<Longrightarrow> a \<le> saturating_add a b"
  by (simp add: saturating_add_def)

subsection \<open>BTreeMap and BTreeSet\<close>

type_synonym ('k, 'v) btree_map = "('k \<times> 'v) list"
type_synonym 'k btree_set = "'k list"

abbreviation bt_keys :: "('k, 'v) btree_map \<Rightarrow> 'k list" where
  "bt_keys m \<equiv> map fst m"

abbreviation bt_values :: "('k, 'v) btree_map \<Rightarrow> 'v list" where
  "bt_values m \<equiv> map snd m"

abbreviation bt_get :: "('k, 'v) btree_map \<Rightarrow> 'k \<Rightarrow> 'v option" where
  "bt_get m k \<equiv> map_of m k"

definition bt_contains :: "('k, 'v) btree_map \<Rightarrow> 'k \<Rightarrow> bool" where
  "bt_contains m k \<longleftrightarrow> bt_get m k \<noteq> None"

fun bt_insert :: "'k::linorder \<Rightarrow> 'v \<Rightarrow> ('k, 'v) btree_map \<Rightarrow> ('k, 'v) btree_map" where
  "bt_insert k v [] = [(k, v)]"
| "bt_insert k v ((k', v') # m) =
     (if k < k' then (k, v) # (k', v') # m
      else if k = k' then (k, v) # m
      else (k', v') # bt_insert k v m)"

text \<open>The key order invariant of the map and of the set.\<close>

definition bt_wf :: "('k::linorder, 'v) btree_map \<Rightarrow> bool" where
  "bt_wf m \<longleftrightarrow> sorted_wrt (<) (bt_keys m)"

text \<open>\<open>entry(k).and_modify(f).or_insert(v)\<close> and \<open>entry(k).or_default().push(x)\<close>.\<close>

definition bt_upsert :: "'k::linorder \<Rightarrow> ('v \<Rightarrow> 'v) \<Rightarrow> 'v \<Rightarrow> ('k, 'v) btree_map \<Rightarrow> ('k, 'v) btree_map" where
  "bt_upsert k f v m = bt_insert k (case bt_get m k of None \<Rightarrow> v | Some x \<Rightarrow> f x) m"

definition bt_push :: "'k::linorder \<Rightarrow> 'v \<Rightarrow> ('k, 'v list) btree_map \<Rightarrow> ('k, 'v list) btree_map" where
  "bt_push k x m = bt_upsert k (\<lambda>xs. xs @ [x]) [x] m"

definition bt_map_values :: "('v \<Rightarrow> 'w) \<Rightarrow> ('k, 'v) btree_map \<Rightarrow> ('k, 'w) btree_map" where
  "bt_map_values f m = map (\<lambda>(k, v). (k, f v)) m"

fun bs_insert :: "'k::linorder \<Rightarrow> 'k btree_set \<Rightarrow> 'k btree_set" where
  "bs_insert x [] = [x]"
| "bs_insert x (y # ys) =
     (if x < y then x # y # ys else if x = y then y # ys else y # bs_insert x ys)"

definition bs_of_list :: "'k::linorder list \<Rightarrow> 'k btree_set" where
  "bs_of_list xs = fold bs_insert xs []"

abbreviation bs_wf :: "'k::linorder btree_set \<Rightarrow> bool" where
  "bs_wf xs \<equiv> sorted_wrt (<) xs"

lemma bt_wf_Nil [simp]: "bt_wf []"
  by (simp add: bt_wf_def)

lemma bt_keys_insert [simp]: "set (bt_keys (bt_insert k v m)) = insert k (set (bt_keys m))"
  by (induction m rule: bt_insert.induct [where ?a0.0 = k and ?a1.0 = v]) auto

lemma bt_wf_insert [simp]: "bt_wf m \<Longrightarrow> bt_wf (bt_insert k v m)"
proof (induction m)
  case (Cons p m)
  obtain k' v' where p: "p = (k', v')" by fastforce
  have keys: "\<forall>x \<in> fst ` set (bt_insert k v m). x = k \<or> x \<in> fst ` set m"
    using bt_keys_insert [of k v m] by auto
  show ?case
    using Cons keys unfolding bt_wf_def p by fastforce
qed (simp add: bt_wf_def)

lemma bt_get_insert [simp]:
  "bt_wf m \<Longrightarrow> bt_get (bt_insert k v m) = (bt_get m)(k \<mapsto> v)"
  by (induction m) (auto simp: bt_wf_def fun_eq_iff map_of_eq_None_iff)

lemma bt_get_insert_same [simp]: "bt_get (bt_insert k v m) k = Some v"
  by (induction m) auto

lemma bt_get_insert_other [simp]: "k \<noteq> k' \<Longrightarrow> bt_get (bt_insert k v m) k' = bt_get m k'"
  by (induction m) auto

lemma bt_contains_iff: "bt_contains m k \<longleftrightarrow> k \<in> set (bt_keys m)"
  by (simp add: bt_contains_def map_of_eq_None_iff)

lemma bt_contains_insert [simp]: "bt_contains (bt_insert k v m) k' \<longleftrightarrow> k' = k \<or> bt_contains m k'"
  unfolding bt_contains_iff bt_keys_insert by auto

lemma bt_get_upsert_same [simp]:
  "bt_get (bt_upsert k f v m) k = Some (case bt_get m k of None \<Rightarrow> v | Some x \<Rightarrow> f x)"
  by (simp add: bt_upsert_def)

lemma bt_get_upsert_other [simp]: "k \<noteq> k' \<Longrightarrow> bt_get (bt_upsert k f v m) k' = bt_get m k'"
  by (simp add: bt_upsert_def)

lemma bt_wf_upsert [simp]: "bt_wf m \<Longrightarrow> bt_wf (bt_upsert k f v m)"
  by (simp add: bt_upsert_def)

lemma bt_wf_push [simp]: "bt_wf m \<Longrightarrow> bt_wf (bt_push k x m)"
  by (simp add: bt_push_def)

lemma bt_get_map_values [simp]: "bt_get (bt_map_values f m) k = map_option f (bt_get m k)"
  by (induction m) (auto simp: bt_map_values_def)

lemma bt_keys_map_values [simp]: "bt_keys (bt_map_values f m) = bt_keys m"
  by (auto simp: bt_map_values_def)

lemma bt_wf_map_values [simp]: "bt_wf (bt_map_values f m) \<longleftrightarrow> bt_wf m"
  by (simp add: bt_wf_def)

lemma bt_wf_distinct: "bt_wf m \<Longrightarrow> distinct (bt_keys m)"
  unfolding bt_wf_def by (simp add: strict_sorted_iff)

lemma bt_get_iff_mem: "bt_wf m \<Longrightarrow> bt_get m k = Some v \<longleftrightarrow> (k, v) \<in> set m"
  by (simp add: bt_wf_distinct)

lemma bs_set_insert [simp]: "set (bs_insert x xs) = insert x (set xs)"
  by (induction xs) auto

lemma bs_wf_insert [simp]: "bs_wf xs \<Longrightarrow> bs_wf (bs_insert x xs)"
  by (induction xs) auto

lemma bs_set_fold: "set (fold bs_insert xs s) = set xs \<union> set s"
  by (induction xs arbitrary: s) auto

lemma bs_wf_fold: "bs_wf s \<Longrightarrow> bs_wf (fold bs_insert xs s)"
  by (induction xs arbitrary: s) auto

lemma set_bs_of_list [simp]: "set (bs_of_list xs) = set xs"
  by (simp add: bs_of_list_def bs_set_fold)

lemma bs_wf_of_list [simp]: "bs_wf (bs_of_list xs)"
  by (simp add: bs_of_list_def bs_wf_fold)

lemma bs_of_list_eq_sorted: "bs_of_list xs = sorted_list_of_set (set xs)"
  by (rule sorted_distinct_set_unique)
    (use bs_wf_of_list [of xs] in \<open>simp_all add: strict_sorted_iff\<close>)

lemma length_bs_insert: "bs_wf xs \<Longrightarrow> length (bs_insert x xs) = (if x \<in> set xs then length xs else Suc (length xs))"
  by (induction xs) auto

lemmas bt_lookup_simps [bt_simps] =
  bt_get_insert bt_get_upsert_same bt_get_upsert_other bt_get_map_values bt_contains_iff

subsection \<open>The ordered-map contract\<close>

text \<open>
  What the clients of \<open>BTreeMap\<close> rely on: a lookup sees the last insertion, every operation
  keeps the order invariant, and the iteration order is determined by the key set. Grouping records
  under a key with \<open>entry(key).or_default().push(record)\<close> is proved once against this contract;
  the adjacency maps of every graph projection in the program are built that way.
\<close>

locale ordered_map =
  fixes empty_map :: "'m"
    and look :: "'m \<Rightarrow> 'k::linorder \<Rightarrow> 'e list option"
    and put :: "'k \<Rightarrow> 'e list \<Rightarrow> 'm \<Rightarrow> 'm"
    and map_keys :: "'m \<Rightarrow> 'k list"
    and invar :: "'m \<Rightarrow> bool"
  assumes look_empty: "look empty_map k = None"
    and look_put: "invar m \<Longrightarrow> look (put k v m) = (look m)(k \<mapsto> v)"
    and invar_empty: "invar empty_map"
    and invar_put: "invar m \<Longrightarrow> invar (put k v m)"
    and keys_look: "invar m \<Longrightarrow> k \<in> set (map_keys m) \<longleftrightarrow> look m k \<noteq> None"
    and keys_order: "invar m \<Longrightarrow> sorted_wrt (<) (map_keys m)"
begin

definition push_under :: "('e \<Rightarrow> 'k) \<Rightarrow> 'e \<Rightarrow> 'm \<Rightarrow> 'm" where
  "push_under key e m =
     put (key e) (case look m (key e) of None \<Rightarrow> [e] | Some es \<Rightarrow> es @ [e]) m"

lemma invar_push_all: "invar m \<Longrightarrow> invar (fold (push_under key) es m)"
  by (induction es arbitrary: m) (simp_all add: push_under_def invar_put)

lemma look_push_all:
  assumes "invar m"
  shows "look (fold (push_under key) es m) k =
     (case look m k of
        None \<Rightarrow> (case filter (\<lambda>e. key e = k) es of [] \<Rightarrow> None | g # gs \<Rightarrow> Some (g # gs))
      | Some old \<Rightarrow> Some (old @ filter (\<lambda>e. key e = k) es))"
  using assms
proof (induction es arbitrary: m)
  case Nil
  then show ?case by (simp split: option.split)
next
  case (Cons e es)
  have inv: "invar (push_under key e m)"
    using Cons.prems by (simp add: push_under_def invar_put)
  show ?case
    using Cons.IH [OF inv] Cons.prems
    by (auto simp: push_under_def look_put split: option.splits list.splits)
qed

lemma look_groups:
  "look (fold (push_under key) es empty_map) k =
     (case filter (\<lambda>e. key e = k) es of [] \<Rightarrow> None | g # gs \<Rightarrow> Some (g # gs))"
  by (simp add: look_push_all [OF invar_empty] look_empty)

lemma keys_determined:
  assumes "invar m" "invar m'" "\<And>k. look m k = None \<longleftrightarrow> look m' k = None"
  shows "map_keys m = map_keys m'"
proof (rule sorted_distinct_set_unique)
  show "sorted (map_keys m)" "distinct (map_keys m)" "sorted (map_keys m')" "distinct (map_keys m')"
    using keys_order [OF assms(1)] keys_order [OF assms(2)] by (simp_all add: strict_sorted_iff)
  show "set (map_keys m) = set (map_keys m')"
    using keys_look [OF assms(1)] keys_look [OF assms(2)] assms(3) by blast
qed

end

interpretation btree: ordered_map "[]" bt_get bt_insert bt_keys bt_wf
  by unfold_locales (auto simp: map_of_eq_None_iff, simp add: bt_wf_def)

lemma bt_push_eq: "btree.push_under key e m = bt_push (key e) e m"
  by (simp add: btree.push_under_def bt_push_def bt_upsert_def)

text \<open>The records stored under a key, with the empty group for an absent one.\<close>

definition bt_group :: "('k, 'v list) btree_map \<Rightarrow> 'k \<Rightarrow> 'v list" where
  "bt_group m k = (case bt_get m k of None \<Rightarrow> [] | Some vs \<Rightarrow> vs)"

lemma bt_group_push_all [bt_simps]:
  "bt_group (fold (\<lambda>e. bt_push (key e) e) es []) k = filter (\<lambda>e. key e = k) es"
  using btree.look_groups [of key es k]
  by (simp add: bt_group_def bt_push_eq [abs_def] split: list.split)

lemma bt_wf_push_all: "bt_wf (fold (\<lambda>e. bt_push (key e) e) es [])"
  using btree.invar_push_all [OF btree.invar_empty, of key es] by (simp add: bt_push_eq [abs_def])

lemma bt_group_map_values [bt_simps]:
  "f [] = [] \<Longrightarrow> bt_group (bt_map_values f m) k = f (bt_group m k)"
  by (simp add: bt_group_def split: option.split)

subsection \<open>Lists\<close>

lemma sort_key_permutes: "mset (sort_key f xs) = mset xs"
  by simp

lemma filter_set_sort_key [simp]: "set (sort_key f xs) = set xs"
  by simp

definition dedup_by :: "('a \<Rightarrow> 'a \<Rightarrow> bool) \<Rightarrow> 'a list \<Rightarrow> 'a list" where
  "dedup_by same xs =
     rev (fold (\<lambda>x acc. case acc of [] \<Rightarrow> [x] | y # _ \<Rightarrow> (if same x y then acc else x # acc)) xs [])"

lemma set_remdups_adj_sort [simp]: "set (remdups_adj (sort_key f xs)) = set xs"
  by simp

text \<open>\<open>values.sort(); values.dedup()\<close> leaves the strictly increasing enumeration of the values.\<close>

definition sorted_unique :: "'a::linorder list \<Rightarrow> 'a list" where
  "sorted_unique xs = remdups_adj (sort xs)"

lemma set_sorted_unique [simp]: "set (sorted_unique xs) = set xs"
  by (simp add: sorted_unique_def)

lemma strict_sorted_remdups_adj: "sorted xs \<Longrightarrow> sorted_wrt (<) (remdups_adj (xs :: 'a::linorder list))"
proof (induction xs rule: remdups_adj.induct)
  case (3 x y xs)
  show ?case
  proof (cases "x = y")
    case False
    with "3.prems" have "\<forall>z \<in> set (y # xs). x < z" by fastforce
    with 3 False show ?thesis by simp
  qed (use 3 in simp)
qed simp_all

lemma strict_sorted_unique [simp]: "sorted_wrt (<) (sorted_unique xs)"
  by (simp add: sorted_unique_def strict_sorted_remdups_adj)

lemma sorted_unique_eq: "sorted_unique xs = sorted_list_of_set (set xs)"
  by (rule sorted_distinct_set_unique)
    (use strict_sorted_unique [of xs] in \<open>simp_all add: strict_sorted_iff\<close>)

lemma fold_invariant:
  "I s \<Longrightarrow> (\<And>x s. x \<in> set xs \<Longrightarrow> I s \<Longrightarrow> I (f x s)) \<Longrightarrow> I (fold f xs s)"
  by (induction xs arbitrary: s) simp_all

subsection \<open>Walks\<close>

text \<open>
  A walk over an adjacency function: a list of adjacency records, each offered at the node the walk has
  reached. It is the reference notion of a path for every graph search of the program.
\<close>

fun walk :: "('v \<Rightarrow> 'e list) \<Rightarrow> ('e \<Rightarrow> 'v) \<Rightarrow> 'v \<Rightarrow> 'e list \<Rightarrow> 'v \<Rightarrow> bool" where
  "walk adj next_of u [] v \<longleftrightarrow> u = v"
| "walk adj next_of u (e # es) v \<longleftrightarrow> e \<in> set (adj u) \<and> walk adj next_of (next_of e) es v"

lemma walk_append [simp]:
  "walk adj nx u (es @ fs) v \<longleftrightarrow> (\<exists>w. walk adj nx u es w \<and> walk adj nx w fs v)"
  by (induction es arbitrary: u) auto

lemma walk_invariant:
  assumes "walk adj nx u es v" "P u"
    and "\<And>x e. P x \<Longrightarrow> e \<in> set (adj x) \<Longrightarrow> P (nx e)"
  shows "P v"
  using assms by (induction es arbitrary: u) auto

text \<open>The same for a property that depends on the number of steps taken.\<close>

lemma walk_layers:
  assumes "walk adj nx u es v" "P i u"
    and "\<And>x e j. P j x \<Longrightarrow> i \<le> j \<Longrightarrow> j < i + length es \<Longrightarrow> e \<in> set (adj x) \<Longrightarrow> P (Suc j) (nx e)"
  shows "P (i + length es) v"
  using assms
proof (induction es arbitrary: u i)
  case (Cons e es)
  have "P (Suc i) (nx e)"
    using Cons.prems(1,2) Cons.prems(3) [of i u e] by simp
  moreover have "walk adj nx (nx e) es v" using Cons.prems(1) by simp
  ultimately have "P (Suc i + length es) v"
    using Cons.IH [of "nx e" "Suc i"] Cons.prems(3) by simp
  then show ?case by simp
qed simp

text \<open>On a sorted list, \<open>dedup_by\<close> of equal keys keeps one element per key.\<close>

lemma dedup_by_fold:
  assumes "sorted (map f xs)" and "acc \<noteq> [] \<Longrightarrow> sorted_wrt (>) (map f acc) \<and> (\<forall>x \<in> set xs. f (hd acc) \<le> f x)"
  shows "sorted_wrt (>) (map f (fold (\<lambda>x acc. case acc of [] \<Rightarrow> [x] | y # _ \<Rightarrow> (if f x = f y then acc else x # acc)) xs acc))
     \<and> f ` set (fold (\<lambda>x acc. case acc of [] \<Rightarrow> [x] | y # _ \<Rightarrow> (if f x = f y then acc else x # acc)) xs acc)
         = f ` (set xs \<union> set acc)
     \<and> set (fold (\<lambda>x acc. case acc of [] \<Rightarrow> [x] | y # _ \<Rightarrow> (if f x = f y then acc else x # acc)) xs acc) \<subseteq> set xs \<union> set acc"
  using assms
proof (induction xs arbitrary: acc)
  case (Cons x xs)
  let ?acc = "case acc of [] \<Rightarrow> [x] | y # _ \<Rightarrow> (if f x = f y then acc else x # acc)"
  have top: "?acc \<noteq> [] \<Longrightarrow> sorted_wrt (>) (map f ?acc) \<and> (\<forall>z \<in> set xs. f (hd ?acc) \<le> f z)"
    using Cons.prems by (cases acc) (auto intro: le_neq_trans less_trans)
  have "f ` (set xs \<union> set ?acc) = f ` (set (x # xs) \<union> set acc)" "set ?acc \<subseteq> insert x (set acc)"
    by (cases acc; auto)+
  then show ?case using Cons.IH [OF _ top] Cons.prems(1) by auto
next
  case Nil
  then show ?case by (cases "acc = []") simp_all
qed

lemma dedup_sorted:
  assumes "sorted (map f xs)"
  shows "sorted_wrt (<) (map f (dedup_by (\<lambda>x y. f x = f y) xs))"
    and "f ` set (dedup_by (\<lambda>x y. f x = f y) xs) = f ` set xs"
    and "set (dedup_by (\<lambda>x y. f x = f y) xs) \<subseteq> set xs"
  using dedup_by_fold [OF assms, of "[]"] unfolding dedup_by_def
  by (simp_all add: rev_map [symmetric] sorted_wrt_rev)

lemma enumerate_map: "List.enumerate 0 xs = map (\<lambda>i. (i, xs ! i)) [0..<length xs]"
  by (rule nth_equalityI) (simp_all add: nth_enumerate_eq)

lemma set_bt_insert: "set (bt_insert k v m) \<subseteq> insert (k, v) (set m)"
  by (induction m) (auto split: if_splits)

lemma bt_group_push: "bt_group (bt_push k v m) k' = (if k = k' then bt_group m k' @ [v] else bt_group m k')"
  by (auto simp: bt_group_def bt_push_def split: option.splits)

lemma length_bt_insert: "bt_wf m \<Longrightarrow> length (bt_insert k v m) = (if bt_contains m k then length m else Suc (length m))"
proof -
  assume wf: "bt_wf m"
  have "length (bt_insert k v m) = card (set (bt_keys (bt_insert k v m)))" "length m = card (set (bt_keys m))"
    using bt_wf_distinct [OF bt_wf_insert [OF wf]] bt_wf_distinct [OF wf] by (metis distinct_card length_map)+
  then show ?thesis by (simp only: bt_keys_insert bt_contains_iff card_insert_if finite_set)
qed

end
