(* ===== verification/Floats.thy ===== *)
theory Floats
  imports Complex_Main "HOL-Library.Log_Nat" Prelude
begin

text \<open>
  The \<open>f32\<close> and \<open>f64\<close> arithmetic of the source. A float is one of the IEEE 754 special
  values or an exact rational; every operation computes the exact rational result and rounds it to
  the nearest representable value, ties to even, with gradual underflow and overflow to infinity.
  \<open>f64::from\<close> of an \<open>f32\<close> is the identity on these values. All not-a-number values are one
  value; \<open>total_cmp\<close> is the linear order of the type, with the negative zero below the positive
  one and not-a-number above everything.

  The lemmas establish the two facts the weighted search relies on: rounding is monotone, and it
  leaves a representable value unchanged, so that adding a non-negative weight never decreases a sum.
\<close>

datatype fp = NaN | NegInf | NegZero | Fin rat | PosInf

type_synonym f32 = fp
type_synonym f64 = fp

record fp_format =
  precision :: nat
  min_ulp :: int
  overflow_exp :: int

definition binary64 :: fp_format where
  "binary64 = \<lparr>precision = 53, min_ulp = -1074, overflow_exp = 1024\<rparr>"

definition binary32 :: fp_format where
  "binary32 = \<lparr>precision = 24, min_ulp = -149, overflow_exp = 128\<rparr>"

subsection \<open>Rounding\<close>

definition pow2 :: "int \<Rightarrow> rat" where
  "pow2 e = 2 powi e"

text \<open>The exponent of a positive rational: \<open>pow2 (flog2 x) \<le> x < pow2 (flog2 x + 1)\<close>.\<close>

definition flog2 :: "rat \<Rightarrow> int" where
  "flog2 x = (case quotient_of x of (a, b) \<Rightarrow>
     (let k = bitlen a - bitlen b in if x < pow2 k then k - 1 else k))"

text \<open>The nearest integer, ties to even.\<close>

definition nearest_even :: "rat \<Rightarrow> int" where
  "nearest_even x = (let f = \<lfloor>x\<rfloor>; d = x - of_int f in
     if d < 1 / 2 then f else if 1 / 2 < d then f + 1 else if even f then f else f + 1)"

definition ulp_exp :: "fp_format \<Rightarrow> rat \<Rightarrow> int" where
  "ulp_exp F x = max (min_ulp F) (flog2 x - (int (precision F) - 1))"

definition round_pos :: "fp_format \<Rightarrow> rat \<Rightarrow> rat" where
  "round_pos F x = of_int (nearest_even (x / pow2 (ulp_exp F x))) * pow2 (ulp_exp F x)"

definition fp_round :: "fp_format \<Rightarrow> rat \<Rightarrow> fp" where
  "fp_round F x =
     (if x = 0 then Fin 0
      else let r = round_pos F \<bar>x\<bar> in
        if pow2 (overflow_exp F) \<le> r then (if 0 < x then PosInf else NegInf)
        else if r = 0 then (if 0 < x then Fin 0 else NegZero)
        else Fin (if 0 < x then r else - r))"

subsection \<open>Operations\<close>

text \<open>The rational value of a finite float; both zeros have the value zero.\<close>

fun finite_value :: "fp \<Rightarrow> rat option" where
  "finite_value (Fin q) = Some q"
| "finite_value NegZero = Some 0"
| "finite_value _ = None"

definition fp_is_finite :: "fp \<Rightarrow> bool" where
  "fp_is_finite x \<longleftrightarrow> finite_value x \<noteq> None"

fun fp_is_neg :: "fp \<Rightarrow> bool" where
  "fp_is_neg NegInf = True"
| "fp_is_neg NegZero = True"
| "fp_is_neg (Fin q) = (q < 0)"
| "fp_is_neg _ = False"

fun fp_neg :: "fp \<Rightarrow> fp" where
  "fp_neg NaN = NaN"
| "fp_neg NegInf = PosInf"
| "fp_neg PosInf = NegInf"
| "fp_neg NegZero = Fin 0"
| "fp_neg (Fin q) = (if q = 0 then NegZero else Fin (- q))"

fun fp_add :: "fp_format \<Rightarrow> fp \<Rightarrow> fp \<Rightarrow> fp" where
  "fp_add F NaN y = NaN"
| "fp_add F x NaN = NaN"
| "fp_add F PosInf NegInf = NaN"
| "fp_add F NegInf PosInf = NaN"
| "fp_add F PosInf y = PosInf"
| "fp_add F x PosInf = PosInf"
| "fp_add F NegInf y = NegInf"
| "fp_add F x NegInf = NegInf"
| "fp_add F NegZero NegZero = NegZero"
| "fp_add F NegZero (Fin b) = fp_round F b"
| "fp_add F (Fin a) NegZero = fp_round F a"
| "fp_add F (Fin a) (Fin b) = fp_round F (a + b)"

definition fp_sub :: "fp_format \<Rightarrow> fp \<Rightarrow> fp \<Rightarrow> fp" where
  "fp_sub F x y = fp_add F x (fp_neg y)"

definition fp_signed :: "bool \<Rightarrow> fp \<Rightarrow> fp" where
  "fp_signed neg x = (if neg then fp_neg x else x)"

definition fp_mul :: "fp_format \<Rightarrow> fp \<Rightarrow> fp \<Rightarrow> fp" where
  "fp_mul F x y =
     (let neg = (fp_is_neg x \<noteq> fp_is_neg y) in
      if x = NaN \<or> y = NaN then NaN
      else case (finite_value x, finite_value y) of
        (Some a, Some b) \<Rightarrow>
          if a * b = 0 then fp_signed neg (Fin 0) else fp_round F (a * b)
      | (Some a, None) \<Rightarrow> if a = 0 then NaN else fp_signed neg PosInf
      | (None, Some b) \<Rightarrow> if b = 0 then NaN else fp_signed neg PosInf
      | (None, None) \<Rightarrow> fp_signed neg PosInf)"

definition fp_div :: "fp_format \<Rightarrow> fp \<Rightarrow> fp \<Rightarrow> fp" where
  "fp_div F x y =
     (let neg = (fp_is_neg x \<noteq> fp_is_neg y) in
      if x = NaN \<or> y = NaN then NaN
      else case (finite_value x, finite_value y) of
        (Some a, Some b) \<Rightarrow>
          if b = 0 then (if a = 0 then NaN else fp_signed neg PosInf)
          else if a = 0 then fp_signed neg (Fin 0) else fp_round F (a / b)
      | (Some a, None) \<Rightarrow> fp_signed neg (Fin 0)
      | (None, Some b) \<Rightarrow> fp_signed neg PosInf
      | (None, None) \<Rightarrow> NaN)"

subsection \<open>Comparisons\<close>

fun fp_key :: "fp \<Rightarrow> nat \<times> rat \<times> nat" where
  "fp_key NegInf = (0, 0, 0)"
| "fp_key NegZero = (1, 0, 0)"
| "fp_key (Fin q) = (1, q, 1)"
| "fp_key PosInf = (2, 0, 0)"
| "fp_key NaN = (3, 0, 0)"

lemma fp_key_inject [simp]: "fp_key x = fp_key y \<longleftrightarrow> x = y"
  by (cases x; cases y) auto

text \<open>The order of the type is \<open>total_cmp\<close>.\<close>

instantiation fp :: linorder
begin

definition less_eq_fp :: "fp \<Rightarrow> fp \<Rightarrow> bool" where
  "less_eq_fp x y \<longleftrightarrow> fp_key x \<le> fp_key y"

definition less_fp :: "fp \<Rightarrow> fp \<Rightarrow> bool" where
  "less_fp x y \<longleftrightarrow> fp_key x < fp_key y"

instance
  by standard (auto simp: less_eq_fp_def less_fp_def less_le_not_le
      dest: antisym intro: order_trans)

end

text \<open>The IEEE comparisons \<open><\<close> and \<open>\<le>\<close> of the language: false on not-a-number, and the
  zeros are equal.\<close>

fun fp_rank :: "fp \<Rightarrow> nat \<times> rat" where
  "fp_rank NegInf = (0, 0)"
| "fp_rank NegZero = (1, 0)"
| "fp_rank (Fin q) = (1, q)"
| "fp_rank _ = (2, 0)"

definition fp_le :: "fp \<Rightarrow> fp \<Rightarrow> bool" where
  "fp_le x y \<longleftrightarrow> x \<noteq> NaN \<and> y \<noteq> NaN \<and> fp_rank x \<le> fp_rank y"

definition fp_lt :: "fp \<Rightarrow> fp \<Rightarrow> bool" where
  "fp_lt x y \<longleftrightarrow> x \<noteq> NaN \<and> y \<noteq> NaN \<and> fp_rank x < fp_rank y"

text \<open>\<open>f64::max\<close> and \<open>f64::min\<close> return the other operand when one is not a number.\<close>

definition fp_max :: "fp \<Rightarrow> fp \<Rightarrow> fp" where
  "fp_max x y = (if x = NaN then y else if y = NaN then x else max x y)"

definition fp_min :: "fp \<Rightarrow> fp \<Rightarrow> fp" where
  "fp_min x y = (if x = NaN then y else if y = NaN then x else min x y)"

text \<open>\<open>x.is_finite() && (0.0..=1.0).contains(&x)\<close>, the validity test of every confidence.\<close>

definition unit_interval :: "fp \<Rightarrow> bool" where
  "unit_interval x \<longleftrightarrow> fp_is_finite x \<and> fp_le (Fin 0) x \<and> fp_le x (Fin 1)"

text \<open>A decimal literal of the source denotes the nearest float.\<close>

abbreviation f64_lit :: "rat \<Rightarrow> f64" where
  "f64_lit q \<equiv> fp_round binary64 q"

abbreviation f32_lit :: "rat \<Rightarrow> f32" where
  "f32_lit q \<equiv> fp_round binary32 q"

subsection \<open>Powers of two and exponents\<close>

lemma pow2_pos [simp]: "0 < pow2 e"
  by (simp add: pow2_def)

lemma pow2_nonneg [simp]: "0 \<le> pow2 e"
  by (simp add: pow2_def)

lemma pow2_nonzero [simp]: "pow2 e \<noteq> 0"
  by (simp add: pow2_def)

lemma pow2_add: "pow2 (a + b) = pow2 a * pow2 b"
  by (simp add: pow2_def power_int_add)

lemma pow2_diff: "pow2 (a - b) = pow2 a / pow2 b"
  by (simp add: pow2_def power_int_diff)

lemma pow2_strict_mono: "a < b \<Longrightarrow> pow2 a < pow2 b"
  unfolding pow2_def by (rule power_int_strict_increasing) simp_all

lemma pow2_less_iff [simp]: "pow2 a < pow2 b \<longleftrightarrow> a < b"
  using pow2_strict_mono [of a b] pow2_strict_mono [of b a] by (cases a b rule: linorder_cases) auto

lemma pow2_le_iff [simp]: "pow2 a \<le> pow2 b \<longleftrightarrow> a \<le> b"
  by (simp add: not_less [symmetric])

lemma pow2_int: "0 \<le> e \<Longrightarrow> pow2 e = of_int (2 ^ nat e)"
  by (simp add: pow2_def power_int_def)

lemma bitlen_pow2_bounds:
  assumes "0 < a"
  shows "pow2 (bitlen a - 1) \<le> of_int a" "of_int a < pow2 (bitlen a)"
proof -
  have nonneg: "0 \<le> bitlen a - 1"
    using assms bitlen_eq_zero_iff [of a] bitlen_nonneg [of a] by linarith
  have b: "2 ^ nat (bitlen a - 1) \<le> a" "a < 2 ^ nat (bitlen a)"
    using bitlen_bounds [OF assms] by auto
  have "(of_int (2 ^ nat (bitlen a - 1)) :: rat) \<le> of_int a"
    using b(1) by (rule iffD2 [OF of_int_le_iff])
  then show "pow2 (bitlen a - 1) \<le> of_int a"
    by (simp only: pow2_int [OF nonneg])
  have "(of_int a :: rat) < of_int (2 ^ nat (bitlen a))"
    using b(2) by (rule iffD2 [OF of_int_less_iff])
  then show "of_int a < pow2 (bitlen a)"
    by (simp only: pow2_int [OF bitlen_nonneg])
qed

lemma flog2_bounds:
  assumes "0 < x"
  shows "pow2 (flog2 x) \<le> x" "x < pow2 (flog2 x + 1)"
proof -
  obtain a b where q: "quotient_of x = (a, b)" by fastforce
  have b: "0 < b" using quotient_of_denom_pos [OF q] .
  have x: "x = of_int a / of_int b" using quotient_of_div [OF q] .
  have a: "0 < a" using assms b unfolding x by (simp add: zero_less_divide_iff)
  let ?k = "bitlen a - bitlen b"
  have "x < pow2 (bitlen a) / pow2 (bitlen b - 1)"
    unfolding x using bitlen_pow2_bounds [OF a] bitlen_pow2_bounds [OF b] a b
    by (intro frac_less) auto
  also have "\<dots> = pow2 (?k + 1)"
    by (simp add: pow2_diff [symmetric] algebra_simps)
  finally have upper: "x < pow2 (?k + 1)" .
  have "pow2 (?k - 1) = pow2 (bitlen a - 1) / pow2 (bitlen b)"
    by (simp add: pow2_diff [symmetric] algebra_simps)
  also have "\<dots> \<le> x"
    unfolding x using bitlen_pow2_bounds [OF a] bitlen_pow2_bounds [OF b] a b
    by (intro frac_le) auto
  finally have lower: "pow2 (?k - 1) \<le> x" .
  show "pow2 (flog2 x) \<le> x" "x < pow2 (flog2 x + 1)"
    using upper lower by (auto simp: flog2_def q Let_def)
qed

lemma flog2_mono:
  assumes "0 < x" "x \<le> y"
  shows "flog2 x \<le> flog2 y"
proof -
  have "pow2 (flog2 x) < pow2 (flog2 y + 1)"
    using flog2_bounds [of x] flog2_bounds [of y] assms by linarith
  then show ?thesis by simp
qed

lemma nearest_even_bounds: "\<lfloor>x\<rfloor> \<le> nearest_even x" "nearest_even x \<le> \<lfloor>x\<rfloor> + 1"
  by (auto simp: nearest_even_def Let_def)

lemma nearest_even_of_int [simp]: "nearest_even (of_int n) = n"
  by (simp add: nearest_even_def)

lemma nearest_even_mono:
  assumes "x \<le> y"
  shows "nearest_even x \<le> nearest_even y"
proof (cases "\<lfloor>x\<rfloor> = \<lfloor>y\<rfloor>")
  case True
  then show ?thesis
    using assms by (auto simp: nearest_even_def Let_def)
next
  case False
  then have "\<lfloor>x\<rfloor> + 1 \<le> \<lfloor>y\<rfloor>"
    using floor_mono [OF assms] by linarith
  then show ?thesis
    using nearest_even_bounds(2) [of x] nearest_even_bounds(1) [of y] by linarith
qed

lemma nearest_even_le_int: "x \<le> of_int n \<Longrightarrow> nearest_even x \<le> n"
  using nearest_even_mono [of x "of_int n"] by simp

lemma nearest_even_ge_int: "of_int n \<le> x \<Longrightarrow> n \<le> nearest_even x"
  using nearest_even_mono [of "of_int n" x] by simp

lemma ulp_exp_mono: "0 < x \<Longrightarrow> x \<le> y \<Longrightarrow> ulp_exp F x \<le> ulp_exp F y"
  using flog2_mono [of x y] by (auto simp: ulp_exp_def)

lemma round_pos_mono:
  assumes "0 < precision F" "0 < x" "x \<le> y"
  shows "round_pos F x \<le> round_pos F y"
proof (cases "ulp_exp F x = ulp_exp F y")
  case True
  have "nearest_even (x / pow2 (ulp_exp F y)) \<le> nearest_even (y / pow2 (ulp_exp F y))"
    by (rule nearest_even_mono) (simp add: assms divide_right_mono)
  then show ?thesis
    unfolding round_pos_def True by (intro mult_right_mono) simp_all
next
  case False
  let ?ex = "ulp_exp F x" and ?ey = "ulp_exp F y" and ?b = "flog2 y"
  have less: "?ex < ?ey"
    using False ulp_exp_mono [OF assms(2,3), of F] by simp
  then have ey: "?ey = ?b - (int (precision F) - 1)"
    by (auto simp: ulp_exp_def)
  then have bx: "0 \<le> ?b - ?ex" and by0: "0 \<le> ?b - ?ey"
    using less assms(1) by linarith+
  have "flog2 x < ?b"
    using less by (auto simp: ulp_exp_def)
  then have "pow2 (flog2 x + 1) \<le> pow2 ?b" by simp
  then have "x \<le> pow2 ?b"
    using flog2_bounds(2) [OF assms(2)] by linarith
  then have "x / pow2 ?ex \<le> of_int (2 ^ nat (?b - ?ex))"
    unfolding pow2_int [OF bx, symmetric] pow2_diff by (simp add: divide_right_mono)
  then have "nearest_even (x / pow2 ?ex) \<le> 2 ^ nat (?b - ?ex)"
    by (rule nearest_even_le_int)
  then have "of_int (nearest_even (x / pow2 ?ex)) \<le> (of_int (2 ^ nat (?b - ?ex)) :: rat)"
    by (rule iffD2 [OF of_int_le_iff])
  then have "round_pos F x \<le> pow2 (?b - ?ex) * pow2 ?ex"
    unfolding round_pos_def pow2_int [OF bx] by (intro mult_right_mono) simp_all
  also have "\<dots> = pow2 ?b" by (simp add: pow2_diff)
  also have "pow2 ?b = pow2 (?b - ?ey) * pow2 ?ey" by (simp add: pow2_diff)
  also have "\<dots> \<le> round_pos F y"
  proof -
    have "of_int (2 ^ nat (?b - ?ey)) \<le> y / pow2 ?ey"
      using flog2_bounds(1) [of y] assms
      unfolding pow2_int [OF by0, symmetric] pow2_diff by (simp add: divide_right_mono)
    then have "2 ^ nat (?b - ?ey) \<le> nearest_even (y / pow2 ?ey)"
      by (rule nearest_even_ge_int)
    then have "of_int (2 ^ nat (?b - ?ey)) \<le> (of_int (nearest_even (y / pow2 ?ey)) :: rat)"
      by (rule iffD2 [OF of_int_le_iff])
    then show ?thesis
      unfolding round_pos_def pow2_int [OF by0] by (intro mult_right_mono) simp_all
  qed
  finally show ?thesis .
qed

text \<open>The non-negative finite values of a format: integer multiples of a power of two that fit in
  the precision.\<close>

definition representable :: "fp_format \<Rightarrow> rat \<Rightarrow> bool" where
  "representable F r \<longleftrightarrow>
     (\<exists>m e. r = of_int m * pow2 e \<and> 0 \<le> m \<and> m < 2 ^ precision F \<and> min_ulp F \<le> e)"

lemma round_pos_representable:
  assumes "0 < r" "representable F r"
  shows "round_pos F r = r"
proof -
  from assms(2) obtain m e where r: "r = of_int m * pow2 e" and m: "0 \<le> m" "m < 2 ^ precision F"
    and e: "min_ulp F \<le> e"
    unfolding representable_def by blast
  have "(of_int m :: rat) < of_int (2 ^ nat (int (precision F)))"
    using m(2) by (intro iffD2 [OF of_int_less_iff]) simp
  then have "(of_int m :: rat) < pow2 (int (precision F))"
    by (simp only: pow2_int [of "int (precision F)"] of_nat_0_le_iff)
  then have "r < pow2 (int (precision F)) * pow2 e"
    unfolding r by (intro mult_strict_right_mono) simp_all
  then have "pow2 (flog2 r) < pow2 (int (precision F) + e)"
    using flog2_bounds(1) [OF assms(1)] by (simp add: pow2_add)
  then have le: "0 \<le> e - ulp_exp F r"
    using e by (simp add: ulp_exp_def)
  have "r / pow2 (ulp_exp F r) = of_int m * pow2 (e - ulp_exp F r)"
    by (simp add: r pow2_diff)
  also have "\<dots> = of_int (m * 2 ^ nat (e - ulp_exp F r))"
    by (simp add: pow2_int [OF le])
  finally have int: "r / pow2 (ulp_exp F r) = of_int (m * 2 ^ nat (e - ulp_exp F r))" .
  have "round_pos F r = of_int (m * 2 ^ nat (e - ulp_exp F r)) * pow2 (ulp_exp F r)"
    by (simp only: round_pos_def int nearest_even_of_int)
  also have "\<dots> = r / pow2 (ulp_exp F r) * pow2 (ulp_exp F r)"
    by (simp only: int)
  finally show ?thesis by simp
qed

lemma representable_round_pos:
  assumes "1 < precision F" "0 < x"
  shows "representable F (round_pos F x)"
proof -
  let ?e = "ulp_exp F x" and ?m = "nearest_even (x / pow2 (ulp_exp F x))" and ?p = "precision F"
  have e: "min_ulp F \<le> ?e" by (simp add: ulp_exp_def)
  have "x < pow2 (flog2 x + 1)" using flog2_bounds(2) [OF assms(2)] .
  also have "\<dots> \<le> pow2 (int ?p + ?e)" by (simp add: ulp_exp_def)
  finally have "x / pow2 ?e \<le> pow2 (int ?p)"
    by (simp add: pow2_add field_simps)
  then have "x / pow2 ?e \<le> of_int (2 ^ ?p)"
    by (simp add: pow2_int)
  then have upper: "?m \<le> 2 ^ ?p" by (rule nearest_even_le_int)
  have lower: "0 \<le> ?m"
    using assms(2) by (intro nearest_even_ge_int) simp
  show ?thesis
  proof (cases "?m = 2 ^ ?p")
    case False
    then show ?thesis
      unfolding representable_def round_pos_def using upper lower e
      by (intro exI [of _ ?m] exI [of _ ?e]) simp
  next
    case True
    have half: "(2::int) ^ ?p = 2 ^ (?p - 1) * 2"
      using assms(1) by (cases ?p) simp_all
    have "of_int ?m * pow2 ?e = of_int (2 ^ (?p - 1)) * pow2 (?e + 1)"
      unfolding True half pow2_add by (simp add: pow2_def)
    moreover have "(2::int) ^ (?p - 1) < 2 ^ ?p"
      using assms(1) by (intro power_strict_increasing) simp_all
    ultimately show ?thesis
      unfolding representable_def round_pos_def using e
      by (intro exI [of _ "2 ^ (?p - 1)"] exI [of _ "?e + 1"]) simp
  qed
qed

text \<open>The values a sum of weights takes: positive infinity and the non-negative representable values
  below the overflow threshold.\<close>

fun fp_weight :: "fp_format \<Rightarrow> fp \<Rightarrow> bool" where
  "fp_weight F (Fin q) \<longleftrightarrow> 0 \<le> q \<and> representable F q \<and> q < pow2 (overflow_exp F)"
| "fp_weight F PosInf \<longleftrightarrow> True"
| "fp_weight F _ \<longleftrightarrow> False"

lemma fp_round_weight_value: "fp_weight F (Fin q) \<Longrightarrow> fp_round F q = Fin q"
  by (auto simp: fp_round_def Let_def round_pos_representable)

lemma round_pos_nonneg:
  assumes "0 < x"
  shows "0 \<le> round_pos F x"
proof -
  have "0 \<le> nearest_even (x / pow2 (ulp_exp F x))"
    using assms by (intro nearest_even_ge_int) simp
  then show ?thesis by (simp add: round_pos_def)
qed

lemma fp_round_nonneg:
  "0 \<le> x \<Longrightarrow> fp_round F x = (if x \<noteq> 0 \<and> pow2 (overflow_exp F) \<le> round_pos F x then PosInf
     else Fin (if x = 0 then 0 else round_pos F x))"
  by (auto simp: fp_round_def Let_def)

lemma representable_zero [simp]: "representable F 0"
  unfolding representable_def by (auto intro!: exI [of _ 0] exI [of _ "min_ulp F"])

lemma fp_weight_round: "1 < precision F \<Longrightarrow> 0 \<le> x \<Longrightarrow> fp_weight F (fp_round F x)"
  using round_pos_nonneg [of x F] representable_round_pos [of F x]
  by (auto simp: fp_round_nonneg not_le)

lemma fp_round_mono:
  assumes "1 < precision F" "0 \<le> x" "x \<le> y"
  shows "fp_round F x \<le> fp_round F y"
proof (cases "x = 0")
  case True
  then show ?thesis
    using assms round_pos_nonneg [of y F]
    by (auto simp: fp_round_nonneg less_eq_fp_def)
next
  case False
  then have "round_pos F x \<le> round_pos F y"
    using assms by (intro round_pos_mono) auto
  then show ?thesis
    using assms False by (auto simp: fp_round_nonneg less_eq_fp_def)
qed

lemma fp_add_weight:
  assumes "1 < precision F" "fp_weight F a" "fp_weight F w"
  shows "fp_weight F (fp_add F a w)"
  using assms by (cases a; cases w) (auto intro: fp_weight_round)

lemma fp_add_increasing:
  assumes "1 < precision F" "fp_weight F a" "fp_weight F w"
  shows "a \<le> fp_add F a w"
proof (cases a)
  case (Fin q)
  show ?thesis
  proof (cases w)
    case (Fin v)
    have "fp_round F q \<le> fp_round F (q + v)"
      using assms \<open>a = Fin q\<close> Fin by (intro fp_round_mono) auto
    then show ?thesis
      using assms \<open>a = Fin q\<close> Fin fp_round_weight_value [of F q] by simp
  qed (use assms Fin in \<open>auto simp: less_eq_fp_def\<close>)
qed (use assms in \<open>cases w; auto simp: less_eq_fp_def\<close>)+

subsection \<open>The weight contract of the weighted search\<close>

text \<open>
  The weighted search accumulates edge weights along a path and expands the cheapest path first. It
  relies on two laws: the accumulated values stay in a set of valid weights, and adding a valid weight
  never makes a total smaller. Under them the total of a prefix bounds the total of every extension.
\<close>

locale path_weight =
  fixes wadd :: "'w::linorder \<Rightarrow> 'w \<Rightarrow> 'w"
    and wvalid :: "'w \<Rightarrow> bool"
  assumes wadd_valid: "wvalid a \<Longrightarrow> wvalid w \<Longrightarrow> wvalid (wadd a w)"
    and wadd_increasing: "wvalid a \<Longrightarrow> wvalid w \<Longrightarrow> a \<le> wadd a w"
begin

lemma total_valid:
  "wvalid a \<Longrightarrow> (\<And>w. w \<in> set ws \<Longrightarrow> wvalid w) \<Longrightarrow> wvalid (foldl wadd a ws)"
  by (induction ws arbitrary: a) (simp_all add: wadd_valid)

lemma total_increasing:
  "wvalid a \<Longrightarrow> (\<And>w. w \<in> set ws \<Longrightarrow> wvalid w) \<Longrightarrow> a \<le> foldl wadd a ws"
proof (induction ws arbitrary: a)
  case (Cons w ws)
  then have "a \<le> wadd a w" "wadd a w \<le> foldl wadd (wadd a w) ws"
    by (simp_all add: wadd_increasing wadd_valid)
  then show ?case by simp
qed simp

lemma prefix_total_le:
  assumes "wvalid a" "\<And>w. w \<in> set (us @ vs) \<Longrightarrow> wvalid w"
  shows "foldl wadd a us \<le> foldl wadd a (us @ vs)"
  using assms total_increasing [of "foldl wadd a us" vs] total_valid [of a us] by simp

end

interpretation f64_weight: path_weight "fp_add binary64" "fp_weight binary64"
  by unfold_locales (simp_all add: fp_add_weight fp_add_increasing binary64_def)

end
