(* ===== verification/Model.thy ===== *)
theory Model
  imports Floats
begin

text \<open>
  The domain contracts of \<open>crates/code-system-graph-model/src/lib.rs\<close>: identifiers, the typed
  nodes and edges of the federated graph, evidence, linker decisions, artifact fingerprints, the HTTP
  link report and the trace report. Enumerations are datatypes with the source's constructors; an
  enumeration that derives \<open>Ord\<close> gets its declaration order as its linear order. A content hash
  (the \<open>blake3\<close> crate) is a parameter of the functions that derive identifiers.
\<close>

type_synonym repo_id = string
type_synonym checkout_id = string
type_synonym node_id = string
type_synonym edge_id = string
type_synonym evidence_id = string
type_synonym community_id = string

subsection \<open>Native paths\<close>

datatype native_path_encoding = UnixBytes | WindowsWide | Utf8

fun native_path_encoding_rank :: "native_path_encoding \<Rightarrow> nat" where
  "native_path_encoding_rank UnixBytes = 0"
| "native_path_encoding_rank WindowsWide = 1"
| "native_path_encoding_rank Utf8 = 2"

instantiation native_path_encoding :: linorder
begin

definition less_eq_native_path_encoding :: "native_path_encoding \<Rightarrow> native_path_encoding \<Rightarrow> bool" where
  "less_eq_native_path_encoding x y \<longleftrightarrow> native_path_encoding_rank x \<le> native_path_encoding_rank y"

definition less_native_path_encoding :: "native_path_encoding \<Rightarrow> native_path_encoding \<Rightarrow> bool" where
  "less_native_path_encoding x y \<longleftrightarrow> native_path_encoding_rank x < native_path_encoding_rank y"

instance
proof
  fix x y :: native_path_encoding
  show "x \<le> y \<Longrightarrow> y \<le> x \<Longrightarrow> x = y"
    by (cases x; cases y) (simp_all add: less_eq_native_path_encoding_def)
qed (auto simp: less_eq_native_path_encoding_def less_native_path_encoding_def)

end

datatype native_path = NativePath
  (path_encoding: native_path_encoding) (path_bytes: string) (path_display: string)

fun native_path_key :: "native_path \<Rightarrow> native_path_encoding \<times> string \<times> string" where
  "native_path_key (NativePath e b d) = (e, b, d)"

lemma native_path_key_inject [simp]: "native_path_key x = native_path_key y \<longleftrightarrow> x = y"
  by (cases x; cases y) simp

instantiation native_path :: linorder
begin

definition less_eq_native_path :: "native_path \<Rightarrow> native_path \<Rightarrow> bool" where
  "less_eq_native_path x y \<longleftrightarrow> native_path_key x \<le> native_path_key y"

definition less_native_path :: "native_path \<Rightarrow> native_path \<Rightarrow> bool" where
  "less_native_path x y \<longleftrightarrow> native_path_key x < native_path_key y"

instance
  by standard (auto simp: less_eq_native_path_def less_native_path_def less_le_not_le
      dest: antisym intro: order_trans)

end

subsection \<open>Freshness and artifacts\<close>

datatype repo_freshness_state =
    Fresh | WorkingTreeChanged | CommitsBehind | ConfigChanged | ExtractorChanged
  | CodegraphPending | Partial | Corrupt | Unknown | Unavailable

record repo_freshness =
  rf_repo_id :: repo_id
  rf_checkout_id :: checkout_id
  rf_head_commit :: "string option"
  rf_manifest_hash :: string
  rf_state :: repo_freshness_state
  rf_reason :: "string option"

record artifact_fingerprint =
  af_repo_id :: repo_id
  af_checkout_id :: checkout_id
  af_path :: native_path
  af_extractor :: string
  af_content_hash :: string
  af_size_bytes :: nat

datatype artifact_change_kind = Added | Modified | Deleted

record artifact_change =
  ac_repo_id :: repo_id
  ac_checkout_id :: checkout_id
  ac_path :: native_path
  ac_extractor :: string
  ac_kind :: artifact_change_kind

subsection \<open>Derived identifiers\<close>

text \<open>\<open>hash\<close> stands for the hexadecimal BLAKE3 digest of a byte string.\<close>

definition stable_id_bytes :: "(string \<Rightarrow> string) \<Rightarrow> string \<Rightarrow> string \<Rightarrow> string" where
  "stable_id_bytes hash namespace canonical_key =
     namespace @ '':'' @ hash (namespace @ [CHR 0x00] @ canonical_key)"

definition stable_id :: "(string \<Rightarrow> string) \<Rightarrow> string \<Rightarrow> string \<Rightarrow> string" where
  "stable_id hash namespace canonical_key = stable_id_bytes hash namespace canonical_key"

subsection \<open>Metadata safety\<close>

text \<open>The code points of a UTF-8 string.\<close>

fun utf8_decode :: "string \<Rightarrow> nat list" where
  "utf8_decode [] = []"
| "utf8_decode [a] = [of_char a]"
| "utf8_decode [a, b] =
     (if of_char a < (128::nat) then of_char a # utf8_decode [b]
      else [(of_char a - 192) * 64 + (of_char b - 128)])"
| "utf8_decode [a, b, c] =
     (if of_char a < (128::nat) then of_char a # utf8_decode [b, c]
      else if of_char a < (224::nat) then ((of_char a - 192) * 64 + (of_char b - 128)) # utf8_decode [c]
      else [(of_char a - 224) * 4096 + (of_char b - 128) * 64 + (of_char c - 128)])"
| "utf8_decode (a # b # c # d # s) =
     (if of_char a < (128::nat) then of_char a # utf8_decode (b # c # d # s)
      else if of_char a < (224::nat)
        then ((of_char a - 192) * 64 + (of_char b - 128)) # utf8_decode (c # d # s)
      else if of_char a < (240::nat)
        then ((of_char a - 224) * 4096 + (of_char b - 128) * 64 + (of_char c - 128)) # utf8_decode (d # s)
      else ((of_char a - 240) * 262144 + (of_char b - 128) * 4096
              + (of_char c - 128) * 64 + (of_char d - 128)) # utf8_decode s)"

text \<open>\<open>char::is_control\<close>: the general category Cc.\<close>

definition is_control :: "nat \<Rightarrow> bool" where
  "is_control c \<longleftrightarrow> c \<le> 0x1f \<or> (0x7f \<le> c \<and> c \<le> 0x9f)"

definition is_bidi_format :: "nat \<Rightarrow> bool" where
  "is_bidi_format c \<longleftrightarrow>
     c = 0x061c \<or> c = 0x200e \<or> c = 0x200f \<or> (0x202a \<le> c \<and> c \<le> 0x202e)
     \<or> (0x2066 \<le> c \<and> c \<le> 0x2069) \<or> c = 0xfeff"

definition contains_unsafe_metadata_characters :: "string \<Rightarrow> bool" where
  "contains_unsafe_metadata_characters value =
     list_ex (\<lambda>c. is_control c \<or> is_bidi_format c) (utf8_decode value)"

datatype unsafe_path_display_error = UnsafePathDisplayError

definition validate_safe_path_display :: "string \<Rightarrow> (unsafe_path_display_error, unit) outcome" where
  "validate_safe_path_display value =
     (if contains_unsafe_metadata_characters value then Inl UnsafePathDisplayError else Inr ())"

subsection \<open>Graph nodes and edges\<close>

datatype node_kind =
    Repository | Service | Package | Artifact | SymbolRef | TestCase | HttpOperation
  | GraphqlOperation | RpcMethod | EventChannel | EventSchema | Database | DatabaseTable
  | DatabaseColumn | ConfigKey | Deployment | Document | Adr | Owner | ChangeSet | PullRequest
  | CommunityNode

datatype edge_kind =
    Contains | Provides | Consumes | CallsRemote | Publishes | Subscribes | DeliversTo
  | DependsOnPackage | DependsOnRepository | ReadsTable | WritesTable | Deploys | Configures
  | Documents | OwnedBy | ImplementedBy | Validates | ChangedIn | Affects | Precedes | Reverts
  | CompatibleWith | IncompatibleWith | MemberOf | ManualLink

fun edge_kind_rank :: "edge_kind \<Rightarrow> nat" where
  "edge_kind_rank Contains = 0"
| "edge_kind_rank Provides = 1"
| "edge_kind_rank Consumes = 2"
| "edge_kind_rank CallsRemote = 3"
| "edge_kind_rank Publishes = 4"
| "edge_kind_rank Subscribes = 5"
| "edge_kind_rank DeliversTo = 6"
| "edge_kind_rank DependsOnPackage = 7"
| "edge_kind_rank DependsOnRepository = 8"
| "edge_kind_rank ReadsTable = 9"
| "edge_kind_rank WritesTable = 10"
| "edge_kind_rank Deploys = 11"
| "edge_kind_rank Configures = 12"
| "edge_kind_rank Documents = 13"
| "edge_kind_rank OwnedBy = 14"
| "edge_kind_rank ImplementedBy = 15"
| "edge_kind_rank Validates = 16"
| "edge_kind_rank ChangedIn = 17"
| "edge_kind_rank Affects = 18"
| "edge_kind_rank Precedes = 19"
| "edge_kind_rank Reverts = 20"
| "edge_kind_rank CompatibleWith = 21"
| "edge_kind_rank IncompatibleWith = 22"
| "edge_kind_rank MemberOf = 23"
| "edge_kind_rank ManualLink = 24"

lemma edge_kind_rank_inject: "edge_kind_rank x = edge_kind_rank y \<Longrightarrow> x = y"
  by (cases x; cases y) simp_all

instantiation edge_kind :: linorder
begin

definition less_eq_edge_kind :: "edge_kind \<Rightarrow> edge_kind \<Rightarrow> bool" where
  "less_eq_edge_kind x y \<longleftrightarrow> edge_kind_rank x \<le> edge_kind_rank y"

definition less_edge_kind :: "edge_kind \<Rightarrow> edge_kind \<Rightarrow> bool" where
  "less_edge_kind x y \<longleftrightarrow> edge_kind_rank x < edge_kind_rank y"

instance
  by standard (auto simp: less_eq_edge_kind_def less_edge_kind_def intro: edge_kind_rank_inject)

end

datatype provenance = Declared | Extracted | InferredProvenance | Manual | Runtime | CodeGraph

datatype epistemic_status = Confirmed | Inferred | Ambiguous | Stale | Incomplete

record evidence =
  ev_id :: evidence_id
  ev_repo_id :: "repo_id option"
  ev_file_path :: "string option"
  ev_start_line :: "nat option"
  ev_end_line :: "nat option"
  ev_extractor :: string
  ev_extractor_version :: string
  ev_provenance :: provenance
  ev_confidence :: f32
  ev_observed_at_commit :: "string option"
  ev_content_hash :: "string option"
  ev_note :: "string option"

record node =
  n_id :: node_id
  n_kind :: node_kind
  n_repo_id :: "repo_id option"
  n_stable_key :: string
  n_label :: string

record edge =
  e_id :: edge_id
  e_source :: node_id
  e_target :: node_id
  e_kind :: edge_kind
  e_confidence :: f32
  e_status :: epistemic_status
  e_evidence :: "evidence_id list"

subsection \<open>Linker decisions\<close>

datatype link_status = LinkConfirmed | LinkSuppressed | LinkAmbiguous | LinkRejected

fun link_status_rank :: "link_status \<Rightarrow> nat" where
  "link_status_rank LinkConfirmed = 0"
| "link_status_rank LinkSuppressed = 1"
| "link_status_rank LinkAmbiguous = 2"
| "link_status_rank LinkRejected = 3"

instantiation link_status :: linorder
begin

definition less_eq_link_status :: "link_status \<Rightarrow> link_status \<Rightarrow> bool" where
  "less_eq_link_status x y \<longleftrightarrow> link_status_rank x \<le> link_status_rank y"

definition less_link_status :: "link_status \<Rightarrow> link_status \<Rightarrow> bool" where
  "less_link_status x y \<longleftrightarrow> link_status_rank x < link_status_rank y"

instance
proof
  fix x y :: link_status
  show "x \<le> y \<Longrightarrow> y \<le> x \<Longrightarrow> x = y"
    by (cases x; cases y) (simp_all add: less_eq_link_status_def)
qed (auto simp: less_eq_link_status_def less_link_status_def)

end

record rejected_alternative =
  ra_candidate :: node_id
  ra_score :: f32
  ra_reasons :: "string list"

record evidence_ref =
  er_id :: evidence_id
  er_provenance :: provenance

record link_decision =
  ld_source :: node_id
  ld_target :: node_id
  ld_relation :: edge_kind
  ld_matcher :: string
  ld_matcher_version :: "nat \<times> nat \<times> nat"
  ld_score :: f32
  ld_confidence :: f32
  ld_reasons :: "string list"
  ld_rejected_alternatives :: "rejected_alternative list"
  ld_evidence :: "evidence_ref list"
  ld_status :: link_status

subsection \<open>HTTP link report\<close>

datatype http_link_gap_reason = NoProvider | AmbiguousProvider | External

fun http_link_gap_reason_rank :: "http_link_gap_reason \<Rightarrow> nat" where
  "http_link_gap_reason_rank NoProvider = 0"
| "http_link_gap_reason_rank AmbiguousProvider = 1"
| "http_link_gap_reason_rank External = 2"

instantiation http_link_gap_reason :: linorder
begin

definition less_eq_http_link_gap_reason :: "http_link_gap_reason \<Rightarrow> http_link_gap_reason \<Rightarrow> bool" where
  "less_eq_http_link_gap_reason x y \<longleftrightarrow> http_link_gap_reason_rank x \<le> http_link_gap_reason_rank y"

definition less_http_link_gap_reason :: "http_link_gap_reason \<Rightarrow> http_link_gap_reason \<Rightarrow> bool" where
  "less_http_link_gap_reason x y \<longleftrightarrow> http_link_gap_reason_rank x < http_link_gap_reason_rank y"

instance
proof
  fix x y :: http_link_gap_reason
  show "x \<le> y \<Longrightarrow> y \<le> x \<Longrightarrow> x = y"
    by (cases x; cases y) (simp_all add: less_eq_http_link_gap_reason_def)
qed (auto simp: less_eq_http_link_gap_reason_def less_http_link_gap_reason_def)

end

fun gap_reason_as_str :: "http_link_gap_reason \<Rightarrow> string" where
  "gap_reason_as_str NoProvider = ''no_provider''"
| "gap_reason_as_str AmbiguousProvider = ''ambiguous''"
| "gap_reason_as_str External = ''external''"

definition gap_reason_parse :: "string \<Rightarrow> http_link_gap_reason option" where
  "gap_reason_parse value =
     (if value = ''no_provider'' then Some NoProvider
      else if value = ''ambiguous'' then Some AmbiguousProvider
      else if value = ''external'' then Some External
      else None)"

record http_link_gap =
  gap_caller :: node_id
  gap_method :: string
  gap_path :: string
  gap_reason :: http_link_gap_reason
  gap_candidates :: "node_id list"

record http_link_coverage =
  cov_linked :: nat
  cov_no_provider :: nat
  cov_ambiguous :: nat
  cov_external :: nat

record http_link_report =
  rep_coverage :: http_link_coverage
  rep_gaps :: "http_link_gap list"

subsection \<open>Traces\<close>

record trace_segment =
  seg_source :: node
  seg_edge :: edge
  seg_target :: node

record trace_report =
  tr_segments :: "trace_segment list"
  tr_truncated :: bool
  tr_coverage_gaps :: "string list"

subsection \<open>Properties of the model crate\<close>

text \<open>
  The hypothesis on the hash is that it does not collide on the inputs at hand and that its digests
  have one length; both are documented behaviour of BLAKE3 and hold of concrete functions.
\<close>

definition collision_free :: "(string \<Rightarrow> string) \<Rightarrow> string set \<Rightarrow> bool" where
  "collision_free hash inputs \<longleftrightarrow> inj_on hash inputs"

definition fixed_length :: "(string \<Rightarrow> string) \<Rightarrow> nat \<Rightarrow> bool" where
  "fixed_length hash n \<longleftrightarrow> (\<forall>x. length (hash x) = n)"

definition stable_id_input :: "string \<Rightarrow> string \<Rightarrow> string" where
  "stable_id_input namespace canonical_key = namespace @ [CHR 0x00] @ canonical_key"

lemma stable_id_eq: "stable_id hash ns k = ns @ '':'' @ hash (stable_id_input ns k)"
  by (simp add: stable_id_def stable_id_bytes_def stable_id_input_def)

lemma stable_id_injective:
  assumes "fixed_length hash n"
    and "collision_free hash {stable_id_input ns k, stable_id_input ns' k'}"
    and "stable_id hash ns k = stable_id hash ns' k'"
  shows "ns = ns' \<and> k = k'"
proof -
  have len: "length (hash (stable_id_input ns k)) = length (hash (stable_id_input ns' k'))"
    using assms(1) by (simp add: fixed_length_def)
  have "(ns @ '':'') @ hash (stable_id_input ns k) = (ns' @ '':'') @ hash (stable_id_input ns' k')"
    using assms(3) by (simp add: stable_id_eq)
  then have "ns @ '':'' = ns' @ '':''" "hash (stable_id_input ns k) = hash (stable_id_input ns' k')"
    using len append_eq_append_conv by fastforce+
  then have "ns = ns'" "stable_id_input ns k = stable_id_input ns' k'"
    using assms(2) by (auto simp: collision_free_def dest: inj_onD)
  then show ?thesis by (simp add: stable_id_input_def)
qed

lemma stable_id_identifies:
  assumes "collision_free hash {stable_id_input ns a, stable_id_input ns b}"
  shows "stable_id hash ns a = stable_id hash ns b \<longleftrightarrow> a = b"
proof
  assume "stable_id hash ns a = stable_id hash ns b"
  then have "stable_id_input ns a = stable_id_input ns b"
    using assms by (auto simp: stable_id_eq collision_free_def dest: inj_onD)
  then show "a = b" by (simp add: stable_id_input_def)
qed simp

lemma gap_reason_round_trip: "gap_reason_parse s = Some r \<longleftrightarrow> s = gap_reason_as_str r"
  by (cases r) (auto simp: gap_reason_parse_def)

lemma utf8_decode_ascii:
  "(\<And>c. c \<in> set s \<Longrightarrow> of_char c < (128::nat)) \<Longrightarrow> utf8_decode s = map of_char s"
  by (induction s rule: utf8_decode.induct) simp_all

lemma validate_safe_path_display_ascii:
  assumes "\<And>c. c \<in> set s \<Longrightarrow> of_char c < (128::nat)"
  shows "validate_safe_path_display s = Inr () \<longleftrightarrow>
     (\<forall>c \<in> set s. of_char c \<ge> (32::nat) \<and> of_char c \<noteq> (127::nat))"
proof -
  have "(is_control (of_char c) \<or> is_bidi_format (of_char c)) \<longleftrightarrow>
      \<not> (of_char c \<ge> (32::nat) \<and> of_char c \<noteq> (127::nat))" if "c \<in> set s" for c
    using assms [OF that] by (auto simp: is_control_def is_bidi_format_def)
  then show ?thesis
    by (simp add: validate_safe_path_display_def contains_unsafe_metadata_characters_def
        utf8_decode_ascii assms list_ex_iff)
qed

subsection \<open>Sample data\<close>

text \<open>Concrete nodes and edges on which the witnesses of the components evaluate.\<close>

definition sample_node :: "string \<Rightarrow> node" where
  "sample_node i = \<lparr>n_id = i, n_kind = Service, n_repo_id = Some i, n_stable_key = i, n_label = i\<rparr>"

definition sample_edge :: "string \<Rightarrow> node_id \<Rightarrow> node_id \<Rightarrow> edge" where
  "sample_edge i s t = \<lparr>e_id = i, e_source = s, e_target = t, e_kind = CallsRemote, e_confidence = Fin 1,
     e_status = Confirmed, e_evidence = []\<rparr>"

end
