(* ===== verification/Trace.thy ===== *)
theory Trace
  imports Model
begin

text \<open>
  \<open>crates/code-system-graph-core/src/trace.rs\<close>: the validated graph projection and the bounded
  breadth-first trace between two anchors. The loops of \<open>trace\<close> are \<open>visit_edges\<close> (the inner
  loop over the adjacent edges) and \<open>bfs_loop\<close> (the queue); \<open>reconstruct\<close> follows the parent
  links back, and is a partial function because nothing in its text bounds the chain.

  The properties: a reported path is a walk of the graph of least length, a path within the depth bound
  is always found, a report without a path and without the truncation flag means that no path of any
  length exists, and the parent chain is never inconsistent.
\<close>

record federated_graph =
  fg_nodes :: "(node_id, node) btree_map"
  fg_outgoing :: "(node_id, edge list) btree_map"

datatype trace_error =
    DanglingEdge edge_id node_id
  | UnknownAnchor node_id
  | InvalidDepth
  | InconsistentPath node_id

subsection \<open>Building the projection\<close>

definition collect_nodes :: "node list \<Rightarrow> (node_id, node) btree_map" where
  "collect_nodes nodes = fold (\<lambda>n. bt_insert (n_id n) n) nodes []"

definition require_endpoint ::
    "(node_id, node) btree_map \<Rightarrow> edge \<Rightarrow> node_id \<Rightarrow> (trace_error, unit) outcome" where
  "require_endpoint nodes e endpoint =
     (if bt_contains nodes endpoint then Inr () else Inl (DanglingEdge (e_id e) endpoint))"

fun collect_outgoing ::
    "(node_id, node) btree_map \<Rightarrow> edge list \<Rightarrow> (node_id, edge list) btree_map
      \<Rightarrow> (trace_error, (node_id, edge list) btree_map) outcome" where
  "collect_outgoing nodes [] outgoing = Inr outgoing"
| "collect_outgoing nodes (e # es) outgoing =
     and_then (check_all (require_endpoint nodes e) [e_source e, e_target e])
       (\<lambda>_. collect_outgoing nodes es (bt_push (e_source e) e outgoing))"

definition federated_graph_new :: "node list \<Rightarrow> edge list \<Rightarrow> (trace_error, federated_graph) outcome" where
  "federated_graph_new nodes edges =
     (let node_map = collect_nodes nodes in
      and_then (collect_outgoing node_map edges [])
        (\<lambda>outgoing. Inr \<lparr>fg_nodes = node_map, fg_outgoing = bt_map_values (sort_key e_id) outgoing\<rparr>))"

subsection \<open>Breadth-first search\<close>

text \<open>\<open>self.outgoing.get(&current).into_iter().flatten()\<close>.\<close>

definition outgoing_edges :: "federated_graph \<Rightarrow> node_id \<Rightarrow> edge list" where
  "outgoing_edges g v = bt_group (fg_outgoing g) v"

record trace_state =
  ts_queue :: "(node_id \<times> nat) list"
  ts_visited :: "node_id btree_set"
  ts_parents :: "(node_id, node_id \<times> edge) btree_map"
  ts_truncated :: bool
  ts_found :: bool

fun visit_edges :: "node_id \<Rightarrow> nat \<Rightarrow> node_id \<Rightarrow> edge list \<Rightarrow> trace_state \<Rightarrow> trace_state" where
  "visit_edges current depth goal [] st = st"
| "visit_edges current depth goal (e # es) st =
     (if e_target e \<in> set (ts_visited st) then visit_edges current depth goal es st
      else
        let st' = st\<lparr>ts_visited := bs_insert (e_target e) (ts_visited st),
                     ts_parents := bt_insert (e_target e) (current, e) (ts_parents st)\<rparr> in
        if e_target e = goal then st'\<lparr>ts_found := True\<rparr>
        else visit_edges current depth goal es
               (st'\<lparr>ts_queue := ts_queue st' @ [(e_target e, depth + 1)]\<rparr>))"

definition all_targets :: "federated_graph \<Rightarrow> node_id set" where
  "all_targets g = e_target ` set (concat (bt_values (fg_outgoing g)))"

definition search_measure :: "federated_graph \<Rightarrow> trace_state \<Rightarrow> nat" where
  "search_measure g st = 2 * card (all_targets g - set (ts_visited st)) + length (ts_queue st)"

lemma finite_all_targets [simp]: "finite (all_targets g)"
  by (simp add: all_targets_def)

lemma outgoing_targets:
  assumes "e \<in> set (outgoing_edges g v)"
  shows "e_target e \<in> all_targets g"
proof -
  obtain es where es: "bt_get (fg_outgoing g) v = Some es" and e: "e \<in> set es"
    using assms
    by (cases "bt_get (fg_outgoing g) v") (auto simp: outgoing_edges_def bt_group_def)
  have "es \<in> set (bt_values (fg_outgoing g))"
    using map_of_SomeD [OF es] by force
  then show ?thesis
    using e by (auto simp: all_targets_def)
qed

lemma visit_edges_measure:
  "(\<And>e. e \<in> set es \<Longrightarrow> e_target e \<in> all_targets g) \<Longrightarrow>
     search_measure g (visit_edges current depth goal es st) \<le> search_measure g st"
proof (induction es arbitrary: st)
  case (Cons e es)
  show ?case
  proof (cases "e_target e \<in> set (ts_visited st)")
    case True
    then show ?thesis using Cons by simp
  next
    case False
    let ?st = "st\<lparr>ts_visited := bs_insert (e_target e) (ts_visited st),
                  ts_parents := bt_insert (e_target e) (current, e) (ts_parents st)\<rparr>"
    let ?pushed = "?st\<lparr>ts_queue := ts_queue ?st @ [(e_target e, depth + 1)]\<rparr>"
    have less: "card (all_targets g - insert (e_target e) (set (ts_visited st)))
        < card (all_targets g - set (ts_visited st))"
      using Cons.prems [of e] False by (intro psubset_card_mono) auto
    have "search_measure g (visit_edges current depth goal es ?pushed) \<le> search_measure g ?pushed"
      using Cons by simp
    also have "\<dots> \<le> search_measure g st"
      using less unfolding search_measure_def by simp
    finally show ?thesis
      using False less by (auto simp: Let_def search_measure_def)
  qed
qed simp

function (sequential) bfs_loop ::
    "federated_graph \<Rightarrow> node_id \<Rightarrow> nat \<Rightarrow> trace_state \<Rightarrow> trace_state" where
  "bfs_loop g goal max_depth st =
     (case ts_queue st of
        [] \<Rightarrow> st
      | (current, depth) # rest \<Rightarrow>
          let popped = st\<lparr>ts_queue := rest\<rparr> in
          if max_depth \<le> depth then
            bfs_loop g goal max_depth
              (if outgoing_edges g current \<noteq> [] then popped\<lparr>ts_truncated := True\<rparr> else popped)
          else
            let st' = visit_edges current depth goal (outgoing_edges g current) popped in
            if ts_found st' then st' else bfs_loop g goal max_depth st')"
  by pat_completeness auto
termination
proof (relation "measure (\<lambda>(g, goal, max_depth, st). search_measure g st)", goal_cases)
  case (3 g goal max_depth st entry rest current depth popped st')
  have "search_measure g popped < search_measure g st"
    using 3 by (simp add: search_measure_def)
  moreover have "search_measure g st' \<le> search_measure g popped"
    using 3 by (auto intro!: visit_edges_measure outgoing_targets)
  ultimately show ?case by simp
qed (auto simp: search_measure_def)

declare bfs_loop.simps [simp del]

subsection \<open>Reconstruction and the entry point\<close>

partial_function (option) reconstruct_loop ::
    "federated_graph \<Rightarrow> node_id \<Rightarrow> (node_id, node_id \<times> edge) btree_map \<Rightarrow> node_id
      \<Rightarrow> trace_segment list \<Rightarrow> (trace_error, trace_segment list) outcome option" where
  "reconstruct_loop g from_id parents current segments =
     (if current = from_id then Some (Inr segments)
      else case bt_get parents current of
        None \<Rightarrow> Some (Inl (InconsistentPath current))
      | Some (parent, e) \<Rightarrow>
          (case bt_get (fg_nodes g) parent of
             None \<Rightarrow> Some (Inl (InconsistentPath parent))
           | Some source \<Rightarrow>
               (case bt_get (fg_nodes g) current of
                  None \<Rightarrow> Some (Inl (InconsistentPath current))
                | Some target \<Rightarrow>
                    reconstruct_loop g from_id parents parent
                      (segments @ [\<lparr>seg_source = source, seg_edge = e, seg_target = target\<rparr>]))))"

definition reconstruct ::
    "federated_graph \<Rightarrow> node_id \<Rightarrow> node_id \<Rightarrow> (node_id, node_id \<times> edge) btree_map \<Rightarrow> bool
      \<Rightarrow> (trace_error, trace_report) outcome option" where
  "reconstruct g from_id to_id parents truncated =
     map_option
       (\<lambda>r. and_then r (\<lambda>segments. Inr \<lparr>tr_segments = rev segments, tr_truncated = truncated,
                                         tr_coverage_gaps = []\<rparr>))
       (reconstruct_loop g from_id parents to_id [])"

definition no_path_gap :: string where
  "no_path_gap = ''No confirmed path was observed within available coverage and bounds.''"

definition initial_state :: "node_id \<Rightarrow> trace_state" where
  "initial_state from_id = \<lparr>ts_queue = [(from_id, 0)], ts_visited = [from_id], ts_parents = [],
     ts_truncated = False, ts_found = False\<rparr>"

definition trace ::
    "federated_graph \<Rightarrow> node_id \<Rightarrow> node_id \<Rightarrow> nat \<Rightarrow> (trace_error, trace_report) outcome option" where
  "trace g from_id to_id max_depth =
     (if max_depth = 0 then Some (Inl InvalidDepth)
      else if \<not> bt_contains (fg_nodes g) from_id then Some (Inl (UnknownAnchor from_id))
      else if \<not> bt_contains (fg_nodes g) to_id then Some (Inl (UnknownAnchor to_id))
      else if from_id = to_id then
        Some (Inr \<lparr>tr_segments = [], tr_truncated = False, tr_coverage_gaps = []\<rparr>)
      else
        let st = bfs_loop g to_id max_depth (initial_state from_id) in
        if \<not> ts_found st then
          Some (Inr \<lparr>tr_segments = [], tr_truncated = ts_truncated st,
                     tr_coverage_gaps = [no_path_gap]\<rparr>)
        else reconstruct g from_id to_id (ts_parents st) (ts_truncated st))"

subsection \<open>The projection\<close>

lemma require_endpoint_eq [simp]:
  "require_endpoint nodes e v = Inr u \<longleftrightarrow> bt_contains nodes v"
  "require_endpoint nodes e v = Inl err \<longleftrightarrow> \<not> bt_contains nodes v \<and> err = DanglingEdge (e_id e) v"
  by (auto simp: require_endpoint_def)

lemma collect_outgoing_Inr:
  "collect_outgoing nodes es outgoing = Inr out \<Longrightarrow>
     out = fold (\<lambda>e. bt_push (e_source e) e) es outgoing
     \<and> (\<forall>e \<in> set es. bt_contains nodes (e_source e) \<and> bt_contains nodes (e_target e))"
proof (induction es arbitrary: outgoing)
  case (Cons e es)
  then show ?case by (simp del: check_all.simps) auto
qed simp

lemma collect_outgoing_Inl:
  "collect_outgoing nodes es outgoing = Inl err \<Longrightarrow>
     \<exists>e \<in> set es. \<exists>v \<in> {e_source e, e_target e}. \<not> bt_contains nodes v \<and> err = DanglingEdge (e_id e) v"
proof (induction es arbitrary: outgoing)
  case (Cons e es)
  then consider "check_all (require_endpoint nodes e) [e_source e, e_target e] = Inl err"
    | "collect_outgoing nodes es (bt_push (e_source e) e outgoing) = Inl err"
    by (auto simp: and_then_eq_Inl simp del: check_all.simps)
  then show ?case
  proof cases
    case 1
    then show ?thesis by (auto dest!: check_all_eq_Inl simp del: check_all.simps)
  next
    case 2
    then show ?thesis using Cons.IH by auto
  qed
qed simp

lemma federated_graph_new_Inr:
  assumes "federated_graph_new nodes edges = Inr g"
  shows "fg_nodes g = collect_nodes nodes"
    and "outgoing_edges g v = sort_key e_id (filter (\<lambda>e. e_source e = v) edges)"
    and "e \<in> set edges \<Longrightarrow> bt_contains (fg_nodes g) (e_source e) \<and> bt_contains (fg_nodes g) (e_target e)"
  using assms
  by (auto simp: federated_graph_new_def Let_def outgoing_edges_def bt_simps
      dest!: collect_outgoing_Inr)

text \<open>What a search may assume of a validated projection: edges lead to known nodes.\<close>

definition closed_graph :: "federated_graph \<Rightarrow> bool" where
  "closed_graph g \<longleftrightarrow> (\<forall>v. \<forall>e \<in> set (outgoing_edges g v). bt_contains (fg_nodes g) (e_target e))"

lemma closed_graph_new: "federated_graph_new nodes edges = Inr g \<Longrightarrow> closed_graph g"
  using federated_graph_new_Inr(2,3) [of nodes edges g] by (simp add: closed_graph_def)

subsection \<open>The search invariant\<close>

text \<open>
  \<open>dep\<close> assigns every visited node the depth at which it was enqueued. The parent links go from a
  node to one a level up, the queue holds visited nodes in non-decreasing depth order, and no visited
  node lies more than one level below the node \<open>level\<close> being expanded. A visited node that has left
  the queue is closed: its successors were visited, unless it lies at the depth bound, where a
  successor sets the truncation flag.
\<close>

definition parents_ok :: "federated_graph \<Rightarrow> node_id \<Rightarrow> (node_id \<Rightarrow> nat) \<Rightarrow> trace_state \<Rightarrow> bool" where
  "parents_ok g from_id dep st \<longleftrightarrow>
     from_id \<in> set (ts_visited st) \<and> dep from_id = 0
     \<and> (\<forall>v \<in> set (ts_visited st). v \<noteq> from_id \<longrightarrow> bt_contains (ts_parents st) v)
     \<and> (\<forall>v u e. bt_get (ts_parents st) v = Some (u, e) \<longrightarrow>
          u \<in> set (ts_visited st) \<and> v \<in> set (ts_visited st)
          \<and> e \<in> set (outgoing_edges g u) \<and> e_target e = v \<and> dep v = Suc (dep u))"

definition levels_ok :: "nat \<Rightarrow> (node_id \<Rightarrow> nat) \<Rightarrow> trace_state \<Rightarrow> bool" where
  "levels_ok level dep st \<longleftrightarrow>
     (\<forall>v \<in> set (ts_visited st). dep v \<le> Suc level)
     \<and> (\<forall>(v, d) \<in> set (ts_queue st). v \<in> set (ts_visited st) \<and> d = dep v \<and> level \<le> d)
     \<and> sorted (map snd (ts_queue st))"

definition expanded :: "federated_graph \<Rightarrow> nat \<Rightarrow> (node_id \<Rightarrow> nat) \<Rightarrow> trace_state \<Rightarrow> node_id \<Rightarrow> bool" where
  "expanded g max_depth dep st v \<longleftrightarrow>
     (if dep v < max_depth
      then \<forall>e \<in> set (outgoing_edges g v). e_target e \<in> set (ts_visited st) \<and> dep (e_target e) \<le> Suc (dep v)
      else ts_truncated st \<or> outgoing_edges g v = [])"

definition closed_ok ::
    "federated_graph \<Rightarrow> nat \<Rightarrow> (node_id \<Rightarrow> nat) \<Rightarrow> node_id set \<Rightarrow> trace_state \<Rightarrow> bool" where
  "closed_ok g max_depth dep pending st \<longleftrightarrow>
     (\<forall>v \<in> set (ts_visited st). v \<notin> fst ` set (ts_queue st) \<longrightarrow> v \<notin> pending \<longrightarrow> expanded g max_depth dep st v)"

definition search_inv ::
    "federated_graph \<Rightarrow> node_id \<Rightarrow> node_id \<Rightarrow> nat \<Rightarrow> nat \<Rightarrow> (node_id \<Rightarrow> nat) \<Rightarrow> node_id set \<Rightarrow> trace_state \<Rightarrow> bool" where
  "search_inv g from_id goal max_depth level dep pending st \<longleftrightarrow>
     parents_ok g from_id dep st \<and> levels_ok level dep st \<and> closed_ok g max_depth dep pending st
     \<and> goal \<notin> set (ts_visited st) \<and> \<not> ts_found st"

lemmas search_inv_defs = search_inv_def parents_ok_def levels_ok_def closed_ok_def

text \<open>What a successful search leaves behind: a parent chain from the goal whose depth is the length
  of a shortest walk.\<close>

definition search_found ::
    "federated_graph \<Rightarrow> node_id \<Rightarrow> node_id \<Rightarrow> nat \<Rightarrow> (node_id \<Rightarrow> nat) \<Rightarrow> trace_state \<Rightarrow> bool" where
  "search_found g from_id goal max_depth dep st \<longleftrightarrow>
     parents_ok g from_id dep st \<and> goal \<in> set (ts_visited st) \<and> dep goal \<le> max_depth
     \<and> (\<forall>es. walk (outgoing_edges g) e_target from_id es goal \<longrightarrow> dep goal \<le> length es)"

lemma expanded_mono:
  assumes "expanded g max_depth dep st v" "v \<in> set (ts_visited st)"
    and "set (ts_visited st) \<subseteq> set (ts_visited st')"
    and "\<And>x. x \<in> set (ts_visited st) \<Longrightarrow> dep' x = dep x"
    and "ts_truncated st \<Longrightarrow> ts_truncated st'"
  shows "expanded g max_depth dep' st' v"
  using assms unfolding expanded_def by (auto split: if_splits)

text \<open>A walk shorter than the level being expanded ends in a visited node.\<close>

lemma short_walk_visited:
  assumes inv: "search_inv g from_id goal max_depth level dep {current} st"
    and level: "level < max_depth" "dep current = level"
    and walk: "walk (outgoing_edges g) e_target from_id es v" "length es \<le> level"
  shows "v \<in> set (ts_visited st)"
proof -
  let ?P = "\<lambda>i x. x \<in> set (ts_visited st) \<and> dep x \<le> i"
  have "?P (0 + length es) v"
    using walk(1)
  proof (rule walk_layers [where P = ?P])
    show "?P 0 from_id"
      using inv by (simp add: search_inv_defs)
    fix x e j
    assume P: "?P j x" and j: "j < 0 + length es" and e: "e \<in> set (outgoing_edges g x)"
    have less: "dep x < level" using P j walk(2) by simp
    then have "x \<notin> fst ` set (ts_queue st)" "x \<noteq> current"
      using inv level by (auto simp: search_inv_defs)
    then have "expanded g max_depth dep st x"
      using inv P by (simp add: search_inv_def closed_ok_def)
    then show "?P (Suc j) (e_target e)"
      using less level e P unfolding expanded_def by fastforce
  qed
  then show ?thesis by simp
qed

text \<open>One step of the inner loop: visiting a fresh target that is not the goal keeps the invariant.\<close>

lemma visit_target_inv:
  assumes inv: "search_inv g from_id goal max_depth level dep {current} st"
    and current: "current \<in> set (ts_visited st)" "dep current = level"
    and e: "e \<in> set (outgoing_edges g current)"
    and fresh: "e_target e \<notin> set (ts_visited st)" "e_target e \<noteq> goal"
  defines "st' \<equiv> st\<lparr>ts_visited := bs_insert (e_target e) (ts_visited st),
     ts_parents := bt_insert (e_target e) (current, e) (ts_parents st),
     ts_queue := ts_queue st @ [(e_target e, Suc level)]\<rparr>"
    and "dep' \<equiv> dep(e_target e := Suc level)"
  shows "search_inv g from_id goal max_depth level dep' {current} st'"
proof -
  have parents: "parents_ok g from_id dep' st'"
    using inv current e fresh unfolding search_inv_def parents_ok_def st'_def dep'_def
    by (auto simp: bt_contains_def split: if_splits) (metis bt_get_insert_other bt_get_insert_same)
  have levels: "levels_ok level dep' st'"
    using inv fresh unfolding search_inv_def levels_ok_def st'_def dep'_def
    by (fastforce simp: sorted_append)
  have "closed_ok g max_depth dep' {current} st'"
    unfolding closed_ok_def
  proof (intro ballI impI)
    fix v
    assume v: "v \<in> set (ts_visited st')" "v \<notin> fst ` set (ts_queue st')" "v \<notin> {current}"
    then have "expanded g max_depth dep st v" "v \<in> set (ts_visited st)"
      using inv by (auto simp: search_inv_def closed_ok_def st'_def)
    then show "expanded g max_depth dep' st' v"
      by (rule expanded_mono) (use fresh in \<open>auto simp: st'_def dep'_def\<close>)
  qed
  then show ?thesis
    using parents levels inv fresh by (auto simp: search_inv_def st'_def)
qed


lemma visit_goal_found:
  assumes inv: "search_inv g from_id goal max_depth level dep {current} st"
    and current: "current \<in> set (ts_visited st)" "dep current = level" "level < max_depth"
    and e: "e \<in> set (outgoing_edges g current)" "e_target e = goal"
  defines "st' \<equiv> st\<lparr>ts_visited := bs_insert goal (ts_visited st),
     ts_parents := bt_insert goal (current, e) (ts_parents st), ts_found := True\<rparr>"
  shows "search_found g from_id goal max_depth (dep(goal := Suc level)) st'"
proof -
  have fresh: "goal \<notin> set (ts_visited st)"
    using inv by (simp add: search_inv_def)
  have "parents_ok g from_id (dep(goal := Suc level)) st'"
    using inv current e fresh unfolding search_inv_def parents_ok_def st'_def
    by (auto simp: bt_contains_def split: if_splits) (metis bt_get_insert_other bt_get_insert_same)
  moreover have "Suc level \<le> length es" if "walk (outgoing_edges g) e_target from_id es goal" for es
    using short_walk_visited [OF inv current(3,2) that] fresh by (meson not_less_eq_eq)
  ultimately show ?thesis
    using current(3) by (auto simp: search_found_def st'_def)
qed

text \<open>The outcome of the inner loop over \<open>es\<close>, from the state \<open>st\<close> to the state \<open>st'\<close>.\<close>

definition visited_all ::
    "federated_graph \<Rightarrow> node_id \<Rightarrow> node_id \<Rightarrow> nat \<Rightarrow> nat \<Rightarrow> node_id \<Rightarrow> edge list
      \<Rightarrow> trace_state \<Rightarrow> trace_state \<Rightarrow> (node_id \<Rightarrow> nat) \<Rightarrow> bool" where
  "visited_all g from_id goal max_depth level current es st st' dep \<longleftrightarrow>
     dep current = level \<and> set (ts_visited st) \<subseteq> set (ts_visited st')
     \<and> (if ts_found st' then search_found g from_id goal max_depth dep st'
        else search_inv g from_id goal max_depth level dep {current} st'
          \<and> (\<forall>e \<in> set es. e_target e \<in> set (ts_visited st')))"

lemma visit_edges_result:
  assumes "search_inv g from_id goal max_depth level dep {current} st"
    and "current \<in> set (ts_visited st)" "dep current = level" "level < max_depth"
    and "set es \<subseteq> set (outgoing_edges g current)"
  shows "\<exists>dep'. visited_all g from_id goal max_depth level current es st
     (visit_edges current level goal es st) dep'"
  using assms
proof (induction es arbitrary: st dep)
  case Nil
  then show ?case by (auto simp: visited_all_def search_inv_def)
next
  case (Cons e es)
  have sub: "set es \<subseteq> set (outgoing_edges g current)" "e \<in> set (outgoing_edges g current)"
    using Cons.prems(5) by auto
  show ?case
  proof (cases "e_target e \<in> set (ts_visited st)")
    case True
    obtain dep' where "visited_all g from_id goal max_depth level current es st
        (visit_edges current level goal es st) dep'"
      using Cons.IH [OF Cons.prems(1-4) sub(1)] by blast
    then show ?thesis
      using True by (intro exI [of _ dep']) (auto simp: visited_all_def)
  next
    case fresh: False
    show ?thesis
    proof (cases "e_target e = goal")
      case True
      then show ?thesis
        using visit_goal_found [OF Cons.prems(1-4) sub(2)] fresh Cons.prems(2,3)
        by (intro exI [of _ "dep(goal := Suc level)"]) (auto simp: visited_all_def fun_upd_def)
    next
      case other: False
      let ?dep = "dep(e_target e := Suc level)"
      let ?st = "st\<lparr>ts_visited := bs_insert (e_target e) (ts_visited st),
         ts_parents := bt_insert (e_target e) (current, e) (ts_parents st),
         ts_queue := ts_queue st @ [(e_target e, Suc level)]\<rparr>"
      have inv: "search_inv g from_id goal max_depth level ?dep {current} ?st"
        using visit_target_inv [OF Cons.prems(1-3) sub(2) fresh other] .
      have cur: "current \<in> set (ts_visited ?st)" "?dep current = level"
        using Cons.prems(2,3) fresh by auto
      obtain dep' where "visited_all g from_id goal max_depth level current es ?st
          (visit_edges current level goal es ?st) dep'"
        using Cons.IH [OF inv cur Cons.prems(4) sub(1)] by blast
      then show ?thesis
        using fresh other by (intro exI [of _ dep']) (auto simp: visited_all_def Let_def)
    qed
  qed
qed

lemma pop_inv:
  assumes "search_inv g from_id goal max_depth level dep {} st"
    and "ts_queue st = (current, depth) # rest"
  shows "search_inv g from_id goal max_depth depth dep {current} (st\<lparr>ts_queue := rest\<rparr>)"
    and "current \<in> set (ts_visited st)" "dep current = depth"
proof -
  show "current \<in> set (ts_visited st)" "dep current = depth"
    using assms by (auto simp: search_inv_def levels_ok_def)
  have "levels_ok depth dep (st\<lparr>ts_queue := rest\<rparr>)"
    using assms by (fastforce simp: search_inv_def levels_ok_def)
  moreover have "closed_ok g max_depth dep {current} (st\<lparr>ts_queue := rest\<rparr>)"
    using assms by (auto simp: search_inv_def closed_ok_def expanded_def)
  ultimately show "search_inv g from_id goal max_depth depth dep {current} (st\<lparr>ts_queue := rest\<rparr>)"
    using assms by (auto simp: search_inv_def parents_ok_def)
qed

lemma close_current:
  assumes "search_inv g from_id goal max_depth level dep {current} st"
    and "current \<in> set (ts_visited st) \<Longrightarrow> expanded g max_depth dep st current"
  shows "search_inv g from_id goal max_depth level dep {} st"
  using assms by (auto simp: search_inv_def closed_ok_def)

lemma truncate_inv:
  assumes "search_inv g from_id goal max_depth level dep pending st"
  shows "search_inv g from_id goal max_depth level dep pending (st\<lparr>ts_truncated := True\<rparr>)"
  using assms
  by (auto simp: search_inv_def parents_ok_def levels_ok_def closed_ok_def expanded_def split: if_splits)

lemma bfs_loop_result:
  assumes "search_inv g from_id goal max_depth level dep {} st"
  shows "let r = bfs_loop g goal max_depth st in
     if ts_found r then \<exists>dep. search_found g from_id goal max_depth dep r
     else \<exists>level dep. search_inv g from_id goal max_depth level dep {} r \<and> ts_queue r = []"
  using assms
proof (induction g goal max_depth st arbitrary: level dep rule: bfs_loop.induct)
  case (1 g goal max_depth st)
  show ?case
  proof (cases "ts_queue st")
    case Nil
    have "\<not> ts_found st" using "1.prems" by (simp add: search_inv_def)
    then show ?thesis
      using Nil "1.prems" by (auto simp: bfs_loop.simps Let_def)
  next
    case (Cons entry rest)
    obtain current depth where entry: "entry = (current, depth)" by fastforce
    note queue = Cons [unfolded entry]
    let ?popped = "st\<lparr>ts_queue := rest\<rparr>"
    note pop = pop_inv [OF "1.prems" queue]
    show ?thesis
    proof (cases "max_depth \<le> depth")
      case True
      let ?st = "if outgoing_edges g current \<noteq> [] then ?popped\<lparr>ts_truncated := True\<rparr> else ?popped"
      have "search_inv g from_id goal max_depth depth dep {current} ?st"
        using pop(1) truncate_inv [OF pop(1)] by simp
      then have "search_inv g from_id goal max_depth depth dep {} ?st"
        by (rule close_current) (use True pop(3) in \<open>simp add: expanded_def\<close>)
      from "1.IH"(1) [OF queue refl refl True this]
      show ?thesis
        using queue True by (subst bfs_loop.simps) (simp add: Let_def)
    next
      case False
      let ?st = "visit_edges current depth goal (outgoing_edges g current) ?popped"
      obtain dep' where r: "dep' current = depth"
        "if ts_found ?st then search_found g from_id goal max_depth dep' ?st
         else search_inv g from_id goal max_depth depth dep' {current} ?st
           \<and> (\<forall>e \<in> set (outgoing_edges g current). e_target e \<in> set (ts_visited ?st))"
        using visit_edges_result [OF pop(1) _ pop(3) _ order_refl] pop(2) False
        by (auto simp: visited_all_def)
      show ?thesis
      proof (cases "ts_found ?st")
        case True
        then show ?thesis
          using r queue False by (subst bfs_loop.simps) (auto simp: Let_def)
      next
        case unfound: False
        then have inv: "search_inv g from_id goal max_depth depth dep' {current} ?st"
          and succ: "\<forall>e \<in> set (outgoing_edges g current). e_target e \<in> set (ts_visited ?st)"
          using r(2) by simp_all
        have "search_inv g from_id goal max_depth depth dep' {} ?st"
          by (rule close_current [OF inv])
            (use inv succ False r(1) in \<open>auto simp: expanded_def search_inv_def levels_ok_def\<close>)
        from "1.IH"(2) [OF queue refl refl False refl unfound this]
        show ?thesis
          using queue False unfound by (subst bfs_loop.simps) (simp add: Let_def)
      qed
    qed
  qed
qed

lemma initial_state_inv:
  "from_id \<noteq> goal \<Longrightarrow> search_inv g from_id goal max_depth 0 (\<lambda>_. 0) {} (initial_state from_id)"
  by (auto simp: search_inv_defs initial_state_def)

text \<open>An exhausted queue: every walk within the bound stays inside the visited nodes, and every walk at
  all if no expansion was cut off.\<close>

lemma exhausted_visited:
  assumes inv: "search_inv g from_id goal max_depth level dep {} st" and "ts_queue st = []"
    and walk: "walk (outgoing_edges g) e_target from_id es v"
    and bound: "length es \<le> max_depth \<or> \<not> ts_truncated st"
  shows "v \<in> set (ts_visited st)"
proof -
  have exp: "expanded g max_depth dep st x" if "x \<in> set (ts_visited st)" for x
    using inv that assms(2) by (simp add: search_inv_def closed_ok_def)
  let ?P = "\<lambda>i x. x \<in> set (ts_visited st) \<and> (\<not> ts_truncated st \<or> dep x \<le> i)"
  have "?P (0 + length es) v"
    using walk
  proof (rule walk_layers [where P = ?P])
    show "?P 0 from_id" using inv by (simp add: search_inv_defs)
    fix x e j
    assume P: "?P j x" and j: "j < 0 + length es" and e: "e \<in> set (outgoing_edges g x)"
    show "?P (Suc j) (e_target e)"
    proof (cases "dep x < max_depth")
      case True
      then show ?thesis
        using exp [of x] P e unfolding expanded_def by fastforce
    next
      case False
      then show ?thesis
        using exp [of x] P e j bound unfolding expanded_def by (cases "ts_truncated st") auto
    qed
  qed
  then show ?thesis by simp
qed


subsection \<open>Following the parent links\<close>

fun segments_path :: "federated_graph \<Rightarrow> node_id \<Rightarrow> trace_segment list \<Rightarrow> node_id \<Rightarrow> bool" where
  "segments_path g u [] v \<longleftrightarrow> u = v"
| "segments_path g u (s # ss) v \<longleftrightarrow>
     bt_get (fg_nodes g) u = Some (seg_source s) \<and> seg_edge s \<in> set (outgoing_edges g u)
     \<and> bt_get (fg_nodes g) (e_target (seg_edge s)) = Some (seg_target s)
     \<and> segments_path g (e_target (seg_edge s)) ss v"

lemma segments_path_append [simp]:
  "segments_path g u (ss @ ts) v \<longleftrightarrow> (\<exists>w. segments_path g u ss w \<and> segments_path g w ts v)"
  by (induction ss arbitrary: u) auto

lemma segments_path_walk:
  "segments_path g u ss v \<Longrightarrow> walk (outgoing_edges g) e_target u (map seg_edge ss) v"
  by (induction ss arbitrary: u) auto

lemma visited_known:
  assumes "closed_graph g" "bt_contains (fg_nodes g) from_id"
    and "parents_ok g from_id dep st" "v \<in> set (ts_visited st)"
  shows "bt_contains (fg_nodes g) v"
proof (cases "v = from_id")
  case False
  then obtain u e where "bt_get (ts_parents st) v = Some (u, e)"
    using assms(3,4) by (auto simp: parents_ok_def bt_contains_def)
  then have "e \<in> set (outgoing_edges g u)" "e_target e = v"
    using assms(3) by (auto simp: parents_ok_def)
  then show ?thesis using assms(1) by (auto simp: closed_graph_def)
qed (use assms in simp)

lemma reconstruct_loop_path:
  assumes "closed_graph g" "bt_contains (fg_nodes g) from_id" "parents_ok g from_id dep st"
    and "v \<in> set (ts_visited st)"
  shows "\<exists>segs. reconstruct_loop g from_id (ts_parents st) v acc = Some (Inr (acc @ rev segs))
     \<and> segments_path g from_id segs v \<and> length segs = dep v"
  using assms(4)
proof (induction "dep v" arbitrary: v acc rule: less_induct)
  case less
  show ?case
  proof (cases "v = from_id")
    case True
    then show ?thesis
      using assms(3) by (intro exI [of _ "[]"]) (simp add: reconstruct_loop.simps parents_ok_def)
  next
    case False
    then obtain u e where ue: "bt_get (ts_parents st) v = Some (u, e)"
      using less.prems assms(3) by (auto simp: parents_ok_def bt_contains_def)
    then have u: "u \<in> set (ts_visited st)" and e: "e \<in> set (outgoing_edges g u)" "e_target e = v"
      and dep: "dep v = Suc (dep u)"
      using assms(3) by (auto simp: parents_ok_def)
    obtain su sv where nodes: "bt_get (fg_nodes g) u = Some su" "bt_get (fg_nodes g) v = Some sv"
      using visited_known [OF assms(1-3) u] visited_known [OF assms(1-3) less.prems]
      by (auto simp: bt_contains_def)
    let ?seg = "\<lparr>seg_source = su, seg_edge = e, seg_target = sv\<rparr>"
    obtain segs where segs: "reconstruct_loop g from_id (ts_parents st) u (acc @ [?seg])
          = Some (Inr ((acc @ [?seg]) @ rev segs))"
      "segments_path g from_id segs u" "length segs = dep u"
      using less.hyps [of u "acc @ [?seg]"] u dep by auto
    have "reconstruct_loop g from_id (ts_parents st) v acc = Some (Inr (acc @ rev (segs @ [?seg])))"
      using segs(1) False ue nodes by (subst reconstruct_loop.simps) simp
    then show ?thesis
      using segs e nodes dep by (intro exI [of _ "segs @ [?seg]"]) auto
  qed
qed

text \<open>The report of a search between known, distinct anchors.\<close>

lemma trace_search:
  assumes "closed_graph g" "0 < max_depth" "bt_contains (fg_nodes g) from_id"
    and "bt_contains (fg_nodes g) to_id" "from_id \<noteq> to_id"
  obtains (found) segs truncated where
      "trace g from_id to_id max_depth =
         Some (Inr \<lparr>tr_segments = segs, tr_truncated = truncated, tr_coverage_gaps = []\<rparr>)"
      "segments_path g from_id segs to_id" "length segs \<le> max_depth"
      "\<And>es. walk (outgoing_edges g) e_target from_id es to_id \<Longrightarrow> length segs \<le> length es"
  | (missing) truncated where
      "trace g from_id to_id max_depth =
         Some (Inr \<lparr>tr_segments = [], tr_truncated = truncated, tr_coverage_gaps = [no_path_gap]\<rparr>)"
      "\<And>es. walk (outgoing_edges g) e_target from_id es to_id \<Longrightarrow> max_depth < length es \<and> truncated"
proof -
  let ?r = "bfs_loop g to_id max_depth (initial_state from_id)"
  note result = bfs_loop_result [OF initial_state_inv [OF assms(5), of g max_depth]]
  have run: "trace g from_id to_id max_depth =
      (if \<not> ts_found ?r
       then Some (Inr \<lparr>tr_segments = [], tr_truncated = ts_truncated ?r, tr_coverage_gaps = [no_path_gap]\<rparr>)
       else reconstruct g from_id to_id (ts_parents ?r) (ts_truncated ?r))"
    using assms by (simp add: trace_def Let_def)
  show thesis
  proof (cases "ts_found ?r")
    case True
    with result obtain dep where dep: "search_found g from_id to_id max_depth dep ?r"
      by (auto simp: Let_def)
    then obtain segs where "reconstruct_loop g from_id (ts_parents ?r) to_id [] = Some (Inr ([] @ rev segs))"
      and segs: "segments_path g from_id segs to_id" "length segs = dep to_id"
      using reconstruct_loop_path [OF assms(1,3), of dep ?r to_id "[]"] by (auto simp: search_found_def)
    then have "trace g from_id to_id max_depth =
        Some (Inr \<lparr>tr_segments = segs, tr_truncated = ts_truncated ?r, tr_coverage_gaps = []\<rparr>)"
      using True by (simp add: run reconstruct_def)
    then show thesis
      using found segs dep by (auto simp: search_found_def)
  next
    case False
    with result obtain level dep where inv: "search_inv g from_id to_id max_depth level dep {} ?r"
      and empty: "ts_queue ?r = []"
      by (auto simp: Let_def)
    have goal: "to_id \<notin> set (ts_visited ?r)" using inv by (simp add: search_inv_def)
    show thesis
    proof (rule missing)
      show "trace g from_id to_id max_depth =
         Some (Inr \<lparr>tr_segments = [], tr_truncated = ts_truncated ?r, tr_coverage_gaps = [no_path_gap]\<rparr>)"
        using False by (simp add: run)
      show "max_depth < length es \<and> ts_truncated ?r"
        if "walk (outgoing_edges g) e_target from_id es to_id" for es
        using exhausted_visited [OF inv empty that] goal by (meson not_le)
    qed
  qed
qed

subsection \<open>A sample graph\<close>

definition sample_graph :: federated_graph where
  "sample_graph = \<lparr>
     fg_nodes = [(''a'', sample_node ''a''), (''b'', sample_node ''b''), (''c'', sample_node ''c'')],
     fg_outgoing = [(''a'', [sample_edge ''1'' ''a'' ''b'']), (''b'', [sample_edge ''2'' ''b'' ''c''])]\<rparr>"

lemma sample_graph_new:
  "federated_graph_new [sample_node ''a'', sample_node ''b'', sample_node ''c'']
     [sample_edge ''2'' ''b'' ''c'', sample_edge ''1'' ''a'' ''b''] = Inr sample_graph"
  by code_simp

lemma sample_trace:
  "trace sample_graph ''a'' ''c'' 4 = Some (Inr
     \<lparr>tr_segments = [\<lparr>seg_source = sample_node ''a'', seg_edge = sample_edge ''1'' ''a'' ''b'', seg_target = sample_node ''b''\<rparr>,
                      \<lparr>seg_source = sample_node ''b'', seg_edge = sample_edge ''2'' ''b'' ''c'', seg_target = sample_node ''c''\<rparr>],
      tr_truncated = False, tr_coverage_gaps = []\<rparr>)"
  by (simp add: trace_def sample_graph_def bt_contains_def initial_state_def bfs_loop.simps
      outgoing_edges_def bt_group_def Let_def reconstruct_def reconstruct_loop.simps sample_edge_def)

subsection \<open>Properties\<close>

text \<open>A projection is built exactly when both endpoints of every edge are among the given nodes; a
  rejected input names an edge and one of its endpoints that is not a node.\<close>

lemma federated_graph_new_validates:
  "(case federated_graph_new nodes edges of
      Inr g \<Rightarrow> (\<forall>e \<in> set edges. e_source e \<in> n_id ` set nodes \<and> e_target e \<in> n_id ` set nodes)
        \<and> (\<forall>v. outgoing_edges g v = sort_key e_id (filter (\<lambda>e. e_source e = v) edges))
    | Inl err \<Rightarrow> \<exists>e \<in> set edges. \<exists>v \<in> {e_source e, e_target e}.
        v \<notin> n_id ` set nodes \<and> err = DanglingEdge (e_id e) v)"
proof -
  have keys: "set (bt_keys (fold (\<lambda>n. bt_insert (n_id n) n) ns m)) = n_id ` set ns \<union> set (bt_keys m)"
    for ns and m :: "(node_id, node) btree_map"
    by (induction ns arbitrary: m) (simp_all del: set_map)
  have known: "bt_contains (collect_nodes nodes) v \<longleftrightarrow> v \<in> n_id ` set nodes" for v
    by (simp add: bt_contains_iff collect_nodes_def keys del: set_map)
  show ?thesis
  proof (cases "federated_graph_new nodes edges")
    case (Inl err)
    then have "\<exists>e \<in> set edges. \<exists>v \<in> {e_source e, e_target e}.
        \<not> bt_contains (collect_nodes nodes) v \<and> err = DanglingEdge (e_id e) v"
      by (intro collect_outgoing_Inl) (simp add: federated_graph_new_def Let_def and_then_eq_Inl)
    then show ?thesis
      using Inl by (simp add: known)
  next
    case (Inr g)
    then show ?thesis
      using federated_graph_new_Inr [OF Inr] known by simp
  qed
qed


text \<open>C4: the path of a trace report leads from one anchor to the other along edges of the graph with
  their endpoints resolved, stays within the depth bound, and no walk between the anchors has fewer
  edges.\<close>

theorem trace_shortest:
  assumes "federated_graph_new nodes edges = Inr g"
    and "trace g from_id to_id max_depth = Some (Inr r)" and "tr_segments r \<noteq> []"
  shows "segments_path g from_id (tr_segments r) to_id \<and> length (tr_segments r) \<le> max_depth
     \<and> (\<forall>es. walk (outgoing_edges g) e_target from_id es to_id \<longrightarrow> length (tr_segments r) \<le> length es)"
proof -
  have "0 < max_depth" "bt_contains (fg_nodes g) from_id" "bt_contains (fg_nodes g) to_id" "from_id \<noteq> to_id"
    using assms(2,3) by (auto simp: trace_def split: if_splits)
  from closed_graph_new [OF assms(1)] this show ?thesis
    by (cases rule: trace_search) (use assms(2,3) in auto)
qed

theorem trace_shortest_witness:
  "(\<exists>r. trace sample_graph ''a'' ''c'' 4 = Some (Inr r) \<and> length (tr_segments r) = 2
     \<and> segments_path sample_graph ''a'' (tr_segments r) ''c''
     \<and> (\<forall>es. walk (outgoing_edges sample_graph) e_target ''a'' es ''c'' \<longrightarrow> 2 \<le> length es))"
  using trace_shortest [OF sample_graph_new sample_trace] sample_trace by (auto simp: numeral_2_eq_2)

text \<open>C5: between known distinct anchors a trace always returns a report; it has a path exactly when a
  walk within the depth bound exists, and a report without a path that is not marked truncated means
  that the target cannot be reached at all.\<close>

theorem trace_complete:
  assumes "federated_graph_new nodes edges = Inr g" and "0 < max_depth"
    and "bt_contains (fg_nodes g) from_id" "bt_contains (fg_nodes g) to_id" "from_id \<noteq> to_id"
  shows "\<exists>r. trace g from_id to_id max_depth = Some (Inr r)
     \<and> (tr_segments r \<noteq> [] \<longleftrightarrow>
          (\<exists>es. walk (outgoing_edges g) e_target from_id es to_id \<and> length es \<le> max_depth))
     \<and> (tr_segments r = [] \<and> \<not> tr_truncated r \<longrightarrow>
          \<not> (\<exists>es. walk (outgoing_edges g) e_target from_id es to_id))"
  using closed_graph_new [OF assms(1)] assms(2-5)
proof (cases rule: trace_search)
  case (found segs truncated)
  have "segs \<noteq> []" using found(2) assms(5) by auto
  moreover have "walk (outgoing_edges g) e_target from_id (map seg_edge segs) to_id"
    using found(2) by (rule segments_path_walk)
  ultimately show ?thesis
    using found(1,3) by (auto intro!: exI [of _ "map seg_edge segs"])
next
  case (missing truncated)
  then show ?thesis by force
qed

theorem trace_complete_witness:
  "\<exists>r. trace sample_graph ''c'' ''a'' 3 = Some (Inr r)
     \<and> (tr_segments r \<noteq> [] \<longleftrightarrow>
          (\<exists>es. walk (outgoing_edges sample_graph) e_target ''c'' es ''a'' \<and> length es \<le> 3))
     \<and> (tr_segments r = [] \<and> \<not> tr_truncated r \<longrightarrow>
          \<not> (\<exists>es. walk (outgoing_edges sample_graph) e_target ''c'' es ''a''))"
  by (rule trace_complete [OF sample_graph_new]) (simp_all add: sample_graph_def bt_contains_def)

text \<open>The errors of a trace over a validated graph are exactly the zero depth and the unknown
  anchors, in that order; the internal inconsistency is never reported.\<close>

lemma trace_errors:
  assumes "federated_graph_new nodes edges = Inr g"
  shows "trace g from_id to_id max_depth = Some (Inl err) \<longleftrightarrow>
     (if max_depth = 0 then err = InvalidDepth
      else if \<not> bt_contains (fg_nodes g) from_id then err = UnknownAnchor from_id
      else \<not> bt_contains (fg_nodes g) to_id \<and> err = UnknownAnchor to_id)"
proof (cases "max_depth = 0 \<or> \<not> bt_contains (fg_nodes g) from_id \<or> \<not> bt_contains (fg_nodes g) to_id \<or> from_id = to_id")
  case True
  then show ?thesis by (auto simp: trace_def)
next
  case False
  then have known: "0 < max_depth" "bt_contains (fg_nodes g) from_id" "bt_contains (fg_nodes g) to_id" "from_id \<noteq> to_id"
    by simp_all
  with closed_graph_new [OF assms] have "\<exists>r. trace g from_id to_id max_depth = Some (Inr r)"
    by (cases rule: trace_search) blast+
  then show ?thesis using known by auto
qed


end
