(* ===== verification/Incremental.thy ===== *)
theory Incremental
  imports Model
begin

text \<open>
  \<open>crates/code-system-graph-core/src/incremental.rs\<close>: the plan of artifacts to extract again or to
  delete. The hash maps of the source iterate in an unspecified order, which is the parameter
  \<open>iterate\<close> of the plan: it returns the entries of a map in some order. The properties state the plan
  exactly, show that the iteration order is not observable, and that an artifact the plan does not list
  is unchanged.
\<close>

type_synonym artifact_key = "repo_id \<times> checkout_id \<times> native_path \<times> string"

record incremental_plan =
  ip_changes :: "artifact_change list"

definition has_changes :: "incremental_plan \<Rightarrow> bool" where
  "has_changes plan \<longleftrightarrow> ip_changes plan \<noteq> []"

definition changed_count :: "incremental_plan \<Rightarrow> nat" where
  "changed_count plan = length (ip_changes plan)"

definition fingerprint_key :: "artifact_fingerprint \<Rightarrow> artifact_key" where
  "fingerprint_key f = (af_repo_id f, af_checkout_id f, af_path f, af_extractor f)"

definition fingerprint_map :: "artifact_fingerprint list \<Rightarrow> (artifact_key, artifact_fingerprint) btree_map" where
  "fingerprint_map fs = fold (\<lambda>f. bt_insert (fingerprint_key f) f) fs []"

definition change_kind ::
    "(artifact_key, artifact_fingerprint) btree_map \<Rightarrow> artifact_key \<times> artifact_fingerprint
      \<Rightarrow> (artifact_key \<times> artifact_change_kind) option" where
  "change_kind previous entry = (case entry of (key, after) \<Rightarrow>
     (case bt_get previous key of
        None \<Rightarrow> Some (key, Added)
      | Some old \<Rightarrow>
          if af_content_hash old \<noteq> af_content_hash after then Some (key, Modified) else None))"

fun artifact_change_of :: "artifact_key \<times> artifact_change_kind \<Rightarrow> artifact_change" where
  "artifact_change_of ((r, c, p, x), kind) =
     \<lparr>ac_repo_id = r, ac_checkout_id = c, ac_path = p, ac_extractor = x, ac_kind = kind\<rparr>"

definition change_key :: "artifact_change \<Rightarrow> artifact_key" where
  "change_key c = (ac_repo_id c, ac_checkout_id c, ac_path c, ac_extractor c)"

definition plan_incremental_scan ::
    "((artifact_key, artifact_fingerprint) btree_map \<Rightarrow> (artifact_key, artifact_fingerprint) btree_map)
      \<Rightarrow> artifact_fingerprint list \<Rightarrow> artifact_fingerprint list \<Rightarrow> incremental_plan" where
  "plan_incremental_scan iterate previous current =
     (let old = fingerprint_map previous; after = fingerprint_map current;
          added_or_modified = List.map_filter (change_kind old) (iterate after);
          deleted = map (\<lambda>key. (key, Deleted)) (filter (\<lambda>key. \<not> bt_contains after key) (map fst (iterate old)))
      in \<lparr>ip_changes = sort_key change_key (map artifact_change_of (added_or_modified @ deleted))\<rparr>)"

subsection \<open>Lemmas\<close>

text \<open>The contract of hash map iteration: every entry, once, in some order.\<close>

definition iterates :: "(('k \<times> 'v) list \<Rightarrow> ('k \<times> 'v) list) \<Rightarrow> bool" where
  "iterates iterate \<longleftrightarrow> (\<forall>m. mset (iterate m) = mset m)"

lemma iterates_set: "iterates iterate \<Longrightarrow> set (iterate m) = set m"
  by (metis iterates_def set_mset_mset)

lemma bt_wf_fold_insert: "bt_wf m \<Longrightarrow> bt_wf (fold (\<lambda>f. bt_insert (key f) (val f)) fs m)"
  by (induction fs arbitrary: m) simp_all

lemma bt_wf_fingerprint_map [simp]: "bt_wf (fingerprint_map fs)"
  by (simp add: fingerprint_map_def bt_wf_fold_insert)

lemma change_key_of [simp]: "change_key (artifact_change_of kc) = fst kc"
  by (cases kc rule: artifact_change_of.cases) (simp add: change_key_def)

lemma ac_kind_of [simp]: "ac_kind (artifact_change_of kc) = snd kc"
  by (cases kc rule: artifact_change_of.cases) simp

lemma artifact_change_of_surj: "c = artifact_change_of (change_key c, ac_kind c)"
  by (simp add: change_key_def)

text \<open>The content hash the map records for a key.\<close>

definition recorded_hash :: "(artifact_key, artifact_fingerprint) btree_map \<Rightarrow> artifact_key \<Rightarrow> string option" where
  "recorded_hash m k = map_option af_content_hash (bt_get m k)"

definition expected_kind :: "string option \<Rightarrow> string option \<Rightarrow> artifact_change_kind option" where
  "expected_kind old after = (case (old, after) of
     (None, Some _) \<Rightarrow> Some Added
   | (Some _, None) \<Rightarrow> Some Deleted
   | (Some h, Some h') \<Rightarrow> if h \<noteq> h' then Some Modified else None
   | (None, None) \<Rightarrow> None)"

lemma set_map_filter: "y \<in> set (List.map_filter g xs) \<longleftrightarrow> (\<exists>x \<in> set xs. g x = Some y)"
  by (induction xs) (auto simp: map_filter_simps split: option.splits)

lemma distinct_map_filter_keys:
  assumes "\<And>x y. g x = Some y \<Longrightarrow> fst y = fst x" "distinct (map fst xs)"
  shows "distinct (map fst (List.map_filter g xs))"
  using assms(2)
proof (induction xs)
  case (Cons x xs)
  have "fst y \<in> fst ` set xs" if "y \<in> set (List.map_filter g xs)" for y
    using that assms(1) by (metis set_map_filter image_eqI)
  then show ?case
    using Cons assms(1) [of x] by (auto simp: map_filter_simps split: option.split)
qed (simp add: map_filter_simps)

lemma change_kind_key: "change_kind old entry = Some kc \<Longrightarrow> fst kc = fst entry"
  by (cases entry) (auto simp: change_kind_def split: option.splits if_splits)

lemma added_or_modified_mem:
  assumes "iterates iterate" "bt_wf after"
  shows "(k, kind) \<in> set (List.map_filter (change_kind old) (iterate after)) \<longleftrightarrow>
     (\<exists>f. bt_get after k = Some f \<and> change_kind old (k, f) = Some (k, kind))"
proof -
  have "(k, kind) \<in> set (List.map_filter (change_kind old) (iterate after)) \<longleftrightarrow>
      (\<exists>x \<in> set after. change_kind old x = Some (k, kind))"
    by (simp add: set_map_filter iterates_set [OF assms(1)])
  also have "\<dots> \<longleftrightarrow> (\<exists>f. (k, f) \<in> set after \<and> change_kind old (k, f) = Some (k, kind))"
    using change_kind_key by fastforce
  finally show ?thesis
    by (simp only: bt_get_iff_mem [OF assms(2)])
qed

lemma deleted_mem:
  assumes "iterates iterate"
  shows "(k, kind) \<in> set (map (\<lambda>key. (key, Deleted)) (filter (\<lambda>key. \<not> bt_contains after key) (map fst (iterate old))))
     \<longleftrightarrow> kind = Deleted \<and> bt_contains old k \<and> \<not> bt_contains after k"
  using iterates_set [OF assms] by (auto simp: bt_contains_iff)

text \<open>The entries of the plan before sorting.\<close>

definition planned ::
    "((artifact_key, artifact_fingerprint) btree_map \<Rightarrow> (artifact_key, artifact_fingerprint) btree_map)
      \<Rightarrow> artifact_fingerprint list \<Rightarrow> artifact_fingerprint list \<Rightarrow> (artifact_key \<times> artifact_change_kind) list" where
  "planned iterate previous current =
     List.map_filter (change_kind (fingerprint_map previous)) (iterate (fingerprint_map current))
     @ map (\<lambda>key. (key, Deleted))
         (filter (\<lambda>key. \<not> bt_contains (fingerprint_map current) key) (map fst (iterate (fingerprint_map previous))))"

lemma plan_eq_planned:
  "ip_changes (plan_incremental_scan iterate previous current) =
     sort_key change_key (map artifact_change_of (planned iterate previous current))"
  by (simp add: plan_incremental_scan_def planned_def Let_def)

lemma planned_mem:
  assumes "iterates iterate"
  shows "(k, kind) \<in> set (planned iterate previous current) \<longleftrightarrow>
     expected_kind (recorded_hash (fingerprint_map previous) k) (recorded_hash (fingerprint_map current) k) = Some kind"
  unfolding planned_def set_append Un_iff added_or_modified_mem [OF assms bt_wf_fingerprint_map]
    deleted_mem [OF assms]
  by (auto simp: expected_kind_def recorded_hash_def bt_contains_def change_kind_def
      split: option.splits if_splits)

lemma planned_distinct:
  assumes "iterates iterate"
  shows "distinct (map fst (planned iterate previous current))"
proof -
  let ?b = "fingerprint_map previous" and ?a = "fingerprint_map current"
  have distinct_keys: "distinct (map fst (iterate m))" if "bt_wf m" for m
    using assms bt_wf_distinct [OF that] by (metis iterates_def mset_map mset_eq_imp_distinct_iff)
  have "distinct (map fst (List.map_filter (change_kind ?b) (iterate ?a)))"
    using distinct_keys [of ?a] by (intro distinct_map_filter_keys) (simp_all add: change_kind_key)
  moreover have "distinct (filter (\<lambda>key. \<not> bt_contains ?a key) (map fst (iterate ?b)))"
    using distinct_keys [of ?b] by simp
  moreover have "fst ` set (List.map_filter (change_kind ?b) (iterate ?a)) \<subseteq> Collect (bt_contains ?a)"
    using added_or_modified_mem [OF assms bt_wf_fingerprint_map] by (auto simp: bt_contains_def)
  ultimately show ?thesis
    by (auto simp: planned_def o_def)
qed

lemma inj_artifact_change_of: "inj artifact_change_of"
  by (rule injI) (metis change_key_of ac_kind_of prod.expand)

lemma distinct_change_keys:
  assumes "iterates iterate"
  shows "distinct (map change_key (ip_changes (plan_incremental_scan iterate previous current)))"
proof -
  have "mset (map change_key (ip_changes (plan_incremental_scan iterate previous current)))
      = mset (map fst (planned iterate previous current))"
    by (simp add: plan_eq_planned mset_map [symmetric] o_def del: mset_map) (simp add: image_mset.compositionality o_def)
  then show ?thesis
    using planned_distinct [OF assms] by (metis mset_eq_imp_distinct_iff)
qed

lemma strictly_ordered:
  assumes "iterates iterate"
  shows "sorted_wrt (<) (map change_key (ip_changes (plan_incremental_scan iterate previous current)))"
  using distinct_change_keys [OF assms, of previous current]
  by (simp add: strict_sorted_iff plan_eq_planned)

lemma plan_mem:
  assumes "iterates iterate"
  shows "c \<in> set (ip_changes (plan_incremental_scan iterate previous current)) \<longleftrightarrow>
     expected_kind (recorded_hash (fingerprint_map previous) (change_key c))
       (recorded_hash (fingerprint_map current) (change_key c)) = Some (ac_kind c)"
proof -
  have "c \<in> set (ip_changes (plan_incremental_scan iterate previous current)) \<longleftrightarrow>
      (change_key c, ac_kind c) \<in> set (planned iterate previous current)"
  proof -
    have "c \<in> artifact_change_of ` set (planned iterate previous current) \<longleftrightarrow>
        (change_key c, ac_kind c) \<in> set (planned iterate previous current)"
      by (subst artifact_change_of_surj) (simp only: inj_image_mem_iff [OF inj_artifact_change_of])
    then show ?thesis by (simp add: plan_eq_planned)
  qed
  then show ?thesis by (simp add: planned_mem [OF assms])
qed

definition sample_fingerprint :: "string \<Rightarrow> string \<Rightarrow> artifact_fingerprint" where
  "sample_fingerprint path hash = \<lparr>af_repo_id = ''repo'', af_checkout_id = ''checkout'',
     af_path = NativePath Utf8 path path, af_extractor = ''openapi'', af_content_hash = hash, af_size_bytes = 1\<rparr>"

lemma iterates_rev: "iterates rev"
  by (simp add: iterates_def)

lemma iterates_id: "iterates (\<lambda>m. m)"
  by (simp add: iterates_def)

subsection \<open>Properties\<close>

text \<open>C22: the plan lists an artifact exactly when its recorded content differs between the two scans,
  with the kind of the difference: added, deleted, or modified when the content hash changed; and it
  lists every artifact at most once, in increasing order of repository, checkout, path and extractor.\<close>

theorem plan_exact:
  assumes "iterates iterate"
  shows "(\<forall>c. c \<in> set (ip_changes (plan_incremental_scan iterate previous current)) \<longleftrightarrow>
       expected_kind (recorded_hash (fingerprint_map previous) (change_key c))
         (recorded_hash (fingerprint_map current) (change_key c)) = Some (ac_kind c))
     \<and> sorted_wrt (<) (map change_key (ip_changes (plan_incremental_scan iterate previous current)))"
  using plan_mem [OF assms] strictly_ordered [OF assms] by blast

theorem plan_exact_witness:
  "\<lparr>ac_repo_id = ''repo'', ac_checkout_id = ''checkout'', ac_path = NativePath Utf8 ''m'' ''m'',
     ac_extractor = ''openapi'', ac_kind = Modified\<rparr>
   \<in> set (ip_changes (plan_incremental_scan rev
        [sample_fingerprint ''d'' ''1'', sample_fingerprint ''m'' ''1''] [sample_fingerprint ''m'' ''2'']))"
  using plan_exact [OF iterates_rev]
  by (simp add: expected_kind_def recorded_hash_def fingerprint_map_def fingerprint_key_def
      sample_fingerprint_def change_key_def less_native_path_def)

text \<open>The plan does not depend on the order in which the hash maps are iterated.\<close>

lemma plan_iteration_independent:
  assumes "iterates iterate" "iterates iterate'"
  shows "plan_incremental_scan iterate previous current = plan_incremental_scan iterate' previous current"
proof -
  let ?p = "ip_changes (plan_incremental_scan iterate previous current)"
    and ?q = "ip_changes (plan_incremental_scan iterate' previous current)"
  have same: "set ?p = set ?q"
    using plan_mem [OF assms(1)] plan_mem [OF assms(2)] by blast
  have "sorted (map change_key ?p)" "distinct (map change_key ?p)"
    "sorted (map change_key ?q)" "distinct (map change_key ?q)"
    using strictly_ordered assms by (simp_all add: strict_sorted_iff)
  moreover have "inj_on change_key (set ?p \<union> set ?q)"
    using calculation(2) same by (simp add: distinct_map)
  ultimately have "?p = ?q"
    using same by (intro map_sorted_distinct_set_unique) auto
  then show ?thesis by simp
qed


text \<open>A plan without changes means that both scans recorded the same content for every artifact,
  and an artifact the plan does not list is unchanged.\<close>

lemma unlisted_unchanged:
  assumes "iterates iterate"
  shows "(\<not> has_changes (plan_incremental_scan iterate previous current) \<longleftrightarrow>
       recorded_hash (fingerprint_map previous) = recorded_hash (fingerprint_map current))
     \<and> (k \<notin> change_key ` set (ip_changes (plan_incremental_scan iterate previous current)) \<longleftrightarrow>
       recorded_hash (fingerprint_map previous) k = recorded_hash (fingerprint_map current) k)"
proof -
  let ?p = "ip_changes (plan_incremental_scan iterate previous current)"
  have none: "expected_kind a b = None \<longleftrightarrow> a = b" for a b
    by (auto simp: expected_kind_def split: option.splits)
  have "k \<in> change_key ` set ?p \<longleftrightarrow>
      expected_kind (recorded_hash (fingerprint_map previous) k) (recorded_hash (fingerprint_map current) k) \<noteq> None" for k
  proof
    assume "expected_kind (recorded_hash (fingerprint_map previous) k) (recorded_hash (fingerprint_map current) k) \<noteq> None"
    then obtain kind where "expected_kind (recorded_hash (fingerprint_map previous) k)
        (recorded_hash (fingerprint_map current) k) = Some kind" by blast
    then have "artifact_change_of (k, kind) \<in> set ?p"
      by (simp add: plan_mem [OF assms])
    then show "k \<in> change_key ` set ?p" by (metis change_key_of fst_conv image_eqI)
  qed (auto simp: plan_mem [OF assms])
  then have "k \<notin> change_key ` set ?p \<longleftrightarrow>
      recorded_hash (fingerprint_map previous) k = recorded_hash (fingerprint_map current) k" for k
    using none by blast
  moreover have "?p = [] \<longleftrightarrow> (\<forall>k. k \<notin> change_key ` set ?p)" by (metis all_not_in_conv image_is_empty set_empty)
  ultimately show ?thesis by (simp add: has_changes_def fun_eq_iff)
qed


end
