(* ===== verification/Text_Ops.thy ===== *)
theory Text_Ops
  imports Prelude
begin

text \<open>
  The string operations of the Rust standard library that the modelled crates use, on the UTF-8 bytes
  of a string: \<open>split\<close>, \<open>split_once\<close>, \<open>strip_prefix\<close> and \<open>strip_suffix\<close>, \<open>trim\<close>,
  ASCII case mapping, \<open>join\<close>, and the parsing and printing of decimal numbers. The lemmas
  characterise the splits: the pieces put together give the input back, and \<open>split_once\<close> cuts at
  the first occurrence.
\<close>

definition starts_with :: "string \<Rightarrow> string \<Rightarrow> bool" where
  "starts_with pre s \<longleftrightarrow> take (length pre) s = pre"

definition ends_with :: "string \<Rightarrow> string \<Rightarrow> bool" where
  "ends_with suf s \<longleftrightarrow> starts_with (rev suf) (rev s)"

definition strip_prefix :: "string \<Rightarrow> string \<Rightarrow> string option" where
  "strip_prefix pre s = (if starts_with pre s then Some (drop (length pre) s) else None)"

definition strip_suffix :: "string \<Rightarrow> string \<Rightarrow> string option" where
  "strip_suffix suf s = (if ends_with suf s then Some (take (length s - length suf) s) else None)"

definition contains_char :: "char list \<Rightarrow> string \<Rightarrow> bool" where
  "contains_char cs s \<longleftrightarrow> list_ex (\<lambda>c. c \<in> set cs) s"

text \<open>\<open>split(|c| ...)\<close>: always at least one piece.\<close>

fun split_on :: "(char \<Rightarrow> bool) \<Rightarrow> string \<Rightarrow> string list" where
  "split_on P [] = [[]]"
| "split_on P (c # s) =
     (if P c then [] # split_on P s
      else case split_on P s of [] \<Rightarrow> [[c]] | piece # rest \<Rightarrow> (c # piece) # rest)"

text \<open>\<open>split_once(pattern)\<close>: the text before and after the first occurrence.\<close>

fun split_once :: "string \<Rightarrow> string \<Rightarrow> (string \<times> string) option" where
  "split_once pat [] = (if pat = [] then Some ([], []) else None)"
| "split_once pat (c # s) =
     (if starts_with pat (c # s) then Some ([], drop (length pat) (c # s))
      else map_option (\<lambda>(front, back). (c # front, back)) (split_once pat s))"

text \<open>\<open>rsplit_once(c)\<close>: the text before and after the last occurrence of a character.\<close>

definition rsplit_once :: "char \<Rightarrow> string \<Rightarrow> (string \<times> string) option" where
  "rsplit_once c s = map_option (\<lambda>(back, front). (rev front, rev back)) (split_once [c] (rev s))"

definition contains_str :: "string \<Rightarrow> string \<Rightarrow> bool" where
  "contains_str pat s \<longleftrightarrow> split_once pat s \<noteq> None"

definition to_ascii_lowercase :: "string \<Rightarrow> string" where
  "to_ascii_lowercase s = map (\<lambda>c. if CHR ''A'' \<le> c \<and> c \<le> CHR ''Z''
     then char_of (of_char c + (32 :: nat)) else c) s"

definition to_ascii_uppercase :: "string \<Rightarrow> string" where
  "to_ascii_uppercase s = map (\<lambda>c. if CHR ''a'' \<le> c \<and> c \<le> CHR ''z''
     then char_of (of_char c - (32 :: nat)) else c) s"

fun join :: "string \<Rightarrow> string list \<Rightarrow> string" where
  "join sep [] = []"
| "join sep [x] = x"
| "join sep (x # y # xs) = x @ sep @ join sep (y # xs)"

text \<open>\<open>trim\<close> removes the encodings of the Unicode white space characters from both ends.\<close>

definition white_space :: "string list" where
  "white_space =
     [[CHR 0x09], [CHR 0x0A], [CHR 0x0B], [CHR 0x0C], [CHR 0x0D], [CHR 0x20],
      [CHR 0xC2, CHR 0x85], [CHR 0xC2, CHR 0xA0], [CHR 0xE1, CHR 0x9A, CHR 0x80]]
     @ map (\<lambda>c. [CHR 0xE2, CHR 0x80, c])
        [CHR 0x80, CHR 0x81, CHR 0x82, CHR 0x83, CHR 0x84, CHR 0x85, CHR 0x86, CHR 0x87, CHR 0x88,
         CHR 0x89, CHR 0x8A, CHR 0xA8, CHR 0xA9, CHR 0xAF]
     @ [[CHR 0xE2, CHR 0x81, CHR 0x9F], [CHR 0xE3, CHR 0x80, CHR 0x80]]"

function strip_all :: "string list \<Rightarrow> string \<Rightarrow> string" where
  "strip_all pats s =
     (case find (\<lambda>p. p \<noteq> [] \<and> starts_with p s) pats of
        None \<Rightarrow> s | Some p \<Rightarrow> strip_all pats (drop (length p) s))"
  by pat_completeness auto
termination
proof (relation "measure (\<lambda>(pats, s). length s)", goal_cases)
  case (2 pats s p)
  then have "p \<noteq> []" "take (length p) s = p"
    by (auto simp: find_Some_iff starts_with_def)
  then have "length p \<le> length s" "0 < length p"
    by (metis length_take min.bounded_iff order_refl, simp)
  then have "length s - length p < length s" by linarith
  then show ?case by simp
qed simp

declare strip_all.simps [simp del]

definition trim_start :: "string \<Rightarrow> string" where
  "trim_start s = strip_all white_space s"

definition trim_end :: "string \<Rightarrow> string" where
  "trim_end s = rev (strip_all (map rev white_space) (rev s))"

definition trim :: "string \<Rightarrow> string" where
  "trim s = trim_end (trim_start s)"

definition trim_end_matches :: "char \<Rightarrow> string \<Rightarrow> string" where
  "trim_end_matches c s = rev (dropWhile (\<lambda>x. x = c) (rev s))"

text \<open>\<open>parse::<u16>()\<close> and \<open>parse::<u32>()\<close>: an optional plus sign and at least one digit, within the range.\<close>

definition digit_value :: "char \<Rightarrow> nat option" where
  "digit_value c = (if CHR ''0'' \<le> c \<and> c \<le> CHR ''9'' then Some (of_char c - of_char CHR ''0'') else None)"

fun parse_digits :: "nat \<Rightarrow> string \<Rightarrow> nat option" where
  "parse_digits acc [] = Some acc"
| "parse_digits acc (c # s) =
     (case digit_value c of None \<Rightarrow> None | Some d \<Rightarrow> parse_digits (10 * acc + d) s)"

definition parse_uint :: "nat \<Rightarrow> string \<Rightarrow> nat option" where
  "parse_uint maximum s =
     (let digits = (case s of c # rest \<Rightarrow> if c = CHR ''+'' then rest else s | [] \<Rightarrow> s) in
      if digits = [] then None
      else case parse_digits 0 digits of
        None \<Rightarrow> None | Some n \<Rightarrow> if n \<le> maximum then Some n else None)"

definition parse_u16 :: "string \<Rightarrow> nat option" where
  "parse_u16 s = parse_uint 65535 s"

definition parse_u32 :: "string \<Rightarrow> nat option" where
  "parse_u32 s = parse_uint 4294967295 s"

text \<open>The decimal form of a natural number (\<open>Display\<close>).\<close>

fun show_nat :: "nat \<Rightarrow> string" where
  "show_nat n = (if n < 10 then [char_of (48 + n)] else show_nat (n div 10) @ [char_of (48 + n mod 10)])"

declare show_nat.simps [simp del]

text \<open>The number of bytes of the character that a lead byte starts.\<close>

definition utf8_len :: "char \<Rightarrow> nat" where
  "utf8_len c = (if of_char c < (128::nat) then 1 else if of_char c < (224::nat) then 2
     else if of_char c < (240::nat) then 3 else 4)"

text \<open>The characters of a string (\<open>chars()\<close>), each as its bytes.\<close>

function utf8_chars :: "string \<Rightarrow> string list" where
  "utf8_chars s = (if s = [] then [] else take (utf8_len (hd s)) s # utf8_chars (drop (utf8_len (hd s)) s))"
  by pat_completeness auto
termination
  by (relation "measure length") (auto simp: utf8_len_def)

declare utf8_chars.simps [simp del]

text \<open>The decimal form of a signed integer.\<close>

definition show_int :: "int \<Rightarrow> string" where
  "show_int i = (if i < 0 then ''-'' @ show_nat (nat (- i)) else show_nat (nat i))"

subsection \<open>Lemmas\<close>

lemma starts_with_iff [str_simps]: "starts_with pre s \<longleftrightarrow> (\<exists>r. s = pre @ r)"
  unfolding starts_with_def by (metis append_eq_conv_conj append_take_drop_id)

lemma ends_with_iff [str_simps]: "ends_with suf s \<longleftrightarrow> (\<exists>r. s = r @ suf)"
  unfolding ends_with_def starts_with_iff by (metis rev_append rev_rev_ident)

lemma strip_prefix_eq_Some [str_simps]: "strip_prefix pre s = Some r \<longleftrightarrow> s = pre @ r"
  by (auto simp: strip_prefix_def starts_with_iff)

lemma strip_suffix_eq_Some [str_simps]: "strip_suffix suf s = Some r \<longleftrightarrow> s = r @ suf"
  by (auto simp: strip_suffix_def ends_with_iff)

lemma strip_prefix_eq_None [str_simps]: "strip_prefix pre s = None \<longleftrightarrow> \<not> starts_with pre s"
  by (simp add: strip_prefix_def)

lemma strip_suffix_eq_None [str_simps]: "strip_suffix suf s = None \<longleftrightarrow> \<not> ends_with suf s"
  by (simp add: strip_suffix_def)

lemma split_on_nonempty [simp]: "split_on P s \<noteq> []"
  by (induction s) (auto split: list.split)

lemma split_on_no_sep: "piece \<in> set (split_on P s) \<Longrightarrow> c \<in> set piece \<Longrightarrow> \<not> P c"
  by (induction s arbitrary: piece) (fastforce split: if_splits list.splits)+

lemma split_on_id: "(\<And>c. c \<in> set s \<Longrightarrow> \<not> P c) \<Longrightarrow> split_on P s = [s]"
  by (induction s) auto

lemma split_on_infix: "piece \<in> set (split_on P s) \<Longrightarrow> \<exists>a b. s = a @ piece @ b"
proof (induction s arbitrary: piece)
  case (Cons c s)
  obtain p ps where sp: "split_on P s = p # ps" using split_on_nonempty neq_Nil_conv by metis
  have first: "\<exists>b. s = p @ b"
    using sp by (induction s arbitrary: p ps) (auto split: if_splits list.splits)
  consider "piece = []" | "piece = c # p" | "piece \<in> set (split_on P s)"
    using Cons.prems sp by (auto split: if_splits)
  then show ?case
  proof cases
    case 3
    then obtain a b where "s = a @ piece @ b" using Cons.IH by blast
    then have "c # s = (c # a) @ piece @ b" by simp
    then show ?thesis by blast
  qed (use first in auto)
qed simp

lemma split_on_append_sep:
  "(\<And>c. c \<in> set a \<Longrightarrow> \<not> P c) \<Longrightarrow> P sep \<Longrightarrow> split_on P (a @ sep # s) = a # split_on P s"
  by (induction a) auto

lemma split_once_Some: "split_once pat s = Some (a, b) \<Longrightarrow> s = a @ pat @ b"
proof (induction s arbitrary: a b)
  case (Cons c s)
  show ?case
  proof (cases "starts_with pat (c # s)")
    case True
    then show ?thesis using Cons.prems by (auto simp: starts_with_iff)
  next
    case False
    then show ?thesis using Cons by auto
  qed
qed (auto split: if_splits)

text \<open>The cut is at the first occurrence: any other occurrence has a longer text before it.\<close>

lemma split_once_first:
  "s = a' @ pat @ b' \<Longrightarrow> \<exists>a b. split_once pat s = Some (a, b) \<and> length a \<le> length a'"
proof (induction s arbitrary: a')
  case (Cons c s)
  show ?case
  proof (cases "starts_with pat (c # s)")
    case True
    then show ?thesis by simp
  next
    case False
    then obtain a'' where a': "a' = c # a''" "s = a'' @ pat @ b'"
      using Cons.prems by (cases a') (auto simp: starts_with_iff)
    then show ?thesis using Cons.IH [of a''] False by fastforce
  qed
qed simp

lemma split_once_None: "split_once pat s = None \<longleftrightarrow> \<not> (\<exists>a b. s = a @ pat @ b)"
  using split_once_first split_once_Some by (metis option.exhaust option.simps(3) surj_pair)

lemma contains_str_iff [str_simps]: "contains_str pat s \<longleftrightarrow> (\<exists>a b. s = a @ pat @ b)"
  by (simp add: contains_str_def split_once_None)

lemma contains_char_iff [str_simps]: "contains_char cs s \<longleftrightarrow> (\<exists>c \<in> set s. c \<in> set cs)"
  by (auto simp: contains_char_def list_ex_iff)

lemma split_once_char_Some:
  "split_once [c] s = Some (a, b) \<longleftrightarrow> s = a @ c # b \<and> c \<notin> set a"
proof
  assume eq: "split_once [c] s = Some (a, b)"
  then have s: "s = a @ c # b" using split_once_Some by fastforce
  moreover have "c \<notin> set a"
  proof
    assume "c \<in> set a"
    then obtain a1 a2 where a: "a = a1 @ c # a2" by (meson split_list)
    then have "\<exists>a' b'. split_once [c] s = Some (a', b') \<and> length a' \<le> length a1"
      using s by (intro split_once_first) simp
    then show False using eq a by auto
  qed
  ultimately show "s = a @ c # b \<and> c \<notin> set a" by blast
next
  assume "s = a @ c # b \<and> c \<notin> set a"
  then show "split_once [c] s = Some (a, b)"
    by (induction a arbitrary: s) (auto simp: starts_with_def)
qed

lemma rsplit_once_Some:
  "rsplit_once c s = Some (a, b) \<longleftrightarrow> s = a @ c # b \<and> c \<notin> set b"
proof -
  have "rsplit_once c s = Some (a, b) \<longleftrightarrow> split_once [c] (rev s) = Some (rev b, rev a)"
    by (auto simp: rsplit_once_def)
  then show ?thesis
    by (auto simp: split_once_char_Some rev_eq_append_conv)
qed

lemma length_to_ascii_lowercase [simp]: "length (to_ascii_lowercase s) = length s"
  by (simp add: to_ascii_lowercase_def)

lemma to_ascii_lowercase_idem [simp]:
  "to_ascii_lowercase (to_ascii_lowercase s) = to_ascii_lowercase s"
proof -
  have "\<not> (CHR ''A'' \<le> (char_of (of_char c + (32::nat)) :: char) \<and> (char_of (of_char c + (32::nat)) :: char) \<le> CHR ''Z'')"
    if "CHR ''A'' \<le> c \<and> c \<le> CHR ''Z''" for c :: char
    using that by (auto simp: less_eq_char_def)
  then show ?thesis
    by (auto simp: to_ascii_lowercase_def)
qed

subsection \<open>Decimal numbers\<close>

lemma parse_digits_append:
  "parse_digits acc (a @ b) = (case parse_digits acc a of None \<Rightarrow> None | Some n \<Rightarrow> parse_digits n b)"
  by (induction a arbitrary: acc) (auto split: option.splits)

lemma digit_value_digit: "d < 10 \<Longrightarrow> digit_value (char_of (48 + d)) = Some d"
  by (auto simp: digit_value_def less_eq_char_def)

lemma parse_show: "parse_digits 0 (show_nat n) = Some n"
proof (induction n rule: show_nat.induct)
  case (1 n)
  show ?case
  proof (cases "n < 10")
    case True
    then show ?thesis by (simp add: show_nat.simps [of n] digit_value_digit)
  next
    case False
    then show ?thesis
      using 1 digit_value_digit [of "n mod 10"] by (simp add: show_nat.simps [of n] parse_digits_append)
  qed
qed

lemma show_nat_digits: "c \<in> set (show_nat n) \<Longrightarrow> CHR ''0'' \<le> c \<and> c \<le> CHR ''9''"
proof (induction n rule: show_nat.induct)
  case (1 n)
  have "CHR ''0'' \<le> (char_of (48 + d) :: char) \<and> (char_of (48 + d) :: char) \<le> CHR ''9''" if "d < 10" for d :: nat
    using that by (auto simp: less_eq_char_def)
  then show ?case using 1 by (auto simp: show_nat.simps [of n] split: if_splits)
qed

lemma show_nat_nonempty [simp]: "show_nat n \<noteq> []"
  by (simp add: show_nat.simps [of n])

lemma parse_uint_show: "n \<le> m \<Longrightarrow> parse_uint m (show_nat n) = Some n"
proof -
  assume "n \<le> m"
  obtain c s where cs: "show_nat n = c # s" using show_nat_nonempty neq_Nil_conv by metis
  then have "c \<noteq> CHR ''+''" using show_nat_digits [of c n] by (auto simp: less_eq_char_def)
  then show ?thesis using cs \<open>n \<le> m\<close> parse_show [of n] by (simp add: parse_uint_def)
qed

lemma show_nat_no_colon: "CHR '':'' \<notin> set (show_nat n)"
  using show_nat_digits by (fastforce simp: less_eq_char_def)

subsection \<open>Trimming\<close>

lemma find_ex: "x \<in> set xs \<Longrightarrow> P x \<Longrightarrow> find P xs \<noteq> None"
  by (auto simp: find_None_iff)

lemma strip_all_done: "\<not> (\<exists>p \<in> set pats. p \<noteq> [] \<and> starts_with p (strip_all pats s))"
proof (induction pats s rule: strip_all.induct)
  case (1 pats s)
  then show ?case by (auto simp: strip_all.simps [of pats s] find_None_iff split: option.splits)
qed

lemma strip_all_id: "\<not> (\<exists>p \<in> set pats. p \<noteq> [] \<and> starts_with p s) \<Longrightarrow> strip_all pats s = s"
proof -
  assume "\<not> (\<exists>p \<in> set pats. p \<noteq> [] \<and> starts_with p s)"
  then have "find (\<lambda>p. p \<noteq> [] \<and> starts_with p s) pats = None" by (auto simp: find_None_iff)
  then show ?thesis by (simp add: strip_all.simps [of pats s])
qed

lemma strip_all_suffix: "\<exists>d. s = d @ strip_all pats s"
proof (induction pats s rule: strip_all.induct)
  case (1 pats s)
  show ?case
  proof (cases "find (\<lambda>p. p \<noteq> [] \<and> starts_with p s) pats")
    case None
    then show ?thesis by (simp add: strip_all.simps [of pats s])
  next
    case (Some p)
    then have "starts_with p s" by (auto simp: find_Some_iff)
    then obtain r where r: "s = p @ r" by (auto simp: starts_with_iff)
    moreover have "strip_all pats s = strip_all pats r" using Some r by (subst strip_all.simps) simp
    ultimately show ?thesis using 1 [OF Some] by (metis append.assoc append_eq_conv_conj)
  qed
qed

text \<open>No white space at either end.\<close>

definition trimmed :: "string \<Rightarrow> bool" where
  "trimmed s \<longleftrightarrow> \<not> (\<exists>p \<in> set white_space. starts_with p s \<or> ends_with p s)"

lemma white_space_nonempty: "p \<in> set white_space \<Longrightarrow> p \<noteq> []"
  by (auto simp: white_space_def)

lemma trimmed_trim: "trimmed (trim s)"
proof -
  have "\<not> starts_with p (trim_start s)" if "p \<in> set white_space" for p
    using strip_all_done [of white_space s] white_space_nonempty [OF that] that by (auto simp: trim_start_def)
  moreover obtain d where "trim_start s = trim s @ d"
    using strip_all_suffix [of "rev (trim_start s)" "map rev white_space"]
    unfolding trim_def trim_end_def by (metis rev_append rev_rev_ident)
  ultimately have "\<not> starts_with p (trim s)" if "p \<in> set white_space" for p
    using that by (metis append.assoc starts_with_iff)
  moreover have "\<not> ends_with p (trim s)" if "p \<in> set white_space" for p
    using strip_all_done [of "map rev white_space" "rev (trim_start s)"] white_space_nonempty [OF that] that
    by (auto simp: ends_with_def trim_def trim_end_def)
  ultimately show ?thesis by (auto simp: trimmed_def)
qed

lemma trim_id: "trimmed s \<Longrightarrow> trim s = s"
proof -
  assume t: "trimmed s"
  then have "trim_start s = s"
    unfolding trim_start_def by (intro strip_all_id) (auto simp: trimmed_def)
  moreover have "strip_all (map rev white_space) (rev s) = rev s"
    using t by (intro strip_all_id) (auto simp: trimmed_def ends_with_def)
  ultimately show ?thesis by (simp add: trim_def trim_end_def)
qed

definition lower :: "char \<Rightarrow> char" where
  "lower c = (if CHR ''A'' \<le> c \<and> c \<le> CHR ''Z'' then char_of (of_char c + (32 :: nat)) else c)"

lemma to_ascii_lowercase_lower: "to_ascii_lowercase = map lower"
  by (simp add: fun_eq_iff to_ascii_lowercase_def lower_def [abs_def])

lemma lower_keeps:
  assumes "\<not> (CHR ''A'' \<le> c \<and> c \<le> CHR ''Z'')" and "\<not> (CHR ''a'' \<le> c \<and> c \<le> CHR ''z'')"
  shows "lower x = c \<longleftrightarrow> x = c"
  using assms by (auto simp: lower_def less_eq_char_def)

lemma white_space_letters:
  "p \<in> set white_space \<Longrightarrow> c \<in> set p \<Longrightarrow>
     \<not> (CHR ''A'' \<le> c \<and> c \<le> CHR ''Z'') \<and> \<not> (CHR ''a'' \<le> c \<and> c \<le> CHR ''z'')"
  by (auto simp: white_space_def less_eq_char_def)

lemma starts_with_lower:
  assumes "\<And>c x. c \<in> set p \<Longrightarrow> lower x = c \<longleftrightarrow> x = c"
  shows "starts_with p (map lower s) \<longleftrightarrow> starts_with p s"
  using assms
proof (induction p arbitrary: s)
  case (Cons c p)
  then show ?case by (cases s) (auto simp: starts_with_def)
qed (simp add: starts_with_def)

lemma trimmed_lower: "trimmed (to_ascii_lowercase s) \<longleftrightarrow> trimmed s"
proof -
  have "starts_with p (map lower s) \<longleftrightarrow> starts_with p s" "ends_with p (map lower s) \<longleftrightarrow> ends_with p s"
    if "p \<in> set white_space" for p
  proof -
    have keep: "lower x = c \<longleftrightarrow> x = c" if "c \<in> set p" for c x
      using white_space_letters [OF \<open>p \<in> set white_space\<close> that] lower_keeps by blast
    then show "starts_with p (map lower s) \<longleftrightarrow> starts_with p s" by (rule starts_with_lower)
    have "starts_with (rev p) (map lower (rev s)) \<longleftrightarrow> starts_with (rev p) (rev s)"
      using keep by (intro starts_with_lower) simp
    then show "ends_with p (map lower s) \<longleftrightarrow> ends_with p s" by (simp add: ends_with_def rev_map)
  qed
  then show ?thesis by (simp add: trimmed_def to_ascii_lowercase_lower)
qed

lemma trim_lowercase_trim [simp]: "trim (to_ascii_lowercase (trim s)) = to_ascii_lowercase (trim s)"
  by (simp add: trim_id trimmed_lower trimmed_trim)

end
