(* ===== verification/Route_Shapes.thy ===== *)
theory Route_Shapes
  imports Model Text_Ops
begin

text \<open>
  The first half of \<open>crates/code-system-graph-core/src/routes.rs\<close>, with \<open>normalize_http_path\<close>
  of \<open>http.rs\<close>: normal forms of HTTP paths, framework-independent route shapes, matching of a
  concrete segment against a segment template with several parameters, and normal forms of authorities.

  The properties: a normalized path has a leading slash, no empty segment and no trailing slash; the
  canonical form of a shape parses back to the shape (as long as no literal ends in a dollar sign, with
  the exception shown by an example); and the greedy matcher of mixed segments accepts a value exactly
  when some non-empty parameter values produce it.
\<close>

subsection \<open>Path normalization\<close>

fun collapse_slashes :: "bool \<Rightarrow> string \<Rightarrow> string" where
  "collapse_slashes previous_slash [] = []"
| "collapse_slashes previous_slash (c # s) =
     (if c = CHR ''/'' then (if previous_slash then [] else [c]) @ collapse_slashes True s
      else c # collapse_slashes False s)"

fun pop_slashes :: "string \<Rightarrow> string" where
  "pop_slashes s =
     (if 1 < length s \<and> ends_with ''/'' s then pop_slashes (butlast s) else s)"

declare pop_slashes.simps [simp del]

definition normalize_http_path :: "string \<Rightarrow> string" where
  "normalize_http_path path =
     (let trimmed = trim path in
      if trimmed = [] \<or> trimmed = ''/'' then ''/''
      else pop_slashes ((if starts_with ''/'' trimmed then [] else ''/'') @ collapse_slashes False trimmed))"

subsection \<open>Route shapes\<close>

datatype route_segment = Static string | Param | Mixed "string list" | CatchAll

type_synonym route_shape = "route_segment list"

function mixed_literals_loop :: "string \<Rightarrow> string list \<Rightarrow> string list option" where
  "mixed_literals_loop remaining literals =
     (case split_once ''{'' remaining of
        None \<Rightarrow>
          if literals = [] \<or> contains_char ''}'' remaining then None
          else Some (literals @ [remaining])
      | Some (front, parameter) \<Rightarrow>
          (case split_once ''}'' parameter of
             None \<Rightarrow> None
           | Some (name, suffix) \<Rightarrow>
               if contains_char ''{'' name \<or> contains_char ''}'' front then None
               else mixed_literals_loop suffix
                 (literals @ [case strip_suffix ''$'' front of Some p \<Rightarrow> p | None \<Rightarrow> front])))"
  by pat_completeness auto
termination
  by (relation "measure (\<lambda>(remaining, literals). length remaining)")
    (auto dest!: split_once_Some)

declare mixed_literals_loop.simps [simp del]

definition mixed_segment_literals :: "string \<Rightarrow> string list option" where
  "mixed_segment_literals segment = mixed_literals_loop segment []"

definition braced_inner :: "string \<Rightarrow> string option" where
  "braced_inner segment =
     (case strip_prefix ''{'' segment of
        None \<Rightarrow> None
      | Some rest \<Rightarrow>
          (case strip_suffix ''}'' rest of
             None \<Rightarrow> None
           | Some inner \<Rightarrow> if contains_char ''{}'' inner then None else Some inner))"

definition angle_inner :: "string \<Rightarrow> string option" where
  "angle_inner segment =
     (case strip_prefix ''<'' segment of None \<Rightarrow> None | Some rest \<Rightarrow> strip_suffix ''>'' rest)"

definition colon_name :: "string \<Rightarrow> string option" where
  "colon_name segment =
     (case strip_prefix '':'' segment of
        None \<Rightarrow> None | Some name \<Rightarrow> if name = [] then None else Some name)"

definition classify_segment :: "string \<Rightarrow> route_segment" where
  "classify_segment segment =
     (if segment = ''*'' \<or> segment = ''**'' then CatchAll
      else case braced_inner segment of
        Some inner \<Rightarrow>
          if starts_with ''*'' inner \<or> ends_with ''...'' inner \<or> ends_with '':path'' inner
             \<or> ends_with '':.*'' inner \<or> ends_with '':.+'' inner
          then CatchAll else Param
      | None \<Rightarrow>
          if (starts_with ''[...'' segment \<and> ends_with '']'' segment)
             \<or> (starts_with ''[[...'' segment \<and> ends_with '']]'' segment) then CatchAll
          else if 2 < length segment \<and> starts_with ''['' segment \<and> ends_with '']'' segment then Param
          else case angle_inner segment of
            Some inner \<Rightarrow> if starts_with ''path:'' inner then CatchAll else Param
          | None \<Rightarrow>
              (case colon_name segment of
                 Some name \<Rightarrow> if ends_with ''*'' name \<or> ends_with ''+'' name then CatchAll else Param
               | None \<Rightarrow>
                   if 1 < length segment \<and> starts_with ''*'' segment then CatchAll
                   else case mixed_segment_literals segment of
                     Some literals \<Rightarrow>
                       if length literals = 2 \<and> list_all (\<lambda>l. l = []) literals then Param
                       else Mixed literals
                   | None \<Rightarrow> Static segment))"

fun classify_until_catch_all :: "string list \<Rightarrow> route_shape" where
  "classify_until_catch_all [] = []"
| "classify_until_catch_all (s # ss) =
     (let classified = classify_segment s in
      if classified = CatchAll then [classified] else classified # classify_until_catch_all ss)"

definition path_segments :: "string \<Rightarrow> string list" where
  "path_segments path =
     filter (\<lambda>s. s \<noteq> []) (split_on (\<lambda>c. c = CHR ''/'')
       (hd (split_on (\<lambda>c. c \<in> set ''?#'') path)))"

definition route_shape_parse :: "string \<Rightarrow> route_shape" where
  "route_shape_parse path = classify_until_catch_all (path_segments path)"

fun is_static :: "route_segment \<Rightarrow> bool" where
  "is_static (Static v) = True"
| "is_static _ = False"

definition is_concrete :: "route_shape \<Rightarrow> bool" where
  "is_concrete shape = list_all is_static shape"

fun render_segment :: "route_segment \<Rightarrow> string" where
  "render_segment (Static value) = value"
| "render_segment Param = ''{}''"
| "render_segment (Mixed literals) = join ''{}'' literals"
| "render_segment CatchAll = ''{*}''"

definition canonical :: "route_shape \<Rightarrow> string" where
  "canonical shape =
     (if shape = [] then ''/'' else concat (map (\<lambda>s. ''/'' @ render_segment s) shape))"

definition canonical_route :: "string \<Rightarrow> string" where
  "canonical_route path = canonical (route_shape_parse path)"

subsection \<open>Matching a mixed segment\<close>

fun match_middle :: "string list \<Rightarrow> string \<Rightarrow> bool" where
  "match_middle [] remaining = (remaining \<noteq> [])"
| "match_middle (literal # literals) remaining =
     (case remaining of
        [] \<Rightarrow> False
      | first # _ \<Rightarrow>
          (case split_once literal (drop (utf8_len first) remaining) of
             None \<Rightarrow> False
           | Some (_, rest) \<Rightarrow> match_middle literals rest))"

definition mixed_segment_matches :: "string list \<Rightarrow> string \<Rightarrow> bool" where
  "mixed_segment_matches literals value =
     (case literals of
        prefix # mid # others \<Rightarrow>
          (case strip_prefix prefix value of
             None \<Rightarrow> False
           | Some remaining \<Rightarrow>
               (case strip_suffix (last (mid # others)) remaining of
                  None \<Rightarrow> False
                | Some remaining \<Rightarrow> match_middle (butlast (mid # others)) remaining))
      | _ \<Rightarrow> False)"

subsection \<open>Authorities\<close>

definition split_port :: "string \<Rightarrow> string \<times> string option" where
  "split_port authority =
     (case strip_prefix ''['' authority of
        Some rest \<Rightarrow>
          (case split_once '']'' rest of
             Some (host, tail) \<Rightarrow> (host, strip_prefix '':'' tail)
           | None \<Rightarrow> (authority, None))
      | None \<Rightarrow>
          (case rsplit_once (CHR '':'') authority of
             Some (host, port) \<Rightarrow>
               if \<not> contains_char '':'' host then (host, Some port) else (authority, None)
           | None \<Rightarrow> (authority, None)))"

definition authority_host :: "string \<Rightarrow> string" where
  "authority_host authority = fst (split_port authority)"

definition normalize_authority :: "string \<Rightarrow> string option" where
  "normalize_authority value =
     (let value = trim value in
      if value = [] \<or> contains_char [CHR ''/'', CHR ''?'', CHR ''#'', CHR '' '', CHR 0x09] value
         \<or> contains_str ''://'' value then None
      else
        let host_and_port = (case rsplit_once (CHR ''@'') value of None \<Rightarrow> value | Some (_, host) \<Rightarrow> host);
            (host, port) = split_port host_and_port;
            host = to_ascii_lowercase (trim_end_matches (CHR ''.'') host) in
        if host = [] \<or> (case port of None \<Rightarrow> False | Some p \<Rightarrow> parse_u16 p = None) then None
        else Some (case port of
            Some p \<Rightarrow> if contains_char '':'' host then ''['' @ host @ '']:'' @ p else host @ '':'' @ p
          | None \<Rightarrow> host))"

definition url_authority :: "string \<Rightarrow> string option" where
  "url_authority url =
     (case (case strip_prefix ''http://'' url of Some r \<Rightarrow> Some r | None \<Rightarrow> strip_prefix ''https://'' url) of
        None \<Rightarrow> None
      | Some rest \<Rightarrow> normalize_authority (hd (split_on (\<lambda>c. c \<in> set ''/?#'') rest)))"

definition is_loopback :: "string \<Rightarrow> bool" where
  "is_loopback host \<longleftrightarrow>
     host \<in> set [''localhost'', ''::1'', ''0.0.0.0'', ''host.docker.internal'']
     \<or> ends_with ''.localhost'' host \<or> starts_with ''127.'' host"

definition service_host :: "string \<Rightarrow> string" where
  "service_host host =
     (case (case strip_suffix ''.svc.cluster.local'' host of
              Some name \<Rightarrow> Some name | None \<Rightarrow> strip_suffix ''.svc'' host) of
        None \<Rightarrow> host
      | Some name \<Rightarrow> hd (split_on (\<lambda>c. c = CHR ''.'') name))"


subsection \<open>Normalized paths\<close>

lemma contains_str_Cons:
  "contains_str pat (c # s) \<longleftrightarrow> starts_with pat (c # s) \<or> contains_str pat s"
  by (auto simp: contains_str_def)

lemma collapse_no_double: "\<not> contains_str ''//'' (collapse_slashes b s)"
  and collapse_after_slash: "\<not> starts_with ''/'' (collapse_slashes True s)"
proof -
  have head: "starts_with ''/'' (collapse_slashes True s) = False" for s
    by (induction s) (auto simp: starts_with_def)
  show "\<not> starts_with ''/'' (collapse_slashes True s)" using head by simp
  have tail: "\<not> starts_with ''//'' (CHR ''/'' # collapse_slashes True s)" for s
    using head [of s] by (auto simp: starts_with_def take_Suc split: list.splits)
  show "\<not> contains_str ''//'' (collapse_slashes b s)"
    using tail
    by (induction s arbitrary: b)
      (auto simp: contains_str_Cons, auto simp: contains_str_def starts_with_def)
qed

lemma collapse_head: "\<not> starts_with ''/'' s \<Longrightarrow> \<not> starts_with ''/'' (collapse_slashes b s)"
  by (cases s) (auto simp: starts_with_def)

lemma contains_str_butlast: "contains_str pat (butlast s) \<Longrightarrow> contains_str pat s"
  unfolding contains_str_iff
  by (cases s rule: rev_cases) (auto, metis append.assoc)

lemma starts_with_butlast: "starts_with ''/'' s \<Longrightarrow> 1 < length s \<Longrightarrow> starts_with ''/'' (butlast s)"
  by (cases s) (auto simp: starts_with_def)

lemma pop_slashes_props:
  shows "\<not> contains_str ''//'' s \<Longrightarrow> \<not> contains_str ''//'' (pop_slashes s)"
    and "starts_with ''/'' s \<Longrightarrow> starts_with ''/'' (pop_slashes s)"
    and "length (pop_slashes s) \<le> 1 \<or> \<not> ends_with ''/'' (pop_slashes s)"
proof (induction s rule: pop_slashes.induct)
  case (1 s)
  show "\<not> contains_str ''//'' s \<Longrightarrow> \<not> contains_str ''//'' (pop_slashes s)"
    using 1(1) contains_str_butlast [of "''//''" s] by (auto simp: pop_slashes.simps [of s])
  show "starts_with ''/'' s \<Longrightarrow> starts_with ''/'' (pop_slashes s)"
    using 1(2) starts_with_butlast [of s] by (auto simp: pop_slashes.simps [of s])
  show "length (pop_slashes s) \<le> 1 \<or> \<not> ends_with ''/'' (pop_slashes s)"
    using 1(3) by (auto simp: pop_slashes.simps [of s])
qed

lemma starts_with_slash_short: "starts_with ''/'' s \<Longrightarrow> length s \<le> 1 \<Longrightarrow> s = ''/''"
  by (cases s) (auto simp: starts_with_def)

subsection \<open>Mixed segments\<close>

text \<open>
  Text in UTF-8: every character is a lead byte followed by the continuation bytes it announces. Every Rust string
  is text in this sense.
\<close>

definition continuation_byte :: "char \<Rightarrow> bool" where
  "continuation_byte c \<longleftrightarrow> 128 \<le> (of_char c :: nat) \<and> (of_char c :: nat) < 192"

function utf8_text :: "string \<Rightarrow> bool" where
  "utf8_text [] \<longleftrightarrow> True"
| "utf8_text (c # s) \<longleftrightarrow> \<not> continuation_byte c \<and> utf8_len c \<le> Suc (length s)
     \<and> list_all continuation_byte (take (utf8_len c - 1) s) \<and> utf8_text (drop (utf8_len c - 1) s)"
  by pat_completeness auto
termination
  by (relation "measure length") simp_all

lemma utf8_len_positive [simp]: "0 < utf8_len c"
  by (simp add: utf8_len_def)

lemma utf8_text_hd: "utf8_text s \<Longrightarrow> s = [] \<or> \<not> continuation_byte (hd s)"
  by (cases s) simp_all

text \<open>Text can be cut where a character starts, and what follows text within text is text.\<close>

lemma utf8_text_cut:
  "utf8_text (a @ b) \<Longrightarrow> b = [] \<or> \<not> continuation_byte (hd b) \<Longrightarrow> utf8_text a \<and> utf8_text b"
proof (induction a rule: utf8_text.induct)
  case (2 c s)
  let ?n = "utf8_len c - 1"
  have lead: "\<not> continuation_byte c" "utf8_len c \<le> Suc (length (s @ b))"
      "list_all continuation_byte (take ?n (s @ b))" "utf8_text (drop ?n (s @ b))"
    using "2.prems"(1) by simp_all
  have "?n \<le> length s"
  proof (rule ccontr)
    assume "\<not> ?n \<le> length s"
    then obtain k where k: "?n - length s = Suc k" by (cases "?n - length s") simp_all
    then obtain d b' where b: "b = d # b'" using lead(2) by (cases b) auto
    then have "continuation_byte d" using lead(3) k by simp
    then show False using "2.prems"(2) b by simp
  qed
  then show ?case using lead "2.IH" "2.prems"(2) by simp
qed simp

lemma utf8_text_after: "utf8_text a \<Longrightarrow> utf8_text (a @ b) \<Longrightarrow> utf8_text b"
proof (induction a rule: utf8_text.induct)
  case (2 c s)
  then have "utf8_len c \<le> Suc (length s)" by simp
  then have "utf8_len c - 1 \<le> length s" by linarith
  then have "drop (utf8_len c - 1) (s @ b) = drop (utf8_len c - 1) s @ b" by simp
  with 2 show ?case by simp
qed simp

lemma utf8_text_append: "utf8_text a \<Longrightarrow> utf8_text b \<Longrightarrow> utf8_text (a @ b)"
proof (induction a rule: utf8_text.induct)
  case (2 c s)
  then have "utf8_len c \<le> Suc (length s)" by simp
  then have "utf8_len c - 1 \<le> length s" by linarith
  then show ?case using 2 by simp
qed simp

lemma utf8_text_before: "utf8_text b \<Longrightarrow> utf8_text (a @ b) \<Longrightarrow> utf8_text a"
  using utf8_text_cut utf8_text_hd by blast

text \<open>The first character of a text and the rest.\<close>

lemma utf8_text_first:
  assumes "utf8_text s" "s = c # s'"
  shows "utf8_len c \<le> length s" "utf8_text (take (utf8_len c) s)" "utf8_text (drop (utf8_len c) s)"
proof -
  obtain n where n: "utf8_len c = Suc n" by (cases "utf8_len c") (use utf8_len_positive [of c] in simp_all)
  show "utf8_len c \<le> length s" "utf8_text (drop (utf8_len c) s)" using assms by (simp_all add: n)
  then show "utf8_text (take (utf8_len c) s)"
    using utf8_text_before [of "drop (utf8_len c) s" "take (utf8_len c) s"] assms(1) by simp
qed

text \<open>A value produced by parameter values between the literals.\<close>

fun interleave :: "string list \<Rightarrow> string list \<Rightarrow> string" where
  "interleave (l # ls) (p # ps) = l @ p @ interleave ls ps"
| "interleave (l # ls) [] = l"
| "interleave [] ps = []"

text \<open>The remaining text after the prefix and before the suffix: parameters around the inner literals.\<close>

definition parameter :: "string \<Rightarrow> bool" where
  "parameter p \<longleftrightarrow> p \<noteq> [] \<and> utf8_text p"

definition fills :: "string list \<Rightarrow> string \<Rightarrow> bool" where
  "fills literals s \<longleftrightarrow> (\<exists>p ps. length ps = length literals \<and> (\<forall>q \<in> set (p # ps). parameter q)
     \<and> s = p @ interleave literals ps)"

lemma fills_Nil: "fills [] s \<longleftrightarrow> parameter s"
  by (auto simp: fills_def)

lemma fills_Cons: "fills (l # ls) s \<longleftrightarrow> (\<exists>p r. parameter p \<and> s = p @ l @ r \<and> fills ls r)"
proof
  assume "fills (l # ls) s"
  then obtain p ps where ps: "length ps = Suc (length ls)" "parameter p" "\<forall>q \<in> set ps. parameter q"
      "s = p @ interleave (l # ls) ps"
    by (auto simp: fills_def)
  then obtain q qs where "ps = q # qs" by (cases ps) auto
  with ps have "s = p @ l @ (q @ interleave ls qs)" "fills ls (q @ interleave ls qs)"
    by (auto simp: fills_def)
  with ps(2) show "\<exists>p r. parameter p \<and> s = p @ l @ r \<and> fills ls r" by blast
next
  assume "\<exists>p r. parameter p \<and> s = p @ l @ r \<and> fills ls r"
  then obtain p q qs where "parameter p" "s = p @ l @ q @ interleave ls qs" "length qs = length ls"
      "\<forall>x \<in> set (q # qs). parameter x"
    by (auto simp: fills_def)
  then show "fills (l # ls) s"
    unfolding fills_def by (intro exI [of _ p] exI [of _ "q # qs"]) auto
qed

lemma fills_extend: "fills ls s \<Longrightarrow> utf8_text x \<Longrightarrow> fills ls (x @ s)"
proof -
  assume s: "fills ls s" and x: "utf8_text x"
  obtain p ps where p: "length ps = length ls" "parameter p" "\<forall>q \<in> set ps. parameter q" "s = p @ interleave ls ps"
    using s by (auto simp: fills_def)
  then have "parameter (x @ p)" using x by (simp add: parameter_def utf8_text_append)
  then show ?thesis unfolding fills_def by (intro exI [of _ "x @ p"] exI [of _ ps]) (use p in simp)
qed

lemma fills_text: "fills ls s \<Longrightarrow> \<forall>l \<in> set ls. utf8_text l \<Longrightarrow> utf8_text s"
  by (induction ls arbitrary: s) (auto simp: fills_Nil fills_Cons parameter_def intro!: utf8_text_append)

lemma split_once_text:
  assumes "utf8_text s" "utf8_text l" "split_once l s = Some (a, b)"
  shows "utf8_text a \<and> utf8_text b"
proof (cases "l = []")
  case True
  then show ?thesis using assms by (cases s) (auto simp: starts_with_def)
next
  case False
  have s: "s = a @ l @ b" using split_once_Some [OF assms(3)] .
  have "utf8_text a \<and> utf8_text (l @ b)"
    by (rule utf8_text_cut) (use assms s False utf8_text_hd [of l] in auto)
  then show ?thesis using utf8_text_after [of l b] assms(2) by blast
qed

lemma match_middle_sound: "match_middle ls s \<Longrightarrow> \<forall>l \<in> set ls. utf8_text l \<Longrightarrow> utf8_text s \<Longrightarrow> fills ls s"
proof (induction ls s rule: match_middle.induct)
  case (2 l ls s)
  then obtain c s' a r where s: "s = c # s'" "split_once l (drop (utf8_len c) s) = Some (a, r)"
      "match_middle ls r"
    by (auto split: list.splits option.splits)
  note first = utf8_text_first [OF 2(4) s(1)]
  have texts: "utf8_text a" "utf8_text r" using split_once_text [OF first(3) _ s(2)] 2(3) by auto
  have "fills ls r" using 2(1) [OF s(1) s(2) refl s(3)] 2(3) texts(2) by simp
  moreover have "drop (utf8_len c) s = a @ l @ r" using split_once_Some [OF s(2)] .
  then have "s = (take (utf8_len c) s @ a) @ l @ r" by (metis append_assoc append_take_drop_id)
  moreover have "parameter (take (utf8_len c) s @ a)"
    using s(1) first(2) texts(1) utf8_len_positive [of c] by (auto simp: parameter_def utf8_text_append)
  ultimately show ?case unfolding fills_Cons by blast
qed (simp add: fills_Nil parameter_def)

lemma match_middle_complete: "\<forall>l \<in> set ls. utf8_text l \<Longrightarrow> fills ls s \<Longrightarrow> match_middle ls s"
proof (induction ls arbitrary: s)
  case (Cons l ls)
  then obtain p r where p: "parameter p" "s = p @ l @ r" "fills ls r"
    by (auto simp: fills_Cons)
  then obtain c p' where p': "p = c # p'" by (cases p) (auto simp: parameter_def)
  have texts: "utf8_text s" "utf8_text r" using Cons.prems fills_text p(3) by auto
  have len: "utf8_len c \<le> length p" using utf8_text_first(1) p(1) p' by (auto simp: parameter_def)
  then have rest: "drop (utf8_len c) s = drop (utf8_len c) p @ l @ r" by (simp add: p(2))
  obtain a b where split: "split_once l (drop (utf8_len c) s) = Some (a, b)" "length a \<le> length (drop (utf8_len c) p)"
    using split_once_first [OF rest] by blast
  have "utf8_text (drop (utf8_len c) s)" using utf8_text_first(3) [OF texts(1)] p(2) p' by simp
  then have b: "utf8_text b" using split_once_text [OF _ _ split(1)] Cons.prems(1) by simp
  have eq: "a @ l @ b = drop (utf8_len c) p @ l @ r" using split_once_Some [OF split(1)] rest by simp
  then have "drop (length a + length l) (drop (utf8_len c) p @ l @ r) = b"
    by (metis append.assoc append_eq_conv_conj length_append)
  moreover have "drop (length a + length l) (drop (utf8_len c) p @ l @ r)
      = drop (length a + length l) (drop (utf8_len c) p @ l) @ r"
    using split(2) by simp
  ultimately obtain x where x: "b = x @ r" by metis
  then have "utf8_text x" using utf8_text_before [of r x] texts(2) b by simp
  then have "fills ls b" using x p(3) fills_extend by simp
  then have "match_middle ls b" using Cons.IH Cons.prems(1) by simp
  then show ?case using split(1) p(2) p' by simp
qed (simp add: fills_Nil parameter_def)

lemma interleave_snoc:
  "length ps = length ls \<Longrightarrow> interleave (ls @ [l]) ps = interleave ls ps @ l"
  by (induction ls arbitrary: ps) (auto simp: length_Suc_conv)

text \<open>
  C28: the greedy matcher of segment templates with several parameters is exact for every literal and value that is
  UTF-8 text, as every string of the program is: it accepts the value if and only if the template has a parameter
  and some non-empty parameter values, each whole characters, between the literals produce the value. In
  particular two parameters that touch share no character.
\<close>

theorem mixed_segment_matches_exact:
  assumes "\<forall>l \<in> set literals. utf8_text l" and "utf8_text value"
  shows "mixed_segment_matches literals value \<longleftrightarrow> 2 \<le> length literals
     \<and> (\<exists>params. length params + 1 = length literals \<and> (\<forall>p \<in> set params. p \<noteq> [] \<and> utf8_text p)
        \<and> value = interleave literals params)"
proof (cases "2 \<le> length literals")
  case True
  obtain l mid suf where lits: "literals = l # mid @ [suf]"
    using True by (cases literals; cases "tl literals" rule: rev_cases) auto
  have inner: "utf8_text s" if "value = l @ s @ suf" for s
    using assms that utf8_text_after [of l "s @ suf"] utf8_text_before [of suf s] by (simp add: lits)
  have "mixed_segment_matches literals value \<longleftrightarrow>
      (\<exists>s. value = l @ s @ suf \<and> match_middle mid s)"
    unfolding lits
    by (cases mid) (auto simp: mixed_segment_matches_def str_simps split: option.splits list.splits)
  also have "\<dots> \<longleftrightarrow> (\<exists>s. value = l @ s @ suf \<and> fills mid s)"
    using assms(1) inner match_middle_sound match_middle_complete by (metis (full_types) Un_iff lits list.set_intros(2) set_append)
  also have "\<dots> \<longleftrightarrow> (\<exists>params. length params + 1 = length literals \<and> (\<forall>p \<in> set params. p \<noteq> [] \<and> utf8_text p)
        \<and> value = interleave literals params)"
  proof
    assume "\<exists>s. value = l @ s @ suf \<and> fills mid s"
    then obtain p ps where "length ps = length mid" "\<forall>q \<in> set (p # ps). parameter q"
        "value = l @ (p @ interleave mid ps) @ suf"
      by (auto simp: fills_def)
    then show "\<exists>params. length params + 1 = length literals \<and> (\<forall>p \<in> set params. p \<noteq> [] \<and> utf8_text p)
        \<and> value = interleave literals params"
      by (intro exI [of _ "p # ps"]) (auto simp: lits interleave_snoc parameter_def)
  next
    assume "\<exists>params. length params + 1 = length literals \<and> (\<forall>p \<in> set params. p \<noteq> [] \<and> utf8_text p)
        \<and> value = interleave literals params"
    then obtain p ps where "length ps = length mid" "\<forall>q \<in> set (p # ps). parameter q"
        "value = interleave literals (p # ps)"
      by (auto simp: lits length_Suc_conv parameter_def)
    then show "\<exists>s. value = l @ s @ suf \<and> fills mid s"
      by (intro exI [of _ "p @ interleave mid ps"])
        (auto simp: lits interleave_snoc fills_def intro!: exI [of _ p] exI [of _ ps])
  qed
  finally show ?thesis using True by simp
next
  case False
  then show ?thesis by (auto simp: mixed_segment_matches_def split: list.split)
qed

text \<open>A character of two bytes between two literals, and a template of two parameters that one character does not fill.\<close>

theorem mixed_segment_matches_exact_witness:
  "mixed_segment_matches [''v'', ''.'', ''''] [CHR ''v'', CHR 0xC3, CHR 0xA9, CHR ''.'', CHR ''2'']
   \<and> \<not> mixed_segment_matches ['''', '''', ''''] [CHR 0xC3, CHR 0xA9]"
proof -
  have whole: "utf8_text [CHR ''v'', CHR 0xC3, CHR 0xA9, CHR ''.'', CHR ''2'']" "utf8_text [CHR 0xC3, CHR 0xA9]"
    "\<forall>l \<in> set [''v'', ''.'', '''']. utf8_text l" "utf8_text [CHR 0xC3, CHR 0xA9]" "\<not> utf8_text [CHR 0xA9]"
    by (simp_all add: continuation_byte_def utf8_len_def)
  have "mixed_segment_matches [''v'', ''.'', ''''] [CHR ''v'', CHR 0xC3, CHR 0xA9, CHR ''.'', CHR ''2'']"
    unfolding mixed_segment_matches_exact [OF whole(3,1)]
    by (intro conjI exI [of _ "[[CHR 0xC3, CHR 0xA9], ''2'']"]) (simp_all add: continuation_byte_def utf8_len_def)
  moreover have "\<not> mixed_segment_matches ['''', '''', ''''] [CHR 0xC3, CHR 0xA9]"
  proof -
    have texts: "\<forall>l \<in> set ['''', '''', '''']. utf8_text l" by simp
    show ?thesis
      unfolding mixed_segment_matches_exact [OF texts whole(2)] using whole(5)
      by (auto simp: length_Suc_conv Cons_eq_append_conv)
  qed
  ultimately show ?thesis ..
qed

abbreviation is_slash :: "char \<Rightarrow> bool" where
  "is_slash c \<equiv> c = CHR ''/''"

text \<open>The non-empty segments of a path.\<close>

definition segments_of :: "string \<Rightarrow> string list" where
  "segments_of s = filter (\<lambda>p. p \<noteq> []) (split_on is_slash s)"

lemma join_split_on: "join [sep] (split_on (\<lambda>c. c = sep) s) = s"
proof (induction s)
  case (Cons c s)
  obtain p ps where sp: "split_on (\<lambda>c. c = sep) s = p # ps"
    using split_on_nonempty neq_Nil_conv by metis
  show ?case using Cons sp by (cases ps) auto
qed simp

lemma split_on_snoc_sep: "P c \<Longrightarrow> split_on P (s @ [c]) = split_on P s @ [[]]"
  by (induction s) (auto split: list.splits)

lemma split_on_collapse:
  "filter (\<lambda>p. p \<noteq> []) (split_on is_slash (collapse_slashes True s))
     = filter (\<lambda>p. p \<noteq> []) (split_on is_slash s)"
  "hd (split_on is_slash (collapse_slashes False s)) = hd (split_on is_slash s)
   \<and> filter (\<lambda>p. p \<noteq> []) (tl (split_on is_slash (collapse_slashes False s)))
     = filter (\<lambda>p. p \<noteq> []) (tl (split_on is_slash s))"
proof (induction s)
  case (Cons c s)
  { case 1
    then show ?case using Cons
      by (auto split: list.splits)
  next
    case 2
    then show ?case using Cons by (auto split: list.splits)
  }
qed simp_all

lemma segments_of_collapse: "segments_of (collapse_slashes False s) = segments_of s"
proof -
  obtain p ps q qs where "split_on is_slash (collapse_slashes False s) = p # ps" "split_on is_slash s = q # qs"
    using split_on_nonempty neq_Nil_conv by metis
  then show ?thesis using split_on_collapse(2) [of s] by (simp add: segments_of_def)
qed

lemma segments_of_pop: "segments_of (pop_slashes s) = segments_of s"
proof (induction s rule: pop_slashes.induct)
  case (1 s)
  have "segments_of (butlast s) = segments_of s" if "ends_with ''/'' s"
    using that by (auto simp: ends_with_iff segments_of_def split_on_snoc_sep)
  then show ?case using 1 by (auto simp: pop_slashes.simps [of s])
qed

lemma segments_of_slash: "segments_of (CHR ''/'' # s) = segments_of s"
  by (simp add: segments_of_def)

lemma split_on_clean:
  "s \<noteq> [] \<Longrightarrow> \<not> starts_with ''/'' s \<Longrightarrow> \<not> contains_str ''//'' s \<Longrightarrow> \<not> ends_with ''/'' s
   \<Longrightarrow> [] \<notin> set (split_on is_slash s)"
proof (induction s rule: length_induct)
  case (1 s)
  then obtain c t where s: "s = c # t" "c \<noteq> CHR ''/''"
    by (cases s) (auto simp: starts_with_def)
  have tail: "\<not> contains_str ''//'' t" "t \<noteq> [] \<Longrightarrow> \<not> ends_with ''/'' t"
    using 1 s by (auto simp: contains_str_Cons ends_with_iff)
  show ?case
  proof (cases "starts_with ''/'' t")
    case True
    then obtain u where t: "t = CHR ''/'' # u" by (auto simp: starts_with_iff)
    then have "u \<noteq> []" "\<not> starts_with ''/'' u" "\<not> contains_str ''//'' u" "\<not> ends_with ''/'' u"
      using tail by (auto simp: contains_str_Cons starts_with_iff ends_with_iff)
    then show ?thesis using 1 s t by simp
  next
    case False
    then show ?thesis using 1 s tail by (cases "t = []") (auto split: list.splits)
  qed
qed

lemma normalize_http_path_normal:
  "starts_with ''/'' (normalize_http_path path)
   \<and> \<not> contains_str ''//'' (normalize_http_path path)
   \<and> (normalize_http_path path = ''/'' \<or> \<not> ends_with ''/'' (normalize_http_path path))"
proof (cases "trim path = [] \<or> trim path = ''/''")
  case True
  then show ?thesis by (auto simp: normalize_http_path_def starts_with_def contains_str_def)
next
  case False
  define raw where "raw = (if starts_with ''/'' (trim path) then [] else ''/'') @ collapse_slashes False (trim path)"
  have raw: "starts_with ''/'' raw" "\<not> contains_str ''//'' raw"
  proof -
    show "starts_with ''/'' raw"
      unfolding raw_def by (cases "trim path") (auto simp: starts_with_def)
    show "\<not> contains_str ''//'' raw"
      using collapse_no_double [of False "trim path"] collapse_head [of "trim path" False]
      by (auto simp: raw_def contains_str_Cons starts_with_iff)
  qed
  then show ?thesis
    using False pop_slashes_props [of raw] starts_with_slash_short [of "pop_slashes raw"]
    by (auto simp: normalize_http_path_def raw_def Let_def)
qed

lemma normalize_http_path_segments:
  "segments_of (normalize_http_path path) = segments_of (trim path)"
proof -
  have "segments_of ((if b then [] else ''/'') @ s) = segments_of s" for b s
    by (simp add: segments_of_slash)
  moreover have "segments_of [] = segments_of ''/''" by (simp add: segments_of_def)
  ultimately show ?thesis
    by (auto simp: normalize_http_path_def Let_def segments_of_pop segments_of_collapse)
qed

text \<open>
  the slash handling of \<open>normalize_http_path\<close> is equivalent to its specification: the result is the
  non-empty segments of the trimmed path, in order, each preceded by one slash (and a lone slash when
  there is no segment).
\<close>

lemma normalize_http_path_eq:
  "normalize_http_path path =
     ''/'' @ join ''/'' (filter (\<lambda>p. p \<noteq> []) (split_on (\<lambda>c. c = CHR ''/'') (trim path)))"
proof -
  define n where "n = normalize_http_path path"
  obtain t where n: "n = CHR ''/'' # t"
    using normalize_http_path_normal [of path] by (auto simp: n_def starts_with_iff)
  have t: "\<not> starts_with ''/'' t" "\<not> contains_str ''//'' t" "t \<noteq> [] \<Longrightarrow> \<not> ends_with ''/'' t"
    using normalize_http_path_normal [of path] n
    by (auto simp: n_def [symmetric] starts_with_iff ends_with_iff contains_str_Cons)
  have "join ''/'' (segments_of t) = t"
  proof (cases "t = []")
    case False
    then have "filter (\<lambda>p. p \<noteq> []) (split_on is_slash t) = split_on is_slash t"
      using split_on_clean [OF False] t by (intro filter_True) auto
    then show ?thesis using join_split_on [of "CHR ''/''" t] by (simp add: segments_of_def)
  qed (simp add: segments_of_def)
  moreover have "segments_of t = segments_of (trim path)"
    using normalize_http_path_segments [of path] n segments_of_slash [of t] by (simp add: n_def)
  ultimately show ?thesis using n by (simp add: n_def segments_of_def)
qed


text \<open>The literals of a template: how they come out of the segment, and back.\<close>

abbreviation brace_free :: "string \<Rightarrow> bool" where
  "brace_free s \<equiv> CHR ''{'' \<notin> set s \<and> CHR ''}'' \<notin> set s"

lemma mixed_loop_None:
  assumes "brace_free l" and "acc \<noteq> []"
  shows "mixed_literals_loop l acc = Some (acc @ [l])"
proof -
  have "split_once ''{'' l = None" using assms(1) by (auto simp: split_once_None)
  then show ?thesis
    using assms by (subst mixed_literals_loop.simps) (auto simp: contains_char_iff)
qed

lemma mixed_loop_step:
  assumes "brace_free l" and "brace_free name"
  shows "mixed_literals_loop (l @ ''{'' @ name @ ''}'' @ rest) acc =
    mixed_literals_loop rest (acc @ [case strip_suffix ''$'' l of Some p \<Rightarrow> p | None \<Rightarrow> l])"
proof -
  have "split_once ''{'' (l @ ''{'' @ name @ ''}'' @ rest) = Some (l, name @ ''}'' @ rest)"
    and "split_once ''}'' (name @ ''}'' @ rest) = Some (name, rest)"
    using assms by (auto simp: split_once_char_Some)
  then show ?thesis
    using assms by (subst mixed_literals_loop.simps) (simp add: contains_char_iff)
qed

text \<open>The loop inverts joining with an empty parameter.\<close>

lemma mixed_loop_join:
  assumes "lits \<noteq> []" and "\<forall>l \<in> set lits. brace_free l"
    and "\<forall>l \<in> set (butlast lits). \<not> ends_with ''$'' l" and "acc \<noteq> [] \<or> 2 \<le> length lits"
  shows "mixed_literals_loop (join ''{}'' lits) acc = Some (acc @ lits)"
  using assms
proof (induction lits arbitrary: acc rule: induct_list012)
  case (3 l l' ls)
  have "strip_suffix ''$'' l = None" using 3 by (simp add: strip_suffix_eq_None)
  then have "mixed_literals_loop (join ''{}'' (l # l' # ls)) acc
      = mixed_literals_loop (join ''{}'' (l' # ls)) (acc @ [l])"
    using mixed_loop_step [of l "''''" "join ''{}'' (l' # ls)" acc] 3 by simp
  then show ?case using 3 by simp
qed (auto simp: mixed_loop_None)

text \<open>What a successful run says of the segment: its literals, its ends, its dollar signs.\<close>

lemma mixed_loop_Some:
  "mixed_literals_loop s acc = Some out \<Longrightarrow> \<not> contains_str ''$${'' s \<Longrightarrow>
    \<exists>lits. out = acc @ lits \<and> lits \<noteq> [] \<and> (acc = [] \<longrightarrow> 2 \<le> length lits \<and> CHR ''{'' \<in> set s)
      \<and> (\<forall>l \<in> set lits. brace_free l) \<and> set (concat lits) \<subseteq> set s
      \<and> (\<forall>l \<in> set (butlast lits). \<not> ends_with ''$'' l)
      \<and> (hd lits \<noteq> [] \<longrightarrow> hd (hd lits) = hd s)
      \<and> (last lits \<noteq> [] \<longrightarrow> last (last lits) = last s)"
proof (induction s acc arbitrary: out rule: mixed_literals_loop.induct)
  case (1 s acc)
  show ?case
  proof (cases "split_once ''{'' s")
    case None
    then have "CHR ''{'' \<notin> set s"
      by (auto simp: split_once_None dest!: split_list)
    with None have "out = acc @ [s]" "acc \<noteq> []" "brace_free s"
      using 1(2) by (auto simp: mixed_literals_loop.simps [of s] contains_char_iff split: if_splits)
    then show ?thesis by (intro exI [of _ "[s]"]) auto
  next
    case (Some fp)
    obtain front parameter where fp: "fp = (front, parameter)" by (cases fp)
    with Some 1(2) obtain name suffix where name: "split_once ''}'' parameter = Some (name, suffix)"
      by (auto simp: mixed_literals_loop.simps [of s] split: option.splits)
    define l where "l = (case strip_suffix ''$'' front of Some p \<Rightarrow> p | None \<Rightarrow> front)"
    from Some name fp 1(2) have guards: "CHR ''{'' \<notin> set name" "CHR ''}'' \<notin> set front"
      and run: "mixed_literals_loop suffix (acc @ [l]) = Some out"
      by (auto simp: mixed_literals_loop.simps [of s] contains_char_iff l_def split: if_splits)
    have s: "s = front @ CHR ''{'' # name @ CHR ''}'' # suffix" "CHR ''{'' \<notin> set front"
      using Some name fp by (auto simp: split_once_char_Some)
    have no: "\<not> contains_str ''$${'' suffix"
      using 1(3) s(1) by (auto simp: contains_str_iff) (metis append.assoc append_Cons)
    obtain lits where lits: "out = (acc @ [l]) @ lits" "lits \<noteq> []" "\<forall>l \<in> set lits. brace_free l"
        "set (concat lits) \<subseteq> set suffix" "\<forall>l \<in> set (butlast lits). \<not> ends_with ''$'' l"
        "last lits \<noteq> [] \<longrightarrow> last (last lits) = last suffix"
      using 1(1) [OF Some fp [symmetric] name refl _ run [unfolded l_def] no] guards
      by (auto simp: contains_char_iff l_def)
    have l: "\<exists>d. front = l @ d" "l = front \<or> front = l @ ''$''"
      by (auto simp: l_def strip_suffix_def ends_with_iff)
    have "\<not> ends_with ''$'' l"
    proof
      assume "ends_with ''$'' l"
      moreover from this obtain p where "strip_suffix ''$'' front = Some p"
        using l(2) by (cases "strip_suffix ''$'' front") (auto simp: strip_suffix_eq_None ends_with_iff)
      then have "l = p" "front = p @ ''$''" unfolding l_def by (simp, metis strip_suffix_eq_Some)
      ultimately have "\<exists>r. s = r @ ''$${'' @ (name @ CHR ''}'' # suffix)"
        using s(1) by (auto simp: ends_with_iff)
      then show False using 1(3) by (auto simp: contains_str_iff)
    qed
    moreover have "last lits \<noteq> [] \<Longrightarrow> suffix \<noteq> []" "Suc 0 \<le> length lits"
      using lits(2,4) by (auto simp: Suc_le_eq)
    ultimately show ?thesis
      using lits s l guards
      by (intro exI [of _ "l # lits"]) (auto simp: hd_append last_append split: if_splits)
  qed
qed

lemma classify_segment_Mixed:
  assumes "classify_segment s = Mixed lits"
  shows "mixed_segment_literals s = Some lits" and "\<not> (length lits = 2 \<and> list_all (\<lambda>l. l = []) lits)"
    and "2 < length s \<longrightarrow> \<not> (starts_with ''['' s \<and> ends_with '']'' s)"
    and "angle_inner s = None" and "colon_name s = None" and "1 < length s \<longrightarrow> \<not> starts_with ''*'' s"
  using assms by (auto simp: classify_segment_def split: if_splits option.splits)

lemma join_pair: "lits \<noteq> [] \<Longrightarrow> 2 \<le> length lits \<Longrightarrow>
    \<exists>mid. join ''{}'' lits = hd lits @ ''{'' @ mid @ ''}'' @ last lits
      \<and> (length lits = 2 \<longrightarrow> mid = []) \<and> (2 < length lits \<longrightarrow> CHR ''{'' \<in> set mid)"
proof (induction lits rule: induct_list012)
  case (3 l l' ls)
  show ?case
  proof (cases ls)
    case (Cons l'' ls')
    then obtain mid where "join ''{}'' (l' # ls) = l' @ ''{'' @ mid @ ''}'' @ last (l' # ls)"
      using 3 by auto
    then show ?thesis using Cons
      by (intro exI [of _ "CHR ''}'' # l' @ ''{'' @ mid"]) simp
  qed simp
qed auto

lemma starts_with_hd: "s \<noteq> [] \<Longrightarrow> starts_with [hd s] s"
  by (cases s) (auto simp: starts_with_def)

lemma ends_with_last: "s \<noteq> [] \<Longrightarrow> ends_with [last s] s"
  unfolding ends_with_iff by (metis append_butlast_last_id)

lemma framed:
  assumes "starts_with [a] s" and "ends_with [b] s" and "c \<in> set s" "c \<noteq> a" "c \<noteq> b"
  shows "\<exists>m. s = [a] @ m @ [b] \<and> m \<noteq> []"
proof -
  obtain r where r: "s = a # r" using assms(1) by (auto simp: starts_with_iff)
  then show ?thesis using assms by (cases r rule: rev_cases) (auto simp: ends_with_iff)
qed

lemma classify_join:
  assumes ends: "hd lits \<noteq> [] \<longrightarrow> hd (hd lits) = hd s" "last lits \<noteq> [] \<longrightarrow> last (last lits) = last s"
    and lits: "2 \<le> length lits" "\<forall>l \<in> set lits. brace_free l" "\<forall>l \<in> set (butlast lits). \<not> ends_with ''$'' l"
    and s: "classify_segment s = Mixed lits" "CHR ''{'' \<in> set s"
  shows "classify_segment (join ''{}'' lits) = Mixed lits"
proof -
  define t where "t = join ''{}'' lits"
  obtain mid where t: "t = hd lits @ ''{'' @ mid @ ''}'' @ last lits" "length lits = 2 \<longrightarrow> mid = []"
      "2 < length lits \<longrightarrow> CHR ''{'' \<in> set mid"
    using join_pair [OF _ lits(1)] lits(1) unfolding t_def by fastforce
  have "s \<noteq> []" using s(2) by auto
  then have first: "starts_with [c] s" if "starts_with [c] t" "c \<noteq> CHR ''{''" for c
    using that ends(1) t(1) starts_with_hd [of s] by (cases "hd lits") (auto simp: starts_with_def)
  have final: "ends_with [c] s" if "ends_with [c] t" "c \<noteq> CHR ''}''" for c
    using that ends(2) t(1) ends_with_last [of s] \<open>s \<noteq> []\<close>
    by (cases "last lits" rule: rev_cases) (auto simp: ends_with_def starts_with_def)
  note source = classify_segment_Mixed [OF s(1)]
  have "lits \<noteq> []" using lits(1) by auto
  then have ne: "lits \<noteq> []" "brace_free (hd lits)" "brace_free (last lits)" using lits(2) by auto
  have braced: "braced_inner t = None"
  proof (rule ccontr)
    assume "braced_inner t \<noteq> None"
    then obtain inner where inner: "t = ''{'' @ inner @ ''}''" "brace_free inner"
      by (auto simp: braced_inner_def strip_prefix_eq_Some strip_suffix_eq_Some contains_char_iff
          split: option.splits if_splits)
    then have "hd lits = []" "last lits = []" using t(1) ne
      by (cases "hd lits"; cases "last lits" rule: rev_cases; auto)+
    with inner t have "inner = mid" by simp
    then have "length lits = 2" using inner(2) t(3) lits(1) by auto
    with \<open>hd lits = []\<close> \<open>last lits = []\<close> source(2) show False
      by (auto simp: length_Suc_conv numeral_2_eq_2)
  qed
  have brackets: "\<not> (starts_with ''['' t \<and> ends_with '']'' t)"
    using first [of "CHR ''[''"] final [of "CHR '']''"] framed [OF _ _ s(2), of "CHR ''[''" "CHR '']''"] source(3)
    by auto
  have double: "ends_with '']]'' t \<Longrightarrow> ends_with '']'' t"
    unfolding ends_with_iff by (metis append.assoc append_Cons append_Nil)
  have angle: "angle_inner t = None"
    using first [of "CHR ''<''"] final [of "CHR ''>''"] framed [OF _ _ s(2), of "CHR ''<''" "CHR ''>''"] source(4)
    by (auto simp: angle_inner_def str_simps split: option.splits)
  have colon: "colon_name t = None" and star: "\<not> starts_with ''*'' t"
    using first [of "CHR '':''"] first [of "CHR ''*''"] source(5,6) s(2)
    by (auto simp: colon_name_def str_simps split: option.splits if_splits)
  have mixed: "mixed_segment_literals t = Some lits"
    using mixed_loop_join [of lits "[]"] lits ne(1) by (auto simp: t_def mixed_segment_literals_def)
  show ?thesis
    unfolding t_def [symmetric]
    using braced brackets double angle colon star mixed source(2)
    by (auto simp: classify_segment_def starts_with_iff)
qed

text \<open>Classifying the rendered form of a classified segment.\<close>

lemma classify_render:
  assumes "\<not> contains_str ''$${'' s"
  shows "classify_segment (render_segment (classify_segment s)) = classify_segment s"
proof (cases "classify_segment s")
  case (Static v)
  then have "v = s" by (auto simp: classify_segment_def split: if_splits option.splits)
  then show ?thesis using Static by simp
next
  case Param
  moreover have "classify_segment ''{}'' = Param" by code_simp
  ultimately show ?thesis by simp
next
  case CatchAll
  moreover have "classify_segment ''{*}'' = CatchAll" by code_simp
  ultimately show ?thesis by simp
next
  case (Mixed lits)
  then have "mixed_literals_loop s [] = Some lits"
    using classify_segment_Mixed(1) by (simp add: mixed_segment_literals_def)
  from mixed_loop_Some [OF this assms] show ?thesis
    using classify_join [of lits s] Mixed by auto
qed

lemma render_chars:
  assumes "\<not> contains_str ''$${'' s" and "s \<noteq> []"
  shows "set (render_segment (classify_segment s)) \<subseteq> set s \<union> set ''{*}''"
    and "render_segment (classify_segment s) \<noteq> []"
proof -
  have "set (render_segment (classify_segment s)) \<subseteq> set s \<union> set ''{*}''
      \<and> render_segment (classify_segment s) \<noteq> []"
  proof (cases "classify_segment s")
    case (Static v)
    then have "v = s" by (auto simp: classify_segment_def split: if_splits option.splits)
    then show ?thesis using Static assms(2) by auto
  next
    case (Mixed lits)
    have chars: "set (join ''{}'' ls) \<subseteq> set (concat ls) \<union> set ''{}''" for ls
      by (induction ls rule: induct_list012) auto
    from Mixed have "mixed_literals_loop s [] = Some lits"
      using classify_segment_Mixed(1) by (simp add: mixed_segment_literals_def)
    from mixed_loop_Some [OF this assms(1)] have lits: "2 \<le> length lits" "set (concat lits) \<subseteq> set s"
      by auto
    then have "join ''{}'' lits \<noteq> []"
      by (cases lits; cases "tl lits") auto
    moreover have "set (join ''{}'' lits) \<subseteq> set s \<union> set ''{*}''"
      using lits(2) chars [of lits] unfolding list.set by blast
    ultimately show ?thesis using Mixed by simp
  qed auto
  then show "set (render_segment (classify_segment s)) \<subseteq> set s \<union> set ''{*}''"
    and "render_segment (classify_segment s) \<noteq> []" by auto
qed

lemma contains_str_infix: "contains_str pat s \<Longrightarrow> contains_str pat (a @ s @ b)"
  unfolding contains_str_iff by (metis append.assoc)

lemma path_segments_props:
  assumes "s \<in> set (path_segments path)"
  shows "s \<noteq> []" and "set s \<inter> set ''/?#'' = {}" and "\<exists>a b. path = a @ s @ b"
proof -
  define front where "front = hd (split_on (\<lambda>c. c \<in> set ''?#'') path)"
  have front: "front \<in> set (split_on (\<lambda>c. c \<in> set ''?#'') path)"
    by (simp add: front_def)
  have s: "s \<in> set (split_on is_slash front)" "s \<noteq> []"
    using assms by (auto simp: path_segments_def front_def)
  show "s \<noteq> []" by (rule s(2))
  obtain a b where ab: "front = a @ s @ b" using split_on_infix [OF s(1)] by blast
  then show "\<exists>a b. path = a @ s @ b"
    using split_on_infix [OF front] by (metis append.assoc)
  have "c \<notin> set ''/?#''" if "c \<in> set s" for c
    using split_on_no_sep [OF s(1) that] split_on_no_sep [OF front, of c] that ab by auto
  then show "set s \<inter> set ''/?#'' = {}" by blast
qed

lemma path_segments_canonical:
  assumes "\<forall>r \<in> set shape. render_segment r \<noteq> [] \<and> set (render_segment r) \<inter> set ''/?#'' = {}"
  shows "path_segments (canonical shape) = map render_segment shape"
proof (cases "shape = []")
  case True
  then show ?thesis by (simp add: path_segments_def canonical_def)
next
  case False
  let ?text = "concat (map (\<lambda>s. ''/'' @ render_segment s) shape)"
  have query: "split_on (\<lambda>c. c \<in> set ''?#'') ?text = [?text]"
    using assms by (intro split_on_id) (auto split: if_splits)
  have "split_on is_slash (concat (map (\<lambda>s. ''/'' @ render_segment s) rs)) = [] # map render_segment rs"
    if "\<forall>r \<in> set rs. set (render_segment r) \<inter> set ''/?#'' = {}" for rs
    using that
  proof (induction rs)
    case (Cons r rs)
    show ?case
    proof (cases rs)
      case Nil
      then show ?thesis using Cons by (auto intro!: split_on_id)
    next
      case (Cons r' rs')
      have "split_on is_slash (render_segment r @ CHR ''/'' # x) = render_segment r # split_on is_slash x" for x
        using Cons.prems by (intro split_on_append_sep) auto
      then show ?thesis using Cons Cons.IH Cons.prems by simp
    qed
  qed simp
  then have "split_on is_slash ?text = [] # map render_segment shape" using assms by auto
  moreover have "filter (\<lambda>s. s \<noteq> []) (map render_segment shape) = map render_segment shape"
    using assms by (intro filter_True) auto
  ultimately show ?thesis
    unfolding path_segments_def canonical_def using False query by simp
qed

lemma classify_until_subset: "set (classify_until_catch_all ss) \<subseteq> classify_segment ` set ss"
  by (induction ss) (auto simp: Let_def)

lemma classify_until_render:
  "(\<forall>s \<in> set ss. classify_segment (render_segment (classify_segment s)) = classify_segment s)
   \<Longrightarrow> classify_until_catch_all (map render_segment (classify_until_catch_all ss)) = classify_until_catch_all ss"
  by (induction ss) (auto simp: Let_def)

text \<open>
  C33: the canonical form of a route shape is a faithful encoding of the shape: parsing the canonical
  form of a parsed route gives the same shape, for every path without the text \<open>$${\<close>.
\<close>

theorem canonical_round_trip:
  assumes "\<not> contains_str ''$${'' path"
  shows "route_shape_parse (canonical (route_shape_parse path)) = route_shape_parse path"
proof -
  have clean: "s \<noteq> []" "set s \<inter> set ''/?#'' = {}" "\<not> contains_str ''$${'' s"
    if "s \<in> set (path_segments path)" for s
    using path_segments_props [OF that] assms contains_str_infix by auto
  have "\<forall>r \<in> set (route_shape_parse path). render_segment r \<noteq> [] \<and> set (render_segment r) \<inter> set ''/?#'' = {}"
  proof
    fix r assume "r \<in> set (route_shape_parse path)"
    then obtain s where s: "s \<in> set (path_segments path)" "r = classify_segment s"
      using classify_until_subset [of "path_segments path"] unfolding route_shape_parse_def by blast
    show "render_segment r \<noteq> [] \<and> set (render_segment r) \<inter> set ''/?#'' = {}"
      using render_chars [of s] clean [OF s(1)] s(2) by auto
  qed
  then have "path_segments (canonical (route_shape_parse path)) = map render_segment (route_shape_parse path)"
    by (rule path_segments_canonical)
  then show ?thesis
    unfolding route_shape_parse_def
    using classify_until_render [of "path_segments path"] clean classify_render by simp
qed

theorem canonical_round_trip_witness:
  "\<not> contains_str ''$${'' ''/api/v${major}.{minor}/[id]/*rest''
   \<and> canonical_route ''/api/v${major}.{minor}/[id]/*rest'' = ''/api/v{}.{}/{}/{*}''
   \<and> route_shape_parse (canonical (route_shape_parse ''/api/v${major}.{minor}/[id]/*rest''))
     = route_shape_parse ''/api/v${major}.{minor}/[id]/*rest''"
  using canonical_round_trip [of "''/api/v${major}.{minor}/[id]/*rest''"] by code_simp

text \<open>The exception: two dollar signs before a parameter. One is removed by each pass, so the
  canonical form of a canonical form can differ and identify fewer routes.
\<close>

lemma canonical_route_dollar:
  "canonical_route ''/x$${a}'' = ''/x${}'' \<and> canonical_route ''/x${}'' = ''/x{}''"
  by code_simp

end
