(* ===== verification/Route_Index.thy ===== *)
theory Route_Index
  imports Route_Shapes
begin

text \<open>
  The second part of \<open>crates/code-system-graph-core/src/routes.rs\<close>: which repository serves an
  authority (\<open>AuthorityMap\<close>), the per-method tries of provider routes (\<open>ProviderSet\<close>,
  \<open>RouteNode\<close>, \<open>RouteIndex\<close>) and the resolution of a scoped call (\<open>scope_restriction\<close>,
  \<open>resolve_call\<close>), with the infrastructure documents of \<open>infrastructure.rs\<close> that the authority
  map reads and the boundaries of \<open>http.rs\<close> that the tries hold.

  The locale \<open>route_table\<close> states what a table of routes promises: what is stored under a shape
  after an insertion, and that a lookup returns the accepted providers of the most specific matching
  shapes. The trie is an interpretation of it, and the properties of the index follow from its lemmas.
\<close>

subsection \<open>Infrastructure documents\<close>

datatype infrastructure_artifact_kind = DockerCompose | Kubernetes | HelmTemplateArtifact | HelmValues | Terraform

datatype deployment_kind =
  DockerComposeService | KubernetesDeployment | KubernetesStatefulSet | KubernetesDaemonSet
  | KubernetesJob | KubernetesCronJob | KubernetesPod | HelmTemplateUnit | TerraformResource

datatype infrastructure_resource_kind =
  ServiceResource | IngressResource | TopicResource | QueueResource | DatabaseResource | OtherResource

datatype infrastructure_evidence_kind =
  DeclarationEvidence | ImageEvidence | PortEvidence | DependencyEvidence | EnvironmentKeyEvidence
  | SelectorEvidence | HostAliasEvidence

record infrastructure_evidence =
  ie_kind :: infrastructure_evidence_kind
  ie_line :: "nat option"

record infrastructure_port =
  ip_name :: "string option"
  ip_port :: nat
  ip_target_port :: "nat option"
  ip_host_port :: "nat option"
  ip_protocol :: "string option"

record infrastructure_selector =
  is_key :: string
  is_value :: string

record deployment_unit =
  du_kind :: deployment_kind
  du_name :: string
  du_namespace :: "string option"
  du_images :: "string list"
  du_ports :: "infrastructure_port list"
  du_environment_keys :: "string list"
  du_dependencies :: "string list"
  du_service_names :: "string list"
  du_host_aliases :: "string list"
  du_selectors :: "infrastructure_selector list"
  du_evidence :: "infrastructure_evidence list"

record infrastructure_resource =
  ir_kind :: infrastructure_resource_kind
  ir_resource_type :: string
  ir_name :: string
  ir_namespace :: "string option"
  ir_ports :: "infrastructure_port list"
  ir_key_names :: "string list"
  ir_dependencies :: "string list"
  ir_selectors :: "infrastructure_selector list"
  ir_evidence :: "infrastructure_evidence list"

record infrastructure_document =
  id_artifact_kind :: infrastructure_artifact_kind
  id_source_path :: string
  id_deployment_units :: "deployment_unit list"
  id_resources :: "infrastructure_resource list"
  id_environment_keys :: "string list"
  id_warnings :: "string list"
  id_incomplete :: bool

subsection \<open>Authorities and the repositories that serve them\<close>

record authority_map =
  am_declared :: "(string, repo_id) btree_map"
  am_inferred :: "(string, repo_id option) btree_map"

datatype authority_target =
  WorkspaceTarget | DeclaredTarget repo_id | InferredTarget repo_id | ExternalTarget

definition authority_map_new :: authority_map where
  "authority_map_new = \<lparr>am_declared = [], am_inferred = []\<rparr>"

definition declare_authority :: "string \<Rightarrow> repo_id \<Rightarrow> authority_map \<Rightarrow> authority_map" where
  "declare_authority authority repository m =
     m\<lparr>am_declared := bt_insert authority repository (am_declared m)\<rparr>"

definition infer :: "string \<Rightarrow> repo_id \<Rightarrow> authority_map \<Rightarrow> authority_map" where
  "infer host repository m =
     (case normalize_authority host of
        None \<Rightarrow> m
      | Some host \<Rightarrow>
          let host = service_host (authority_host host) in
          m\<lparr>am_inferred := bt_upsert host
              (\<lambda>existing. if existing \<noteq> Some repository then None else existing)
              (Some repository) (am_inferred m)\<rparr>)"

definition infer_from_infrastructure ::
  "repo_id \<Rightarrow> infrastructure_document \<Rightarrow> authority_map \<Rightarrow> authority_map" where
  "infer_from_infrastructure repository document m =
     (let m = fold (\<lambda>unit m. fold (\<lambda>host. infer host repository)
                ([du_name unit] @ du_service_names unit @ du_host_aliases unit) m)
              (id_deployment_units document) m in
      fold (\<lambda>resource. infer (ir_name resource) repository)
        (filter (\<lambda>resource. ir_kind resource = ServiceResource) (id_resources document)) m)"

definition lookup_authority :: "authority_map \<Rightarrow> string \<Rightarrow> authority_target" where
  "lookup_authority m authority =
     (let host = authority_host authority in
      if is_loopback host then WorkspaceTarget
      else case (case bt_get (am_declared m) authority of
                   Some repository \<Rightarrow> Some repository
                 | None \<Rightarrow> bt_get (am_declared m) host) of
        Some repository \<Rightarrow> DeclaredTarget repository
      | None \<Rightarrow>
          (case bt_get (am_inferred m) (service_host host) of
             Some (Some repository) \<Rightarrow> InferredTarget repository
           | Some None \<Rightarrow> WorkspaceTarget
           | None \<Rightarrow> ExternalTarget))"

subsection \<open>Boundaries\<close>

datatype boundary_role = Provider | Consumer

datatype call_scope = WorkspaceScope | InProcess | Authority string | ExternalScope

record http_boundary =
  hb_node :: node
  hb_method :: string
  hb_path :: string
  hb_role :: boundary_role
  hb_scope :: call_scope
  hb_evidence :: evidence

subsection \<open>Provider sets and the route trie\<close>

type_synonym provider_set = "http_boundary list"

fun provider_set_insert :: "http_boundary \<Rightarrow> provider_set \<Rightarrow> provider_set" where
  "provider_set_insert provider [] = [provider]"
| "provider_set_insert provider (existing # rest) =
     (if n_id (hb_node existing) = n_id (hb_node provider) then
        (if fp_lt (ev_confidence (hb_evidence existing)) (ev_confidence (hb_evidence provider))
         then provider else existing) # rest
      else existing # provider_set_insert provider rest)"

definition accepted :: "(http_boundary \<Rightarrow> bool) \<Rightarrow> provider_set \<Rightarrow> http_boundary list" where
  "accepted accept providers = filter accept providers"

datatype route_node = RouteNode
  (rn_statics: "(string \<times> route_node) list")
  (rn_mixed: "(string list \<times> route_node) list")
  (rn_param: "route_node option")
  (rn_catch_all: provider_set)
  (rn_terminal: provider_set)

definition empty_node :: route_node where
  "empty_node = RouteNode [] [] None [] []"

definition or_empty :: "route_node option \<Rightarrow> route_node" where
  "or_empty child = (case child of None \<Rightarrow> empty_node | Some c \<Rightarrow> c)"

fun route_node_insert :: "route_segment list \<Rightarrow> http_boundary \<Rightarrow> route_node \<Rightarrow> route_node" where
  "route_node_insert [] provider (RouteNode statics mixed param catch_all terminal) =
     RouteNode statics mixed param catch_all (provider_set_insert provider terminal)"
| "route_node_insert (first # rest) provider (RouteNode statics mixed param catch_all terminal) =
     (case first of
        Static value \<Rightarrow>
          RouteNode (bt_insert value (route_node_insert rest provider (or_empty (bt_get statics value))) statics)
            mixed param catch_all terminal
      | Param \<Rightarrow>
          RouteNode statics mixed (Some (route_node_insert rest provider (or_empty param))) catch_all terminal
      | Mixed literals \<Rightarrow>
          RouteNode statics
            (bt_insert literals (route_node_insert rest provider (or_empty (bt_get mixed literals))) mixed)
            param catch_all terminal
      | CatchAll \<Rightarrow> RouteNode statics mixed param (provider_set_insert provider catch_all) terminal)"

fun mixed_key_matches :: "route_segment \<Rightarrow> string list \<Rightarrow> bool" where
  "mixed_key_matches (Static value) literals = mixed_segment_matches literals value"
| "mixed_key_matches (Mixed query_literals) literals = (literals = query_literals)"
| "mixed_key_matches Param literals = False"
| "mixed_key_matches CatchAll literals = False"

definition static_child :: "route_segment \<Rightarrow> route_node \<Rightarrow> route_node option" where
  "static_child first n = (case first of Static value \<Rightarrow> bt_get (rn_statics n) value | _ \<Rightarrow> None)"

fun route_node_find :: "route_segment list \<Rightarrow> (http_boundary \<Rightarrow> bool) \<Rightarrow> route_node \<Rightarrow> http_boundary list" where
  "route_node_find [] accept n = accepted accept (rn_terminal n)"
| "route_node_find (first # rest) accept n =
     (let found = (case static_child first n of None \<Rightarrow> [] | Some child \<Rightarrow> route_node_find rest accept child) in
      if found \<noteq> [] then found
      else
        let mixed_matches = concat (map (\<lambda>(literals, child). route_node_find rest accept child)
              (filter (\<lambda>(literals, child). mixed_key_matches first literals) (rn_mixed n))) in
        if mixed_matches \<noteq> [] then mixed_matches
        else
          let found = (if first = CatchAll then []
                else case rn_param n of None \<Rightarrow> [] | Some child \<Rightarrow> route_node_find rest accept child) in
          if found \<noteq> [] then found
          else accepted accept (rn_catch_all n))"

subsection \<open>The route index and call resolution\<close>

datatype route_resolution = Unique http_boundary | AmbiguousRoute "http_boundary list" | Unmatched

type_synonym route_index = "(string, route_node) btree_map"

definition index_provider :: "http_boundary \<Rightarrow> route_index \<Rightarrow> route_index" where
  "index_provider provider index =
     bt_insert (hb_method provider)
       (route_node_insert (route_shape_parse (hb_path provider)) provider
         (or_empty (bt_get index (hb_method provider)))) index"

definition route_index_new :: "http_boundary list \<Rightarrow> route_index" where
  "route_index_new boundaries =
     fold index_provider (filter (\<lambda>boundary. hb_role boundary = Provider) boundaries) []"

definition in_repository :: "repo_id \<Rightarrow> http_boundary \<Rightarrow> bool" where
  "in_repository repository provider \<longleftrightarrow> n_repo_id (hb_node provider) = Some repository"

definition found_routes ::
  "route_index \<Rightarrow> string \<Rightarrow> string \<Rightarrow> repo_id option \<Rightarrow> http_boundary list" where
  "found_routes index method_name path restriction =
     (case bt_get index method_name of
        None \<Rightarrow> []
      | Some trie \<Rightarrow> route_node_find (route_shape_parse path)
          (case restriction of Some repository \<Rightarrow> in_repository repository | None \<Rightarrow> (\<lambda>_. True)) trie)"

definition prefer_caller :: "repo_id option \<Rightarrow> http_boundary list \<Rightarrow> http_boundary list" where
  "prefer_caller caller_repository found =
     (case caller_repository of
        Some caller \<Rightarrow>
          (let local = filter (in_repository caller) found in
           if 1 < length found \<and> length local = 1 then local else found)
      | None \<Rightarrow> found)"

definition resolution_of :: "http_boundary list \<Rightarrow> route_resolution" where
  "resolution_of found = (case found of [] \<Rightarrow> Unmatched | [provider] \<Rightarrow> Unique provider | _ \<Rightarrow> AmbiguousRoute found)"

definition resolve ::
  "route_index \<Rightarrow> string \<Rightarrow> string \<Rightarrow> repo_id option \<Rightarrow> repo_id option \<Rightarrow> route_resolution" where
  "resolve index method_name path caller_repository restriction =
     (case bt_get index method_name of
        None \<Rightarrow> Unmatched
      | Some trie \<Rightarrow>
          resolution_of (prefer_caller caller_repository (found_routes index method_name path restriction)))"

datatype restriction = WorkspaceRestriction | Strict repo_id | Preferred repo_id | ExternalRestriction

definition scope_restriction :: "call_scope \<Rightarrow> repo_id option \<Rightarrow> authority_map \<Rightarrow> restriction" where
  "scope_restriction scope caller_repository authorities =
     (case scope of
        WorkspaceScope \<Rightarrow> WorkspaceRestriction
      | InProcess \<Rightarrow> (case caller_repository of None \<Rightarrow> WorkspaceRestriction | Some r \<Rightarrow> Strict r)
      | Authority authority \<Rightarrow>
          (case lookup_authority authorities authority of
             WorkspaceTarget \<Rightarrow> WorkspaceRestriction
           | DeclaredTarget repository \<Rightarrow> Strict repository
           | InferredTarget repository \<Rightarrow> Preferred repository
           | ExternalTarget \<Rightarrow> ExternalRestriction)
      | ExternalScope \<Rightarrow> ExternalRestriction)"

datatype call_resolution = RouteCall route_resolution | ExternalCall

definition resolve_call ::
  "route_index \<Rightarrow> string \<Rightarrow> string \<Rightarrow> repo_id option \<Rightarrow> call_scope \<Rightarrow> authority_map \<Rightarrow> call_resolution" where
  "resolve_call index method_name path caller_repository scope authorities =
     (case scope_restriction scope caller_repository authorities of
        WorkspaceRestriction \<Rightarrow> RouteCall (resolve index method_name path caller_repository None)
      | Strict repository \<Rightarrow> RouteCall (resolve index method_name path caller_repository (Some repository))
      | Preferred repository \<Rightarrow>
          RouteCall (case resolve index method_name path caller_repository (Some repository) of
              Unmatched \<Rightarrow> resolve index method_name path caller_repository None
            | resolution \<Rightarrow> resolution)
      | ExternalRestriction \<Rightarrow> ExternalCall)"


subsection \<open>What a trie stores\<close>

fun rn_at :: "route_node \<Rightarrow> route_shape \<Rightarrow> provider_set" where
  "rn_at n [] = rn_terminal n"
| "rn_at n (Static value # rest) = (case bt_get (rn_statics n) value of None \<Rightarrow> [] | Some c \<Rightarrow> rn_at c rest)"
| "rn_at n (Mixed literals # rest) = (case bt_get (rn_mixed n) literals of None \<Rightarrow> [] | Some c \<Rightarrow> rn_at c rest)"
| "rn_at n (Param # rest) = (case rn_param n of None \<Rightarrow> [] | Some c \<Rightarrow> rn_at c rest)"
| "rn_at n (CatchAll # rest) = rn_catch_all n"

text \<open>A shape ends with its first catch-all.\<close>

fun cut :: "route_shape \<Rightarrow> route_shape" where
  "cut [] = []"
| "cut (s # ss) = (if s = CatchAll then [s] else s # cut ss)"

text \<open>The invariant of the trie: the child maps are ordered, all the way down.\<close>

inductive rn_wf :: "route_node \<Rightarrow> bool" where
  rn_wfI: "\<lbrakk>bt_wf statics; bt_wf mixed; \<And>k c. (k, c) \<in> set statics \<Longrightarrow> rn_wf c;
    \<And>k c. (k, c) \<in> set mixed \<Longrightarrow> rn_wf c; \<And>c. param = Some c \<Longrightarrow> rn_wf c\<rbrakk>
    \<Longrightarrow> rn_wf (RouteNode statics mixed param catch_all terminal)"

inductive_simps rn_wf_simps: "rn_wf (RouteNode statics mixed param catch_all terminal)"

lemma rn_wf_empty [simp]: "rn_wf empty_node"
  by (auto simp: empty_node_def rn_wf_simps)

lemma rn_at_empty [simp]: "rn_at empty_node s = []"
  by (cases "(empty_node, s)" rule: rn_at.cases) (auto simp: empty_node_def)

lemma bt_insert_mem: "(k, c) \<in> set (bt_insert k' c' m) \<Longrightarrow> (k, c) = (k', c') \<or> (k, c) \<in> set m"
  by (induction m) (auto split: if_splits)

lemma rn_wf_or_empty: "(\<And>c. child = Some c \<Longrightarrow> rn_wf c) \<Longrightarrow> rn_wf (or_empty child)"
  by (simp add: or_empty_def split: option.splits)

lemma rn_wf_insert: "rn_wf n \<Longrightarrow> rn_wf (route_node_insert s p n)"
proof (induction s p n rule: route_node_insert.induct)
  case (2 first rest p statics mixed param ca te)
  have sub: "rn_wf (or_empty (bt_get statics v))" "rn_wf (or_empty (bt_get mixed l))" "rn_wf (or_empty param)" for v l
    using "2.prems" by (auto intro!: rn_wf_or_empty simp: rn_wf_simps dest: map_of_SomeD)
  show ?case
    using 2 sub by (cases first) (auto simp: rn_wf_simps dest!: bt_insert_mem)
qed (auto simp: rn_wf_simps)

lemma rn_at_or_empty: "rn_at (or_empty child) s = (case child of None \<Rightarrow> [] | Some c \<Rightarrow> rn_at c s)"
  by (simp add: or_empty_def split: option.splits)

lemma bt_get_insert_if: "bt_get (bt_insert k v m) k' = (if k' = k then Some v else bt_get m k')"
  by simp

lemma rn_at_insert:
  "rn_at (route_node_insert s p n) s' = (if cut s = cut s' then provider_set_insert p (rn_at n s') else rn_at n s')"
proof (induction s p n arbitrary: s' rule: route_node_insert.induct)
  case (1 p statics mixed param ca te)
  then show ?case by (cases s'; cases "hd s'") auto
next
  case (2 first rest p statics mixed param ca te)
  show ?case
    using 2 by (cases first; cases s'; cases "hd s'") (auto simp: rn_at_or_empty bt_get_insert_if
      simp del: bt_get_insert_same bt_get_insert_other split: option.splits)
qed

subsection \<open>Matching and specificity of shapes\<close>

text \<open>A stored shape matches a query; segment by segment the more specific kind wins.\<close>

fun covers :: "route_shape \<Rightarrow> route_shape \<Rightarrow> bool" where
  "covers [] query = (query = [])"
| "covers (seg # rest) [] = False"
| "covers (seg # rest) (first # query) =
     (case seg of
        Static value \<Rightarrow> first = Static value \<and> covers rest query
      | Mixed literals \<Rightarrow> mixed_key_matches first literals \<and> covers rest query
      | Param \<Rightarrow> first \<noteq> CatchAll \<and> covers rest query
      | CatchAll \<Rightarrow> True)"

fun seg_rank :: "route_segment \<Rightarrow> nat" where
  "seg_rank (Static v) = 0"
| "seg_rank (Mixed ls) = 1"
| "seg_rank Param = 2"
| "seg_rank CatchAll = 3"

fun more_specific :: "route_shape \<Rightarrow> route_shape \<Rightarrow> bool" where
  "more_specific (a # s) (b # t) =
     (if a = b then a \<noteq> CatchAll \<and> more_specific s t else seg_rank a < seg_rank b)"
| "more_specific s t = False"

definition candidate ::
  "('p \<Rightarrow> bool) \<Rightarrow> (route_shape \<Rightarrow> 'p list) \<Rightarrow> route_shape \<Rightarrow> route_shape \<Rightarrow> 'p \<Rightarrow> bool" where
  "candidate accept stored query s p \<longleftrightarrow> covers s query \<and> p \<in> set (stored s) \<and> accept p"

definition best :: "('p \<Rightarrow> bool) \<Rightarrow> (route_shape \<Rightarrow> 'p list) \<Rightarrow> route_shape \<Rightarrow> 'p \<Rightarrow> bool" where
  "best accept stored query p \<longleftrightarrow>
     (\<exists>s. candidate accept stored query s p
        \<and> \<not> (\<exists>s' p'. candidate accept stored query s' p' \<and> more_specific s' s))"

lemma covers_Nil [simp]: "covers s [] \<longleftrightarrow> s = []"
  by (cases s) auto

lemma candidate_Nil: "candidate accept (rn_at n) [] s p \<longleftrightarrow> s = [] \<and> p \<in> set (accepted accept (rn_terminal n))"
  by (auto simp: candidate_def accepted_def)

text \<open>The three groups of children that the lookup tries in turn.\<close>

definition find_static where
  "find_static f q accept n = (case static_child f n of None \<Rightarrow> [] | Some child \<Rightarrow> route_node_find q accept child)"

definition find_mixed where
  "find_mixed f q accept n = concat (map (\<lambda>(literals, child). route_node_find q accept child)
     (filter (\<lambda>(literals, child). mixed_key_matches f literals) (rn_mixed n)))"

definition find_param where
  "find_param f q accept n = (if f = CatchAll then []
     else case rn_param n of None \<Rightarrow> [] | Some child \<Rightarrow> route_node_find q accept child)"

lemma route_node_find_Cons:
  "route_node_find (f # q) accept n =
     (if find_static f q accept n \<noteq> [] then find_static f q accept n
      else if find_mixed f q accept n \<noteq> [] then find_mixed f q accept n
      else if find_param f q accept n \<noteq> [] then find_param f q accept n
      else accepted accept (rn_catch_all n))"
  unfolding route_node_find.simps find_static_def find_mixed_def find_param_def Let_def by (rule refl)

declare route_node_find.simps(2) [simp del]

lemma mem_case_option: "p \<in> set (case x of None \<Rightarrow> [] | Some c \<Rightarrow> g c) \<longleftrightarrow> (\<exists>c. x = Some c \<and> p \<in> set (g c))"
  by (cases x) auto

fun child_of :: "route_segment \<Rightarrow> route_node \<Rightarrow> route_segment \<Rightarrow> route_node option" where
  "child_of f n (Static v) = (if f = Static v then bt_get (rn_statics n) v else None)"
| "child_of f n (Mixed l) = (if mixed_key_matches f l then bt_get (rn_mixed n) l else None)"
| "child_of f n Param = (if f \<noteq> CatchAll then rn_param n else None)"
| "child_of f n CatchAll = None"

lemma rn_wf_child_of: "rn_wf n \<Longrightarrow> child_of f n a = Some c \<Longrightarrow> rn_wf c"
  by (cases n; cases a) (auto simp: rn_wf_simps split: if_splits dest: map_of_SomeD)

lemma rn_wf_mixed: "rn_wf n \<Longrightarrow> bt_wf (rn_mixed n)"
  by (cases n) (simp add: rn_wf_simps)

lemma find_mixed_mem:
  assumes "rn_wf n"
  shows "p \<in> set (find_mixed f q accept n) \<longleftrightarrow>
    (\<exists>l c. bt_get (rn_mixed n) l = Some c \<and> mixed_key_matches f l \<and> p \<in> set (route_node_find q accept c))"
  using bt_get_iff_mem [OF rn_wf_mixed [OF assms]] by (fastforce simp: find_mixed_def)

lemma candidate_Cons:
  "candidate accept (rn_at n) (f # q) (a # s) p \<longleftrightarrow>
     (if a = CatchAll then p \<in> set (accepted accept (rn_catch_all n))
      else \<exists>c. child_of f n a = Some c \<and> candidate accept (rn_at c) q s p)"
  by (cases a) (auto simp: candidate_def accepted_def mem_case_option, metis+)

lemma candidate_Cons_nonempty: "candidate accept store (f # q) s p \<Longrightarrow> \<exists>a t. s = a # t"
  by (cases s) (auto simp: candidate_def)

lemma find_group_mem:
  assumes "rn_wf n"
  shows "p \<in> set (find_static f q accept n) \<longleftrightarrow>
      (\<exists>a c. seg_rank a = 0 \<and> child_of f n a = Some c \<and> p \<in> set (route_node_find q accept c))"
    and "p \<in> set (find_mixed f q accept n) \<longleftrightarrow>
      (\<exists>a c. seg_rank a = 1 \<and> child_of f n a = Some c \<and> p \<in> set (route_node_find q accept c))"
    and "p \<in> set (find_param f q accept n) \<longleftrightarrow>
      (\<exists>a c. seg_rank a = 2 \<and> child_of f n a = Some c \<and> p \<in> set (route_node_find q accept c))"
proof -
  have rank: "seg_rank a = 0 \<longleftrightarrow> (\<exists>v. a = Static v)" "seg_rank a = 1 \<longleftrightarrow> (\<exists>l. a = Mixed l)"
      "seg_rank a = 2 \<longleftrightarrow> a = Param" for a
    by (cases a; simp)+
  show "p \<in> set (find_static f q accept n) \<longleftrightarrow>
      (\<exists>a c. seg_rank a = 0 \<and> child_of f n a = Some c \<and> p \<in> set (route_node_find q accept c))"
    unfolding rank
    by (cases f) (simp_all add: find_static_def static_child_def mem_case_option,
        metis child_of.simps(1) option.distinct(1) route_segment.inject(1), (metis child_of.simps(1) option.distinct(1) route_segment.distinct(1,3,5))+)
  show "p \<in> set (find_mixed f q accept n) \<longleftrightarrow>
      (\<exists>a c. seg_rank a = 1 \<and> child_of f n a = Some c \<and> p \<in> set (route_node_find q accept c))"
    unfolding rank find_mixed_mem [OF assms] by (metis child_of.simps(2) option.distinct(1))
  show "p \<in> set (find_param f q accept n) \<longleftrightarrow>
      (\<exists>a c. seg_rank a = 2 \<and> child_of f n a = Some c \<and> p \<in> set (route_node_find q accept c))"
    unfolding rank by (auto simp: find_param_def mem_case_option split: if_splits, metis)
qed

text \<open>
  The candidates below the segments of the least rank that has any: they are the best ones of the whole
  node, decided by the children alone.
\<close>

lemma best_group:
  assumes some: "seg_rank a0 = k" "candidate accept store (f # q) (a0 # s0) p0"
    and least: "\<And>b s p. candidate accept store (f # q) (b # s) p \<Longrightarrow> k \<le> seg_rank b" and "k < 3"
    and child: "\<And>a s p. seg_rank a = k \<Longrightarrow>
      candidate accept store (f # q) (a # s) p \<longleftrightarrow> (\<exists>c. ch a = Some c \<and> candidate accept (sub c) q s p)"
  shows "best accept store (f # q) p \<longleftrightarrow> (\<exists>a c. seg_rank a = k \<and> ch a = Some c \<and> best accept (sub c) q p)"
proof
  assume "best accept store (f # q) p"
  then obtain a s where s: "candidate accept store (f # q) (a # s) p"
      "\<not> (\<exists>s' p'. candidate accept store (f # q) s' p' \<and> more_specific s' (a # s))"
    unfolding best_def using candidate_Cons_nonempty by metis
  have rank: "seg_rank a = k"
    using s(2) some least [OF s(1)] by (metis le_neq_implies_less more_specific.simps(1))
  then obtain c where c: "ch a = Some c" "candidate accept (sub c) q s p" using child s(1) by blast
  have "\<not> more_specific s' s" if "candidate accept (sub c) q s' p'" for s' p'
    using that c(1) child [OF rank] s(2) rank \<open>k < 3\<close>
    by (metis less_irrefl more_specific.simps(1) seg_rank.simps(4))
  then have "best accept (sub c) q p" using c(2) unfolding best_def by blast
  with rank c(1) show "\<exists>a c. seg_rank a = k \<and> ch a = Some c \<and> best accept (sub c) q p" by blast
next
  assume "\<exists>a c. seg_rank a = k \<and> ch a = Some c \<and> best accept (sub c) q p"
  then obtain a c s where c: "seg_rank a = k" "ch a = Some c" "candidate accept (sub c) q s p"
      "\<not> (\<exists>s' p'. candidate accept (sub c) q s' p' \<and> more_specific s' s)"
    unfolding best_def by blast
  have "\<not> more_specific t (a # s)" if t: "candidate accept store (f # q) t p'" for t p'
  proof -
    obtain b s' where b: "t = b # s'" using candidate_Cons_nonempty [OF t] by blast
    show ?thesis
      using least [of b s' p'] t c child [OF c(1), of s' p'] unfolding b by auto
  qed
  moreover have "candidate accept store (f # q) (a # s) p" using c child by blast
  ultimately show "best accept store (f # q) p" unfolding best_def by blast
qed

lemma find_none:
  "rn_wf n \<Longrightarrow> route_node_find q accept n = [] \<longleftrightarrow> \<not> (\<exists>s p. candidate accept (rn_at n) q s p)"
proof (induction q arbitrary: n)
  case Nil
  then show ?case by (auto simp: candidate_Nil)
next
  case (Cons f q)
  have mem: "(\<exists>p. p \<in> set (route_node_find q accept c)) \<longleftrightarrow> (\<exists>s p. candidate accept (rn_at c) q s p)"
    if "child_of f n a = Some c" for a c
    using Cons.IH [OF rn_wf_child_of [OF Cons.prems that]] by (metis set_empty ex_in_conv)
  have rank: "seg_rank a = 0 \<or> seg_rank a = 1 \<or> seg_rank a = 2" "a \<noteq> CatchAll" if "child_of f n a = Some c" for a c
    using that by (cases a; simp)+
  have "route_node_find (f # q) accept n = [] \<longleftrightarrow>
      \<not> (\<exists>p. p \<in> set (find_static f q accept n) \<union> set (find_mixed f q accept n) \<union> set (find_param f q accept n)
          \<union> set (accepted accept (rn_catch_all n)))"
    by (simp add: route_node_find_Cons ex_disj_distrib ex_in_conv)
  also have "\<dots> \<longleftrightarrow> \<not> (\<exists>a s p. candidate accept (rn_at n) (f # q) (a # s) p)"
  proof -
    have "(\<exists>p. p \<in> set (find_static f q accept n) \<union> set (find_mixed f q accept n) \<union> set (find_param f q accept n)
          \<union> set (accepted accept (rn_catch_all n))) \<longleftrightarrow>
        (\<exists>p. p \<in> set (accepted accept (rn_catch_all n)))
        \<or> (\<exists>a c p. child_of f n a = Some c \<and> p \<in> set (route_node_find q accept c))"
      unfolding Un_iff find_group_mem [OF Cons.prems] using rank(1) by meson
    also have "\<dots> \<longleftrightarrow> (\<exists>a s p. candidate accept (rn_at n) (f # q) (a # s) p)"
      unfolding candidate_Cons using mem rank(2) by (metis (full_types))
    finally show ?thesis by blast
  qed
  also have "\<dots> \<longleftrightarrow> \<not> (\<exists>s p. candidate accept (rn_at n) (f # q) s p)"
    using candidate_Cons_nonempty by metis
  finally show ?case .
qed

text \<open>A lookup returns exactly the accepted providers of the most specific matching shapes.\<close>

lemma find_exact:
  "rn_wf n \<Longrightarrow> p \<in> set (route_node_find q accept n) \<longleftrightarrow> best accept (rn_at n) q p"
proof (induction q arbitrary: n)
  case Nil
  then show ?case by (simp add: best_def candidate_Nil)
next
  case (Cons f q)
  define G where "G k = {p. \<exists>a c. seg_rank a = k \<and> child_of f n a = Some c \<and> p \<in> set (route_node_find q accept c)}"
    for k
  have none: "k < 3 \<Longrightarrow> G k = {} \<longleftrightarrow>
      \<not> (\<exists>a s p. seg_rank a = k \<and> candidate accept (rn_at n) (f # q) (a # s) p)" for k
  proof -
    assume "k < 3"
    then have rank: "seg_rank a = k \<Longrightarrow> a \<noteq> CatchAll" for a by auto
    have "(\<exists>p. p \<in> set (route_node_find q accept c)) \<longleftrightarrow> (\<exists>s p. candidate accept (rn_at c) q s p)"
      if "child_of f n a = Some c" for a c
      using find_none [OF rn_wf_child_of [OF Cons.prems that]] by (metis set_empty ex_in_conv)
    then show ?thesis using rank unfolding candidate_Cons G_def by auto blast+
  qed
  have group: "p \<in> G k \<longleftrightarrow> best accept (rn_at n) (f # q) p"
    if k: "k < 3" "G k \<noteq> {}" "\<And>j. j < k \<Longrightarrow> G j = {}" for k
  proof -
    obtain a0 s0 p0 where some: "seg_rank a0 = k" "candidate accept (rn_at n) (f # q) (a0 # s0) p0"
      using none [OF k(1)] k(2) by blast
    have "best accept (rn_at n) (f # q) p \<longleftrightarrow>
        (\<exists>a c. seg_rank a = k \<and> child_of f n a = Some c \<and> best accept (rn_at c) q p)"
    proof (rule best_group [OF some _ k(1)])
      show "k \<le> seg_rank b" if "candidate accept (rn_at n) (f # q) (b # s) p" for b s p
      proof (rule ccontr)
        assume "\<not> k \<le> seg_rank b"
        then have "seg_rank b < k" by simp
        then have "G (seg_rank b) = {}" "seg_rank b < 3" using k(1) k(3) [of "seg_rank b"] by (blast, linarith)
        then show False using that none [of "seg_rank b"] by blast
      qed
      show "candidate accept (rn_at n) (f # q) (a # s) p \<longleftrightarrow>
          (\<exists>c. child_of f n a = Some c \<and> candidate accept (rn_at c) q s p)" if "seg_rank a = k" for a s p
        using that k(1) by (auto simp: candidate_Cons)
    qed
    then show ?thesis using Cons.IH [OF rn_wf_child_of [OF Cons.prems]] by (auto simp: G_def)
  qed
  have groups: "set (find_static f q accept n) = G 0" "set (find_mixed f q accept n) = G 1"
      "set (find_param f q accept n) = G 2"
    by (simp_all only: G_def set_eq_iff mem_Collect_eq find_group_mem [OF Cons.prems] simp_thms)
  show ?case
  proof (cases "G 0 = {} \<and> G 1 = {} \<and> G 2 = {}")
    case True
    have "a = CatchAll" if "candidate accept (rn_at n) (f # q) (a # s) p'" for a s p'
    proof (rule ccontr)
      assume "a \<noteq> CatchAll"
      then have rank: "seg_rank a = 0 \<or> seg_rank a = 1 \<or> seg_rank a = 2" by (cases a) auto
      then have "G (seg_rank a) = {}" using True by (elim disjE) simp_all
      then show False using that none [of "seg_rank a"] rank by auto
    qed
    then have "best accept (rn_at n) (f # q) p \<longleftrightarrow> p \<in> set (accepted accept (rn_catch_all n))"
      unfolding best_def using candidate_Cons_nonempty [of accept "rn_at n" f q]
      by (metis candidate_Cons less_irrefl more_specific.simps(1))
    moreover have "set (route_node_find (f # q) accept n) = set (accepted accept (rn_catch_all n))"
      using True unfolding groups [symmetric] by (simp add: route_node_find_Cons)
    ultimately show ?thesis by simp
  next
    case False
    have "set (route_node_find (f # q) accept n) =
        (if G 0 \<noteq> {} then G 0 else if G 1 \<noteq> {} then G 1 else G 2)"
      using False unfolding groups [symmetric] by (auto simp: route_node_find_Cons)
    then show ?thesis
      using group [of 0] group [of 1] group [of 2] False by (auto simp: less_Suc_eq numeral_2_eq_2 split: if_splits)
  qed
qed


subsection \<open>The contract of a route table\<close>

text \<open>
  What the route index relies on: an insertion adds the provider to the set of its shape and leaves the
  other shapes alone, and a lookup returns exactly the best candidates. What a table built from a list
  of routes answers is proved once from these laws.
\<close>

locale route_table =
  fixes table_empty :: "'t"
    and table_insert :: "route_shape \<Rightarrow> 'p \<Rightarrow> 't \<Rightarrow> 't"
    and table_find :: "route_shape \<Rightarrow> ('p \<Rightarrow> bool) \<Rightarrow> 't \<Rightarrow> 'p list"
    and table_at :: "'t \<Rightarrow> route_shape \<Rightarrow> 'p list"
    and table_invar :: "'t \<Rightarrow> bool"
    and add :: "'p \<Rightarrow> 'p list \<Rightarrow> 'p list"
  assumes at_empty: "table_at table_empty s = []"
    and invar_empty: "table_invar table_empty"
    and at_insert: "table_at (table_insert s p t) s' = (if cut s = cut s' then add p (table_at t s') else table_at t s')"
    and invar_insert: "table_invar t \<Longrightarrow> table_invar (table_insert s p t)"
    and find_best: "table_invar t \<Longrightarrow> p \<in> set (table_find q accept t) \<longleftrightarrow> best accept (table_at t) q p"
begin

definition build :: "('p \<Rightarrow> route_shape) \<Rightarrow> 'p list \<Rightarrow> 't" where
  "build shape ps = fold (\<lambda>p. table_insert (shape p) p) ps table_empty"

lemma invar_fold: "table_invar t \<Longrightarrow> table_invar (fold (\<lambda>p. table_insert (shape p) p) ps t)"
  by (induction ps arbitrary: t) (simp_all add: invar_insert)

lemma at_fold:
  "table_at (fold (\<lambda>p. table_insert (shape p) p) ps t) s =
     fold add (filter (\<lambda>p. cut (shape p) = cut s) ps) (table_at t s)"
  by (induction ps arbitrary: t) (simp_all add: at_insert)

lemma find_build:
  "p \<in> set (table_find q accept (build shape ps)) \<longleftrightarrow>
     best accept (\<lambda>s. fold add (filter (\<lambda>p. cut (shape p) = cut s) ps) []) q p"
proof -
  have "table_at (build shape ps) = (\<lambda>s. fold add (filter (\<lambda>p. cut (shape p) = cut s) ps) [])"
    by (simp add: build_def at_fold at_empty fun_eq_iff)
  then show ?thesis
    using find_best [of "build shape ps"] invar_fold [OF invar_empty] by (simp add: build_def)
qed

end

interpretation trie: route_table empty_node route_node_insert route_node_find rn_at rn_wf provider_set_insert
  by unfold_locales (simp_all add: rn_at_insert rn_wf_insert find_exact)

subsection \<open>The index\<close>

lemma cut_parse [simp]: "cut (route_shape_parse path) = route_shape_parse path"
proof -
  have "cut (classify_until_catch_all ss) = classify_until_catch_all ss" for ss
    by (induction ss) (auto simp: Let_def)
  then show ?thesis by (simp add: route_shape_parse_def)
qed

text \<open>The providers of one method and shape, with duplicates of a node merged.\<close>

definition providers_for :: "http_boundary list \<Rightarrow> string \<Rightarrow> route_shape \<Rightarrow> provider_set" where
  "providers_for boundaries method_name s =
     fold provider_set_insert
       (filter (\<lambda>b. hb_role b = Provider \<and> hb_method b = method_name \<and> route_shape_parse (hb_path b) = s) boundaries) []"

definition allowed :: "repo_id option \<Rightarrow> http_boundary \<Rightarrow> bool" where
  "allowed restriction provider = (case restriction of None \<Rightarrow> True | Some repository \<Rightarrow> in_repository repository provider)"

lemma covers_cut [simp]: "covers (cut s) q = covers s q"
  by (induction s q rule: covers.induct) (auto split: route_segment.splits)

lemma more_specific_cut [simp]: "more_specific (cut s) (cut t) = more_specific s t"
  by (induction s t rule: more_specific.induct) auto

lemma cut_cut [simp]: "cut (cut s) = cut s"
  by (induction s) auto

lemma best_cut:
  assumes "\<And>s. store s \<noteq> [] \<Longrightarrow> cut s = s"
  shows "best accept (\<lambda>s. store (cut s)) q p \<longleftrightarrow> best accept store q p"
proof -
  have "candidate accept store q s p \<Longrightarrow> cut s = s" for s p
    using assms by (metis candidate_def empty_iff list.set(1))
  moreover have "candidate accept (\<lambda>s. store (cut s)) q s p \<longleftrightarrow> candidate accept store q (cut s) p" for s p
    by (simp add: candidate_def)
  ultimately show ?thesis
    unfolding best_def by (metis cut_cut more_specific_cut)
qed

lemma index_trie:
  "or_empty (bt_get (fold index_provider ps idx) m) =
     fold (\<lambda>p. route_node_insert (route_shape_parse (hb_path p)) p) (filter (\<lambda>p. hb_method p = m) ps)
       (or_empty (bt_get idx m))"
proof (induction ps arbitrary: idx)
  case (Cons p ps)
  show ?case
    by (simp add: Cons.IH) (auto simp: index_provider_def or_empty_def)
qed simp

lemma find_empty_node [simp]: "route_node_find q accept empty_node = []"
  by (simp add: find_none candidate_def)

lemma or_empty_None [simp]: "or_empty None = empty_node"
  by (simp add: or_empty_def)

lemma found_routes_eq:
  "found_routes index m path restriction =
     route_node_find (route_shape_parse path) (allowed restriction) (or_empty (bt_get index m))"
  by (auto simp: found_routes_def or_empty_def allowed_def [abs_def] split: option.splits)

lemma index_build:
  "or_empty (bt_get (route_index_new boundaries) m) =
     trie.build (\<lambda>p. route_shape_parse (hb_path p)) (filter (\<lambda>b. hb_role b = Provider \<and> hb_method b = m) boundaries)"
  by (simp add: route_index_new_def index_trie trie.build_def conj_commute)

lemma providers_for_cut: "p \<in> set (providers_for boundaries m s) \<Longrightarrow> cut s = s"
  by (cases "filter (\<lambda>b. hb_role b = Provider \<and> hb_method b = m \<and> route_shape_parse (hb_path b) = s) boundaries = []")
    (auto simp: providers_for_def filter_empty_conv)

lemma found_routes_best:
  "p \<in> set (found_routes (route_index_new boundaries) m path restriction) \<longleftrightarrow>
     best (allowed restriction) (providers_for boundaries m) (route_shape_parse path) p"
proof -
  have "p \<in> set (found_routes (route_index_new boundaries) m path restriction) \<longleftrightarrow>
      best (allowed restriction) (\<lambda>s. providers_for boundaries m (cut s)) (route_shape_parse path) p"
    by (simp add: found_routes_eq index_build trie.find_build providers_for_def)
  moreover have "providers_for boundaries m s \<noteq> [] \<Longrightarrow> cut s = s" for s
    by (meson hd_in_set providers_for_cut)
  ultimately show ?thesis by (simp add: best_cut)
qed

lemma found_routes_none:
  "found_routes (route_index_new boundaries) m path restriction = [] \<longleftrightarrow>
     \<not> (\<exists>s p. candidate (allowed restriction) (providers_for boundaries m) (route_shape_parse path) s p)"
proof -
  define t where "t = trie.build (\<lambda>p. route_shape_parse (hb_path p))
    (filter (\<lambda>b. hb_role b = Provider \<and> hb_method b = m) boundaries)"
  have stored: "rn_at t s = providers_for boundaries m (cut s)" for s
    by (simp add: t_def trie.build_def trie.at_fold trie.at_empty providers_for_def)
  have "rn_wf t" unfolding t_def trie.build_def by (rule trie.invar_fold [OF trie.invar_empty])
  then have "found_routes (route_index_new boundaries) m path restriction = [] \<longleftrightarrow>
      \<not> (\<exists>s p. candidate (allowed restriction) (rn_at t) (route_shape_parse path) s p)"
    unfolding found_routes_eq index_build t_def [symmetric] by (rule find_none)
  moreover have "(\<exists>s p. candidate accept (rn_at t) q s p) \<longleftrightarrow> (\<exists>s p. candidate accept (providers_for boundaries m) q s p)"
    for accept q
    unfolding candidate_def stored using providers_for_cut covers_cut by metis
  ultimately show ?thesis by simp
qed

lemma provider_set_insert_props:
  "set (provider_set_insert p ps) \<subseteq> insert p (set ps)"
  "(\<lambda>b. n_id (hb_node b)) ` set (provider_set_insert p ps) = insert (n_id (hb_node p)) ((\<lambda>b. n_id (hb_node b)) ` set ps)"
  by (induction ps) auto

lemma provider_set_insert_distinct:
  "distinct (map (\<lambda>b. n_id (hb_node b)) ps) \<Longrightarrow> distinct (map (\<lambda>b. n_id (hb_node b)) (provider_set_insert p ps))"
proof (induction ps)
  case (Cons q ps)
  then show ?case using provider_set_insert_props(2) [of p ps] by (auto simp: image_iff)
qed simp

abbreviation confidence_of :: "http_boundary \<Rightarrow> f32" where
  "confidence_of b \<equiv> ev_confidence (hb_evidence b)"

definition represents :: "http_boundary \<Rightarrow> http_boundary \<Rightarrow> bool" where
  "represents r b \<longleftrightarrow> n_id (hb_node r) = n_id (hb_node b) \<and> \<not> fp_lt (confidence_of r) (confidence_of b)"

lemma fp_lt_chain: "fp_lt a b \<Longrightarrow> \<not> fp_lt a c \<Longrightarrow> \<not> fp_lt b c"
  unfolding fp_lt_def by auto

lemma represents_replace:
  "represents r b \<Longrightarrow> n_id (hb_node p) = n_id (hb_node r) \<Longrightarrow> fp_lt (confidence_of r) (confidence_of p) \<Longrightarrow> represents p b"
  using fp_lt_chain [of "confidence_of r" "confidence_of p" "confidence_of b"] by (simp add: represents_def)

lemma represents_self [simp]: "represents r r"
  by (simp add: represents_def fp_lt_def)

lemma provider_set_insert_new: "\<exists>r \<in> set (provider_set_insert p ps). represents r p"
proof (induction ps)
  case (Cons q ps)
  have "n_id (hb_node q) = n_id (hb_node p) \<Longrightarrow> \<not> fp_lt (confidence_of q) (confidence_of p) \<Longrightarrow> represents q p"
    by (simp add: represents_def)
  then show ?case using Cons by auto
qed simp

lemma provider_set_insert_old:
  "r \<in> set ps \<Longrightarrow> represents r b \<Longrightarrow> \<exists>r' \<in> set (provider_set_insert p ps). represents r' b"
proof (induction ps)
  case (Cons q ps)
  then show ?case using represents_replace [of q b p] by auto
qed simp

lemma providers_fold:
  shows "set (fold provider_set_insert bs ps) \<subseteq> set bs \<union> set ps"
    and "distinct (map (\<lambda>b. n_id (hb_node b)) ps) \<Longrightarrow> distinct (map (\<lambda>b. n_id (hb_node b)) (fold provider_set_insert bs ps))"
    and "\<exists>r \<in> set ps. represents r b \<Longrightarrow> \<exists>r \<in> set (fold provider_set_insert bs ps). represents r b"
    and "b \<in> set bs \<Longrightarrow> \<exists>r \<in> set (fold provider_set_insert bs ps). represents r b"
proof (induction bs arbitrary: ps)
  case (Cons x bs)
  { case 1 then show ?case using Cons(1) [of "provider_set_insert x ps"] provider_set_insert_props(1) [of x ps] by auto
  next case 2 then show ?case using Cons(2) provider_set_insert_distinct by simp
  next case 3 then show ?case using Cons(3) [of "provider_set_insert x ps"] provider_set_insert_old by fastforce
  next case 4 then show ?case
      using Cons(3) [of "provider_set_insert x ps"] Cons(4) [of "provider_set_insert x ps"] provider_set_insert_new by auto
  }
qed auto

subsection \<open>Inferred authorities\<close>

text \<open>The key under which a host name is recorded, and the names of a document.\<close>

definition host_key :: "string \<Rightarrow> string option" where
  "host_key host = map_option (\<lambda>h. service_host (authority_host h)) (normalize_authority host)"

definition document_hosts :: "infrastructure_document \<Rightarrow> string list" where
  "document_hosts document =
     concat (map (\<lambda>unit. [du_name unit] @ du_service_names unit @ du_host_aliases unit) (id_deployment_units document))
     @ map ir_name (filter (\<lambda>resource. ir_kind resource = ServiceResource) (id_resources document))"

definition verdict :: "repo_id set \<Rightarrow> repo_id option option" where
  "verdict rs = (if rs = {} then None else if \<exists>r. rs = {r} then Some (Some (the_elem rs)) else Some None)"

lemma verdict_insert:
  "verdict (insert r rs) = Some (case verdict rs of None \<Rightarrow> Some r | Some x \<Rightarrow> if x \<noteq> Some r then None else x)"
proof (cases "rs = {} \<or> rs = {r}")
  case False
  then have "\<not> (\<exists>r'. insert r rs = {r'})" by blast
  then show ?thesis using False by (auto simp: verdict_def)
qed (auto simp: verdict_def)

lemma infer_fold:
  assumes "bt_get (am_inferred m) h = verdict rs"
  shows "bt_get (am_inferred (fold (\<lambda>(host, r). infer host r) claims m)) h =
      verdict ({r. \<exists>host. (host, r) \<in> set claims \<and> host_key host = Some h} \<union> rs)"
  using assms
proof (induction claims arbitrary: m rs)
  case (Cons claim claims)
  obtain host r where claim: "claim = (host, r)" by fastforce
  show ?case
  proof (cases "host_key host = Some h")
    case True
    then have "bt_get (am_inferred (infer host r m)) h = verdict (insert r rs)"
      using Cons.prems by (auto simp: infer_def host_key_def Let_def verdict_insert split: option.splits)
    from Cons.IH [OF this] show ?thesis
      using True claim by (auto intro!: arg_cong [where f = verdict])
  next
    case False
    then have "bt_get (am_inferred (infer host r m)) h = verdict rs"
      using Cons.prems by (auto simp: infer_def host_key_def Let_def split: option.splits)
    from Cons.IH [OF this] show ?thesis
      using False claim by (auto intro!: arg_cong [where f = verdict])
  qed
qed simp

lemma infer_document:
  "infer_from_infrastructure repository document m =
     fold (\<lambda>(host, r). infer host r) (map (\<lambda>host. (host, repository)) (document_hosts document)) m"
proof -
  have units: "fold (\<lambda>unit m. fold (\<lambda>host. infer host repository)
        ([du_name unit] @ du_service_names unit @ du_host_aliases unit) m) us m
      = fold (\<lambda>host. infer host repository)
        (concat (map (\<lambda>unit. [du_name unit] @ du_service_names unit @ du_host_aliases unit) us)) m" for us m
    by (induction us arbitrary: m) (simp_all add: fold_append)
  show ?thesis
    unfolding infer_from_infrastructure_def document_hosts_def Let_def units
    by (simp add: fold_append fold_map comp_def)
qed

lemma infer_documents:
  "fold (\<lambda>(repository, document). infer_from_infrastructure repository document) docs m =
     fold (\<lambda>(host, r). infer host r)
       (concat (map (\<lambda>(repository, document). map (\<lambda>host. (host, repository)) (document_hosts document)) docs)) m"
  by (induction docs arbitrary: m) (auto simp: infer_document fold_append)

lemma infer_keeps_declared: "am_declared (fold (\<lambda>(host, r). infer host r) claims m) = am_declared m"
proof -
  have "am_declared (infer host r m) = am_declared m" for host r m
    by (auto simp: infer_def Let_def split: option.splits)
  then show ?thesis by (induction claims arbitrary: m) auto
qed


subsection \<open>Resolution\<close>

lemma resolve_eq: "resolve index m path caller restriction =
    resolution_of (prefer_caller caller (found_routes index m path restriction))"
  by (auto simp: resolve_def found_routes_def resolution_of_def prefer_caller_def split: option.splits)

lemma prefer_caller_subset: "set (prefer_caller caller found) \<subseteq> set found"
  by (auto simp: prefer_caller_def Let_def split: option.splits if_splits)

lemma prefer_caller_empty [simp]: "prefer_caller caller found = [] \<longleftrightarrow> found = []"
  by (auto simp: prefer_caller_def Let_def split: option.splits if_splits)

lemma resolution_of_props:
  "resolution_of found = Unmatched \<longleftrightarrow> found = []"
  "resolution_of found = Unique p \<longleftrightarrow> found = [p]"
  "resolution_of found = AmbiguousRoute ps \<longleftrightarrow> found = ps \<and> 1 < length found"
  by (auto simp: resolution_of_def split: list.splits)

text \<open>The providers that a resolution names.\<close>

fun resolved_providers :: "route_resolution \<Rightarrow> http_boundary set" where
  "resolved_providers (Unique p) = {p}"
| "resolved_providers (AmbiguousRoute ps) = set ps"
| "resolved_providers Unmatched = {}"

lemma resolved_providers_resolve:
  "resolved_providers (resolve index m path caller restriction) =
     set (prefer_caller caller (found_routes index m path restriction))"
  by (auto simp: resolve_eq resolution_of_def split: list.splits)

lemma providers_for_mem:
  "p \<in> set (providers_for boundaries m s) \<Longrightarrow>
     p \<in> set boundaries \<and> hb_role p = Provider \<and> hb_method p = m \<and> route_shape_parse (hb_path p) = s"
  using providers_fold(1) [of _ "[]"] unfolding providers_for_def by fastforce

text \<open>A matching provider of the index, with the restriction applied.\<close>

definition serves :: "http_boundary list \<Rightarrow> string \<Rightarrow> string \<Rightarrow> repo_id option \<Rightarrow> http_boundary \<Rightarrow> bool" where
  "serves boundaries m path restriction p \<longleftrightarrow>
     p \<in> set boundaries \<and> hb_role p = Provider \<and> hb_method p = m
     \<and> covers (route_shape_parse (hb_path p)) (route_shape_parse path) \<and> allowed restriction p"

lemma found_routes_serves:
  "p \<in> set (found_routes (route_index_new boundaries) m path restriction) \<Longrightarrow> serves boundaries m path restriction p"
  unfolding found_routes_best best_def candidate_def serves_def using providers_for_mem by blast

lemma resolve_serves:
  "p \<in> resolved_providers (resolve (route_index_new boundaries) m path caller restriction)
   \<Longrightarrow> serves boundaries m path restriction p"
  using prefer_caller_subset found_routes_serves unfolding resolved_providers_resolve by blast

lemma serves_represented:
  assumes "serves boundaries m path None b"
  shows "\<exists>s p. candidate (allowed None) (providers_for boundaries m) (route_shape_parse path) s p \<and> represents p b"
proof -
  have "\<exists>r \<in> set (providers_for boundaries m (route_shape_parse (hb_path b))). represents r b"
    using assms unfolding providers_for_def serves_def by (intro providers_fold(4)) simp
  then show ?thesis using assms by (auto simp: candidate_def serves_def allowed_def)
qed

subsection \<open>Properties\<close>

text \<open>
  C1: the lookup in the route tries is exact. For every set of boundaries, method, path and restriction it
  returns precisely the allowed providers whose route shape matches the path and is not dominated by a
  more specific matching shape with an allowed provider, where shapes are compared at the first segment
  in which they differ: literal before mixed before parameter before catch-all.
\<close>

theorem found_routes_exact:
  "p \<in> set (found_routes (route_index_new boundaries) m path restriction) \<longleftrightarrow>
     (\<exists>s. covers s (route_shape_parse path) \<and> p \<in> set (providers_for boundaries m s) \<and> allowed restriction p
        \<and> \<not> (\<exists>s' p'. covers s' (route_shape_parse path) \<and> p' \<in> set (providers_for boundaries m s')
               \<and> allowed restriction p' \<and> more_specific s' s))"
  unfolding found_routes_best best_def candidate_def by blast

text \<open>The providers kept for one method and route shape: one per node, each of them one of the
  declared boundaries, and every declared boundary is represented by one of its node with a
  confidence that is not lower.
\<close>

lemma providers_for_representative:
  assumes "b \<in> set boundaries" and "hb_role b = Provider"
  shows "let ps = providers_for boundaries (hb_method b) (route_shape_parse (hb_path b)) in
     distinct (map (\<lambda>p. n_id (hb_node p)) ps) \<and> set ps \<subseteq> set boundaries
     \<and> (\<exists>p \<in> set ps. n_id (hb_node p) = n_id (hb_node b)
          \<and> \<not> fp_lt (ev_confidence (hb_evidence p)) (ev_confidence (hb_evidence b)))"
proof -
  let ?ps = "providers_for boundaries (hb_method b) (route_shape_parse (hb_path b))"
  have "distinct (map (\<lambda>p. n_id (hb_node p)) ?ps)"
    unfolding providers_for_def by (rule providers_fold(2)) simp
  moreover have "set ?ps \<subseteq> set boundaries" using providers_for_mem by blast
  moreover have "\<exists>r \<in> set ?ps. represents r b"
    using assms unfolding providers_for_def by (intro providers_fold(4)) simp
  ultimately show ?thesis by (simp add: represents_def Let_def)
qed

text \<open>
  C7: a call that is not external resolves to providers only: boundaries of the given list that serve
  the method and match the path. An in-process call of a repository resolves inside that repository,
  and a call to a declared authority inside the repository declared for it.
\<close>

theorem resolve_call_sound:
  assumes "resolve_call (route_index_new boundaries) m path caller scope authorities = RouteCall resolution"
    and "p \<in> resolved_providers resolution"
  shows "p \<in> set boundaries \<and> hb_role p = Provider \<and> hb_method p = m
     \<and> covers (route_shape_parse (hb_path p)) (route_shape_parse path)
     \<and> (\<forall>r. scope = InProcess \<and> caller = Some r \<longrightarrow> n_repo_id (hb_node p) = Some r)
     \<and> (\<forall>a r. scope = Authority a \<and> lookup_authority authorities a = DeclaredTarget r \<longrightarrow> n_repo_id (hb_node p) = Some r)"
proof -
  have some: "serves boundaries m path None p" if "serves boundaries m path x p" for x
    using that by (auto simp: serves_def allowed_def)
  have strict: "n_repo_id (hb_node p) = Some r" if "serves boundaries m path (Some r) p" for r
    using that by (simp add: serves_def allowed_def in_repository_def)
  have "serves boundaries m path None p
      \<and> (\<forall>r. scope_restriction scope caller authorities = Strict r \<longrightarrow> serves boundaries m path (Some r) p)"
    using assms some by (auto simp: resolve_call_def dest!: resolve_serves split: restriction.splits route_resolution.splits)
  then show ?thesis
    using strict by (auto simp: serves_def scope_restriction_def)
qed

definition sample_boundary :: "string \<Rightarrow> repo_id \<Rightarrow> string \<Rightarrow> http_boundary" where
  "sample_boundary name repo path =
     \<lparr>hb_node = (sample_node name)\<lparr>n_repo_id := Some repo\<rparr>, hb_method = ''GET'', hb_path = path, hb_role = Provider,
      hb_scope = WorkspaceScope,
      hb_evidence = \<lparr>ev_id = name @ ''-evidence'', ev_repo_id = Some repo, ev_file_path = None, ev_start_line = None,
        ev_end_line = None, ev_extractor = ''sample'', ev_extractor_version = ''1'', ev_provenance = Declared,
        ev_confidence = Fin 1, ev_observed_at_commit = None, ev_content_hash = None, ev_note = None\<rparr>\<rparr>"

definition sample_boundaries :: "http_boundary list" where
  "sample_boundaries =
     [sample_boundary ''a'' ''shop'' ''/users/{id}'', sample_boundary ''b'' ''shop'' ''/users/me'',
      sample_boundary ''c'' ''billing'' ''/users/{name}'']"


theorem resolve_call_sound_witness:
  "resolve_call (route_index_new sample_boundaries) ''GET'' ''/users/7'' (Some ''billing'') InProcess authority_map_new
     = RouteCall (Unique (sample_boundary ''c'' ''billing'' ''/users/{name}''))
   \<and> n_repo_id (hb_node (sample_boundary ''c'' ''billing'' ''/users/{name}'')) = Some ''billing''"
proof -
  have eq: "resolve_call (route_index_new sample_boundaries) ''GET'' ''/users/7'' (Some ''billing'') InProcess authority_map_new
     = RouteCall (Unique (sample_boundary ''c'' ''billing'' ''/users/{name}''))"
    by code_simp
  from resolve_call_sound [OF eq, of "sample_boundary ''c'' ''billing'' ''/users/{name}''"] eq
  show ?thesis by simp
qed

lemma allowed_represents:
  assumes "\<forall>b \<in> set boundaries. \<forall>b' \<in> set boundaries. n_id (hb_node b) = n_id (hb_node b') \<longrightarrow> hb_node b = hb_node b'"
  shows "(\<exists>s p. candidate (allowed restriction) (providers_for boundaries m) (route_shape_parse path) s p)
    \<longleftrightarrow> (\<exists>b. serves boundaries m path restriction b)"
proof
  assume "\<exists>s p. candidate (allowed restriction) (providers_for boundaries m) (route_shape_parse path) s p"
  then show "\<exists>b. serves boundaries m path restriction b"
    unfolding candidate_def serves_def using providers_for_mem by blast
next
  assume "\<exists>b. serves boundaries m path restriction b"
  then obtain b where b: "serves boundaries m path restriction b" ..
  have "\<exists>r \<in> set (providers_for boundaries m (route_shape_parse (hb_path b))). represents r b"
    using b unfolding providers_for_def serves_def by (intro providers_fold(4)) simp
  then obtain r where r: "r \<in> set (providers_for boundaries m (route_shape_parse (hb_path b)))" "represents r b" ..
  then have "hb_node r = hb_node b"
    using assms b providers_for_mem [OF r(1)] by (simp add: represents_def serves_def)
  then have "allowed restriction r" using b by (auto simp: serves_def allowed_def in_repository_def split: option.splits)
  then show "\<exists>s p. candidate (allowed restriction) (providers_for boundaries m) (route_shape_parse path) s p"
    using r(1) b by (auto simp: candidate_def serves_def)
qed



text \<open>
  C32: which repository serves an authority, for any sequence of declarations followed by any sequence of
  infrastructure documents: a loopback host stays in the workspace; otherwise the last declaration of the
  authority, or else of its host, decides; otherwise the repositories whose documents name the host:
  exactly one of them is inferred, several are not used, and none makes the authority external.
\<close>

theorem lookup_authority_exact:
  "lookup_authority
     (fold (\<lambda>(r, d). infer_from_infrastructure r d) docs
       (fold (\<lambda>(a, r). declare_authority a r) decls authority_map_new)) authority =
   (let host = authority_host authority;
        named = {r. \<exists>d name. (r, d) \<in> set docs \<and> name \<in> set (document_hosts d) \<and> host_key name = Some (service_host host)} in
    if is_loopback host then WorkspaceTarget
    else case map_of (rev decls) authority of
      Some r \<Rightarrow> DeclaredTarget r
    | None \<Rightarrow>
        (case map_of (rev decls) host of
           Some r \<Rightarrow> DeclaredTarget r
         | None \<Rightarrow>
             if named = {} then ExternalTarget
             else if \<exists>r. named = {r} then InferredTarget (the_elem named)
             else WorkspaceTarget))"
proof -
  define m0 where "m0 = fold (\<lambda>(a, r). declare_authority a r) decls authority_map_new"
  have decl: "bt_get (am_declared (fold (\<lambda>(a, r). declare_authority a r) ds m)) k
      = (case map_of (rev ds) k of None \<Rightarrow> bt_get (am_declared m) k | Some r \<Rightarrow> Some r)"
    and inferred: "am_inferred (fold (\<lambda>(a, r). declare_authority a r) ds m) = am_inferred m" for ds k m
    by (induction ds arbitrary: m) (auto simp: declare_authority_def map_add_def bt_get_insert_if
        simp del: bt_get_insert_same bt_get_insert_other split: option.splits)
  let ?claims = "concat (map (\<lambda>(repository, document). map (\<lambda>host. (host, repository)) (document_hosts document)) docs)"
  have declared: "bt_get (am_declared (fold (\<lambda>(host, r). infer host r) ?claims m0)) k = map_of (rev decls) k" for k
    by (simp add: infer_keeps_declared m0_def decl authority_map_new_def split: option.splits)
  have "bt_get (am_inferred m0) h = verdict {}" for h
    by (simp add: m0_def inferred authority_map_new_def verdict_def)
  from infer_fold [OF this, of ?claims]
  moreover have "(host, r) \<in> set ?claims \<longleftrightarrow> (\<exists>d. (r, d) \<in> set docs \<and> host \<in> set (document_hosts d))" for host r
    by force
  ultimately have inf: "bt_get (am_inferred (fold (\<lambda>(host, r). infer host r) ?claims m0)) h =
      verdict {r. \<exists>d name. (r, d) \<in> set docs \<and> name \<in> set (document_hosts d) \<and> host_key name = Some h}" for h
    by (simp only: Un_empty_right) (rule arg_cong [where f = verdict], blast)
  show ?thesis
    unfolding infer_documents m0_def [symmetric] lookup_authority_def declared inf
    by (auto simp: Let_def verdict_def split: option.splits)
qed

end
