(* ===== verification/Symbols.thy ===== *)
theory Symbols
  imports Model Text_Ops
begin

text \<open>
  \<open>crates/code-system-graph-core/src/source_symbol.rs\<close>: the canonical persisted identity of
  source symbols. The property: the stable key of a node written for an identity parses back to that
  identity, whatever colons and percent signs its path and symbol contain.
\<close>

record source_symbol_identity =
  ss_repository :: repo_id
  ss_language :: "string option"
  ss_source_path :: string
  ss_symbol :: string
  ss_declaration_line :: "nat option"

definition source_symbol_new :: "repo_id \<Rightarrow> string \<Rightarrow> string \<Rightarrow> string \<Rightarrow> source_symbol_identity" where
  "source_symbol_new repository language source_path symbol =
     \<lparr>ss_repository = repository, ss_language = Some (to_ascii_lowercase (trim language)),
      ss_source_path = source_path, ss_symbol = symbol, ss_declaration_line = None\<rparr>"

definition at_declaration :: "nat \<Rightarrow> source_symbol_identity \<Rightarrow> source_symbol_identity" where
  "at_declaration line identity = identity\<lparr>ss_declaration_line := Some line\<rparr>"

definition source_symbol_data :: "repo_id \<Rightarrow> string \<Rightarrow> string \<Rightarrow> source_symbol_identity" where
  "source_symbol_data repository source_path symbol =
     \<lparr>ss_repository = repository, ss_language = None, ss_source_path = source_path, ss_symbol = symbol,
      ss_declaration_line = None\<rparr>"

definition replace_char :: "char \<Rightarrow> string \<Rightarrow> string \<Rightarrow> string" where
  "replace_char c by_text s = concat (map (\<lambda>x. if x = c then by_text else [x]) s)"

definition encode_component :: "string \<Rightarrow> string" where
  "encode_component value = replace_char (CHR '':'') ''%3A'' (replace_char (CHR ''%'') ''%25'' value)"

function decode_loop :: "string \<Rightarrow> string \<Rightarrow> string option" where
  "decode_loop remaining decoded =
     (case split_once ''%'' remaining of
        None \<Rightarrow> Some (decoded @ remaining)
      | Some (front, back) \<Rightarrow>
          (case strip_prefix ''%25'' (CHR ''%'' # back) of
             Some rest \<Rightarrow> decode_loop rest (decoded @ front @ ''%'')
           | None \<Rightarrow>
               (case strip_prefix ''%3A'' (CHR ''%'' # back) of
                  Some rest \<Rightarrow> decode_loop rest (decoded @ front @ '':'')
                | None \<Rightarrow> None)))"
  by pat_completeness auto
termination
  by (relation "measure (\<lambda>(remaining, decoded). length remaining)")
    (auto dest!: split_once_Some simp: strip_prefix_eq_Some)

declare decode_loop.simps [simp del]

definition decode_component :: "string \<Rightarrow> string option" where
  "decode_component value = decode_loop value []"

definition source_symbol_stable_key :: "source_symbol_identity \<Rightarrow> string" where
  "source_symbol_stable_key identity =
     (case (ss_declaration_line identity, ss_language identity) of
        (Some line, Some language) \<Rightarrow>
          ''scoped-symbol:'' @ ss_repository identity @ '':'' @ show_nat line @ '':'' @ encode_component language
            @ '':'' @ encode_component (ss_source_path identity) @ '':'' @ encode_component (ss_symbol identity)
      | (_, None) \<Rightarrow>
          ''data-symbol:'' @ ss_repository identity @ '':'' @ encode_component (ss_source_path identity)
            @ '':'' @ encode_component (ss_symbol identity)
      | (_, Some language) \<Rightarrow>
          ''symbol:'' @ ss_repository identity @ '':'' @ encode_component language
            @ '':'' @ encode_component (ss_source_path identity) @ '':'' @ encode_component (ss_symbol identity))"

definition source_symbol_node_id :: "(string \<Rightarrow> string) \<Rightarrow> source_symbol_identity \<Rightarrow> node_id" where
  "source_symbol_node_id hash identity = stable_id hash ''node'' (source_symbol_stable_key identity)"

definition source_symbol_node :: "(string \<Rightarrow> string) \<Rightarrow> source_symbol_identity \<Rightarrow> string \<Rightarrow> node" where
  "source_symbol_node hash identity label =
     \<lparr>n_id = source_symbol_node_id hash identity, n_kind = SymbolRef, n_repo_id = Some (ss_repository identity),
      n_stable_key = source_symbol_stable_key identity, n_label = label\<rparr>"

text \<open>The two unscoped forms of \<open>from_node\<close>, then the scoped form, which continues with them.\<close>

definition parse_unscoped :: "repo_id \<Rightarrow> string \<Rightarrow> source_symbol_identity option" where
  "parse_unscoped repository stable_key =
     (case strip_prefix (''symbol:'' @ repository @ '':'') stable_key of
        Some remainder \<Rightarrow>
          Option.bind (split_once '':'' remainder) (\<lambda>(language, source_identity).
          Option.bind (rsplit_once (CHR '':'') source_identity) (\<lambda>(source_path, symbol).
            if language = [] \<or> source_path = [] \<or> symbol = [] then None
            else
              Option.bind (decode_component language) (\<lambda>language.
              Option.bind (decode_component source_path) (\<lambda>source_path.
              Option.bind (decode_component symbol) (\<lambda>symbol.
                Some (source_symbol_new repository language source_path symbol))))))
      | None \<Rightarrow>
          Option.bind (strip_prefix (''data-symbol:'' @ repository @ '':'') stable_key) (\<lambda>source_identity.
          Option.bind (rsplit_once (CHR '':'') source_identity) (\<lambda>(source_path, symbol).
            if source_path = [] \<or> symbol = [] then None
            else
              Option.bind (decode_component source_path) (\<lambda>source_path.
              Option.bind (decode_component symbol) (\<lambda>symbol.
                Some (source_symbol_data repository source_path symbol))))))"

definition source_symbol_from_node :: "node \<Rightarrow> source_symbol_identity option" where
  "source_symbol_from_node n =
     (if n_kind n \<noteq> SymbolRef then None
      else
        Option.bind (n_repo_id n) (\<lambda>repository.
          case strip_prefix (''scoped-symbol:'' @ repository @ '':'') (n_stable_key n) of
            Some remainder \<Rightarrow>
              Option.bind (split_once '':'' remainder) (\<lambda>(line, rest).
              Option.bind (parse_unscoped repository (''symbol:'' @ repository @ '':'' @ rest)) (\<lambda>identity.
                map_option (\<lambda>line. at_declaration line identity) (parse_u32 line)))
          | None \<Rightarrow> parse_unscoped repository (n_stable_key n)))"


subsection \<open>Components\<close>

definition encode_char :: "char \<Rightarrow> string" where
  "encode_char c = (if c = CHR ''%'' then ''%25'' else if c = CHR '':'' then ''%3A'' else [c])"

lemma encode_component_eq: "encode_component s = concat (map encode_char s)"
  by (induction s) (auto simp: encode_component_def replace_char_def encode_char_def)

lemma encode_no_colon: "CHR '':'' \<notin> set (encode_component s)"
  by (auto simp: encode_component_eq encode_char_def split: if_splits)

lemma encode_empty [simp]: "encode_component s = [] \<longleftrightarrow> s = []"
  by (cases s) (auto simp: encode_component_eq encode_char_def)

lemma decode_step:
  assumes "CHR ''%'' \<notin> set front"
  shows "decode_loop (front @ ''%25'' @ rest) acc = decode_loop rest (acc @ front @ ''%'')"
    and "decode_loop (front @ ''%3A'' @ rest) acc = decode_loop rest (acc @ front @ '':'')"
    and "decode_loop front acc = Some (acc @ front)"
proof -
  have "split_once ''%'' (front @ CHR ''%'' # x) = Some (front, x)" for x
    using assms by (simp add: split_once_char_Some)
  from this [of "''25'' @ rest"] this [of "''3A'' @ rest"]
  show "decode_loop (front @ ''%25'' @ rest) acc = decode_loop rest (acc @ front @ ''%'')"
    and "decode_loop (front @ ''%3A'' @ rest) acc = decode_loop rest (acc @ front @ '':'')"
    by (simp_all add: decode_loop.simps [of "front @ _"] strip_prefix_def starts_with_def)
  have "split_once ''%'' front = None" using assms by (auto simp: split_once_None)
  then show "decode_loop front acc = Some (acc @ front)" by (simp add: decode_loop.simps [of front])
qed

lemma decode_encode_acc:
  "CHR ''%'' \<notin> set front \<Longrightarrow> decode_loop (front @ encode_component s) acc = Some (acc @ front @ s)"
proof (induction s arbitrary: front acc)
  case Nil
  then show ?case by (simp add: encode_component_eq decode_step)
next
  case (Cons c s)
  have split: "front @ encode_component (c # s) = front @ encode_char c @ encode_component s"
    by (simp add: encode_component_eq)
  consider "c = CHR ''%''" | "c = CHR '':''" | "c \<noteq> CHR ''%''" "c \<noteq> CHR '':''" by blast
  then show ?case
  proof cases
    case 3
    then show ?thesis
      using Cons.IH [of "front @ [c]"] Cons.prems unfolding split by (simp add: encode_char_def)
  qed (use decode_step [OF Cons.prems] Cons.IH [of "[]"] in \<open>simp_all add: encode_component_eq encode_char_def\<close>)
qed

lemma decode_encode [simp]: "decode_component (encode_component s) = Some s"
  using decode_encode_acc [of "[]"] by (simp add: decode_component_def)


subsection \<open>The round trip\<close>

text \<open>
  The identities that the extractors build. It is a well-formedness condition on the caller: the constructors trim and
  lower the language, but they accept an empty path, symbol or language, and a declaration line on a data-only symbol,
  whose key then loses the line.
\<close>

definition valid_identity :: "source_symbol_identity \<Rightarrow> bool" where
  "valid_identity i \<longleftrightarrow>
     ss_source_path i \<noteq> [] \<and> ss_symbol i \<noteq> []
     \<and> (case ss_language i of
          None \<Rightarrow> ss_declaration_line i = None
        | Some l \<Rightarrow> l \<noteq> [] \<and> trim l = l \<and> to_ascii_lowercase l = l)
     \<and> (case ss_declaration_line i of None \<Rightarrow> True | Some n \<Rightarrow> n \<le> 4294967295)"

lemma strip_prefix_append [simp]: "strip_prefix p (p @ r) = Some r"
  by (simp add: strip_prefix_eq_Some)

lemma parse_unscoped_symbol:
  assumes "l \<noteq> []" "path \<noteq> []" "symbol \<noteq> []"
  shows "parse_unscoped repo (''symbol:'' @ repo @ '':'' @ encode_component l @ '':'' @ encode_component path
      @ '':'' @ encode_component symbol) = Some (source_symbol_new repo l path symbol)"
proof -
  let ?id = "encode_component path @ '':'' @ encode_component symbol"
  have prefix: "strip_prefix (''symbol:'' @ repo @ '':'') (''symbol:'' @ repo @ '':'' @ r) = Some r" for r
    using strip_prefix_append [of "''symbol:'' @ repo @ '':''" r] by simp
  have "split_once '':'' (encode_component l @ '':'' @ ?id) = Some (encode_component l, ?id)"
    "rsplit_once (CHR '':'') ?id = Some (encode_component path, encode_component symbol)"
    using encode_no_colon by (auto simp: split_once_char_Some rsplit_once_Some)
  then show ?thesis using assms prefix by (simp add: parse_unscoped_def)
qed

lemma parse_unscoped_data:
  assumes "path \<noteq> []" "symbol \<noteq> []"
  shows "parse_unscoped repo (''data-symbol:'' @ repo @ '':'' @ encode_component path @ '':'' @ encode_component symbol)
     = Some (source_symbol_data repo path symbol)"
proof -
  let ?id = "encode_component path @ '':'' @ encode_component symbol"
  have "rsplit_once (CHR '':'') ?id = Some (encode_component path, encode_component symbol)"
    using encode_no_colon by (auto simp: rsplit_once_Some)
  moreover have "strip_prefix (''symbol:'' @ repo @ '':'') (''data-symbol:'' @ r) = None" for r
    by (simp add: strip_prefix_eq_None starts_with_def)
  moreover have "strip_prefix (''data-symbol:'' @ repo @ '':'') (''data-symbol:'' @ repo @ '':'' @ r) = Some r" for r
    using strip_prefix_append [of "''data-symbol:'' @ repo @ '':''" r] by simp
  ultimately show ?thesis using assms by (simp add: parse_unscoped_def)
qed

lemma source_symbol_new_valid:
  "trim l = l \<Longrightarrow> to_ascii_lowercase l = l \<Longrightarrow> ss_language (source_symbol_new r l p s) = Some l"
  by (simp add: source_symbol_new_def)

text \<open>
  C31: a persisted symbol node determines its identity: for every identity with a non-empty path and
  symbol and, unless it is data-only, a non-empty normalized language (a data-only one without a declaration line), parsing the stable key of its node gives the identity back, whatever
  the label and whatever colons and percent signs the components contain.
\<close>

theorem source_symbol_round_trip:
  assumes "valid_identity i"
  shows "source_symbol_from_node (source_symbol_node hash i label) = Some i"
proof (cases "ss_language i")
  case None
  then have "ss_declaration_line i = None" using assms by (simp add: valid_identity_def)
  moreover have "strip_prefix (''scoped-symbol:'' @ r @ '':'') (''data-symbol:'' @ x) = None" for r x
    by (simp add: strip_prefix_eq_None starts_with_def)
  ultimately show ?thesis
    using None assms parse_unscoped_data [of "ss_source_path i" "ss_symbol i" "ss_repository i"]
    by (simp add: source_symbol_from_node_def source_symbol_node_def source_symbol_stable_key_def valid_identity_def
        source_symbol_data_def)
next
  case (Some l)
  have l: "l \<noteq> []" "trim l = l" "to_ascii_lowercase l = l" "ss_source_path i \<noteq> []" "ss_symbol i \<noteq> []"
    using assms Some by (simp_all add: valid_identity_def)
  note parsed = parse_unscoped_symbol [OF l(1,4,5), of "ss_repository i"]
  show ?thesis
  proof (cases "ss_declaration_line i")
    case None
    moreover have "strip_prefix (''scoped-symbol:'' @ r @ '':'') (''symbol:'' @ x) = None" for r x
      by (simp add: strip_prefix_eq_None starts_with_def)
    ultimately show ?thesis
      using Some parsed l
      by (simp add: source_symbol_from_node_def source_symbol_node_def source_symbol_stable_key_def source_symbol_new_def)
  next
    case (Some n)
    then have n: "parse_u32 (show_nat n) = Some n"
      using assms by (simp add: valid_identity_def parse_u32_def parse_uint_show)
    have prefix: "strip_prefix (''scoped-symbol:'' @ r @ '':'') (''scoped-symbol:'' @ r @ '':'' @ x) = Some x" for r x
      using strip_prefix_append [of "''scoped-symbol:'' @ r @ '':''" x] by simp
    let ?rest = "encode_component l @ '':'' @ encode_component (ss_source_path i) @ '':'' @ encode_component (ss_symbol i)"
    have key: "source_symbol_stable_key i = ''scoped-symbol:'' @ ss_repository i @ '':'' @ (show_nat n @ '':'' @ ?rest)"
      using Some \<open>ss_language i = Some l\<close> by (simp add: source_symbol_stable_key_def)
    have cut: "split_once '':'' (show_nat n @ '':'' @ ?rest) = Some (show_nat n, ?rest)"
      using show_nat_no_colon by (simp add: split_once_char_Some)
    have "at_declaration n (source_symbol_new (ss_repository i) l (ss_source_path i) (ss_symbol i)) = i"
      using Some \<open>ss_language i = Some l\<close> l by (cases i) (simp add: at_declaration_def source_symbol_new_def)
    then show ?thesis
      unfolding source_symbol_from_node_def source_symbol_node_def
      by (simp only: node.simps simp_thms if_False bind.bind_lunit key prefix option.case cut prod.case parsed n
          option.map refl)
  qed
qed

theorem source_symbol_round_trip_witness:
  "source_symbol_from_node (source_symbol_node (\<lambda>s. s)
     (at_declaration 8 (source_symbol_new ''repo:api'' '' Rust '' ''src/a:b%.rs'' ''Client::get%'')) ''label'')
   = Some (at_declaration 8 (source_symbol_new ''repo:api'' ''rust'' ''src/a:b%.rs'' ''Client::get%''))"
proof -
  have "to_ascii_lowercase (trim '' Rust '') = ''rust''" "to_ascii_lowercase (trim ''rust'') = ''rust''"
      "trim ''rust'' = ''rust''" "to_ascii_lowercase ''rust'' = ''rust''"
    by code_simp+
  then have "source_symbol_new ''repo:api'' '' Rust '' p s = source_symbol_new ''repo:api'' ''rust'' p s"
    and "valid_identity (at_declaration 8 (source_symbol_new ''repo:api'' ''rust'' ''src/a:b%.rs'' ''Client::get%''))" for p s
    by (simp_all add: source_symbol_new_def valid_identity_def at_declaration_def)
  then show ?thesis using source_symbol_round_trip by metis
qed

end
