(* ===== verification/Route_Links.thy ===== *)
theory Route_Links
  imports Route_Index Symbols
begin

text \<open>
  The last part of \<open>crates/code-system-graph-core/src/routes.rs\<close>: linking HTTP consumers, tests
  and implementation anchors to providers (\<open>link_http_routes\<close>, \<open>link_remote_call\<close>,
  \<open>LinkSink\<close>), with the declared boundaries of \<open>http.rs\<close>, the declared tests and
  implementations of \<open>test_links.rs\<close> and the ambiguity records of \<open>linker.rs\<close>.
  \<open>hash\<close> stands for the digest behind \<open>stable_id\<close> and \<open>version\<close> for the package
  version that the build puts into every evidence record.

  The properties: every call is counted under exactly one outcome, an edge joins a call to the provider
  that the route index resolves it to, every call without an edge has its gap in the report, and edges
  with one identity are merged to the strongest confidence.
\<close>

subsection \<open>Declared boundaries, tests and implementations\<close>

record http_contract_config =
  hc_method :: string
  hc_path :: string

record http_consumer_config =
  cc_method :: string
  cc_path :: string
  cc_source :: string

record integration_test_config =
  tc_name :: string
  tc_path :: string
  tc_framework :: string
  tc_language :: string
  tc_validates :: http_contract_config

record contract_implementation_config =
  ci_language :: string
  ci_path :: string
  ci_symbol :: string
  ci_implements :: http_contract_config

definition boundary ::
  "(string \<Rightarrow> string) \<Rightarrow> string \<Rightarrow> repo_id \<Rightarrow> string \<Rightarrow> string \<Rightarrow> boundary_role \<Rightarrow> string \<Rightarrow> f32 \<Rightarrow> http_boundary" where
  "boundary hash version repo_id method_name path role source_path confidence =
     (let (role_key, extractor, provenance) =
            (case role of
               Provider \<Rightarrow> (''provider'', ''code-system-graph.http.openapi'', Extracted)
             | Consumer \<Rightarrow> (''consumer'', ''code-system-graph.http.declared'', Declared));
          stable_key = ''http:'' @ repo_id @ '':'' @ role_key @ '':'' @ method_name @ '':'' @ canonical_route path;
          evidence_key = stable_key @ '':'' @ source_path in
      \<lparr>hb_node = \<lparr>n_id = stable_id hash ''node'' stable_key, n_kind = HttpOperation, n_repo_id = Some repo_id,
         n_stable_key = stable_key, n_label = method_name @ '' '' @ path\<rparr>,
       hb_method = method_name, hb_path = path, hb_role = role, hb_scope = WorkspaceScope,
       hb_evidence = \<lparr>ev_id = stable_id hash ''evidence'' evidence_key, ev_repo_id = Some repo_id,
         ev_file_path = Some source_path, ev_start_line = None, ev_end_line = None, ev_extractor = extractor,
         ev_extractor_version = version, ev_provenance = provenance, ev_confidence = confidence,
         ev_observed_at_commit = None, ev_content_hash = Some (stable_id hash ''content'' evidence_key),
         ev_note = None\<rparr>\<rparr>)"

definition http_boundary_consumer ::
  "(string \<Rightarrow> string) \<Rightarrow> string \<Rightarrow> repo_id \<Rightarrow> http_consumer_config \<Rightarrow> http_boundary" where
  "http_boundary_consumer hash version repo_id config =
     boundary hash version repo_id (to_ascii_uppercase (trim (cc_method config)))
       (normalize_http_path (cc_path config)) Consumer (cc_source config) (Fin 1)"

record declared_test_case =
  dt_node :: node
  dt_method :: string
  dt_path :: string
  dt_scope :: call_scope
  dt_evidence :: evidence

record declared_implementation =
  di_node :: node
  di_method :: string
  di_path :: string
  di_evidence :: evidence

definition declared_test_case_of ::
  "(string \<Rightarrow> string) \<Rightarrow> string \<Rightarrow> repo_id \<Rightarrow> integration_test_config \<Rightarrow> string option \<Rightarrow> declared_test_case" where
  "declared_test_case_of hash version repo_id config content_hash =
     (let method_name = to_ascii_uppercase (trim (hc_method (tc_validates config)));
          path = normalize_http_path (hc_path (tc_validates config));
          stable_key = ''test:'' @ repo_id @ '':'' @ to_ascii_lowercase (trim (tc_language config)) @ '':''
            @ to_ascii_lowercase (trim (tc_framework config)) @ '':'' @ tc_path config @ '':'' @ tc_name config;
          evidence_key = stable_key @ '':'' @ method_name @ '':'' @ path in
      \<lparr>dt_node = \<lparr>n_id = stable_id hash ''node'' stable_key, n_kind = TestCase, n_repo_id = Some repo_id,
         n_stable_key = stable_key,
         n_label = tc_language config @ ''/'' @ tc_framework config @ ''::'' @ tc_name config\<rparr>,
       dt_method = method_name, dt_path = path, dt_scope = WorkspaceScope,
       dt_evidence = \<lparr>ev_id = stable_id hash ''evidence'' evidence_key, ev_repo_id = Some repo_id,
         ev_file_path = Some (tc_path config), ev_start_line = None, ev_end_line = None,
         ev_extractor = ''code-system-graph.tests.declared'', ev_extractor_version = version,
         ev_provenance = Declared, ev_confidence = Fin 1, ev_observed_at_commit = None,
         ev_content_hash = content_hash,
         ev_note = Some (tc_language config @ '' test declared with '' @ tc_framework config)\<rparr>\<rparr>)"

definition declared_implementation_of ::
  "(string \<Rightarrow> string) \<Rightarrow> string \<Rightarrow> repo_id \<Rightarrow> contract_implementation_config \<Rightarrow> string option \<Rightarrow> declared_implementation" where
  "declared_implementation_of hash version repo_id config content_hash =
     (let method_name = to_ascii_uppercase (trim (hc_method (ci_implements config)));
          path = normalize_http_path (hc_path (ci_implements config));
          identity = source_symbol_new repo_id (ci_language config) (ci_path config) (ci_symbol config);
          evidence_key = source_symbol_stable_key identity @ '':'' @ method_name @ '':'' @ path in
      \<lparr>di_node = source_symbol_node hash identity (ci_language config @ ''::'' @ ci_symbol config),
       di_method = method_name, di_path = path,
       di_evidence = \<lparr>ev_id = stable_id hash ''evidence'' evidence_key, ev_repo_id = Some repo_id,
         ev_file_path = Some (ci_path config), ev_start_line = None, ev_end_line = None,
         ev_extractor = ''code-system-graph.implementations.declared'', ev_extractor_version = version,
         ev_provenance = Declared, ev_confidence = Fin 1, ev_observed_at_commit = None,
         ev_content_hash = content_hash,
         ev_note = Some (ci_language config @ '' symbol declared as contract implementation'')\<rparr>\<rparr>)"

subsection \<open>Ambiguities and link results\<close>

record http_link_ambiguity =
  la_method :: string
  la_path :: string
  la_candidates :: "string list"

record http_link_resolution =
  lr_edges :: "edge list"
  lr_ambiguities :: "http_link_ambiguity list"
  lr_report :: http_link_report

definition http_link_ambiguity_of :: "string \<Rightarrow> string \<Rightarrow> node_id list \<Rightarrow> http_link_ambiguity" where
  "http_link_ambiguity_of method_name path candidates =
     \<lparr>la_method = method_name, la_path = path, la_candidates = sorted_unique candidates\<rparr>"

definition sort_http_ambiguities :: "http_link_ambiguity list \<Rightarrow> http_link_ambiguity list" where
  "sort_http_ambiguities ambiguities =
     remdups_adj (sort_key (\<lambda>a. (la_method a, la_path a, la_candidates a)) ambiguities)"

subsection \<open>The sink of links\<close>

record remote_call =
  rc_node :: node
  rc_method :: string
  rc_path :: string
  rc_scope :: call_scope
  rc_evidence :: evidence
  rc_kind :: edge_kind
  rc_relation :: string

record link_sink =
  ls_edges :: "(edge_id, edge) btree_map"
  ls_ambiguities :: "http_link_ambiguity list"
  ls_report :: http_link_report

definition empty_sink :: link_sink where
  "empty_sink = \<lparr>ls_edges = [], ls_ambiguities = [],
     ls_report = \<lparr>rep_coverage = \<lparr>cov_linked = 0, cov_no_provider = 0, cov_ambiguous = 0, cov_external = 0\<rparr>,
       rep_gaps = []\<rparr>\<rparr>"

definition consensus_status :: "f32 \<Rightarrow> epistemic_status" where
  "consensus_status confidence = (if fp_le (Fin 1) confidence then Confirmed else Inferred)"

definition merge_equivalent_edge :: "edge \<Rightarrow> edge \<Rightarrow> edge" where
  "merge_equivalent_edge existing incoming =
     (let confidence = fp_max (e_confidence existing) (e_confidence incoming) in
      existing\<lparr>e_confidence := confidence, e_status := consensus_status confidence,
        e_evidence := sorted_unique (e_evidence existing @ e_evidence incoming)\<rparr>)"

definition link_edge ::
  "(string \<Rightarrow> string) \<Rightarrow> node_id \<Rightarrow> node_id \<Rightarrow> edge_kind \<Rightarrow> string \<Rightarrow> f32 \<Rightarrow> evidence_id list \<Rightarrow> edge" where
  "link_edge hash source target kind relation confidence evidence =
     \<lparr>e_id = stable_id hash ''edge'' (source @ '':'' @ relation @ '':'' @ target), e_source = source,
      e_target = target, e_kind = kind, e_confidence = confidence, e_status = consensus_status confidence,
      e_evidence = evidence\<rparr>"

definition sink_link ::
  "(string \<Rightarrow> string) \<Rightarrow> node_id \<Rightarrow> node_id \<Rightarrow> edge_kind \<Rightarrow> string \<Rightarrow> f32 \<Rightarrow> evidence_id list \<Rightarrow> link_sink \<Rightarrow> link_sink" where
  "sink_link hash source target kind relation confidence evidence sink =
     (let edge = link_edge hash source target kind relation confidence evidence in
      sink\<lparr>ls_edges := bt_upsert (e_id edge) (\<lambda>existing. merge_equivalent_edge existing edge) edge (ls_edges sink)\<rparr>)"

definition sink_ambiguous :: "string \<Rightarrow> string \<Rightarrow> http_boundary list \<Rightarrow> link_sink \<Rightarrow> link_sink" where
  "sink_ambiguous method_name path candidates sink =
     sink\<lparr>ls_ambiguities := ls_ambiguities sink
       @ [http_link_ambiguity_of method_name path (map (\<lambda>c. n_id (hb_node c)) candidates)]\<rparr>"

fun count_gap :: "http_link_gap_reason \<Rightarrow> http_link_coverage \<Rightarrow> http_link_coverage" where
  "count_gap NoProvider c = c\<lparr>cov_no_provider := cov_no_provider c + 1\<rparr>"
| "count_gap AmbiguousProvider c = c\<lparr>cov_ambiguous := cov_ambiguous c + 1\<rparr>"
| "count_gap External c = c\<lparr>cov_external := cov_external c + 1\<rparr>"

definition gap_of :: "remote_call \<Rightarrow> http_link_gap_reason \<Rightarrow> http_boundary list \<Rightarrow> http_link_gap" where
  "gap_of call reason candidates =
     \<lparr>gap_caller = n_id (rc_node call), gap_method = rc_method call, gap_path = rc_path call, gap_reason = reason,
      gap_candidates = sorted_unique (map (\<lambda>c. n_id (hb_node c)) candidates)\<rparr>"

definition sink_gap :: "remote_call \<Rightarrow> http_link_gap_reason \<Rightarrow> http_boundary list \<Rightarrow> link_sink \<Rightarrow> link_sink" where
  "sink_gap call reason candidates sink =
     sink\<lparr>ls_report := (ls_report sink)\<lparr>rep_coverage := count_gap reason (rep_coverage (ls_report sink)),
       rep_gaps := rep_gaps (ls_report sink) @ [gap_of call reason candidates]\<rparr>\<rparr>"

definition count_linked :: "link_sink \<Rightarrow> link_sink" where
  "count_linked sink =
     (let report = ls_report sink; coverage = rep_coverage report in
      sink\<lparr>ls_report := report\<lparr>rep_coverage := coverage\<lparr>cov_linked := cov_linked coverage + 1\<rparr>\<rparr>\<rparr>)"

definition gap_key :: "http_link_gap \<Rightarrow> node_id \<times> string \<times> string \<times> http_link_gap_reason \<times> node_id list" where
  "gap_key g = (gap_caller g, gap_method g, gap_path g, gap_reason g, gap_candidates g)"

definition sink_finish :: "link_sink \<Rightarrow> http_link_resolution" where
  "sink_finish sink =
     \<lparr>lr_edges = bt_values (ls_edges sink), lr_ambiguities = sort_http_ambiguities (ls_ambiguities sink),
      lr_report = (ls_report sink)\<lparr>rep_gaps := remdups_adj (sort_key gap_key (rep_gaps (ls_report sink)))\<rparr>\<rparr>"

subsection \<open>Linking\<close>

definition link_remote_call ::
  "(string \<Rightarrow> string) \<Rightarrow> route_index \<Rightarrow> authority_map \<Rightarrow> remote_call \<Rightarrow> link_sink \<Rightarrow> link_sink" where
  "link_remote_call hash index authorities call sink =
     (case resolve_call index (rc_method call) (rc_path call) (n_repo_id (rc_node call)) (rc_scope call) authorities of
        RouteCall (Unique provider) \<Rightarrow>
          sink_link hash (n_id (rc_node call)) (n_id (hb_node provider)) (rc_kind call) (rc_relation call)
            (fp_min (ev_confidence (rc_evidence call)) (ev_confidence (hb_evidence provider)))
            [ev_id (rc_evidence call), ev_id (hb_evidence provider)] (count_linked sink)
      | RouteCall (AmbiguousRoute candidates) \<Rightarrow>
          sink_gap call AmbiguousProvider candidates (sink_ambiguous (rc_method call) (rc_path call) candidates sink)
      | RouteCall Unmatched \<Rightarrow> sink_gap call NoProvider [] sink
      | ExternalCall \<Rightarrow> sink_gap call External [] sink)"

definition consumer_call :: "http_boundary \<Rightarrow> remote_call" where
  "consumer_call consumer =
     \<lparr>rc_node = hb_node consumer, rc_method = hb_method consumer, rc_path = hb_path consumer,
      rc_scope = hb_scope consumer, rc_evidence = hb_evidence consumer, rc_kind = CallsRemote,
      rc_relation = ''calls_remote''\<rparr>"

definition test_call :: "declared_test_case \<Rightarrow> remote_call" where
  "test_call test =
     \<lparr>rc_node = dt_node test, rc_method = dt_method test, rc_path = dt_path test, rc_scope = dt_scope test,
      rc_evidence = dt_evidence test, rc_kind = Validates, rc_relation = ''validates''\<rparr>"

definition remote_calls :: "http_boundary list \<Rightarrow> declared_test_case list \<Rightarrow> remote_call list" where
  "remote_calls boundaries tests =
     map consumer_call (filter (\<lambda>boundary. hb_role boundary = Consumer) boundaries) @ map test_call tests"

definition link_implementation ::
  "(string \<Rightarrow> string) \<Rightarrow> route_index \<Rightarrow> declared_implementation \<Rightarrow> link_sink \<Rightarrow> link_sink" where
  "link_implementation hash index implementation sink =
     (case n_repo_id (di_node implementation) of
        None \<Rightarrow> sink
      | Some repository \<Rightarrow>
          (case resolve index (di_method implementation) (di_path implementation) (Some repository) (Some repository) of
             Unique provider \<Rightarrow>
               sink_link hash (n_id (hb_node provider)) (n_id (di_node implementation)) ImplementedBy ''implemented_by''
                 (fp_min (ev_confidence (hb_evidence provider)) (ev_confidence (di_evidence implementation)))
                 [ev_id (hb_evidence provider), ev_id (di_evidence implementation)] sink
           | AmbiguousRoute candidates \<Rightarrow>
               sink_ambiguous (di_method implementation) (di_path implementation) candidates sink
           | Unmatched \<Rightarrow> sink))"

definition link_http_routes ::
  "(string \<Rightarrow> string) \<Rightarrow> http_boundary list \<Rightarrow> declared_test_case list \<Rightarrow> declared_implementation list \<Rightarrow> authority_map \<Rightarrow> http_link_resolution" where
  "link_http_routes hash boundaries tests implementations authorities =
     (let index = route_index_new boundaries;
          sink = fold (link_remote_call hash index authorities) (remote_calls boundaries tests) empty_sink;
          sink = fold (link_implementation hash index) implementations sink in
      sink_finish sink)"


subsection \<open>What one call contributes\<close>

abbreviation resolution_of_call :: "route_index \<Rightarrow> authority_map \<Rightarrow> remote_call \<Rightarrow> call_resolution" where
  "resolution_of_call index authorities call \<equiv>
     resolve_call index (rc_method call) (rc_path call) (n_repo_id (rc_node call)) (rc_scope call) authorities"

fun call_gap :: "call_resolution \<Rightarrow> (http_link_gap_reason \<times> http_boundary list) option" where
  "call_gap (RouteCall (Unique p)) = None"
| "call_gap (RouteCall (AmbiguousRoute ps)) = Some (AmbiguousProvider, ps)"
| "call_gap (RouteCall Unmatched) = Some (NoProvider, [])"
| "call_gap ExternalCall = Some (External, [])"

definition gap_list :: "route_index \<Rightarrow> authority_map \<Rightarrow> remote_call list \<Rightarrow> http_link_gap list" where
  "gap_list index authorities calls =
     List.map_filter (\<lambda>call. map_option (\<lambda>(reason, ps). gap_of call reason ps)
       (call_gap (resolution_of_call index authorities call))) calls"

definition call_edge :: "(string \<Rightarrow> string) \<Rightarrow> route_index \<Rightarrow> authority_map \<Rightarrow> remote_call \<Rightarrow> edge option" where
  "call_edge hash index authorities call =
     (case resolution_of_call index authorities call of
        RouteCall (Unique p) \<Rightarrow> Some (link_edge hash (n_id (rc_node call)) (n_id (hb_node p)) (rc_kind call) (rc_relation call)
          (fp_min (ev_confidence (rc_evidence call)) (ev_confidence (hb_evidence p))) [ev_id (rc_evidence call), ev_id (hb_evidence p)])
      | _ \<Rightarrow> None)"

definition implementation_edge :: "(string \<Rightarrow> string) \<Rightarrow> route_index \<Rightarrow> declared_implementation \<Rightarrow> edge option" where
  "implementation_edge hash index i =
     Option.bind (n_repo_id (di_node i)) (\<lambda>repository.
       case resolve index (di_method i) (di_path i) (Some repository) (Some repository) of
         Unique p \<Rightarrow> Some (link_edge hash (n_id (hb_node p)) (n_id (di_node i)) ImplementedBy ''implemented_by''
           (fp_min (ev_confidence (hb_evidence p)) (ev_confidence (di_evidence i))) [ev_id (hb_evidence p), ev_id (di_evidence i)])
       | _ \<Rightarrow> None)"

definition add_edge :: "edge \<Rightarrow> (edge_id, edge) btree_map \<Rightarrow> (edge_id, edge) btree_map" where
  "add_edge e m = bt_upsert (e_id e) (\<lambda>existing. merge_equivalent_edge existing e) e m"

definition add_edge_option :: "edge option \<Rightarrow> (edge_id, edge) btree_map \<Rightarrow> (edge_id, edge) btree_map" where
  "add_edge_option x m = (case x of None \<Rightarrow> m | Some e \<Rightarrow> add_edge e m)"

lemma link_remote_call_edges:
  "ls_edges (link_remote_call hash index authorities call sink) =
     add_edge_option (call_edge hash index authorities call) (ls_edges sink)"
  by (auto simp: link_remote_call_def call_edge_def add_edge_option_def add_edge_def sink_link_def sink_gap_def
      sink_ambiguous_def count_linked_def Let_def split: call_resolution.splits route_resolution.splits)

lemma link_implementation_edges:
  "ls_edges (link_implementation hash index i sink) = add_edge_option (implementation_edge hash index i) (ls_edges sink)"
  by (auto simp: link_implementation_def implementation_edge_def add_edge_option_def add_edge_def sink_link_def
      sink_ambiguous_def Let_def split: option.splits route_resolution.splits)

lemma link_implementation_report: "ls_report (link_implementation hash index i sink) = ls_report sink"
  by (auto simp: link_implementation_def sink_link_def sink_ambiguous_def Let_def
      split: option.splits route_resolution.splits)

lemma link_remote_call_gaps:
  "rep_gaps (ls_report (link_remote_call hash index authorities call sink)) =
     rep_gaps (ls_report sink) @ gap_list index authorities [call]"
  by (auto simp: link_remote_call_def gap_list_def map_filter_simps sink_link_def sink_gap_def
      sink_ambiguous_def count_linked_def Let_def split: call_resolution.splits route_resolution.splits)

definition count_reason :: "route_index \<Rightarrow> authority_map \<Rightarrow> http_link_gap_reason option \<Rightarrow> remote_call list \<Rightarrow> nat" where
  "count_reason index authorities reason calls =
     length (filter (\<lambda>call. map_option fst (call_gap (resolution_of_call index authorities call)) = reason) calls)"

lemma link_remote_call_coverage:
  "rep_coverage (ls_report (link_remote_call hash index authorities call sink)) =
     (let c = rep_coverage (ls_report sink); n = (\<lambda>r. count_reason index authorities r [call]) in
      \<lparr>cov_linked = cov_linked c + n None, cov_no_provider = cov_no_provider c + n (Some NoProvider),
       cov_ambiguous = cov_ambiguous c + n (Some AmbiguousProvider), cov_external = cov_external c + n (Some External)\<rparr>)"
  by (cases "rep_coverage (ls_report sink)") (auto simp: link_remote_call_def count_reason_def sink_link_def sink_gap_def
      sink_ambiguous_def count_linked_def Let_def split: call_resolution.splits route_resolution.splits)

lemma calls_fold:
  "ls_edges (fold (link_remote_call hash index authorities) calls sink) =
     fold (\<lambda>c. add_edge_option (call_edge hash index authorities c)) calls (ls_edges sink)"
  "rep_gaps (ls_report (fold (link_remote_call hash index authorities) calls sink)) =
     rep_gaps (ls_report sink) @ gap_list index authorities calls"
  "rep_coverage (ls_report (fold (link_remote_call hash index authorities) calls sink)) =
     (let c = rep_coverage (ls_report sink); n = (\<lambda>r. count_reason index authorities r calls) in
      \<lparr>cov_linked = cov_linked c + n None, cov_no_provider = cov_no_provider c + n (Some NoProvider),
       cov_ambiguous = cov_ambiguous c + n (Some AmbiguousProvider), cov_external = cov_external c + n (Some External)\<rparr>)"
proof (induction calls arbitrary: sink)
  case (Cons c calls)
  { case 1 show ?case by (simp add: Cons link_remote_call_edges)
  next case 2 show ?case
      by (simp add: Cons link_remote_call_gaps) (simp add: gap_list_def map_filter_def)
  next case 3 show ?case
      by (simp add: Cons link_remote_call_coverage Let_def) (simp add: count_reason_def)
  }
qed (simp_all add: gap_list_def map_filter_simps count_reason_def Let_def)

lemma implementations_fold:
  "ls_edges (fold (link_implementation hash index) is sink) =
     fold (\<lambda>i. add_edge_option (implementation_edge hash index i)) is (ls_edges sink)"
  "ls_report (fold (link_implementation hash index) is sink) = ls_report sink"
  by (induction "is" arbitrary: sink) (simp_all add: link_implementation_edges link_implementation_report)

text \<open>Every edge that a call or an implementation asks for, in order.\<close>

definition requested_edges ::
  "(string \<Rightarrow> string) \<Rightarrow> http_boundary list \<Rightarrow> declared_test_case list \<Rightarrow> declared_implementation list \<Rightarrow> authority_map \<Rightarrow> edge list" where
  "requested_edges hash boundaries tests implementations authorities =
     List.map_filter (call_edge hash (route_index_new boundaries) authorities) (remote_calls boundaries tests)
     @ List.map_filter (implementation_edge hash (route_index_new boundaries)) implementations"

lemma fold_add_edge_option: "fold (\<lambda>x. add_edge_option (f x)) xs m = fold add_edge (List.map_filter f xs) m"
  by (induction xs arbitrary: m) (auto simp: map_filter_simps add_edge_option_def split: option.splits)

lemma link_http_routes_parts:
  "lr_edges (link_http_routes hash boundaries tests implementations authorities) =
     bt_values (fold add_edge (requested_edges hash boundaries tests implementations authorities) [])"
  "rep_gaps (lr_report (link_http_routes hash boundaries tests implementations authorities)) =
     remdups_adj (sort_key gap_key (gap_list (route_index_new boundaries) authorities (remote_calls boundaries tests)))"
  "rep_coverage (lr_report (link_http_routes hash boundaries tests implementations authorities)) =
     (let n = (\<lambda>r. count_reason (route_index_new boundaries) authorities r (remote_calls boundaries tests)) in
      \<lparr>cov_linked = n None, cov_no_provider = n (Some NoProvider),
       cov_ambiguous = n (Some AmbiguousProvider), cov_external = n (Some External)\<rparr>)"
  by (simp_all add: link_http_routes_def sink_finish_def Let_def implementations_fold calls_fold empty_sink_def
      fold_add_edge_option requested_edges_def fold_append)

subsection \<open>Merging edges with one identity\<close>

definition merge_all :: "edge list \<Rightarrow> edge \<Rightarrow> edge" where
  "merge_all ks k = fold (\<lambda>x e. merge_equivalent_edge e x) ks k"

lemma merge_keeps [simp]:
  "e_id (merge_equivalent_edge e x) = e_id e" "e_source (merge_equivalent_edge e x) = e_source e"
  "e_target (merge_equivalent_edge e x) = e_target e" "e_kind (merge_equivalent_edge e x) = e_kind e"
  "e_confidence (merge_equivalent_edge e x) = fp_max (e_confidence e) (e_confidence x)"
  "set (e_evidence (merge_equivalent_edge e x)) = set (e_evidence e) \<union> set (e_evidence x)"
  "e_status (merge_equivalent_edge e x) = consensus_status (e_confidence (merge_equivalent_edge e x))"
  by (simp_all add: merge_equivalent_edge_def Let_def)

lemma merge_all_Cons [simp]: "merge_all (x # ks) k = merge_all ks (merge_equivalent_edge k x)"
  by (simp add: merge_all_def)

lemma merge_all_Nil [simp]: "merge_all [] k = k"
  by (simp add: merge_all_def)

lemma merge_all_keeps:
  "e_id (merge_all ks k) = e_id k" "e_source (merge_all ks k) = e_source k"
  "e_target (merge_all ks k) = e_target k" "e_kind (merge_all ks k) = e_kind k"
  by (induction ks arbitrary: k) simp_all

lemma merge_all_evidence: "set (e_evidence (merge_all ks k)) = (\<Union>x \<in> set (k # ks). set (e_evidence x))"
  by (induction ks arbitrary: k) auto

lemma merge_all_confidence: "e_confidence (merge_all ks k) = fold (\<lambda>x c. fp_max c (e_confidence x)) ks (e_confidence k)"
  by (induction ks arbitrary: k) simp_all

lemma bt_get_add_edge:
  "bt_get (add_edge e m) i =
     (if i = e_id e then Some (case bt_get m i of None \<Rightarrow> e | Some x \<Rightarrow> merge_equivalent_edge x e) else bt_get m i)"
  by (simp add: add_edge_def)

lemma fold_add_edge:
  "bt_get (fold add_edge es m) i =
     (case bt_get m i of
        Some e \<Rightarrow> Some (merge_all (filter (\<lambda>x. e_id x = i) es) e)
      | None \<Rightarrow> (case filter (\<lambda>x. e_id x = i) es of [] \<Rightarrow> None | k # ks \<Rightarrow> Some (merge_all ks k)))"
proof (induction es arbitrary: m)
  case (Cons e es)
  show ?case
    by (cases "e_id e = i") (auto simp: Cons.IH bt_get_add_edge split: option.splits)
qed (simp split: option.splits)

lemma fold_add_edge_wf: "bt_wf m \<Longrightarrow> bt_wf (fold add_edge es m)"
  by (induction es arbitrary: m) (simp_all add: add_edge_def)

lemma fold_add_edge_mem:
  "(i, e) \<in> set (fold add_edge es []) \<longleftrightarrow>
     (\<exists>k ks. filter (\<lambda>x. e_id x = i) es = k # ks \<and> e = merge_all ks k)"
  using bt_get_iff_mem [OF fold_add_edge_wf [OF bt_wf_Nil], of es i e]
  by (auto simp: fold_add_edge split: list.splits)

lemma fold_add_edge_ids: "(i, e) \<in> set (fold add_edge es []) \<Longrightarrow> e_id e = i"
proof -
  assume "(i, e) \<in> set (fold add_edge es [])"
  then obtain k ks where k: "filter (\<lambda>x. e_id x = i) es = k # ks" "e = merge_all ks k"
    by (auto simp: fold_add_edge_mem)
  then have "k \<in> set (filter (\<lambda>x. e_id x = i) es)" by simp
  then show ?thesis using k(2) by (simp add: merge_all_keeps)
qed

subsection \<open>Properties\<close>

text \<open>
  C30: every consumer and test call is counted under exactly one outcome, the one of its resolution: the
  four counters are the numbers of calls with a unique provider, without one, with several and to
  external hosts, and together they count every call.
\<close>

theorem link_coverage_exact:
  "let index = route_index_new boundaries; calls = remote_calls boundaries tests;
       coverage = rep_coverage (lr_report (link_http_routes hash boundaries tests implementations authorities));
       outcome = (\<lambda>call. resolve_call index (rc_method call) (rc_path call) (n_repo_id (rc_node call)) (rc_scope call) authorities) in
   cov_linked coverage = length (filter (\<lambda>call. \<exists>p. outcome call = RouteCall (Unique p)) calls)
   \<and> cov_ambiguous coverage = length (filter (\<lambda>call. \<exists>ps. outcome call = RouteCall (AmbiguousRoute ps)) calls)
   \<and> cov_no_provider coverage = length (filter (\<lambda>call. outcome call = RouteCall Unmatched) calls)
   \<and> cov_external coverage = length (filter (\<lambda>call. outcome call = ExternalCall) calls)
   \<and> cov_linked coverage + cov_ambiguous coverage + cov_no_provider coverage + cov_external coverage = length calls"
proof -
  have reasons: "map_option fst (call_gap r) = None \<longleftrightarrow> (\<exists>p. r = RouteCall (Unique p))"
    "map_option fst (call_gap r) = Some AmbiguousProvider \<longleftrightarrow> (\<exists>ps. r = RouteCall (AmbiguousRoute ps))"
    "map_option fst (call_gap r) = Some NoProvider \<longleftrightarrow> r = RouteCall Unmatched"
    "map_option fst (call_gap r) = Some External \<longleftrightarrow> r = ExternalCall" for r
    by (cases r rule: call_gap.cases; simp)+
  have split: "length (filter P xs) + length (filter Q xs) + length (filter R xs) + length (filter S xs) = length xs"
    if "\<And>x. (P x \<and> \<not> Q x \<and> \<not> R x \<and> \<not> S x) \<or> (\<not> P x \<and> Q x \<and> \<not> R x \<and> \<not> S x)
        \<or> (\<not> P x \<and> \<not> Q x \<and> R x \<and> \<not> S x) \<or> (\<not> P x \<and> \<not> Q x \<and> \<not> R x \<and> S x)"
    for P Q R S and xs :: "remote_call list"
  proof (induction xs)
    case (Cons x xs)
    then show ?case using that [of x] by auto
  qed simp
  have total: "length (filter (\<lambda>c. \<exists>p. o' c = RouteCall (Unique p)) xs) + length (filter (\<lambda>c. \<exists>ps. o' c = RouteCall (AmbiguousRoute ps)) xs)
      + length (filter (\<lambda>c. o' c = RouteCall Unmatched) xs) + length (filter (\<lambda>c. o' c = ExternalCall) xs) = length xs"
    for o' and xs :: "remote_call list"
    by (rule split) (metis call_resolution.distinct(1) call_resolution.exhaust call_resolution.inject route_resolution.distinct
        route_resolution.exhaust)
  show ?thesis
    unfolding Let_def link_http_routes_parts count_reason_def reasons
    using total by simp
qed

text \<open>
  C9: the gaps of the report are exactly the calls without an edge: for each call that is ambiguous,
  unmatched or external the gap that names the call, the reason and the candidates in order, and
  nothing else; they are listed once each.
\<close>

theorem link_gaps_exact:
  "let index = route_index_new boundaries; calls = remote_calls boundaries tests;
       gaps = rep_gaps (lr_report (link_http_routes hash boundaries tests implementations authorities));
       outcome = (\<lambda>call. resolve_call index (rc_method call) (rc_path call) (n_repo_id (rc_node call)) (rc_scope call) authorities) in
   distinct gaps
   \<and> set gaps = {gap_of call AmbiguousProvider ps | call ps. call \<in> set calls \<and> outcome call = RouteCall (AmbiguousRoute ps)}
        \<union> {gap_of call NoProvider [] | call. call \<in> set calls \<and> outcome call = RouteCall Unmatched}
        \<union> {gap_of call External [] | call. call \<in> set calls \<and> outcome call = ExternalCall}"
proof -
  have inj: "gap_key a = gap_key b \<Longrightarrow> a = b" for a b
    by (simp add: gap_key_def)
  have strict: "distinct (remdups_adj xs)" if "sorted (map gap_key xs)" for xs
    using that
  proof (induction xs rule: remdups_adj.induct)
    case (3 x y xs)
    show ?case
    proof (cases "x = y")
      case False
      have "x \<notin> set (y # xs)"
      proof
        assume "x \<in> set (y # xs)"
        then have "gap_key y \<le> gap_key x" "gap_key x \<le> gap_key y" using "3.prems" by auto
        then show False using inj False by (meson antisym)
      qed
      with 3 False show ?thesis by auto
    qed (use 3 in simp)
  qed simp_all
  have gaps: "set (gap_list index authorities calls) =
      {gap_of call AmbiguousProvider ps | call ps. call \<in> set calls \<and> resolution_of_call index authorities call = RouteCall (AmbiguousRoute ps)}
      \<union> {gap_of call NoProvider [] | call. call \<in> set calls \<and> resolution_of_call index authorities call = RouteCall Unmatched}
      \<union> {gap_of call External [] | call. call \<in> set calls \<and> resolution_of_call index authorities call = ExternalCall}"
    for index calls
  proof (induction calls)
    case (Cons c calls)
    have "set (gap_list index authorities (c # calls)) =
        (case call_gap (resolution_of_call index authorities c) of None \<Rightarrow> {} | Some (r, ps) \<Rightarrow> {gap_of c r ps})
        \<union> set (gap_list index authorities calls)"
      by (auto simp: gap_list_def map_filter_simps split: option.splits)
    then show ?case
      unfolding Cons.IH by (cases "resolution_of_call index authorities c" rule: call_gap.cases) auto
  qed (simp add: gap_list_def map_filter_simps)
  show ?thesis
    unfolding Let_def link_http_routes_parts by (simp add: strict gaps)
qed

text \<open>
  C8: the edges of the result are the requested edges with one identity merged. The result is ordered by
  identity without duplicates; an edge is in it exactly when it merges all the requests with its
  identity, and its evidence is the union of theirs.
\<close>

theorem link_edges_exact:
  "let requests = requested_edges hash boundaries tests implementations authorities;
       edges = lr_edges (link_http_routes hash boundaries tests implementations authorities) in
   sorted_wrt (<) (map e_id edges)
   \<and> e_id ` set edges = e_id ` set requests
   \<and> (\<forall>e. e \<in> set edges \<longleftrightarrow>
        (\<exists>k ks. filter (\<lambda>x. e_id x = e_id e) requests = k # ks \<and> e = fold (\<lambda>x m. merge_equivalent_edge m x) ks k))
   \<and> (\<forall>e \<in> set edges. set (e_evidence e) = (\<Union>x \<in> {x \<in> set requests. e_id x = e_id e}. set (e_evidence x)))"
proof -
  define requests where "requests = requested_edges hash boundaries tests implementations authorities"
  define edges where "edges = lr_edges (link_http_routes hash boundaries tests implementations authorities)"
  have edges: "edges = map snd (fold add_edge requests [])"
    by (simp add: edges_def requests_def link_http_routes_parts)
  have ids: "map e_id edges = map fst (fold add_edge requests [])"
    unfolding edges using fold_add_edge_ids by fastforce
  have order: "sorted_wrt (<) (map e_id edges)"
    using fold_add_edge_wf [OF bt_wf_Nil, of requests] unfolding ids bt_wf_def .
  have mem: "e \<in> set edges \<longleftrightarrow> (\<exists>k ks. filter (\<lambda>x. e_id x = e_id e) requests = k # ks \<and> e = merge_all ks k)" for e
  proof -
    have "e \<in> set edges \<longleftrightarrow> (e_id e, e) \<in> set (fold add_edge requests [])"
      unfolding edges using fold_add_edge_ids by force
    then show ?thesis by (simp add: fold_add_edge_mem)
  qed
  have same: "e_id ` set edges = e_id ` set requests"
  proof -
    have "i \<in> e_id ` set edges \<longleftrightarrow> bt_get (fold add_edge requests []) i \<noteq> None" for i
      using arg_cong [OF ids, of set] by (simp add: map_of_eq_None_iff)
    also have "\<dots> i \<longleftrightarrow> filter (\<lambda>x. e_id x = i) requests \<noteq> []" for i
      by (simp add: fold_add_edge split: list.splits)
    finally have "i \<in> e_id ` set edges \<longleftrightarrow> i \<in> e_id ` set requests" for i
      by (auto simp: filter_empty_conv)
    then show ?thesis by (rule set_eqI)
  qed
  have evidence: "set (e_evidence e) = (\<Union>x \<in> {x \<in> set requests. e_id x = e_id e}. set (e_evidence x))"
    if e: "e \<in> set edges" for e
  proof -
    obtain k ks where k: "filter (\<lambda>x. e_id x = e_id e) requests = k # ks" "e = merge_all ks k"
      using e mem by blast
    have "{x \<in> set requests. e_id x = e_id e} = set (k # ks)" using k(1) by (metis set_filter)
    then show ?thesis using k(2) merge_all_evidence [of ks k] by simp
  qed
  show ?thesis
    unfolding Let_def requests_def [symmetric] edges_def [symmetric]
    using order same mem [unfolded merge_all_def] evidence by blast
qed

definition sample_workspace :: "http_boundary list" where
  "sample_workspace = sample_boundaries @ [(sample_boundary ''w'' ''web'' ''/users/me'')\<lparr>hb_role := Consumer\<rparr>]"

lemma sample_workspace_links:
  "requested_edges (\<lambda>s. s) sample_workspace [] [] authority_map_new
     = [link_edge (\<lambda>s. s) ''w'' ''b'' CallsRemote ''calls_remote'' (Fin 1) [''w-evidence'', ''b-evidence'']]"
  by code_simp

theorem link_edges_exact_witness:
  "set (lr_edges (link_http_routes (\<lambda>s. s) sample_workspace [] [] authority_map_new))
     = {link_edge (\<lambda>s. s) ''w'' ''b'' CallsRemote ''calls_remote'' (Fin 1) [''w-evidence'', ''b-evidence'']}"
proof -
  let ?k = "link_edge (\<lambda>s. s) ''w'' ''b'' CallsRemote ''calls_remote'' (Fin 1) [''w-evidence'', ''b-evidence'']"
  have "e \<in> set (lr_edges (link_http_routes (\<lambda>s. s) sample_workspace [] [] authority_map_new)) \<longleftrightarrow> e = ?k" for e
    using link_edges_exact [where hash = "\<lambda>s. s" and boundaries = sample_workspace and tests = "[]" and implementations = "[]"
        and authorities = authority_map_new]
    unfolding Let_def sample_workspace_links by (auto split: if_splits)
  then show ?thesis by blast
qed

end
