(* ===== verification/Budgets.thy ===== *)
theory Budgets
  imports Model Text_Ops
begin

text \<open>
  \<open>crates/code-system-graph-core/src/extraction_budget.rs\<close>: the extraction budgets of a scan
  (\<open>ExtractionBudgets\<close>), the accounting state of one extractor run (\<open>ExtractionTracker\<close>) and
  the bounded JSON sink (\<open>BoundedJsonWriter\<close>). A tracker operation returns its result and the new
  state, because some counters move even when the call fails; the argument \<open>elapsed\<close> is what the
  monotonic clock reads during the call, in milliseconds.

  The properties: overrides resolve to positive effective limits or name the first zero field; no
  sequence of operations takes a counter past its limit and a refused charge leaves the counters as
  they were; the clock is consulted at least once in every 1024 units of work; the writer keeps the
  accepted chunks only and never more bytes than its limit; and the fingerprint identifies the limits.
\<close>

subsection \<open>Limits\<close>

record extraction_budget_overrides =
  o_max_input_bytes_per_artifact :: "nat option"
  o_max_structural_depth_per_artifact :: "nat option"
  o_max_ast_depth_per_artifact :: "nat option"
  o_max_work_units_per_artifact :: "nat option"
  o_max_tree_sitter_nodes_per_artifact :: "nat option"
  o_max_observations_per_artifact :: "nat option"
  o_max_accumulated_string_bytes_per_artifact :: "nat option"
  o_max_serialized_output_bytes_per_artifact :: "nat option"
  o_max_string_bytes_per_value :: "nat option"
  o_max_portable_path_bytes_per_value :: "nat option"
  o_max_identifier_bytes_per_value :: "nat option"
  o_max_structured_wall_time_ms_per_artifact :: "nat option"
  o_max_tree_sitter_wall_time_ms_per_artifact :: "nat option"

record extraction_budgets =
  max_input_bytes_per_artifact :: nat
  max_structural_depth_per_artifact :: nat
  max_ast_depth_per_artifact :: nat
  max_work_units_per_artifact :: nat
  max_tree_sitter_nodes_per_artifact :: nat
  max_observations_per_artifact :: nat
  max_accumulated_string_bytes_per_artifact :: nat
  max_serialized_output_bytes_per_artifact :: nat
  max_string_bytes_per_value :: nat
  max_portable_path_bytes_per_value :: nat
  max_identifier_bytes_per_value :: nat
  max_structured_wall_time_ms_per_artifact :: nat
  max_tree_sitter_wall_time_ms_per_artifact :: nat

definition default_budgets :: extraction_budgets where
  "default_budgets =
     \<lparr>max_input_bytes_per_artifact = 8388608, max_structural_depth_per_artifact = 64,
      max_ast_depth_per_artifact = 256, max_work_units_per_artifact = 100000,
      max_tree_sitter_nodes_per_artifact = 500000, max_observations_per_artifact = 100000,
      max_accumulated_string_bytes_per_artifact = 33554432, max_serialized_output_bytes_per_artifact = 33554432,
      max_string_bytes_per_value = 65536, max_portable_path_bytes_per_value = 4096,
      max_identifier_bytes_per_value = 1024, max_structured_wall_time_ms_per_artifact = 5000,
      max_tree_sitter_wall_time_ms_per_artifact = 10000\<rparr>"

datatype invalid_extraction_budget = InvalidExtractionBudget string nat

definition canonical_values :: "extraction_budgets \<Rightarrow> (string \<times> nat) list" where
  "canonical_values b =
     [(''maxInputBytesPerArtifact'', max_input_bytes_per_artifact b),
      (''maxStructuralDepthPerArtifact'', max_structural_depth_per_artifact b),
      (''maxAstDepthPerArtifact'', max_ast_depth_per_artifact b),
      (''maxWorkUnitsPerArtifact'', max_work_units_per_artifact b),
      (''maxTreeSitterNodesPerArtifact'', max_tree_sitter_nodes_per_artifact b),
      (''maxObservationsPerArtifact'', max_observations_per_artifact b),
      (''maxAccumulatedStringBytesPerArtifact'', max_accumulated_string_bytes_per_artifact b),
      (''maxSerializedOutputBytesPerArtifact'', max_serialized_output_bytes_per_artifact b),
      (''maxStringBytesPerValue'', max_string_bytes_per_value b),
      (''maxPortablePathBytesPerValue'', max_portable_path_bytes_per_value b),
      (''maxIdentifierBytesPerValue'', max_identifier_bytes_per_value b),
      (''maxStructuredWallTimeMsPerArtifact'', max_structured_wall_time_ms_per_artifact b),
      (''maxTreeSitterWallTimeMsPerArtifact'', max_tree_sitter_wall_time_ms_per_artifact b)]"

definition usize_try_from :: "nat \<Rightarrow> nat option" where
  "usize_try_from value = (if value \<le> usize_max then Some value else None)"

definition validate_field :: "string \<times> nat \<Rightarrow> (invalid_extraction_budget, unit) outcome" where
  "validate_field = (\<lambda>(field, value).
     if value = 0 then Inl (InvalidExtractionBudget field value)
     else if contains_str ''Bytes'' field \<and> usize_try_from value = None
       then Inl (InvalidExtractionBudget field value)
     else Inr ())"

definition validate_budgets :: "extraction_budgets \<Rightarrow> (invalid_extraction_budget, unit) outcome" where
  "validate_budgets b = check_all validate_field (canonical_values b)"

abbreviation override :: "nat option \<Rightarrow> nat \<Rightarrow> nat" where
  "override value base \<equiv> (case value of Some v \<Rightarrow> v | None \<Rightarrow> base)"

definition apply_overrides :: "extraction_budget_overrides \<Rightarrow> extraction_budgets \<Rightarrow> extraction_budgets" where
  "apply_overrides v b =
     \<lparr>max_input_bytes_per_artifact = override (o_max_input_bytes_per_artifact v) (max_input_bytes_per_artifact b),
      max_structural_depth_per_artifact =
        override (o_max_structural_depth_per_artifact v) (max_structural_depth_per_artifact b),
      max_ast_depth_per_artifact = override (o_max_ast_depth_per_artifact v) (max_ast_depth_per_artifact b),
      max_work_units_per_artifact = override (o_max_work_units_per_artifact v) (max_work_units_per_artifact b),
      max_tree_sitter_nodes_per_artifact =
        override (o_max_tree_sitter_nodes_per_artifact v) (max_tree_sitter_nodes_per_artifact b),
      max_observations_per_artifact =
        override (o_max_observations_per_artifact v) (max_observations_per_artifact b),
      max_accumulated_string_bytes_per_artifact =
        override (o_max_accumulated_string_bytes_per_artifact v) (max_accumulated_string_bytes_per_artifact b),
      max_serialized_output_bytes_per_artifact =
        override (o_max_serialized_output_bytes_per_artifact v) (max_serialized_output_bytes_per_artifact b),
      max_string_bytes_per_value = override (o_max_string_bytes_per_value v) (max_string_bytes_per_value b),
      max_portable_path_bytes_per_value =
        override (o_max_portable_path_bytes_per_value v) (max_portable_path_bytes_per_value b),
      max_identifier_bytes_per_value =
        override (o_max_identifier_bytes_per_value v) (max_identifier_bytes_per_value b),
      max_structured_wall_time_ms_per_artifact =
        override (o_max_structured_wall_time_ms_per_artifact v) (max_structured_wall_time_ms_per_artifact b),
      max_tree_sitter_wall_time_ms_per_artifact =
        override (o_max_tree_sitter_wall_time_ms_per_artifact v) (max_tree_sitter_wall_time_ms_per_artifact b)\<rparr>"

definition resolve_budgets ::
  "extraction_budget_overrides option \<Rightarrow> (invalid_extraction_budget, extraction_budgets) outcome" where
  "resolve_budgets overrides =
     (let budgets = (case overrides of None \<Rightarrow> default_budgets | Some v \<Rightarrow> apply_overrides v default_budgets) in
      and_then (validate_budgets budgets) (\<lambda>_. Inr budgets))"

definition canonical_text :: "(string \<times> nat) list \<Rightarrow> string" where
  "canonical_text values = join '';'' (map (\<lambda>(name, value). name @ ''='' @ show_nat value) values)"

definition budgets_fingerprint :: "(string \<Rightarrow> string) \<Rightarrow> extraction_budgets \<Rightarrow> string" where
  "budgets_fingerprint hash b = stable_id hash ''extraction-budgets'' (canonical_text (canonical_values b))"

subsection \<open>The tracker\<close>

datatype extraction_resource =
  InputBytes | StructuralDepth | AstDepth | WorkUnits | TreeSitterNodes | Observations
  | AccumulatedStringBytes | SerializedOutputBytes | StringBytesPerValue | PortablePathBytesPerValue
  | IdentifierBytesPerValue | StructuredWallTimeMs | TreeSitterWallTimeMs

record extraction_limit_exceeded =
  xl_artifact :: string
  xl_extractor :: string
  xl_resource :: extraction_resource
  xl_observed :: nat
  xl_maximum :: nat

record extraction_tracker =
  xt_budgets :: extraction_budgets
  xt_artifact :: string
  xt_extractor :: string
  xt_work_units :: nat
  xt_tree_sitter_nodes :: nat
  xt_observations :: nat
  xt_accumulated_string_bytes :: nat
  xt_sampled_units :: nat

type_synonym tracker_result = "(extraction_limit_exceeded, unit) outcome"

definition tracker_new :: "string \<Rightarrow> string \<Rightarrow> extraction_budgets \<Rightarrow> extraction_tracker" where
  "tracker_new artifact extractor budgets =
     \<lparr>xt_budgets = budgets, xt_artifact = artifact, xt_extractor = extractor, xt_work_units = 0,
      xt_tree_sitter_nodes = 0, xt_observations = 0, xt_accumulated_string_bytes = 0, xt_sampled_units = 0\<rparr>"

definition exceeded :: "extraction_tracker \<Rightarrow> extraction_resource \<Rightarrow> nat \<Rightarrow> nat \<Rightarrow> extraction_limit_exceeded" where
  "exceeded t resource observed maximum =
     \<lparr>xl_artifact = xt_artifact t, xl_extractor = xt_extractor t, xl_resource = resource,
      xl_observed = observed, xl_maximum = maximum\<rparr>"

definition check_value_bytes ::
  "extraction_tracker \<Rightarrow> nat \<Rightarrow> nat \<Rightarrow> extraction_resource \<Rightarrow> tracker_result" where
  "check_value_bytes t observed maximum resource =
     (if maximum < observed then Inl (exceeded t resource observed maximum) else Inr ())"

definition check_input_bytes :: "extraction_tracker \<Rightarrow> nat \<Rightarrow> tracker_result" where
  "check_input_bytes t observed =
     (if max_input_bytes_per_artifact (xt_budgets t) < observed
      then Inl (exceeded t InputBytes observed (max_input_bytes_per_artifact (xt_budgets t))) else Inr ())"

definition check_string_bytes :: "extraction_tracker \<Rightarrow> nat \<Rightarrow> tracker_result" where
  "check_string_bytes t observed =
     check_value_bytes t observed (max_string_bytes_per_value (xt_budgets t)) StringBytesPerValue"

definition check_identifier_bytes :: "extraction_tracker \<Rightarrow> nat \<Rightarrow> tracker_result" where
  "check_identifier_bytes t observed =
     check_value_bytes t observed (max_identifier_bytes_per_value (xt_budgets t)) IdentifierBytesPerValue"

definition check_accumulated_string_bytes :: "extraction_tracker \<Rightarrow> nat \<Rightarrow> tracker_result" where
  "check_accumulated_string_bytes t observed =
     check_value_bytes t observed (max_accumulated_string_bytes_per_artifact (xt_budgets t)) AccumulatedStringBytes"

definition check_work_units :: "extraction_tracker \<Rightarrow> nat \<Rightarrow> tracker_result" where
  "check_work_units t observed =
     (if max_work_units_per_artifact (xt_budgets t) < observed
      then Inl (exceeded t WorkUnits observed (max_work_units_per_artifact (xt_budgets t))) else Inr ())"

definition check_observations :: "extraction_tracker \<Rightarrow> nat \<Rightarrow> tracker_result" where
  "check_observations t observed =
     (if max_observations_per_artifact (xt_budgets t) < observed
      then Inl (exceeded t Observations observed (max_observations_per_artifact (xt_budgets t))) else Inr ())"

definition check_structural_depth :: "extraction_tracker \<Rightarrow> nat \<Rightarrow> tracker_result" where
  "check_structural_depth t depth =
     (if max_structural_depth_per_artifact (xt_budgets t) < depth
      then Inl (exceeded t StructuralDepth depth (max_structural_depth_per_artifact (xt_budgets t))) else Inr ())"

definition check_ast_depth :: "extraction_tracker \<Rightarrow> nat \<Rightarrow> tracker_result" where
  "check_ast_depth t depth =
     (if max_ast_depth_per_artifact (xt_budgets t) < depth
      then Inl (exceeded t AstDepth depth (max_ast_depth_per_artifact (xt_budgets t))) else Inr ())"

definition charge_counter ::
  "extraction_tracker \<Rightarrow> nat \<Rightarrow> nat \<Rightarrow> nat \<Rightarrow> extraction_resource \<Rightarrow> (extraction_limit_exceeded, nat) outcome" where
  "charge_counter t current amount maximum resource =
     (case checked_add current amount of
        None \<Rightarrow> Inl (exceeded t resource usize_max maximum)
      | Some observed \<Rightarrow>
          if maximum < observed then Inl (exceeded t resource observed maximum) else Inr observed)"

definition check_elapsed :: "nat \<Rightarrow> bool \<Rightarrow> extraction_tracker \<Rightarrow> tracker_result" where
  "check_elapsed elapsed tree_sitter t =
     (let observed = min elapsed usize_max;
          (resource, maximum) =
            (if tree_sitter then (TreeSitterWallTimeMs, max_tree_sitter_wall_time_ms_per_artifact (xt_budgets t))
             else (StructuredWallTimeMs, max_structured_wall_time_ms_per_artifact (xt_budgets t))) in
      if maximum < observed then Inl (exceeded t resource observed maximum) else Inr ())"

definition sample_time :: "nat \<Rightarrow> bool \<Rightarrow> extraction_tracker \<Rightarrow> tracker_result \<times> extraction_tracker" where
  "sample_time elapsed tree_sitter t =
     (let units = saturating_add (xt_work_units t) (xt_tree_sitter_nodes t) in
      if (xt_sampled_units t = 0 \<and> 0 < units) \<or> xt_sampled_units t div 1024 < units div 1024 then
        (let t = t\<lparr>xt_sampled_units := units\<rparr> in (check_elapsed elapsed tree_sitter t, t))
      else (Inr (), t))"

definition charge_work :: "nat \<Rightarrow> nat \<Rightarrow> extraction_tracker \<Rightarrow> tracker_result \<times> extraction_tracker" where
  "charge_work elapsed amount t =
     (case charge_counter t (xt_work_units t) amount (max_work_units_per_artifact (xt_budgets t)) WorkUnits of
        Inl e \<Rightarrow> (Inl e, t)
      | Inr observed \<Rightarrow> sample_time elapsed False (t\<lparr>xt_work_units := observed\<rparr>))"

definition charge_tree_sitter_node :: "nat \<Rightarrow> nat \<Rightarrow> extraction_tracker \<Rightarrow> tracker_result \<times> extraction_tracker" where
  "charge_tree_sitter_node elapsed depth t =
     (case check_ast_depth t depth of
        Inl e \<Rightarrow> (Inl e, t)
      | Inr _ \<Rightarrow>
          (case charge_counter t (xt_tree_sitter_nodes t) 1 (max_tree_sitter_nodes_per_artifact (xt_budgets t)) TreeSitterNodes of
             Inl e \<Rightarrow> (Inl e, t)
           | Inr observed \<Rightarrow> sample_time elapsed True (t\<lparr>xt_tree_sitter_nodes := observed\<rparr>)))"

definition charge_observation :: "nat \<Rightarrow> extraction_tracker \<Rightarrow> tracker_result \<times> extraction_tracker" where
  "charge_observation amount t =
     (case charge_counter t (xt_observations t) amount (max_observations_per_artifact (xt_budgets t)) Observations of
        Inl e \<Rightarrow> (Inl e, t)
      | Inr observed \<Rightarrow> (Inr (), t\<lparr>xt_observations := observed\<rparr>))"

definition ensure_observations :: "nat \<Rightarrow> extraction_tracker \<Rightarrow> tracker_result \<times> extraction_tracker" where
  "ensure_observations minimum t =
     (if xt_observations t < minimum then charge_observation (minimum - xt_observations t) t else (Inr (), t))"

definition charge_bytes ::
  "nat \<Rightarrow> nat \<Rightarrow> extraction_resource \<Rightarrow> extraction_tracker \<Rightarrow> tracker_result \<times> extraction_tracker" where
  "charge_bytes bytes maximum resource t =
     (if maximum < bytes then (Inl (exceeded t resource bytes maximum), t)
      else
        case charge_counter t (xt_accumulated_string_bytes t) bytes
            (max_accumulated_string_bytes_per_artifact (xt_budgets t)) AccumulatedStringBytes of
          Inl e \<Rightarrow> (Inl e, t)
        | Inr observed \<Rightarrow> (Inr (), t\<lparr>xt_accumulated_string_bytes := observed\<rparr>))"

definition charge_value ::
  "string \<Rightarrow> nat \<Rightarrow> extraction_resource \<Rightarrow> extraction_tracker \<Rightarrow> tracker_result \<times> extraction_tracker" where
  "charge_value value maximum resource t = charge_bytes (min (length value) usize_max) maximum resource t"

definition charge_string :: "string \<Rightarrow> extraction_tracker \<Rightarrow> tracker_result \<times> extraction_tracker" where
  "charge_string value t = charge_value value (max_string_bytes_per_value (xt_budgets t)) StringBytesPerValue t"

definition charge_portable_path :: "string \<Rightarrow> extraction_tracker \<Rightarrow> tracker_result \<times> extraction_tracker" where
  "charge_portable_path value t =
     charge_value value (max_portable_path_bytes_per_value (xt_budgets t)) PortablePathBytesPerValue t"

definition charge_identifier :: "string \<Rightarrow> extraction_tracker \<Rightarrow> tracker_result \<times> extraction_tracker" where
  "charge_identifier value t =
     charge_value value (max_identifier_bytes_per_value (xt_budgets t)) IdentifierBytesPerValue t"

definition charge_identifier_bytes :: "nat \<Rightarrow> extraction_tracker \<Rightarrow> tracker_result \<times> extraction_tracker" where
  "charge_identifier_bytes bytes t =
     charge_bytes bytes (max_identifier_bytes_per_value (xt_budgets t)) IdentifierBytesPerValue t"

definition check_structured_time :: "nat \<Rightarrow> extraction_tracker \<Rightarrow> tracker_result" where
  "check_structured_time elapsed t = check_elapsed elapsed False t"

definition check_tree_sitter_time :: "nat \<Rightarrow> extraction_tracker \<Rightarrow> tracker_result" where
  "check_tree_sitter_time elapsed t = check_elapsed elapsed True t"

subsection \<open>The bounded writer\<close>

record bounded_json_writer =
  bw_bytes :: string
  bw_maximum :: nat
  bw_exceeded :: "nat option"

definition bounded_json_writer_new :: "extraction_tracker \<Rightarrow> bounded_json_writer" where
  "bounded_json_writer_new t =
     \<lparr>bw_bytes = [], bw_maximum = max_serialized_output_bytes_per_artifact (xt_budgets t), bw_exceeded = None\<rparr>"

definition bounded_write :: "string \<Rightarrow> bounded_json_writer \<Rightarrow> (string, nat) outcome \<times> bounded_json_writer" where
  "bounded_write buffer w =
     (let current = min (length (bw_bytes w)) usize_max;
          amount = min (length buffer) usize_max;
          observed = saturating_add current amount in
      if bw_maximum w < observed then
        (Inl ''serialized extraction output exceeds its limit'', w\<lparr>bw_exceeded := Some observed\<rparr>)
      else (Inr (length buffer), w\<lparr>bw_bytes := bw_bytes w @ buffer\<rparr>))"

definition output_limit_error :: "extraction_tracker \<Rightarrow> bounded_json_writer \<Rightarrow> extraction_limit_exceeded option" where
  "output_limit_error t w =
     map_option (\<lambda>observed. exceeded t SerializedOutputBytes observed
       (max_serialized_output_bytes_per_artifact (xt_budgets t))) (bw_exceeded w)"


subsection \<open>Sequences of operations\<close>

datatype tracker_op =
  OpWork nat nat | OpNode nat nat | OpObservation nat | OpEnsure nat
  | OpString string | OpPath string | OpIdentifier string | OpIdentifierBytes nat

fun apply_op :: "tracker_op \<Rightarrow> extraction_tracker \<Rightarrow> tracker_result \<times> extraction_tracker" where
  "apply_op (OpWork elapsed amount) = charge_work elapsed amount"
| "apply_op (OpNode elapsed depth) = charge_tree_sitter_node elapsed depth"
| "apply_op (OpObservation amount) = charge_observation amount"
| "apply_op (OpEnsure minimum) = ensure_observations minimum"
| "apply_op (OpString value) = charge_string value"
| "apply_op (OpPath value) = charge_portable_path value"
| "apply_op (OpIdentifier value) = charge_identifier value"
| "apply_op (OpIdentifierBytes bytes) = charge_identifier_bytes bytes"

inductive tracker_reaches :: "extraction_budgets \<Rightarrow> extraction_tracker \<Rightarrow> bool" for b where
  start: "tracker_reaches b (tracker_new artifact extractor b)"
| op: "tracker_reaches b t \<Longrightarrow> apply_op op t = (r, t') \<Longrightarrow> tracker_reaches b t'"

definition tracker_units :: "extraction_tracker \<Rightarrow> nat" where
  "tracker_units t = saturating_add (xt_work_units t) (xt_tree_sitter_nodes t)"

definition within_limits :: "extraction_tracker \<Rightarrow> bool" where
  "within_limits t \<longleftrightarrow>
     xt_work_units t \<le> max_work_units_per_artifact (xt_budgets t)
     \<and> xt_tree_sitter_nodes t \<le> max_tree_sitter_nodes_per_artifact (xt_budgets t)
     \<and> xt_observations t \<le> max_observations_per_artifact (xt_budgets t)
     \<and> xt_accumulated_string_bytes t \<le> max_accumulated_string_bytes_per_artifact (xt_budgets t)"

definition sampled :: "extraction_tracker \<Rightarrow> bool" where
  "sampled t \<longleftrightarrow> xt_sampled_units t \<le> tracker_units t \<and> tracker_units t div 1024 = xt_sampled_units t div 1024
     \<and> (tracker_units t = 0 \<longleftrightarrow> xt_sampled_units t = 0)"

lemma sampled_simps [simp]:
  "sampled (t\<lparr>xt_observations := n\<rparr>) = sampled t" "sampled (t\<lparr>xt_accumulated_string_bytes := n\<rparr>) = sampled t"
  by (simp_all add: sampled_def tracker_units_def)

lemma charge_counter_Inr [simp]:
  "charge_counter t current amount maximum resource = Inr n \<longleftrightarrow>
     n = current + amount \<and> n \<le> maximum \<and> n \<le> usize_max"
  by (auto simp: charge_counter_def checked_add_def)

lemma charge_counter_Inl:
  "charge_counter t current amount maximum resource = Inl e \<longleftrightarrow>
     (maximum < current + amount \<or> usize_max < current + amount)
     \<and> e = exceeded t resource (min (current + amount) usize_max) maximum"
  by (auto simp: charge_counter_def checked_add_def)

lemma charge_counter_error:
  "charge_counter t current amount maximum resource = Inl e \<Longrightarrow>
     xl_artifact e = xt_artifact t \<and> xl_extractor e = xt_extractor t \<and> xl_resource e = resource
     \<and> (xl_maximum e < xl_observed e \<or> xl_observed e = usize_max)"
  by (auto simp: charge_counter_Inl exceeded_def)

text \<open>The two shapes of an operation's effect: nothing, or one counter moved within its limit.\<close>

lemma sample_time_effect:
  assumes "sample_time elapsed ts t = (r, t')"
  shows "t' = t\<lparr>xt_sampled_units := xt_sampled_units t'\<rparr>"
    and "xt_sampled_units t \<le> tracker_units t \<Longrightarrow> sampled t'"
proof -
  show "t' = t\<lparr>xt_sampled_units := xt_sampled_units t'\<rparr>"
    using assms by (auto simp: sample_time_def Let_def split: if_splits)
  assume le: "xt_sampled_units t \<le> tracker_units t"
  then have "xt_sampled_units t div 1024 \<le> tracker_units t div 1024" by (rule div_le_mono)
  then show "sampled t'"
    using assms le by (auto simp: sample_time_def Let_def sampled_def tracker_units_def split: if_splits)
qed

lemma charge_work_cases:
  assumes "charge_work elapsed amount t = (r, t')"
  obtains "t' = t" | n where "n = xt_work_units t + amount" "n \<le> max_work_units_per_artifact (xt_budgets t)"
    "sample_time elapsed False (t\<lparr>xt_work_units := n\<rparr>) = (r, t')"
  using assms by (auto simp: charge_work_def split: sum.splits)

lemma charge_node_cases:
  assumes "charge_tree_sitter_node elapsed depth t = (r, t')"
  obtains "t' = t" | n where "n = xt_tree_sitter_nodes t + 1" "n \<le> max_tree_sitter_nodes_per_artifact (xt_budgets t)"
    "sample_time elapsed True (t\<lparr>xt_tree_sitter_nodes := n\<rparr>) = (r, t')"
  using assms by (auto simp: charge_tree_sitter_node_def split: sum.splits)

lemmas value_charges = charge_observation_def ensure_observations_def charge_string_def charge_portable_path_def
  charge_identifier_def charge_identifier_bytes_def charge_value_def charge_bytes_def

lemma sample_time_limits:
  "sample_time elapsed ts t = (r, t') \<Longrightarrow> within_limits t' = within_limits t \<and> xt_budgets t' = xt_budgets t"
  by (auto simp: sample_time_def Let_def within_limits_def split: if_splits)

lemma apply_op_limits:
  assumes "apply_op op t = (r, t')" and "within_limits t"
  shows "within_limits t' \<and> xt_budgets t' = xt_budgets t"
proof (cases op)
  case (OpWork elapsed amount)
  then have "charge_work elapsed amount t = (r, t')" using assms(1) by simp
  then show ?thesis
    by (cases rule: charge_work_cases) (use assms(2) sample_time_limits in \<open>fastforce simp: within_limits_def\<close>)+
next
  case (OpNode elapsed depth)
  then have "charge_tree_sitter_node elapsed depth t = (r, t')" using assms(1) by simp
  then show ?thesis
    by (cases rule: charge_node_cases) (use assms(2) sample_time_limits in \<open>fastforce simp: within_limits_def\<close>)+
qed (use assms in \<open>auto simp: value_charges within_limits_def split: sum.splits if_splits\<close>)

lemma apply_op_sampled:
  assumes "apply_op op t = (r, t')" and "sampled t"
  shows "sampled t'"
proof -
  have grow: "saturating_add a b \<le> saturating_add (a + c) b" "saturating_add a b \<le> saturating_add a (b + c)" for a b c
    by (auto simp: saturating_add_def)
  have le: "xt_sampled_units t \<le> tracker_units (t\<lparr>xt_work_units := xt_work_units t + c\<rparr>)"
      "xt_sampled_units t \<le> tracker_units (t\<lparr>xt_tree_sitter_nodes := xt_tree_sitter_nodes t + c\<rparr>)" for c
    using assms(2) grow [of "xt_work_units t" "xt_tree_sitter_nodes t" c]
    by (simp_all add: sampled_def tracker_units_def)
  show ?thesis
  proof (cases op)
    case (OpWork elapsed amount)
    then have "charge_work elapsed amount t = (r, t')" using assms(1) by simp
    then show ?thesis
      by (cases rule: charge_work_cases) (use assms(2) le(1) sample_time_effect(2) in fastforce)+
  next
    case (OpNode elapsed depth)
    then have "charge_tree_sitter_node elapsed depth t = (r, t')" using assms(1) by simp
    then show ?thesis
      by (cases rule: charge_node_cases) (use assms(2) le(2) [of 1] sample_time_effect(2) in fastforce)+
  qed (use assms in \<open>auto simp: value_charges split: sum.splits if_splits\<close>)
qed

lemma tracker_reaches_invariant:
  "tracker_reaches b t \<Longrightarrow> xt_budgets t = b \<and> within_limits t \<and> sampled t"
proof (induction rule: tracker_reaches.induct)
  case (start artifact extractor)
  then show ?case by (simp add: tracker_new_def within_limits_def sampled_def tracker_units_def saturating_add_def)
next
  case (op t op r t')
  then show ?case using apply_op_limits apply_op_sampled by metis
qed

text \<open>
  C27: no counter passes its limit: whatever sequence of charges an extractor makes, accepted or refused
  and whatever the clock reads, the work units, syntax nodes, observations and accumulated string bytes
  of its tracker stay within the configured maxima.
\<close>

theorem tracker_within_limits:
  assumes "tracker_reaches b t"
  shows "xt_work_units t \<le> max_work_units_per_artifact b
     \<and> xt_tree_sitter_nodes t \<le> max_tree_sitter_nodes_per_artifact b
     \<and> xt_observations t \<le> max_observations_per_artifact b
     \<and> xt_accumulated_string_bytes t \<le> max_accumulated_string_bytes_per_artifact b"
  using tracker_reaches_invariant [OF assms] by (auto simp: within_limits_def)

definition sample_tracker :: extraction_tracker where
  "sample_tracker = snd (apply_op (OpWork 3 1500) (tracker_new ''a.rs'' ''http'' default_budgets))"

lemma sample_tracker_reached: "tracker_reaches default_budgets sample_tracker"
  unfolding sample_tracker_def
  by (rule tracker_reaches.op [OF tracker_reaches.start]) (rule prod.collapse [symmetric])

theorem tracker_within_limits_witness: "xt_work_units sample_tracker \<le> 100000"
  using tracker_within_limits [OF sample_tracker_reached] by (simp add: default_budgets_def)

text \<open>The clock is consulted often enough: the units charged since the last clock reading (or, before
  the first charge, since the start) are always fewer than 1024, and the first charged unit has already
  been sampled.
\<close>

lemma tracker_samples_clock:
  assumes "tracker_reaches b t"
  shows "xt_sampled_units t \<le> saturating_add (xt_work_units t) (xt_tree_sitter_nodes t)
     \<and> saturating_add (xt_work_units t) (xt_tree_sitter_nodes t) < xt_sampled_units t + 1024
     \<and> (saturating_add (xt_work_units t) (xt_tree_sitter_nodes t) = 0 \<longleftrightarrow> xt_sampled_units t = 0)"
proof -
  have s: "sampled t" using tracker_reaches_invariant [OF assms] by simp
  have "a < b + 1024" if "a div 1024 = b div 1024" for a b :: nat
  proof -
    have "a = 1024 * (a div 1024) + a mod 1024" "a mod 1024 < 1024" "1024 * (b div 1024) \<le> b" by simp_all
    then show ?thesis using that by linarith
  qed
  then show ?thesis using s by (simp add: sampled_def tracker_units_def)
qed


text \<open>A refused operation names its artifact, extractor and resource with an observed value past the
  maximum (or saturated), and it changes nothing, except that a charge whose counters were accepted and
  that is refused by the clock keeps the accepted units.
\<close>

lemma apply_op_refused:
  assumes "apply_op op t = (Inl e, t')"
  shows "xl_artifact e = xt_artifact t \<and> xl_extractor e = xt_extractor t
     \<and> (xl_maximum e < xl_observed e \<or> xl_observed e = usize_max)
     \<and> (if xl_resource e \<in> {StructuredWallTimeMs, TreeSitterWallTimeMs}
        then xt_observations t' = xt_observations t
          \<and> xt_accumulated_string_bytes t' = xt_accumulated_string_bytes t
        else t' = t)"
proof -
  have time: "xl_artifact e = xt_artifact u \<and> xl_extractor e = xt_extractor u \<and> xl_maximum e < xl_observed e
      \<and> xl_resource e \<in> {StructuredWallTimeMs, TreeSitterWallTimeMs}
      \<and> xt_observations t' = xt_observations u \<and> xt_accumulated_string_bytes t' = xt_accumulated_string_bytes u"
    if "sample_time elapsed ts u = (Inl e, t')" for elapsed ts u
    using that by (auto simp: sample_time_def check_elapsed_def Let_def exceeded_def split: if_splits)
  show ?thesis
  proof (cases op)
    case (OpWork elapsed amount)
    then have run: "charge_work elapsed amount t = (Inl e, t')" using assms by simp
    show ?thesis
    proof (cases "charge_counter t (xt_work_units t) amount (max_work_units_per_artifact (xt_budgets t)) WorkUnits")
      case (Inl e')
      then have "e = e'" "t' = t" using run by (simp_all add: charge_work_def)
      then show ?thesis using charge_counter_error [OF Inl] by simp
    next
      case (Inr n)
      then have "sample_time elapsed False (t\<lparr>xt_work_units := n\<rparr>) = (Inl e, t')"
        using run unfolding charge_work_def by (simp only: sum.case)
      from time [OF this] show ?thesis by simp
    qed
  next
    case (OpNode elapsed depth)
    then have run: "charge_tree_sitter_node elapsed depth t = (Inl e, t')" using assms by simp
    show ?thesis
    proof (cases "max_ast_depth_per_artifact (xt_budgets t) < depth")
      case True
      then show ?thesis using run by (auto simp: charge_tree_sitter_node_def check_ast_depth_def exceeded_def)
    next
      case deep: False
      show ?thesis
      proof (cases "charge_counter t (xt_tree_sitter_nodes t) 1 (max_tree_sitter_nodes_per_artifact (xt_budgets t)) TreeSitterNodes")
        case (Inl e')
        then have "e = e'" "t' = t"
          using run deep unfolding charge_tree_sitter_node_def check_ast_depth_def by (simp_all only: if_False sum.case prod.inject sum.inject)
        then show ?thesis using charge_counter_error [OF Inl] by simp
      next
        case (Inr n)
        then have "sample_time elapsed True (t\<lparr>xt_tree_sitter_nodes := n\<rparr>) = (Inl e, t')"
          using run deep unfolding charge_tree_sitter_node_def check_ast_depth_def by (simp only: if_False sum.case)
        from time [OF this] show ?thesis by simp
      qed
    qed
  qed (use assms in \<open>auto simp: value_charges exceeded_def dest!: charge_counter_error split: sum.splits if_splits\<close>)
qed


subsection \<open>Resolving overrides\<close>

lemma validate_field_ok: "v \<le> usize_max \<Longrightarrow> validate_field (f, v) = (if v = 0 then Inl (InvalidExtractionBudget f v) else Inr ())"
  by (simp add: validate_field_def usize_try_from_def)

definition representable_budgets :: "extraction_budgets \<Rightarrow> bool" where
  "representable_budgets b \<longleftrightarrow> list_all (\<lambda>(f, v). v \<le> usize_max) (canonical_values b)"

definition effective_budgets :: "extraction_budget_overrides option \<Rightarrow> extraction_budgets" where
  "effective_budgets overrides = (case overrides of None \<Rightarrow> default_budgets | Some v \<Rightarrow> apply_overrides v default_budgets)"

lemma check_all_first:
  "check_all f xs = (case find (\<lambda>x. \<exists>e. f x = Inl e) xs of None \<Rightarrow> Inr () | Some x \<Rightarrow> f x)"
proof (induction xs)
  case (Cons x xs)
  then show ?case by (cases "f x") (auto simp: and_then_def)
qed simp

lemma find_SomeD: "find P xs = Some x \<Longrightarrow> x \<in> set xs \<and> P x"
  by (induction xs) (auto split: if_splits)

text \<open>Resolving overrides gives the effective limits, override by override over the defaults, exactly when
  none of them is zero; otherwise it names the first zero field in the canonical order.
\<close>

lemma resolve_budgets_exact:
  assumes "representable_budgets (effective_budgets overrides)"
  shows "resolve_budgets overrides =
     (case find (\<lambda>(field, value). value = 0) (canonical_values (effective_budgets overrides)) of
        None \<Rightarrow> Inr (effective_budgets overrides)
      | Some (field, value) \<Rightarrow> Inl (InvalidExtractionBudget field 0))"
proof -
  let ?b = "effective_budgets overrides"
  have fields: "validate_field x = (if snd x = 0 then Inl (InvalidExtractionBudget (fst x) 0) else Inr ())"
    if "x \<in> set (canonical_values ?b)" for x
  proof -
    have "snd x \<le> usize_max" using that assms by (auto simp: representable_budgets_def list_all_iff)
    then show ?thesis using validate_field_ok [of "snd x" "fst x"] by simp
  qed
  have "find (\<lambda>x. \<exists>e. validate_field x = Inl e) xs = find (\<lambda>(field, value). value = 0) xs"
    if "set xs \<subseteq> set (canonical_values ?b)" for xs
    using that
  proof (induction xs)
    case (Cons x xs)
    then show ?case using fields [of x] by (auto split: prod.splits)
  qed simp
  then have first: "find (\<lambda>x. \<exists>e. validate_field x = Inl e) (canonical_values ?b)
      = find (\<lambda>(field, value). value = 0) (canonical_values ?b)"
    by simp
  have "validate_budgets ?b = (case find (\<lambda>(field, value). value = 0) (canonical_values ?b) of
        None \<Rightarrow> Inr () | Some (field, value) \<Rightarrow> Inl (InvalidExtractionBudget field 0))"
  proof (cases "find (\<lambda>(field, value). value = 0) (canonical_values ?b)")
    case (Some x)
    then have "x \<in> set (canonical_values ?b)" "snd x = 0"
      using find_SomeD by fastforce+
    then show ?thesis
      using Some fields [of x] unfolding validate_budgets_def check_all_first first by (auto split: prod.splits)
  qed (simp add: validate_budgets_def check_all_first first)
  moreover have "resolve_budgets overrides = and_then (validate_budgets ?b) (\<lambda>_. Inr ?b)"
    by (simp add: resolve_budgets_def effective_budgets_def Let_def)
  ultimately show ?thesis by (auto simp: and_then_def split: option.splits)
qed

definition no_overrides :: extraction_budget_overrides where
  "no_overrides =
     \<lparr>o_max_input_bytes_per_artifact = None, o_max_structural_depth_per_artifact = None,
      o_max_ast_depth_per_artifact = None, o_max_work_units_per_artifact = None,
      o_max_tree_sitter_nodes_per_artifact = None, o_max_observations_per_artifact = None,
      o_max_accumulated_string_bytes_per_artifact = None, o_max_serialized_output_bytes_per_artifact = None,
      o_max_string_bytes_per_value = None, o_max_portable_path_bytes_per_value = None,
      o_max_identifier_bytes_per_value = None, o_max_structured_wall_time_ms_per_artifact = None,
      o_max_tree_sitter_wall_time_ms_per_artifact = None\<rparr>"


subsection \<open>The writer\<close>

text \<open>Writing chunks one after the other.\<close>

fun write_all :: "string list \<Rightarrow> bounded_json_writer \<Rightarrow> (string, nat) outcome list \<times> bounded_json_writer" where
  "write_all [] w = ([], w)"
| "write_all (c # cs) w =
     (let (r, w) = bounded_write c w; (rs, w) = write_all cs w in (r # rs, w))"

lemma bounded_write_small:
  assumes "bw_maximum w < usize_max"
  shows "bounded_write c w =
     (if length (bw_bytes w) + length c \<le> bw_maximum w
      then (Inr (length c), w\<lparr>bw_bytes := bw_bytes w @ c\<rparr>)
      else (Inl ''serialized extraction output exceeds its limit'',
        w\<lparr>bw_exceeded := Some (saturating_add (length (bw_bytes w)) (length c))\<rparr>))"
proof -
  have "saturating_add (min a usize_max) (min b usize_max) = saturating_add a b" for a b
    by (simp add: saturating_add_def)
  then show ?thesis using assms by (auto simp: bounded_write_def Let_def saturating_add_def)
qed

text \<open>The bounded writer keeps exactly the accepted chunks, in order, never more bytes than its maximum,
  and reports an overflow exactly when a chunk was refused; a chunk is refused only when it would not fit.
\<close>

lemma bounded_writer_exact:
  assumes "bw_maximum w < usize_max" and "length (bw_bytes w) \<le> bw_maximum w" and "write_all chunks w = (results, w')"
  shows "length results = length chunks \<and> bw_maximum w' = bw_maximum w
     \<and> bw_bytes w' = bw_bytes w @ concat (map fst (filter (\<lambda>(c, r). isl r = False) (zip chunks results)))
     \<and> length (bw_bytes w') \<le> bw_maximum w
     \<and> (bw_exceeded w' \<noteq> None \<longleftrightarrow> bw_exceeded w \<noteq> None \<or> list_ex isl results)
     \<and> (\<not> list_ex isl results \<longleftrightarrow> length (bw_bytes w) + length (concat chunks) \<le> bw_maximum w)"
  using assms
proof (induction chunks arbitrary: w results)
  case (Cons c cs)
  obtain r u where r: "bounded_write c w = (r, u)" by fastforce
  obtain rs where rs: "write_all cs u = (rs, w')" "results = r # rs"
    using Cons.prems(3) r by (auto split: prod.splits)
  have u: "bw_maximum u = bw_maximum w" "length (bw_bytes u) \<le> bw_maximum u"
    using r Cons.prems(1,2) by (auto simp: bounded_write_small split: if_splits)
  note IH = Cons.IH [OF _ u(2) rs(1)]
  show ?case
  proof (cases "length (bw_bytes w) + length c \<le> bw_maximum w")
    case True
    then have "r = Inr (length c)" "u = w\<lparr>bw_bytes := bw_bytes w @ c\<rparr>"
      using r Cons.prems(1) by (simp_all add: bounded_write_small)
    then show ?thesis using IH u(1) Cons.prems(1) rs(2) by (auto simp: add.assoc)
  next
    case False
    then have "isl r" "u = w\<lparr>bw_exceeded := Some (saturating_add (length (bw_bytes w)) (length c))\<rparr>"
      using r Cons.prems(1) by (auto simp: bounded_write_small)
    then show ?thesis using IH u(1) Cons.prems(1) rs(2) False by auto
  qed
qed auto


subsection \<open>Fingerprints\<close>

lemma show_nat_inj: "show_nat a = show_nat b \<Longrightarrow> a = b"
  using parse_show by (metis option.inject)

lemma show_nat_plain: "CHR '';'' \<notin> set (show_nat n) \<and> CHR ''='' \<notin> set (show_nat n)"
  using show_nat_digits by (fastforce simp: less_eq_char_def)

lemma canonical_text_inj:
  assumes "map fst xs = map fst ys" and "\<forall>name \<in> set (map fst xs). CHR '';'' \<notin> set name"
    and "canonical_text xs = canonical_text ys"
  shows "xs = ys"
  using assms
proof (induction xs arbitrary: ys)
  case (Cons x xs)
  obtain n v y ys' where xy: "x = (n, v)" "ys = y # ys'" "fst y = n" "map fst xs = map fst ys'"
    using Cons.prems(1) by (cases x; cases ys) auto
  have head: "canonical_text ((n, v) # zs) = n @ ''='' @ show_nat v @ (if zs = [] then [] else '';'' @ canonical_text zs)"
    for v zs
    by (cases zs) (auto simp: canonical_text_def)
  have sep: "u @ w = u' @ w' \<Longrightarrow> u = u' \<and> w = w'"
    if "CHR '';'' \<notin> set u" "CHR '';'' \<notin> set u'" "w = [] \<or> hd w = CHR '';''" "w' = [] \<or> hd w' = CHR '';''" for u u' w w' :: string
    using that by (cases w; cases w') (auto simp: append_eq_append_conv2 append_eq_Cons_conv Cons_eq_append_conv)
  define tl1 where "tl1 = (if xs = [] then [] else '';'' @ canonical_text xs)"
  define tl2 where "tl2 = (if ys' = [] then [] else '';'' @ canonical_text ys')"
  have "show_nat v @ tl1 = show_nat (snd y) @ tl2"
    using Cons.prems(3) xy head by (cases y) (auto simp: tl1_def tl2_def)
  then have "show_nat v = show_nat (snd y) \<and> tl1 = tl2"
    using show_nat_plain by (intro sep) (auto simp: tl1_def tl2_def)
  then have v: "v = snd y" and "tl1 = tl2" using show_nat_inj by auto
  have "xs = ys'"
  proof (cases "xs = []")
    case False
    then have "ys' \<noteq> []" using xy(4) by auto
    then have "canonical_text xs = canonical_text ys'" using False \<open>tl1 = tl2\<close> by (simp add: tl1_def tl2_def)
    then show ?thesis using Cons.IH xy(4) Cons.prems(2) by simp
  qed (use xy(4) in simp)
  then show ?case using xy v by (cases y) simp
qed simp

text \<open>The fingerprint that authorizes reuse of a batch identifies the limits: two budgets with the same
  fingerprint are the same, when the digest does not collide on their two canonical texts.
\<close>

lemma budgets_fingerprint_identifies:
  assumes "collision_free hash {stable_id_input ''extraction-budgets'' (canonical_text (canonical_values b)),
      stable_id_input ''extraction-budgets'' (canonical_text (canonical_values b'))}"
    and "budgets_fingerprint hash b = budgets_fingerprint hash b'"
  shows "b = b'"
proof -
  have "canonical_text (canonical_values b) = canonical_text (canonical_values b')"
    using assms by (auto simp: budgets_fingerprint_def stable_id_eq collision_free_def stable_id_input_def dest: inj_onD)
  then have "canonical_values b = canonical_values b'"
    by (rule canonical_text_inj [rotated 2]) (simp_all add: canonical_values_def)
  then show ?thesis by (simp add: canonical_values_def)
qed


end
