(* ===== verification/Execution_Policy.thy ===== *)
theory Execution_Policy
  imports Budgets
begin

text \<open>
  \<open>crates/code-system-graph-core/src/execution_policy.rs\<close> and \<open>execution_policy/tracker.rs\<close>: the
  operator-owned limits of a workspace operation (\<open>ExecutionPolicy\<close>), their overrides and validation, the
  fingerprints that authorize reuse, and the watchdog of one worker (\<open>ScanJobTracker\<close>).

  \<open>Instant::now()\<close> is read once for every millisecond field that is checked: \<open>now field\<close> is that reading and
  \<open>latest\<close> the largest instant the platform represents, both in nanoseconds. A tracker operation takes the
  readings of the injected clock as arguments, in nanoseconds, in the order the code reads them.

  The properties: an override is accepted exactly when the effective policy satisfies the documented bounds
  and relationships, and an error describes a violated one; every duration of an accepted policy fits the
  platform clock; the unlimited sentinel survives serialization; the scan fingerprint identifies what
  affects a scan and nothing else; and a run of the watchdog is accepted exactly when no operation comes
  later than the wall-time and the no-progress deadline allow.
\<close>

subsection \<open>The corroboration limit\<close>

datatype invalid_execution_policy =
  InvalidValue string nat
| BelowMinimum string nat nat
| InvalidRelationship string nat string nat
| ArithmeticOverflow string

datatype codegraph_corroboration_anchor_limit = Bounded nat | Unlimited

definition i64_max :: int where
  "i64_max = 9223372036854775807"

fun limit_bounded :: "codegraph_corroboration_anchor_limit \<Rightarrow> nat option" where
  "limit_bounded (Bounded limit) = Some limit"
| "limit_bounded Unlimited = None"

definition limit_try_from :: "int \<Rightarrow> (invalid_execution_policy, codegraph_corroboration_anchor_limit) outcome" where
  "limit_try_from value =
     (if value = -1 then Inr Unlimited
      else if value \<le> 0 then Inl (InvalidValue ''maxCodeGraphCorroborationAnchorsPerRepo'' (nat \<bar>value\<bar>))
      else Inr (Bounded (nat value)))"

fun limit_serialize :: "codegraph_corroboration_anchor_limit \<Rightarrow> (string, int) outcome" where
  "limit_serialize (Bounded limit) =
     (if int limit \<le> i64_max then Inr (int limit) else Inl ''CodeGraph corroboration anchor limit exceeds i64'')"
| "limit_serialize Unlimited = Inr (-1)"

fun limit_display :: "codegraph_corroboration_anchor_limit \<Rightarrow> string" where
  "limit_display (Bounded limit) = show_nat limit"
| "limit_display Unlimited = ''-1''"

subsection \<open>Policies\<close>

record execution_policy_overrides =
  o_max_scan_wall_time_ms :: "nat option"
  o_max_no_progress_time_ms :: "nat option"
  o_max_codegraph_sync_wall_time_ms_per_repo :: "nat option"
  o_max_worker_memory_bytes :: "nat option"
  o_graceful_termination_ms :: "nat option"
  o_watch_idle_timeout_ms :: "nat option"
  o_max_watch_session_wall_time_ms :: "nat option"
  o_min_watch_rescan_interval_ms :: "nat option"
  o_max_checkpoint_cache_bytes :: "nat option"
  o_max_extraction_workers :: "nat option"
  o_max_codegraph_corroboration_anchors_per_repo :: "int option"
  o_max_explore_wall_time_ms :: "nat option"
  o_max_explore_codegraph_operations :: "nat option"
  o_max_explore_concurrent_codegraph_processes :: "nat option"
  o_max_explore_source_files :: "nat option"
  o_max_explore_resolved_symbols :: "nat option"
  o_max_explore_anchors :: "nat option"
  o_max_explore_neighbors_per_direction :: "nat option"
  o_max_explore_local_relationships :: "nat option"
  o_max_explore_federated_handoffs_per_anchor :: "nat option"
  o_max_explore_federated_handoffs :: "nat option"
  o_max_explore_evidence_locations_per_handoff :: "nat option"
  o_max_explore_source_markdown_bytes :: "nat option"
  o_max_explore_enrichment_bytes :: "nat option"
  o_max_agent_next_actions_per_response :: "nat option"
  o_max_query_repository_suggestions :: "nat option"
  o_max_mcp_tool_response_bytes :: "nat option"
  o_max_mcp_resource_items :: "nat option"
  o_max_mcp_resource_bytes :: "nat option"
  o_max_mcp_schema_catalog_bytes :: "nat option"

record execution_policy =
  max_scan_wall_time_ms :: nat
  max_no_progress_time_ms :: nat
  max_codegraph_sync_wall_time_ms_per_repo :: nat
  max_worker_memory_bytes :: nat
  graceful_termination_ms :: nat
  watch_idle_timeout_ms :: nat
  max_watch_session_wall_time_ms :: nat
  min_watch_rescan_interval_ms :: nat
  max_checkpoint_cache_bytes :: nat
  max_extraction_workers :: nat
  max_codegraph_corroboration_anchors_per_repo :: codegraph_corroboration_anchor_limit
  max_explore_wall_time_ms :: nat
  max_explore_codegraph_operations :: nat
  max_explore_concurrent_codegraph_processes :: nat
  max_explore_source_files :: nat
  max_explore_resolved_symbols :: nat
  max_explore_anchors :: nat
  max_explore_neighbors_per_direction :: nat
  max_explore_local_relationships :: nat
  max_explore_federated_handoffs_per_anchor :: nat
  max_explore_federated_handoffs :: nat
  max_explore_evidence_locations_per_handoff :: nat
  max_explore_source_markdown_bytes :: nat
  max_explore_enrichment_bytes :: nat
  max_agent_next_actions_per_response :: nat
  max_query_repository_suggestions :: nat
  max_mcp_tool_response_bytes :: nat
  max_mcp_resource_items :: nat
  max_mcp_resource_bytes :: nat
  max_mcp_schema_catalog_bytes :: nat

definition default_policy :: execution_policy where
  "default_policy =
     \<lparr>max_scan_wall_time_ms = 21600000,
      max_no_progress_time_ms = 300000,
      max_codegraph_sync_wall_time_ms_per_repo = 3600000,
      max_worker_memory_bytes = 17179869184,
      graceful_termination_ms = 5000,
      watch_idle_timeout_ms = 28800000,
      max_watch_session_wall_time_ms = 86400000,
      min_watch_rescan_interval_ms = 10000,
      max_checkpoint_cache_bytes = 10737418240,
      max_extraction_workers = 8,
      max_codegraph_corroboration_anchors_per_repo = Bounded 50,
      max_explore_wall_time_ms = 8000,
      max_explore_codegraph_operations = 8,
      max_explore_concurrent_codegraph_processes = 2,
      max_explore_source_files = 25,
      max_explore_resolved_symbols = 5,
      max_explore_anchors = 3,
      max_explore_neighbors_per_direction = 8,
      max_explore_local_relationships = 48,
      max_explore_federated_handoffs_per_anchor = 10,
      max_explore_federated_handoffs = 30,
      max_explore_evidence_locations_per_handoff = 4,
      max_explore_source_markdown_bytes = 262144,
      max_explore_enrichment_bytes = 65536,
      max_agent_next_actions_per_response = 12,
      max_query_repository_suggestions = 20,
      max_mcp_tool_response_bytes = 524288,
      max_mcp_resource_items = 100,
      max_mcp_resource_bytes = 262144,
      max_mcp_schema_catalog_bytes = 2097152\<rparr>"

definition scan_canonical_values :: "execution_policy \<Rightarrow> (string \<times> nat) list" where
  "scan_canonical_values p =
     [(''maxScanWallTimeMs'', max_scan_wall_time_ms p),
      (''maxNoProgressTimeMs'', max_no_progress_time_ms p),
      (''maxCodeGraphSyncWallTimeMsPerRepo'', max_codegraph_sync_wall_time_ms_per_repo p),
      (''maxWorkerMemoryBytes'', max_worker_memory_bytes p),
      (''gracefulTerminationMs'', graceful_termination_ms p),
      (''watchIdleTimeoutMs'', watch_idle_timeout_ms p),
      (''maxWatchSessionWallTimeMs'', max_watch_session_wall_time_ms p),
      (''minWatchRescanIntervalMs'', min_watch_rescan_interval_ms p),
      (''maxCheckpointCacheBytes'', max_checkpoint_cache_bytes p)]"

definition agent_canonical_values :: "execution_policy \<Rightarrow> (string \<times> nat) list" where
  "agent_canonical_values p =
     [(''maxExploreWallTimeMs'', max_explore_wall_time_ms p),
      (''maxExploreCodeGraphOperations'', max_explore_codegraph_operations p),
      (''maxExploreConcurrentCodeGraphProcesses'', max_explore_concurrent_codegraph_processes p),
      (''maxExploreSourceFiles'', max_explore_source_files p),
      (''maxExploreResolvedSymbols'', max_explore_resolved_symbols p),
      (''maxExploreAnchors'', max_explore_anchors p),
      (''maxExploreNeighborsPerDirection'', max_explore_neighbors_per_direction p),
      (''maxExploreLocalRelationships'', max_explore_local_relationships p),
      (''maxExploreFederatedHandoffsPerAnchor'', max_explore_federated_handoffs_per_anchor p),
      (''maxExploreFederatedHandoffs'', max_explore_federated_handoffs p),
      (''maxExploreEvidenceLocationsPerHandoff'', max_explore_evidence_locations_per_handoff p),
      (''maxExploreSourceMarkdownBytes'', max_explore_source_markdown_bytes p),
      (''maxExploreEnrichmentBytes'', max_explore_enrichment_bytes p),
      (''maxAgentNextActionsPerResponse'', max_agent_next_actions_per_response p),
      (''maxQueryRepositorySuggestions'', max_query_repository_suggestions p),
      (''maxMcpToolResponseBytes'', max_mcp_tool_response_bytes p),
      (''maxMcpResourceItems'', max_mcp_resource_items p),
      (''maxMcpResourceBytes'', max_mcp_resource_bytes p),
      (''maxMcpSchemaCatalogBytes'', max_mcp_schema_catalog_bytes p)]"

subsection \<open>Validation\<close>

definition require_not_greater :: "string \<Rightarrow> nat \<Rightarrow> string \<Rightarrow> nat \<Rightarrow> (invalid_execution_policy, unit) outcome" where
  "require_not_greater field value maximum_field maximum =
     (if maximum < value then Inl (InvalidRelationship field value maximum_field maximum) else Inr ())"

definition from_millis :: "nat \<Rightarrow> nat" where
  "from_millis ms = ms * 1000000"

definition instant_checked_add :: "nat \<Rightarrow> nat \<Rightarrow> nat \<Rightarrow> nat option" where
  "instant_checked_add latest instant duration = (if instant + duration \<le> latest then Some (instant + duration) else None)"

definition validate_scalar :: "(string \<Rightarrow> nat) \<Rightarrow> nat \<Rightarrow> string \<times> nat \<Rightarrow> (invalid_execution_policy, unit) outcome" where
  "validate_scalar now latest = (\<lambda>(field, value).
     let invalid_bytes = ends_with ''Bytes'' field \<and> usize_try_from value = None;
         invalid_count = \<not> ends_with ''Ms'' field \<and> usize_try_from value = None;
         invalid_sqlite_quota = field = ''maxCheckpointCacheBytes'' \<and> i64_max < int value;
         invalid_deadline =
           ends_with ''Ms'' field \<and> instant_checked_add latest (now field) (from_millis value) = None in
     if value = 0 \<or> invalid_bytes \<or> invalid_count \<or> invalid_sqlite_quota \<or> invalid_deadline
     then Inl (InvalidValue field value) else Inr ())"

definition validate_scalar_values :: "(string \<Rightarrow> nat) \<Rightarrow> nat \<Rightarrow> execution_policy \<Rightarrow> (invalid_execution_policy, unit) outcome" where
  "validate_scalar_values now latest p =
     and_then (check_all (validate_scalar now latest) (scan_canonical_values p @ agent_canonical_values p)) (\<lambda>_.
       if max_extraction_workers p = 0 \<or> 256 < max_extraction_workers p
       then Inl (InvalidValue ''maxExtractionWorkers'' (max_extraction_workers p)) else Inr ())"

definition validate_mcp_minimums :: "execution_policy \<Rightarrow> (invalid_execution_policy, unit) outcome" where
  "validate_mcp_minimums p =
     check_all (\<lambda>(field, value). if value < 256 then Inl (BelowMinimum field value 256) else Inr ())
       [(''maxMcpToolResponseBytes'', max_mcp_tool_response_bytes p),
        (''maxMcpResourceBytes'', max_mcp_resource_bytes p),
        (''maxMcpSchemaCatalogBytes'', max_mcp_schema_catalog_bytes p)]"

definition validate_scan_relationships :: "execution_policy \<Rightarrow> (invalid_execution_policy, unit) outcome" where
  "validate_scan_relationships p =
     and_then (require_not_greater ''maxNoProgressTimeMs'' (max_no_progress_time_ms p)
       ''maxScanWallTimeMs'' (max_scan_wall_time_ms p)) (\<lambda>_.
     and_then (require_not_greater ''maxCodeGraphSyncWallTimeMsPerRepo'' (max_codegraph_sync_wall_time_ms_per_repo p)
       ''maxScanWallTimeMs'' (max_scan_wall_time_ms p)) (\<lambda>_.
     and_then (require_not_greater ''gracefulTerminationMs'' (graceful_termination_ms p)
       ''maxNoProgressTimeMs'' (max_no_progress_time_ms p)) (\<lambda>_.
     and_then (require_not_greater ''watchIdleTimeoutMs'' (watch_idle_timeout_ms p)
       ''maxWatchSessionWallTimeMs'' (max_watch_session_wall_time_ms p)) (\<lambda>_.
     require_not_greater ''minWatchRescanIntervalMs'' (min_watch_rescan_interval_ms p)
       ''watchIdleTimeoutMs'' (watch_idle_timeout_ms p)))))"

definition checked_mul :: "nat \<Rightarrow> nat \<Rightarrow> nat option" where
  "checked_mul a b = (if a * b \<le> usize_max then Some (a * b) else None)"

definition times_sign :: string where
  "times_sign = '' '' @ [CHR 0xC3, CHR 0x97] @ '' ''"

definition validate_explore_relationships :: "execution_policy \<Rightarrow> (invalid_execution_policy, unit) outcome" where
  "validate_explore_relationships p =
     and_then (require_not_greater ''maxExploreAnchors'' (max_explore_anchors p)
       ''maxExploreResolvedSymbols'' (max_explore_resolved_symbols p)) (\<lambda>_.
     and_then (require_not_greater ''maxExploreConcurrentCodeGraphProcesses''
       (max_explore_concurrent_codegraph_processes p)
       ''maxExploreCodeGraphOperations'' (max_explore_codegraph_operations p)) (\<lambda>_.
     and_then (ok_or (ArithmeticOverflow (''maxExploreAnchors'' @ times_sign @ ''2'' @ times_sign
         @ ''maxExploreNeighborsPerDirection''))
       (Option.bind (checked_mul (max_explore_anchors p) 2)
         (\<lambda>value. checked_mul value (max_explore_neighbors_per_direction p)))) (\<lambda>local_ceiling.
     and_then (require_not_greater ''maxExploreLocalRelationships'' (max_explore_local_relationships p)
       ''anchor neighbor capacity'' local_ceiling) (\<lambda>_.
     and_then (ok_or (ArithmeticOverflow (''maxExploreAnchors'' @ times_sign @ ''maxExploreFederatedHandoffsPerAnchor''))
       (checked_mul (max_explore_anchors p) (max_explore_federated_handoffs_per_anchor p))) (\<lambda>handoff_ceiling.
     and_then (require_not_greater ''maxExploreFederatedHandoffs'' (max_explore_federated_handoffs p)
       ''anchor handoff capacity'' handoff_ceiling) (\<lambda>_.
     and_then (require_not_greater ''maxExploreSourceMarkdownBytes'' (max_explore_source_markdown_bytes p)
       ''maxMcpToolResponseBytes'' (max_mcp_tool_response_bytes p)) (\<lambda>_.
     require_not_greater ''maxExploreEnrichmentBytes'' (max_explore_enrichment_bytes p)
       ''maxMcpToolResponseBytes'' (max_mcp_tool_response_bytes p))))))))"

definition validate_policy :: "(string \<Rightarrow> nat) \<Rightarrow> nat \<Rightarrow> execution_policy \<Rightarrow> (invalid_execution_policy, unit) outcome" where
  "validate_policy now latest p =
     and_then (validate_scalar_values now latest p) (\<lambda>_.
     and_then (validate_mcp_minimums p) (\<lambda>_.
     and_then (validate_scan_relationships p) (\<lambda>_.
     validate_explore_relationships p)))"

subsection \<open>Overrides\<close>

definition apply_scan_overrides :: "execution_policy_overrides \<Rightarrow> execution_policy \<Rightarrow> execution_policy" where
  "apply_scan_overrides v p = p
     \<lparr>max_scan_wall_time_ms := override (o_max_scan_wall_time_ms v) (max_scan_wall_time_ms p),
      max_no_progress_time_ms := override (o_max_no_progress_time_ms v) (max_no_progress_time_ms p),
      max_codegraph_sync_wall_time_ms_per_repo := override (o_max_codegraph_sync_wall_time_ms_per_repo v) (max_codegraph_sync_wall_time_ms_per_repo p),
      max_worker_memory_bytes := override (o_max_worker_memory_bytes v) (max_worker_memory_bytes p),
      graceful_termination_ms := override (o_graceful_termination_ms v) (graceful_termination_ms p),
      watch_idle_timeout_ms := override (o_watch_idle_timeout_ms v) (watch_idle_timeout_ms p),
      max_watch_session_wall_time_ms := override (o_max_watch_session_wall_time_ms v) (max_watch_session_wall_time_ms p),
      min_watch_rescan_interval_ms := override (o_min_watch_rescan_interval_ms v) (min_watch_rescan_interval_ms p),
      max_checkpoint_cache_bytes := override (o_max_checkpoint_cache_bytes v) (max_checkpoint_cache_bytes p),
      max_extraction_workers := override (o_max_extraction_workers v) (max_extraction_workers p)\<rparr>"

definition apply_agent_overrides :: "execution_policy_overrides \<Rightarrow> execution_policy \<Rightarrow> execution_policy" where
  "apply_agent_overrides v p = p
     \<lparr>max_explore_wall_time_ms := override (o_max_explore_wall_time_ms v) (max_explore_wall_time_ms p),
      max_explore_codegraph_operations := override (o_max_explore_codegraph_operations v) (max_explore_codegraph_operations p),
      max_explore_concurrent_codegraph_processes := override (o_max_explore_concurrent_codegraph_processes v) (max_explore_concurrent_codegraph_processes p),
      max_explore_source_files := override (o_max_explore_source_files v) (max_explore_source_files p),
      max_explore_resolved_symbols := override (o_max_explore_resolved_symbols v) (max_explore_resolved_symbols p),
      max_explore_anchors := override (o_max_explore_anchors v) (max_explore_anchors p),
      max_explore_neighbors_per_direction := override (o_max_explore_neighbors_per_direction v) (max_explore_neighbors_per_direction p),
      max_explore_local_relationships := override (o_max_explore_local_relationships v) (max_explore_local_relationships p),
      max_explore_federated_handoffs_per_anchor := override (o_max_explore_federated_handoffs_per_anchor v) (max_explore_federated_handoffs_per_anchor p),
      max_explore_federated_handoffs := override (o_max_explore_federated_handoffs v) (max_explore_federated_handoffs p),
      max_explore_evidence_locations_per_handoff := override (o_max_explore_evidence_locations_per_handoff v) (max_explore_evidence_locations_per_handoff p),
      max_explore_source_markdown_bytes := override (o_max_explore_source_markdown_bytes v) (max_explore_source_markdown_bytes p),
      max_explore_enrichment_bytes := override (o_max_explore_enrichment_bytes v) (max_explore_enrichment_bytes p),
      max_agent_next_actions_per_response := override (o_max_agent_next_actions_per_response v) (max_agent_next_actions_per_response p),
      max_query_repository_suggestions := override (o_max_query_repository_suggestions v) (max_query_repository_suggestions p),
      max_mcp_tool_response_bytes := override (o_max_mcp_tool_response_bytes v) (max_mcp_tool_response_bytes p),
      max_mcp_resource_items := override (o_max_mcp_resource_items v) (max_mcp_resource_items p),
      max_mcp_resource_bytes := override (o_max_mcp_resource_bytes v) (max_mcp_resource_bytes p),
      max_mcp_schema_catalog_bytes := override (o_max_mcp_schema_catalog_bytes v) (max_mcp_schema_catalog_bytes p)\<rparr>"

definition apply_policy_overrides ::
  "execution_policy_overrides \<Rightarrow> execution_policy \<Rightarrow> (invalid_execution_policy, execution_policy) outcome" where
  "apply_policy_overrides v p =
     (let p = apply_scan_overrides v p in
      and_then
        (case o_max_codegraph_corroboration_anchors_per_repo v of
           None \<Rightarrow> Inr p
         | Some value \<Rightarrow> and_then (limit_try_from value) (\<lambda>limit.
             Inr (p\<lparr>max_codegraph_corroboration_anchors_per_repo := limit\<rparr>)))
        (\<lambda>p. Inr (apply_agent_overrides v p)))"

definition resolve_policy ::
  "(string \<Rightarrow> nat) \<Rightarrow> nat \<Rightarrow> execution_policy_overrides option \<Rightarrow> (invalid_execution_policy, execution_policy) outcome" where
  "resolve_policy now latest overrides =
     and_then (case overrides of None \<Rightarrow> Inr default_policy | Some v \<Rightarrow> apply_policy_overrides v default_policy)
       (\<lambda>p. and_then (validate_policy now latest p) (\<lambda>_. Inr p))"

definition effective_extraction_workers :: "nat option \<Rightarrow> execution_policy \<Rightarrow> nat" where
  "effective_extraction_workers parallelism p =
     (let available = (case parallelism of None \<Rightarrow> 1 | Some n \<Rightarrow> n);
          requested = (case usize_try_from (max_extraction_workers p) of None \<Rightarrow> usize_max | Some n \<Rightarrow> n) in
      if requested < 1 then 1 else if max available 1 < requested then max available 1 else requested)"

subsection \<open>Fingerprints\<close>

definition fingerprint_with_codegraph_limit ::
  "(string \<Rightarrow> string) \<Rightarrow> execution_policy \<Rightarrow> codegraph_corroboration_anchor_limit \<Rightarrow> string" where
  "fingerprint_with_codegraph_limit hash p limit =
     stable_id hash ''execution-policy''
       (canonical_text (scan_canonical_values p) @ '';maxCodeGraphCorroborationAnchorsPerRepo='' @ limit_display limit)"

definition scan_fingerprint :: "(string \<Rightarrow> string) \<Rightarrow> execution_policy \<Rightarrow> string" where
  "scan_fingerprint hash p =
     stable_id hash ''execution-policy''
       (canonical_text (scan_canonical_values p) @ '';maxCodeGraphCorroborationAnchorsPerRepo=''
         @ limit_display (max_codegraph_corroboration_anchors_per_repo p))"

fun push_canonical :: "nat \<Rightarrow> (string \<times> nat) list \<Rightarrow> string \<Rightarrow> string" where
  "push_canonical index [] canonical = canonical"
| "push_canonical index ((name, value) # rest) canonical =
     push_canonical (index + 1) rest
       ((if 0 < index then canonical @ '';'' else canonical) @ name @ ''='' @ show_nat value)"

definition agent_delivery_fingerprint :: "(string \<Rightarrow> string) \<Rightarrow> execution_policy \<Rightarrow> string" where
  "agent_delivery_fingerprint hash p =
     stable_id hash ''agent-delivery-policy'' (push_canonical 0 (agent_canonical_values p) [])"

subsection \<open>The watchdog\<close>

datatype job_phase =
  Configuration | Discovery | Fingerprinting | Extraction | GraphAssembly | Communities | Publication | CodeGraphSync

datatype execution_resource =
  WallTimeMs | NoProgressTimeMs | WorkerMemoryBytes | JobWorkUnits | WorkerProcess | WorkerProtocolBytes | Cancellation

record execution_limit_exceeded =
  el_run_id :: string
  el_phase :: job_phase
  el_resource :: execution_resource
  el_observed :: nat
  el_maximum :: nat
  el_completed_units :: nat

record scan_job_tracker =
  sj_run_id :: string
  sj_policy :: execution_policy
  sj_started :: nat
  sj_last_progress :: nat
  sj_phase :: job_phase
  sj_completed_units :: nat

definition job_tracker_with_clock :: "string \<Rightarrow> execution_policy \<Rightarrow> nat \<Rightarrow> scan_job_tracker" where
  "job_tracker_with_clock run_id policy now =
     \<lparr>sj_run_id = run_id, sj_policy = policy, sj_started = now, sj_last_progress = now,
      sj_phase = Configuration, sj_completed_units = 0\<rparr>"

definition job_exceeded :: "scan_job_tracker \<Rightarrow> execution_resource \<Rightarrow> nat \<Rightarrow> nat \<Rightarrow> execution_limit_exceeded" where
  "job_exceeded t resource observed maximum =
     \<lparr>el_run_id = sj_run_id t, el_phase = sj_phase t, el_resource = resource, el_observed = observed,
      el_maximum = maximum, el_completed_units = sj_completed_units t\<rparr>"

definition as_millis :: "nat \<Rightarrow> nat" where
  "as_millis duration = duration div 1000000"

definition check_duration ::
  "scan_job_tracker \<Rightarrow> execution_resource \<Rightarrow> nat \<Rightarrow> nat \<Rightarrow> (execution_limit_exceeded, unit) outcome" where
  "check_duration t resource observed maximum =
     (let observed = min (as_millis observed) usize_max in
      if maximum < observed then Inl (job_exceeded t resource observed maximum) else Inr ())"

definition check_time :: "nat \<Rightarrow> scan_job_tracker \<Rightarrow> (execution_limit_exceeded, unit) outcome" where
  "check_time now t =
     and_then (check_duration t WallTimeMs (now - sj_started t) (max_scan_wall_time_ms (sj_policy t))) (\<lambda>_.
     check_duration t NoProgressTimeMs (now - sj_last_progress t) (max_no_progress_time_ms (sj_policy t)))"

definition enter_phase :: "nat \<Rightarrow> job_phase \<Rightarrow> scan_job_tracker \<Rightarrow> (execution_limit_exceeded, unit) outcome \<times> scan_job_tracker" where
  "enter_phase now phase t =
     (case check_time now t of Inl e \<Rightarrow> (Inl e, t) | Inr _ \<Rightarrow> (Inr (), t\<lparr>sj_phase := phase\<rparr>))"

definition job_progress ::
  "nat \<Rightarrow> nat \<Rightarrow> nat \<Rightarrow> scan_job_tracker \<Rightarrow> (execution_limit_exceeded, unit) outcome \<times> scan_job_tracker" where
  "job_progress now now' amount t =
     (case checked_add (sj_completed_units t) amount of
        None \<Rightarrow> (Inl (job_exceeded t JobWorkUnits usize_max (usize_max - 1)), t)
      | Some completed_units \<Rightarrow>
          (case check_time now t of
             Inl e \<Rightarrow> (Inl e, t)
           | Inr _ \<Rightarrow> (Inr (), t\<lparr>sj_completed_units := completed_units, sj_last_progress := now'\<rparr>)))"


subsection \<open>Accepted policies\<close>

definition representable_policy :: "execution_policy \<Rightarrow> bool" where
  "representable_policy p \<longleftrightarrow>
     list_all (\<lambda>(field, value). value \<le> usize_max) (scan_canonical_values p @ agent_canonical_values p)"

definition deadline_fits :: "(string \<Rightarrow> nat) \<Rightarrow> nat \<Rightarrow> string \<Rightarrow> nat \<Rightarrow> bool" where
  "deadline_fits now latest field ms \<longleftrightarrow> now field + ms * 1000000 \<le> latest"

definition scalars_ok :: "(string \<Rightarrow> nat) \<Rightarrow> nat \<Rightarrow> execution_policy \<Rightarrow> bool" where
  "scalars_ok now latest p \<longleftrightarrow>
     list_all (\<lambda>(field, value). 0 < value) (scan_canonical_values p @ agent_canonical_values p)
     \<and> max_checkpoint_cache_bytes p \<le> 9223372036854775807
     \<and> 0 < max_extraction_workers p \<and> max_extraction_workers p \<le> 256
     \<and> deadline_fits now latest ''maxScanWallTimeMs'' (max_scan_wall_time_ms p)
     \<and> deadline_fits now latest ''maxNoProgressTimeMs'' (max_no_progress_time_ms p)
     \<and> deadline_fits now latest ''gracefulTerminationMs'' (graceful_termination_ms p)
     \<and> deadline_fits now latest ''watchIdleTimeoutMs'' (watch_idle_timeout_ms p)
     \<and> deadline_fits now latest ''maxWatchSessionWallTimeMs'' (max_watch_session_wall_time_ms p)
     \<and> deadline_fits now latest ''minWatchRescanIntervalMs'' (min_watch_rescan_interval_ms p)
     \<and> deadline_fits now latest ''maxExploreWallTimeMs'' (max_explore_wall_time_ms p)"

definition scan_limits_nest :: "execution_policy \<Rightarrow> bool" where
  "scan_limits_nest p \<longleftrightarrow>
     graceful_termination_ms p \<le> max_no_progress_time_ms p
     \<and> max_no_progress_time_ms p \<le> max_scan_wall_time_ms p
     \<and> max_codegraph_sync_wall_time_ms_per_repo p \<le> max_scan_wall_time_ms p
     \<and> min_watch_rescan_interval_ms p \<le> watch_idle_timeout_ms p
     \<and> watch_idle_timeout_ms p \<le> max_watch_session_wall_time_ms p"

definition explore_limits_nest :: "execution_policy \<Rightarrow> bool" where
  "explore_limits_nest p \<longleftrightarrow>
     max_explore_anchors p \<le> max_explore_resolved_symbols p
     \<and> max_explore_concurrent_codegraph_processes p \<le> max_explore_codegraph_operations p
     \<and> max_explore_local_relationships p \<le> max_explore_anchors p * 2 * max_explore_neighbors_per_direction p
     \<and> max_explore_federated_handoffs p \<le> max_explore_anchors p * max_explore_federated_handoffs_per_anchor p
     \<and> max_explore_source_markdown_bytes p \<le> max_mcp_tool_response_bytes p
     \<and> max_explore_enrichment_bytes p \<le> max_mcp_tool_response_bytes p"

definition capacities_representable :: "execution_policy \<Rightarrow> bool" where
  "capacities_representable p \<longleftrightarrow>
     max_explore_anchors p * 2 \<le> usize_max
     \<and> max_explore_anchors p * 2 * max_explore_neighbors_per_direction p \<le> usize_max
     \<and> max_explore_anchors p * max_explore_federated_handoffs_per_anchor p \<le> usize_max"

definition mcp_minimums_ok :: "execution_policy \<Rightarrow> bool" where
  "mcp_minimums_ok p \<longleftrightarrow>
     256 \<le> max_mcp_tool_response_bytes p \<and> 256 \<le> max_mcp_resource_bytes p \<and> 256 \<le> max_mcp_schema_catalog_bytes p"

lemma require_not_greater_Inr [simp]: "require_not_greater f v mf m = Inr u \<longleftrightarrow> v \<le> m"
  by (auto simp: require_not_greater_def)

lemma require_not_greater_Inl:
  "require_not_greater f v mf m = Inl e \<longleftrightarrow> m < v \<and> e = InvalidRelationship f v mf m"
  by (auto simp: require_not_greater_def)

lemma checked_mul_Some [simp]: "checked_mul a b = Some c \<longleftrightarrow> c = a * b \<and> a * b \<le> usize_max"
  by (auto simp: checked_mul_def)

lemma validate_scalar_representable:
  assumes "v \<le> usize_max"
  shows "validate_scalar now latest (f, v) =
     (if v = 0 \<or> (f = ''maxCheckpointCacheBytes'' \<and> 9223372036854775807 < v)
        \<or> (ends_with ''Ms'' f \<and> \<not> deadline_fits now latest f v)
      then Inl (InvalidValue f v) else Inr ())"
  using assms by (auto simp: validate_scalar_def usize_try_from_def deadline_fits_def instant_checked_add_def
      from_millis_def i64_max_def Let_def)

lemma millisecond_fields:
  "filter (\<lambda>(f, v). ends_with ''Ms'' f) (scan_canonical_values p @ agent_canonical_values p) =
     [(''maxScanWallTimeMs'', max_scan_wall_time_ms p), (''maxNoProgressTimeMs'', max_no_progress_time_ms p),
      (''gracefulTerminationMs'', graceful_termination_ms p), (''watchIdleTimeoutMs'', watch_idle_timeout_ms p),
      (''maxWatchSessionWallTimeMs'', max_watch_session_wall_time_ms p),
      (''minWatchRescanIntervalMs'', min_watch_rescan_interval_ms p),
      (''maxExploreWallTimeMs'', max_explore_wall_time_ms p)]"
  by (simp add: scan_canonical_values_def agent_canonical_values_def ends_with_def starts_with_def)

lemma cache_field:
  "filter (\<lambda>(f, v). f = ''maxCheckpointCacheBytes'') (scan_canonical_values p @ agent_canonical_values p) =
     [(''maxCheckpointCacheBytes'', max_checkpoint_cache_bytes p)]"
  by (simp add: scan_canonical_values_def agent_canonical_values_def)

lemma list_all_three:
  "list_all (\<lambda>(f, v). P v \<and> (Q f \<longrightarrow> A f v) \<and> (R f \<longrightarrow> B f v)) xs \<longleftrightarrow>
     list_all (\<lambda>(f, v). P v) xs \<and> list_all (\<lambda>(f, v). A f v) (filter (\<lambda>(f, v). Q f) xs)
     \<and> list_all (\<lambda>(f, v). B f v) (filter (\<lambda>(f, v). R f) xs)"
  by (induction xs) auto

lemma validate_scalar_values_Inr:
  assumes "representable_policy p"
  shows "validate_scalar_values now latest p = Inr u \<longleftrightarrow> scalars_ok now latest p"
proof -
  have "check_all (validate_scalar now latest) (scan_canonical_values p @ agent_canonical_values p) = Inr ()
     \<longleftrightarrow> list_all (\<lambda>(f, v). v \<noteq> 0 \<and> (f = ''maxCheckpointCacheBytes'' \<longrightarrow> v \<le> 9223372036854775807)
        \<and> (ends_with ''Ms'' f \<longrightarrow> deadline_fits now latest f v)) (scan_canonical_values p @ agent_canonical_values p)"
    unfolding check_all_eq_Inr list_all_iff
  proof (rule ball_cong [OF refl])
    fix x assume "x \<in> set (scan_canonical_values p @ agent_canonical_values p)"
    then have "snd x \<le> usize_max" using assms by (cases x) (auto simp: representable_policy_def list_all_iff)
    then show "validate_scalar now latest x = Inr () \<longleftrightarrow>
      (case x of (f, v) \<Rightarrow> v \<noteq> 0 \<and> (f = ''maxCheckpointCacheBytes'' \<longrightarrow> v \<le> 9223372036854775807)
        \<and> (ends_with ''Ms'' f \<longrightarrow> deadline_fits now latest f v))"
      using validate_scalar_representable [of "snd x" now latest "fst x"] by (cases x) auto
  qed
  also have "\<dots> \<and> 0 < max_extraction_workers p \<and> max_extraction_workers p \<le> 256 \<longleftrightarrow> scalars_ok now latest p"
    unfolding list_all_three millisecond_fields cache_field scalars_ok_def by auto
  finally show ?thesis by (auto simp: validate_scalar_values_def)
qed

lemma validate_mcp_minimums_Inr: "validate_mcp_minimums p = Inr u \<longleftrightarrow> mcp_minimums_ok p"
  by (auto simp: validate_mcp_minimums_def mcp_minimums_ok_def split: if_splits)

lemma validate_scan_relationships_Inr: "validate_scan_relationships p = Inr u \<longleftrightarrow> scan_limits_nest p"
  by (auto simp: validate_scan_relationships_def scan_limits_nest_def)

lemma validate_explore_relationships_Inr:
  "validate_explore_relationships p = Inr u \<longleftrightarrow> explore_limits_nest p \<and> capacities_representable p"
  by (auto simp: validate_explore_relationships_def explore_limits_nest_def capacities_representable_def bind_eq_Some_conv)

text \<open>
  C26: an override is accepted exactly when its corroboration limit is a positive count or the unlimited
  sentinel and the effective policy is well formed: every limit positive, the byte quota within a signed
  64-bit integer, between 1 and 256 workers, every MCP budget large enough for its control block, subordinate
  deadlines and counts within the ones that contain them, and no capacity product beyond 64 bits. The
  resolved policy is then the defaults with the overrides applied.
\<close>

theorem resolve_policy_exact:
  assumes "case overrides of None \<Rightarrow> q = Inr default_policy | Some v \<Rightarrow> q = apply_policy_overrides v default_policy"
    and "\<forall>p. q = Inr p \<longrightarrow> representable_policy p"
  shows "resolve_policy now latest overrides = Inr p \<longleftrightarrow>
     q = Inr p \<and> scalars_ok now latest p \<and> mcp_minimums_ok p \<and> scan_limits_nest p \<and> explore_limits_nest p
     \<and> capacities_representable p"
proof -
  have "resolve_policy now latest overrides = and_then q (\<lambda>p. and_then (validate_policy now latest p) (\<lambda>_. Inr p))"
    using assms(1) by (auto simp: resolve_policy_def split: option.splits)
  then show ?thesis
    using assms(2) by (auto simp: validate_policy_def validate_scalar_values_Inr validate_mcp_minimums_Inr
        validate_scan_relationships_Inr validate_explore_relationships_Inr)
qed


definition no_policy_overrides :: execution_policy_overrides where
  "no_policy_overrides =
     \<lparr>o_max_scan_wall_time_ms = None, o_max_no_progress_time_ms = None,
      o_max_codegraph_sync_wall_time_ms_per_repo = None, o_max_worker_memory_bytes = None,
      o_graceful_termination_ms = None, o_watch_idle_timeout_ms = None, o_max_watch_session_wall_time_ms = None,
      o_min_watch_rescan_interval_ms = None, o_max_checkpoint_cache_bytes = None,
      o_max_extraction_workers = None, o_max_codegraph_corroboration_anchors_per_repo = None,
      o_max_explore_wall_time_ms = None, o_max_explore_codegraph_operations = None,
      o_max_explore_concurrent_codegraph_processes = None, o_max_explore_source_files = None,
      o_max_explore_resolved_symbols = None, o_max_explore_anchors = None,
      o_max_explore_neighbors_per_direction = None, o_max_explore_local_relationships = None,
      o_max_explore_federated_handoffs_per_anchor = None, o_max_explore_federated_handoffs = None,
      o_max_explore_evidence_locations_per_handoff = None, o_max_explore_source_markdown_bytes = None,
      o_max_explore_enrichment_bytes = None, o_max_agent_next_actions_per_response = None,
      o_max_query_repository_suggestions = None, o_max_mcp_tool_response_bytes = None,
      o_max_mcp_resource_items = None, o_max_mcp_resource_bytes = None, o_max_mcp_schema_catalog_bytes = None\<rparr>"

lemma apply_no_overrides:
  "apply_policy_overrides no_policy_overrides p = Inr p"
  by (simp add: apply_policy_overrides_def apply_scan_overrides_def apply_agent_overrides_def no_policy_overrides_def)

theorem resolve_policy_exact_witness:
  "resolve_policy (\<lambda>_. 0) (2 ^ 90) None = Inr default_policy
   \<and> resolve_policy (\<lambda>_. 0) (2 ^ 90)
       (Some (no_policy_overrides\<lparr>o_max_explore_anchors := Some 6\<rparr>)) \<noteq> Inr (default_policy\<lparr>max_explore_anchors := 6\<rparr>)"
proof -
  have ok: "representable_policy default_policy" "representable_policy (default_policy\<lparr>max_explore_anchors := 6\<rparr>)"
    by (simp_all add: representable_policy_def scan_canonical_values_def agent_canonical_values_def default_policy_def
        usize_max_def)
  have anchors: "apply_policy_overrides (no_policy_overrides\<lparr>o_max_explore_anchors := Some 6\<rparr>) default_policy
      = Inr (default_policy\<lparr>max_explore_anchors := 6\<rparr>)"
    by (simp add: apply_policy_overrides_def apply_scan_overrides_def apply_agent_overrides_def no_policy_overrides_def)
  have "scalars_ok (\<lambda>_. 0) (2 ^ 90) default_policy"
    by (simp add: scalars_ok_def deadline_fits_def scan_canonical_values_def agent_canonical_values_def default_policy_def)
  then have "resolve_policy (\<lambda>_. 0) (2 ^ 90) None = Inr default_policy"
    using resolve_policy_exact [where overrides = None and q = "Inr default_policy" and now = "\<lambda>_. 0"
        and latest = "2 ^ 90" and p = default_policy] ok(1)
    by (simp add: mcp_minimums_ok_def scan_limits_nest_def explore_limits_nest_def capacities_representable_def
        default_policy_def usize_max_def)
  moreover have "\<not> explore_limits_nest (default_policy\<lparr>max_explore_anchors := 6\<rparr>)"
    by (simp add: explore_limits_nest_def default_policy_def)
  ultimately show ?thesis
    using resolve_policy_exact [where overrides = "Some (no_policy_overrides\<lparr>o_max_explore_anchors := Some 6\<rparr>)"
        and q = "Inr (default_policy\<lparr>max_explore_anchors := 6\<rparr>)" and now = "\<lambda>_. 0" and latest = "2 ^ 90"
        and p = "default_policy\<lparr>max_explore_anchors := 6\<rparr>"]
      ok(2) anchors by simp
qed

text \<open>The violation that an error names.\<close>

fun violates :: "(string \<Rightarrow> nat) \<Rightarrow> nat \<Rightarrow> execution_policy \<Rightarrow> invalid_execution_policy \<Rightarrow> bool" where
  "violates now latest p (InvalidValue field value) \<longleftrightarrow>
     (field, value) \<in> set (scan_canonical_values p @ agent_canonical_values p)
       \<and> (value = 0 \<or> field = ''maxCheckpointCacheBytes'' \<and> 9223372036854775807 < value
         \<or> \<not> deadline_fits now latest field value)
     \<or> field = ''maxExtractionWorkers'' \<and> value = max_extraction_workers p \<and> (value = 0 \<or> 256 < value)"
| "violates now latest p (BelowMinimum field value minimum) \<longleftrightarrow>
     (field, value) \<in> set (agent_canonical_values p) \<and> value < minimum \<and> \<not> mcp_minimums_ok p"
| "violates now latest p (InvalidRelationship field value maximum_field maximum) \<longleftrightarrow>
     (field, value) \<in> set (scan_canonical_values p @ agent_canonical_values p) \<and> maximum < value
     \<and> \<not> (scan_limits_nest p \<and> explore_limits_nest p)"
| "violates now latest p (ArithmeticOverflow expression) \<longleftrightarrow> \<not> capacities_representable p"

lemma validate_scalar_values_Inl:
  assumes "representable_policy p" and "validate_scalar_values now latest p = Inl e"
  shows "violates now latest p e"
proof -
  consider (scalar) x where "x \<in> set (scan_canonical_values p @ agent_canonical_values p)"
      "validate_scalar now latest x = Inl e"
    | (workers) "e = InvalidValue ''maxExtractionWorkers'' (max_extraction_workers p)"
      "max_extraction_workers p = 0 \<or> 256 < max_extraction_workers p"
    using assms(2) check_all_eq_Inl
    by (fastforce simp: validate_scalar_values_def and_then_eq_Inl split: if_splits)
  then show ?thesis
  proof cases
    case scalar
    then have "snd x \<le> usize_max" using assms(1) by (cases x) (auto simp: representable_policy_def list_all_iff)
    then show ?thesis
      using scalar validate_scalar_representable [of "snd x" now latest "fst x"]
      by (cases x) (auto split: if_splits)
  qed simp
qed

lemma validate_mcp_minimums_Inl: "validate_mcp_minimums p = Inl e \<Longrightarrow> violates now latest p e"
  by (auto simp: validate_mcp_minimums_def mcp_minimums_ok_def agent_canonical_values_def and_then_eq_Inl split: if_splits)

lemma validate_scan_relationships_Inl: "validate_scan_relationships p = Inl e \<Longrightarrow> violates now latest p e"
  by (auto simp: validate_scan_relationships_def and_then_eq_Inl require_not_greater_Inl scan_limits_nest_def
      scan_canonical_values_def)

lemma ok_or_eq_Inl [simp]: "ok_or e r = Inl e' \<longleftrightarrow> r = None \<and> e' = e"
  by (cases r) auto

lemma checked_mul_None [simp]: "checked_mul a b = None \<longleftrightarrow> usize_max < a * b"
  by (auto simp: checked_mul_def)

lemma bind_None_iff: "Option.bind a f = None \<longleftrightarrow> a = None \<or> (\<exists>x. a = Some x \<and> f x = None)"
  by (cases a) auto

lemma validate_explore_relationships_Inl: "validate_explore_relationships p = Inl e \<Longrightarrow> violates now latest p e"
  by (auto simp: validate_explore_relationships_def and_then_eq_Inl require_not_greater_Inl explore_limits_nest_def
      capacities_representable_def agent_canonical_values_def bind_None_iff bind_eq_Some_conv)


text \<open>A rejected policy is rejected for the reason the error gives: a named value that is zero, beyond its
  quota or beyond the platform clock; an MCP budget below its minimum; a subordinate limit above the limit
  that contains it; or a capacity product beyond 64 bits.
\<close>

lemma validate_policy_error:
  assumes "representable_policy p" and "validate_policy now latest p = Inl e"
  shows "violates now latest p e"
  using assms(2) validate_scalar_values_Inl [OF assms(1)] validate_mcp_minimums_Inl validate_scan_relationships_Inl
    validate_explore_relationships_Inl
  by (auto simp: validate_policy_def and_then_eq_Inl)


subsection \<open>The sentinel and the worker count\<close>

text \<open>The corroboration limit and its manifest integer are in bijection: a limit that fits a signed 64-bit
  integer is read back from what it was written as, with -1 only for the unlimited limit; a larger limit is
  refused by the writer; and the reader refuses exactly 0 and the integers below -1, naming the magnitude.
\<close>

lemma limit_round_trip:
  "(\<forall>limit. limit \<noteq> Bounded 0 \<longrightarrow>
      (case limit_serialize limit of
         Inr value \<Rightarrow> limit_try_from value = Inr limit \<and> - 1 \<le> value \<and> value \<le> i64_max
       | Inl e \<Rightarrow> \<exists>n. limit = Bounded n \<and> i64_max < int n))
   \<and> (\<forall>value \<le> i64_max. case limit_try_from value of
         Inr limit \<Rightarrow> limit_serialize limit = Inr value \<and> limit \<noteq> Bounded 0 \<and> (limit = Unlimited \<longleftrightarrow> value = - 1)
       | Inl e \<Rightarrow> (value = 0 \<or> value < - 1)
           \<and> e = InvalidValue ''maxCodeGraphCorroborationAnchorsPerRepo'' (nat \<bar>value\<bar>))"
proof (intro conjI allI impI)
  fix limit :: codegraph_corroboration_anchor_limit
  assume "limit \<noteq> Bounded 0"
  then show "case limit_serialize limit of
         Inr value \<Rightarrow> limit_try_from value = Inr limit \<and> - 1 \<le> value \<and> value \<le> i64_max
       | Inl e \<Rightarrow> \<exists>n. limit = Bounded n \<and> i64_max < int n"
    by (cases limit) (auto simp: limit_try_from_def i64_max_def)
qed (auto simp: limit_try_from_def)


text \<open>The number of extraction workers is at least one, never above the policy's limit when that is positive
  and never above the parallelism of the host.
\<close>

lemma effective_workers_bounds:
  assumes "scalars_ok now latest p" and "parallelism \<noteq> Some 0"
  shows "1 \<le> effective_extraction_workers parallelism p
     \<and> effective_extraction_workers parallelism p \<le> max_extraction_workers p
     \<and> effective_extraction_workers parallelism p \<le> (case parallelism of None \<Rightarrow> 1 | Some n \<Rightarrow> n)
     \<and> effective_extraction_workers parallelism p \<le> 256"
proof -
  have "0 < max_extraction_workers p" "max_extraction_workers p \<le> 256" using assms(1) by (auto simp: scalars_ok_def)
  moreover from this have "usize_try_from (max_extraction_workers p) = Some (max_extraction_workers p)"
    by (simp add: usize_try_from_def usize_max_def)
  ultimately show ?thesis
    using assms(2) by (auto simp: effective_extraction_workers_def Let_def max_def split: option.splits)
qed


subsection \<open>What a fingerprint identifies\<close>

lemma push_canonical_eq:
  "push_canonical index xs acc =
     acc @ (if xs = [] then [] else (if 0 < index then '';'' else []) @ canonical_text xs)"
proof (induction index xs acc rule: push_canonical.induct)
  case (2 index name v rest canonical)
  then show ?case by (cases rest) (auto simp: canonical_text_def)
qed simp

lemma agent_delivery_fingerprint_eq:
  "agent_delivery_fingerprint hash p = stable_id hash ''agent-delivery-policy'' (canonical_text (agent_canonical_values p))"
  by (simp add: agent_delivery_fingerprint_def push_canonical_eq agent_canonical_values_def)

lemma limit_display_inj: "limit_display a = limit_display b \<Longrightarrow> a = b"
proof -
  have neg: "show_nat n \<noteq> ''-1''" for n
    using show_nat_digits [of "CHR ''-''" n] by (auto simp: less_eq_char_def)
  assume "limit_display a = limit_display b"
  then show "a = b" using neg neg [symmetric] show_nat_inj by (cases a; cases b) (auto simp del: show_nat.simps)
qed

text \<open>The text behind the scan fingerprint: nine values and the corroboration limit.\<close>

definition scan_text :: "execution_policy \<Rightarrow> string" where
  "scan_text p = canonical_text (scan_canonical_values p) @ '';maxCodeGraphCorroborationAnchorsPerRepo=''
     @ limit_display (max_codegraph_corroboration_anchors_per_repo p)"

lemma limit_display_plain: "CHR '';'' \<notin> set (limit_display limit) \<and> CHR ''='' \<notin> set (limit_display limit)"
  using show_nat_plain by (cases limit) auto

lemma last_field_inj:
  assumes "a @ '';'' @ name @ ''='' @ v = a' @ '';'' @ name @ ''='' @ v'"
    and "CHR ''='' \<notin> set v" and "CHR ''='' \<notin> set v'"
  shows "a = a' \<and> v = v'"
proof -
  have split: "v = v'" if "x @ ''='' @ v = x' @ ''='' @ v'" for x x' :: string
    using that assms(2,3) by (auto simp: append_eq_append_conv2 append_eq_Cons_conv Cons_eq_append_conv)
  then have "v = v'" using assms(1) split [of "a @ '';'' @ name" "a' @ '';'' @ name"] by simp
  then show ?thesis using assms(1) by simp
qed

lemma scan_text_inj:
  assumes "scan_text p = scan_text p'"
  shows "scan_canonical_values p = scan_canonical_values p'
     \<and> max_codegraph_corroboration_anchors_per_repo p = max_codegraph_corroboration_anchors_per_repo p'"
proof -
  let ?limit = "\<lambda>p. limit_display (max_codegraph_corroboration_anchors_per_repo p)"
  have "canonical_text (scan_canonical_values p) = canonical_text (scan_canonical_values p') \<and> ?limit p = ?limit p'"
    using assms limit_display_plain
    by (intro last_field_inj [where name = "''maxCodeGraphCorroborationAnchorsPerRepo''"]) (simp_all add: scan_text_def)
  moreover from this have "scan_canonical_values p = scan_canonical_values p'"
    by (intro canonical_text_inj) (simp_all add: scan_canonical_values_def)
  ultimately show ?thesis using limit_display_inj by blast
qed

text \<open>The scan fingerprint identifies exactly what it authorizes reuse for: two policies have the same
  fingerprint exactly when their nine operational limits and their corroboration limit agree, whatever their
  worker counts and their agent limits are.
\<close>

lemma scan_fingerprint_identifies:
  assumes "collision_free hash {stable_id_input ''execution-policy'' (scan_text p), stable_id_input ''execution-policy'' (scan_text p')}"
  shows "scan_fingerprint hash p = scan_fingerprint hash p' \<longleftrightarrow>
     scan_canonical_values p = scan_canonical_values p'
     \<and> max_codegraph_corroboration_anchors_per_repo p = max_codegraph_corroboration_anchors_per_repo p'"
proof -
  have "scan_fingerprint hash p = scan_fingerprint hash p' \<longleftrightarrow> scan_text p = scan_text p'"
    using stable_id_identifies [OF assms] by (simp only: scan_fingerprint_def scan_text_def)
  also have "\<dots> \<longleftrightarrow> scan_canonical_values p = scan_canonical_values p'
     \<and> max_codegraph_corroboration_anchors_per_repo p = max_codegraph_corroboration_anchors_per_repo p'"
    using scan_text_inj by (metis scan_text_def)
  finally show ?thesis .
qed


subsection \<open>Runs of the watchdog\<close>

text \<open>
  A run is a sequence of operations with the clock readings they see: entering a phase and checking the time
  read the clock once, reporting progress reads it again after the check. \<open>run_job\<close> performs them until one
  is refused.
\<close>

datatype job_op = EnterPhase nat job_phase | CheckTime nat | Progress nat nat nat

fun job_step :: "job_op \<Rightarrow> scan_job_tracker \<Rightarrow> (execution_limit_exceeded, unit) outcome \<times> scan_job_tracker" where
  "job_step (EnterPhase now phase) t = enter_phase now phase t"
| "job_step (CheckTime now) t = (check_time now t, t)"
| "job_step (Progress now now' amount) t = job_progress now now' amount t"

fun run_job :: "job_op list \<Rightarrow> scan_job_tracker \<Rightarrow> (execution_limit_exceeded, unit) outcome \<times> scan_job_tracker" where
  "run_job [] t = (Inr (), t)"
| "run_job (op # ops) t =
     (case job_step op t of (Inl e, t') \<Rightarrow> (Inl e, t') | (Inr _, t') \<Rightarrow> run_job ops t')"

text \<open>What a run means, without the tracker: the readings, the amounts and the last progress before a position.\<close>

fun op_reading :: "job_op \<Rightarrow> nat" where
  "op_reading (EnterPhase now _) = now"
| "op_reading (CheckTime now) = now"
| "op_reading (Progress now _ _) = now"

fun op_amount :: "job_op \<Rightarrow> nat" where
  "op_amount (Progress _ _ amount) = amount"
| "op_amount _ = 0"

fun progress_from :: "nat \<Rightarrow> job_op list \<Rightarrow> nat" where
  "progress_from instant [] = instant"
| "progress_from instant (Progress _ now' _ # ops) = progress_from now' ops"
| "progress_from instant (_ # ops) = progress_from instant ops"

fun phase_from :: "job_phase \<Rightarrow> job_op list \<Rightarrow> job_phase" where
  "phase_from phase [] = phase"
| "phase_from phase (EnterPhase _ phase' # ops) = phase_from phase' ops"
| "phase_from phase (_ # ops) = phase_from phase ops"

definition elapsed_ms :: "nat \<Rightarrow> nat \<Rightarrow> nat" where
  "elapsed_ms since now = min (as_millis (now - since)) usize_max"

definition on_time :: "scan_job_tracker \<Rightarrow> nat \<Rightarrow> nat \<Rightarrow> bool" where
  "on_time t progress now \<longleftrightarrow>
     elapsed_ms (sj_started t) now \<le> max_scan_wall_time_ms (sj_policy t)
     \<and> elapsed_ms progress now \<le> max_no_progress_time_ms (sj_policy t)"

lemma check_time_Inr: "check_time now t = Inr u \<longleftrightarrow> on_time t (sj_last_progress t) now"
  by (auto simp: check_time_def check_duration_def on_time_def elapsed_ms_def Let_def)

lemma job_step_Inr:
  assumes "sj_completed_units t \<le> usize_max"
  shows "job_step op t = (Inr u, t') \<longleftrightarrow>
     on_time t (sj_last_progress t) (op_reading op) \<and> sj_completed_units t + op_amount op \<le> usize_max
     \<and> t' = t\<lparr>sj_last_progress := progress_from (sj_last_progress t) [op], sj_phase := phase_from (sj_phase t) [op],
           sj_completed_units := sj_completed_units t + op_amount op\<rparr>"
proof (cases "check_time (op_reading op) t")
  case (Inl e)
  moreover from this have "\<not> on_time t (sj_last_progress t) (op_reading op)" by (metis check_time_Inr sum.distinct(1))
  ultimately show ?thesis
    by (cases op) (auto simp: enter_phase_def job_progress_def split: option.splits)
next
  case (Inr v)
  moreover from this have "on_time t (sj_last_progress t) (op_reading op)" by (simp add: check_time_Inr)
  ultimately show ?thesis
    using assms by (cases op) (auto simp: enter_phase_def job_progress_def checked_add_def)
qed

lemma on_time_update [simp]:
  "on_time (t\<lparr>sj_last_progress := a, sj_phase := b, sj_completed_units := c\<rparr>) = on_time t"
  by (simp add: on_time_def fun_eq_iff)

lemma from_Cons:
  "progress_from p (op # ops) = progress_from (progress_from p [op]) ops"
  "phase_from ph (op # ops) = phase_from (phase_from ph [op]) ops"
  by (cases op; simp)+

definition after_run :: "job_op list \<Rightarrow> scan_job_tracker \<Rightarrow> scan_job_tracker" where
  "after_run ops t = t\<lparr>sj_last_progress := progress_from (sj_last_progress t) ops, sj_phase := phase_from (sj_phase t) ops,
     sj_completed_units := sj_completed_units t + sum_list (map op_amount ops)\<rparr>"

definition run_on_time :: "scan_job_tracker \<Rightarrow> job_op list \<Rightarrow> bool" where
  "run_on_time t ops \<longleftrightarrow>
     (\<forall>i < length ops. on_time t (progress_from (sj_last_progress t) (take i ops)) (op_reading (ops ! i)))"

lemma run_on_time_Cons:
  "run_on_time t (op # ops) \<longleftrightarrow> on_time t (sj_last_progress t) (op_reading op) \<and> run_on_time (after_run [op] t) ops"
proof -
  have step: "progress_from p (take (Suc i) (op # ops)) = progress_from (progress_from p [op]) (take i ops)" for p i
    by (subst from_Cons(1) [symmetric]) simp
  show ?thesis
    unfolding run_on_time_def by (simp add: All_less_Suc2 after_run_def step del: take_Suc_Cons)
qed


text \<open>
  C25: the watchdog accepts a run exactly when every operation reads the clock within the wall-time limit and
  within the no-progress limit of the last accepted progress report, and the amounts add up without overflow.
  Entering phases and checking the time renew nothing; the tracker then holds the last progress instant, the
  last phase and the sum of the reported amounts.
\<close>

theorem run_job_exact:
  assumes "sj_completed_units t \<le> usize_max"
  shows "run_job ops t = (Inr (), t') \<longleftrightarrow>
     run_on_time t ops \<and> sj_completed_units t + sum_list (map op_amount ops) \<le> usize_max \<and> t' = after_run ops t"
  using assms
proof (induction ops arbitrary: t)
  case Nil
  then show ?case by (auto simp: run_on_time_def after_run_def)
next
  case (Cons op ops)
  have after: "after_run (op # ops) t = after_run ops (after_run [op] t)"
    by (simp add: after_run_def from_Cons [of _ op ops] add.assoc)
  show ?case
  proof (cases "job_step op t = (Inr (), after_run [op] t)")
    case True
    then have fits: "sj_completed_units t + op_amount op \<le> usize_max" "on_time t (sj_last_progress t) (op_reading op)"
      by (simp_all add: job_step_Inr [OF Cons.prems])
    then have "run_job ops (after_run [op] t) = (Inr (), t') \<longleftrightarrow> run_on_time (after_run [op] t) ops
        \<and> sj_completed_units t + op_amount op + sum_list (map op_amount ops) \<le> usize_max
        \<and> t' = after_run ops (after_run [op] t)"
      using Cons.IH [of "after_run [op] t"] by (simp add: after_run_def)
    then show ?thesis using True fits(2) by (simp add: run_on_time_Cons after add.assoc)
  next
    case False
    then have "\<not> (on_time t (sj_last_progress t) (op_reading op) \<and> sj_completed_units t + op_amount op \<le> usize_max)"
      by (simp add: job_step_Inr [OF Cons.prems] after_run_def)
    moreover have "run_job (op # ops) t \<noteq> (Inr (), t')"
    proof
      assume "run_job (op # ops) t = (Inr (), t')"
      then obtain u s where "job_step op t = (Inr u, s)" by (auto split: prod.splits sum.splits)
      then show False using False by (simp add: job_step_Inr [OF Cons.prems] after_run_def)
    qed
    ultimately show ?thesis by (auto simp: run_on_time_Cons)
  qed
qed

theorem run_job_exact_witness:
  "fst (run_job [Progress 4000000 4000000 3, EnterPhase 9000000 Discovery]
     (job_tracker_with_clock ''run'' (default_policy\<lparr>max_scan_wall_time_ms := 100, max_no_progress_time_ms := 5\<rparr>) 0)) = Inr ()
   \<and> fst (run_job [EnterPhase 5000000 Discovery, EnterPhase 6000000 Fingerprinting]
     (job_tracker_with_clock ''run'' (default_policy\<lparr>max_scan_wall_time_ms := 100, max_no_progress_time_ms := 5\<rparr>) 0)) \<noteq> Inr ()"
proof -
  let ?t = "job_tracker_with_clock ''run'' (default_policy\<lparr>max_scan_wall_time_ms := 100, max_no_progress_time_ms := 5\<rparr>) 0"
  have start: "sj_completed_units ?t \<le> usize_max" by (simp add: job_tracker_with_clock_def)
  have "run_on_time ?t [Progress 4000000 4000000 3, EnterPhase 9000000 Discovery]"
    "\<not> run_on_time ?t [EnterPhase 5000000 Discovery, EnterPhase 6000000 Fingerprinting]"
    by (simp_all add: run_on_time_Cons after_run_def on_time_def elapsed_ms_def as_millis_def job_tracker_with_clock_def usize_max_def)
      (simp_all add: run_on_time_def)
  moreover have "fst (run_job ops ?t) = Inr () \<longleftrightarrow>
      run_on_time ?t ops \<and> sj_completed_units ?t + sum_list (map op_amount ops) \<le> usize_max" for ops
    using run_job_exact [OF start, of ops "snd (run_job ops ?t)"] run_job_exact [OF start, of ops "after_run ops ?t"]
    by (metis fst_conv prod.collapse)
  moreover have "sj_completed_units ?t + sum_list (map op_amount [Progress 4000000 4000000 3, EnterPhase 9000000 Discovery]) \<le> usize_max"
    by (simp add: job_tracker_with_clock_def usize_max_def)
  ultimately show ?thesis by blast
qed

text \<open>A refused run stops at its first refused operation and leaves the tracker as the accepted operations
  made it; the error carries the run, the phase and the units accepted so far, and an observed value above
  the maximum it names.
\<close>

lemma run_job_refused:
  assumes "sj_completed_units t \<le> usize_max" and "run_job ops t = (Inl e, t')"
  shows "\<exists>accepted op rest. ops = accepted @ op # rest \<and> run_job accepted t = (Inr (), t') \<and> job_step op t' = (Inl e, t')
     \<and> el_run_id e = sj_run_id t \<and> el_phase e = phase_from (sj_phase t) accepted
     \<and> el_completed_units e = sj_completed_units t + sum_list (map op_amount accepted)
     \<and> el_maximum e < el_observed e
     \<and> el_resource e \<in> {WallTimeMs, NoProgressTimeMs, JobWorkUnits}"
  using assms
proof (induction ops arbitrary: t)
  case (Cons op ops)
  obtain r s where step: "job_step op t = (r, s)" by fastforce
  show ?case
  proof (cases r)
    case (Inl e')
    then have "s = t" "e' = e" "t' = t" "job_step op t = (Inl e, t)"
      using step Cons.prems(2) by (cases op; auto simp: enter_phase_def job_progress_def split: sum.splits option.splits)+
    moreover from this have "el_run_id e = sj_run_id t \<and> el_phase e = sj_phase t \<and> el_completed_units e = sj_completed_units t
        \<and> el_maximum e < el_observed e \<and> el_resource e \<in> {WallTimeMs, NoProgressTimeMs, JobWorkUnits}"
      by (cases op) (auto simp: enter_phase_def job_progress_def check_time_def check_duration_def and_then_eq_Inl Let_def
          job_exceeded_def usize_max_def split: sum.splits option.splits if_splits)
    ultimately show ?thesis by (intro exI [of _ "[]"]) auto
  next
    case (Inr u)
    then have s: "s = after_run [op] t" "sj_completed_units s \<le> usize_max" "run_job ops s = (Inl e, t')"
      using step job_step_Inr [OF Cons.prems(1), of op u s] Cons.prems(2) by (auto simp: after_run_def)
    obtain accepted op' rest where tail: "ops = accepted @ op' # rest" "run_job accepted s = (Inr (), t')"
        "job_step op' t' = (Inl e, t')" "el_run_id e = sj_run_id s" "el_phase e = phase_from (sj_phase s) accepted"
        "el_completed_units e = sj_completed_units s + sum_list (map op_amount accepted)" "el_maximum e < el_observed e"
        "el_resource e \<in> {WallTimeMs, NoProgressTimeMs, JobWorkUnits}"
      using Cons.IH [OF s(2,3)] by blast
    have "run_job (op # accepted) t = (Inr (), t')" using step Inr tail(2) by simp
    then show ?thesis
      using tail s(1) by (intro exI [of _ "op # accepted"]) (auto simp: after_run_def from_Cons(2) [of _ op accepted])
  qed
qed simp


end
