(* ===== verification/Ignore_Policy.thy ===== *)
theory Ignore_Policy
  imports Model Text_Ops
begin

text \<open>
  \<open>crates/code-system-graph-core/src/ignore_policy.rs\<close>: the patterns that select which files of a repository
  are discovered, their normalization and validation, and the decision whether a path is excluded. The
  \<open>globset\<close> crate is the argument \<open>gl\<close>: whether it accepts a pattern, whether it accepts a set of patterns,
  and which texts a set of patterns matches. A \<open>GlobSet\<close> is the list of its patterns. A relative path is the
  list of its components, whose names are UTF-8 text. File discovery runs on the walk of the \<open>ignore\<close> crate, the
  argument \<open>walker\<close>, which applies the settings and the entry filter that the source configures.

  The properties: a normalized pattern is portable (relative, without empty, \<open>.\<close> or \<open>..\<close> components, with the
  supported wildcards only) and stays itself when it is normalized again; no directory is pruned that holds a
  file which an exception to the default exclusions matches, and discovery finds such a file exactly when no
  other rule (depth, protected and configured patterns, \<open>.gitignore\<close> files) leaves it out.
\<close>

subsection \<open>The external glob library\<close>

record glob_library =
  gl_build :: "string \<Rightarrow> (string, unit) outcome"
  gl_build_set :: "string list \<Rightarrow> (string, unit) outcome"
  gl_is_match :: "string list \<Rightarrow> string \<Rightarrow> bool"

type_synonym glob_set = "string list"

subsection \<open>Patterns\<close>

datatype ignore_pattern_error =
  EmptyPattern
| MissingPathComponent string
| AbsolutePattern string
| ParentTraversal string
| Backslash string
| UnsafeCharacters
| UnsupportedSyntax string
| InvalidGlob string string
| ProtectedInclude string string

datatype config_source = CliOverride | WorkspaceManifest | RepositoryLocal | AutoDetected | DefaultSource

definition PROTECTED_EXCLUDES :: "string list" where
  "PROTECTED_EXCLUDES =
     [''**/.git/**'', ''**/.hg/**'', ''**/.svn/**'', ''**/.codegraph/**'', ''**/.code-system-graph/**'']"

definition DEFAULT_EXCLUDES :: "string list" where
  "DEFAULT_EXCLUDES =
     [''**/.next/**'', ''**/.venv/**'', ''**/.mypy_cache/**'', ''**/.nox/**'', ''**/.pytest_cache/**'',
      ''**/.ruff_cache/**'', ''**/.tox/**'', ''**/venv/**'', ''**/env/**'', ''**/site-packages/**'',
      ''**/node_modules/**'', ''**/vendor/**'', ''**/target/**'', ''**/dist/**'', ''**/build/**'',
      ''**/__pycache__/**'']"

definition PROTECTED_DIRECTORY_NAMES :: "string list" where
  "PROTECTED_DIRECTORY_NAMES = [''.git'', ''.hg'', ''.svn'', ''.codegraph'', ''.code-system-graph'']"

definition unsafe_character :: "nat \<Rightarrow> bool" where
  "unsafe_character c \<longleftrightarrow>
     is_control c \<or> c = 0x061c \<or> c = 0x200e \<or> c = 0x200f \<or> (0x202a \<le> c \<and> c \<le> 0x202e)
     \<or> (0x2066 \<le> c \<and> c \<le> 0x2069)"

definition absolute_pattern :: "string \<Rightarrow> bool" where
  "absolute_pattern pattern \<longleftrightarrow> starts_with ''/'' pattern \<or> (2 \<le> length pattern \<and> pattern ! 1 = CHR '':'')"

abbreviation components_of :: "string \<Rightarrow> string list" where
  "components_of pattern \<equiv> split_on (\<lambda>c. c = CHR ''/'') pattern"

definition validate_supported_syntax :: "string \<Rightarrow> string list \<Rightarrow> (ignore_pattern_error, unit) outcome" where
  "validate_supported_syntax pattern components =
     (let unsupported_delimiter = contains_char ''[]{}'' pattern;
          unsupported_recursive = list_ex (\<lambda>c. contains_str ''**'' c \<and> c \<noteq> ''**'') components in
      if unsupported_delimiter \<or> unsupported_recursive then Inl (UnsupportedSyntax pattern) else Inr ())"

definition normalize_pattern :: "string \<Rightarrow> (ignore_pattern_error, string) outcome" where
  "normalize_pattern pattern =
     (if trim pattern = [] then Inl EmptyPattern
      else if absolute_pattern pattern then Inl (AbsolutePattern pattern)
      else if contains_char [CHR 0x5C] pattern then Inl (Backslash pattern)
      else if list_ex (\<lambda>c. c = ''..'') (components_of pattern) then Inl (ParentTraversal pattern)
      else if list_ex unsafe_character (utf8_decode pattern) then Inl UnsafeCharacters
      else
        let directory_only = ends_with ''/'' pattern
              \<or> find (\<lambda>c. c \<noteq> []) (rev (components_of pattern)) = Some ''.'';
            components = filter (\<lambda>c. c \<noteq> [] \<and> c \<noteq> ''.'') (components_of pattern) in
        if components = [] then Inl (MissingPathComponent pattern)
        else and_then (validate_supported_syntax pattern components) (\<lambda>_.
          let normalized = join ''/'' components in
          if absolute_pattern normalized then Inl (AbsolutePattern pattern)
          else Inr (if directory_only then normalized @ ''/'' else normalized)))"

definition normalize_patterns :: "string list \<Rightarrow> (ignore_pattern_error, string list) outcome" where
  "normalize_patterns patterns = collect_all normalize_pattern patterns"

definition validate_protected_includes :: "string list \<Rightarrow> (ignore_pattern_error, unit) outcome" where
  "validate_protected_includes patterns =
     check_all (\<lambda>pattern. check_all (\<lambda>component.
         if component \<in> set PROTECTED_DIRECTORY_NAMES then Inl (ProtectedInclude pattern component) else Inr ())
       (components_of pattern)) patterns"

definition compile_globs :: "glob_library \<Rightarrow> string list \<Rightarrow> (ignore_pattern_error, glob_set) outcome" where
  "compile_globs gl patterns =
     and_then (check_all (\<lambda>pattern. case gl_build gl pattern of
         Inl detail \<Rightarrow> Inl (InvalidGlob pattern detail) | Inr _ \<Rightarrow> Inr ()) patterns) (\<lambda>_.
       case gl_build_set gl patterns of Inl detail \<Rightarrow> Inl (InvalidGlob ''<set>'' detail) | Inr _ \<Rightarrow> Inr patterns)"

definition validate_excludes :: "glob_library \<Rightarrow> string list \<Rightarrow> (ignore_pattern_error, unit) outcome" where
  "validate_excludes gl patterns =
     and_then (normalize_patterns patterns) (\<lambda>normalized. and_then (compile_globs gl normalized) (\<lambda>_. Inr ()))"

definition validate_include_defaults :: "glob_library \<Rightarrow> string list \<Rightarrow> (ignore_pattern_error, unit) outcome" where
  "validate_include_defaults gl patterns =
     and_then (normalize_patterns patterns) (\<lambda>normalized.
     and_then (validate_protected_includes normalized) (\<lambda>_.
     and_then (compile_globs gl normalized) (\<lambda>_. Inr ())))"

subsection \<open>Paths\<close>

datatype path_component = RootDir | CurDir | ParentDir | Normal string

type_synonym rel_path = "path_component list"

fun path_component_key :: "path_component \<Rightarrow> nat \<times> string" where
  "path_component_key RootDir = (0, [])"
| "path_component_key CurDir = (1, [])"
| "path_component_key ParentDir = (2, [])"
| "path_component_key (Normal name) = (3, name)"

lemma path_component_key_inject [simp]: "path_component_key x = path_component_key y \<longleftrightarrow> x = y"
  by (cases x; cases y) auto

instantiation path_component :: linorder
begin

definition less_eq_path_component :: "path_component \<Rightarrow> path_component \<Rightarrow> bool" where
  "less_eq_path_component x y \<longleftrightarrow> path_component_key x \<le> path_component_key y"

definition less_path_component :: "path_component \<Rightarrow> path_component \<Rightarrow> bool" where
  "less_path_component x y \<longleftrightarrow> path_component_key x < path_component_key y"

instance
  by standard (auto simp: less_eq_path_component_def less_path_component_def less_le_not_le
      dest: antisym intro: order_trans)

end

fun normal_name :: "path_component \<Rightarrow> string option" where
  "normal_name (Normal name) = Some name"
| "normal_name _ = None"

definition path_candidate :: "rel_path \<Rightarrow> string" where
  "path_candidate path = join ''/'' (List.map_filter normal_name path)"

definition path_push :: "rel_path \<Rightarrow> string \<Rightarrow> rel_path" where
  "path_push path name =
     path @ [if name = ''.'' then CurDir else if name = ''..'' then ParentDir else Normal name]"

definition path_starts_with :: "rel_path \<Rightarrow> rel_path \<Rightarrow> bool" where
  "path_starts_with path base \<longleftrightarrow> take (length base) path = base"

subsection \<open>The policy\<close>

fun literal_prefix :: "string list \<Rightarrow> rel_path \<Rightarrow> rel_path" where
  "literal_prefix [] prefix = prefix"
| "literal_prefix (component # rest) prefix =
     (if contains_char ''*?'' component then prefix
      else literal_prefix rest (if component \<noteq> [] then path_push prefix component else prefix))"

definition include_prefixes :: "string list \<Rightarrow> rel_path list \<times> bool" where
  "include_prefixes patterns =
     (let (prefixes, can_match_anywhere) =
        fold (\<lambda>pattern (prefixes, anywhere).
          let prefix = literal_prefix (components_of pattern) [] in
          if prefix = [] then (prefixes, True) else (prefixes @ [prefix], anywhere)) patterns ([], False) in
      (sorted_unique prefixes, can_match_anywhere))"

record ignore_policy =
  ip_configured_excludes :: "string list"
  ip_configured_excludes_source :: config_source
  ip_include_defaults :: "string list"
  ip_include_defaults_source :: config_source
  ip_use_gitignore :: bool
  ip_use_gitignore_source :: config_source
  ip_protected_matcher :: glob_set
  ip_default_matcher :: glob_set
  ip_configured_matcher :: glob_set
  ip_include_matcher :: glob_set
  ip_include_prefixes :: "rel_path list"
  ip_include_can_match_anywhere :: bool

definition ignore_policy_with_gitignore ::
  "glob_library \<Rightarrow> string list \<Rightarrow> config_source \<Rightarrow> string list \<Rightarrow> config_source \<Rightarrow> bool \<Rightarrow> config_source
     \<Rightarrow> (ignore_pattern_error, ignore_policy) outcome" where
  "ignore_policy_with_gitignore gl excludes excludes_source includes includes_source use_gitignore use_gitignore_source =
     and_then (normalize_patterns excludes) (\<lambda>configured_excludes.
     and_then (normalize_patterns includes) (\<lambda>include_defaults.
     and_then (validate_protected_includes include_defaults) (\<lambda>_.
       let configured_excludes = sorted_unique configured_excludes;
           include_defaults = sorted_unique include_defaults;
           (prefixes, anywhere) = include_prefixes include_defaults in
       and_then (compile_globs gl PROTECTED_EXCLUDES) (\<lambda>protected_matcher.
       and_then (compile_globs gl DEFAULT_EXCLUDES) (\<lambda>default_matcher.
       and_then (compile_globs gl configured_excludes) (\<lambda>configured_matcher.
       and_then (compile_globs gl include_defaults) (\<lambda>include_matcher.
         Inr \<lparr>ip_configured_excludes = configured_excludes, ip_configured_excludes_source = excludes_source,
              ip_include_defaults = include_defaults, ip_include_defaults_source = includes_source,
              ip_use_gitignore = use_gitignore, ip_use_gitignore_source = use_gitignore_source,
              ip_protected_matcher = protected_matcher, ip_default_matcher = default_matcher,
              ip_configured_matcher = configured_matcher, ip_include_matcher = include_matcher,
              ip_include_prefixes = prefixes, ip_include_can_match_anywhere = anywhere\<rparr>)))))))"

definition ignore_policy_new ::
  "glob_library \<Rightarrow> string list \<Rightarrow> config_source \<Rightarrow> string list \<Rightarrow> config_source
     \<Rightarrow> (ignore_pattern_error, ignore_policy) outcome" where
  "ignore_policy_new gl excludes excludes_source includes includes_source =
     ignore_policy_with_gitignore gl excludes excludes_source includes includes_source False DefaultSource"

definition may_contain_included_default :: "ignore_policy \<Rightarrow> rel_path \<Rightarrow> bool" where
  "may_contain_included_default policy directory =
     (if ip_include_can_match_anywhere policy then True
      else list_ex (\<lambda>prefix. path_starts_with prefix directory \<or> path_starts_with directory prefix)
        (ip_include_prefixes policy))"

definition policy_excludes :: "glob_library \<Rightarrow> ignore_policy \<Rightarrow> rel_path \<Rightarrow> bool \<Rightarrow> bool" where
  "policy_excludes gl policy relative directory =
     (let candidate = path_candidate relative;
          directory_candidate = (if directory then Some (candidate @ ''/'') else None);
          matches = (\<lambda>matcher. gl_is_match gl matcher candidate
            \<or> (case directory_candidate of None \<Rightarrow> False | Some c \<Rightarrow> gl_is_match gl matcher c)) in
      if matches (ip_protected_matcher policy) \<or> matches (ip_configured_matcher policy) then True
      else matches (ip_default_matcher policy) \<and> \<not> matches (ip_include_matcher policy)
        \<and> \<not> (directory \<and> may_contain_included_default policy relative))"

subsection \<open>Discovery\<close>

text \<open>
  The directory walk belongs to the \<open>ignore\<close> crate: \<open>walker\<close> is the iterator that \<open>WalkBuilder\<close> builds from its
  settings, a list of entries and errors in path order. An entry carries its depth below the root, its type and its
  path relative to the root.
\<close>

datatype entry_type = RegularFile | Directory | Symlink | OtherType

record walk_entry =
  we_depth :: nat
  we_file_type :: "entry_type option"
  we_relative :: "rel_path option"

record walk_settings =
  ws_git_ignore :: bool
  ws_max_depth :: "nat option"
  ws_keep :: "walk_entry \<Rightarrow> bool"

type_synonym walker = "walk_settings \<Rightarrow> (string + walk_entry) list"

datatype discovery_error = WalkFailed string | OutsideRoot

definition keep_entry :: "glob_library \<Rightarrow> ignore_policy \<Rightarrow> walk_entry \<Rightarrow> bool" where
  "keep_entry gl policy entry =
     (if we_depth entry = 0 then True
      else case we_file_type entry of
        None \<Rightarrow> False
      | Some file_type \<Rightarrow>
          if file_type = Symlink then False
          else case we_relative entry of
            None \<Rightarrow> False | Some relative \<Rightarrow> \<not> policy_excludes gl policy relative (file_type = Directory))"

fun collect_files ::
    "nat option \<Rightarrow> (rel_path \<Rightarrow> bool) \<Rightarrow> (string + walk_entry) list \<Rightarrow> rel_path list \<Rightarrow> (discovery_error, rel_path list) outcome" where
  "collect_files max_results matches [] files = Inr files"
| "collect_files max_results matches (Inl e # entries) files = Inl (WalkFailed e)"
| "collect_files max_results matches (Inr entry # entries) files =
     (case we_file_type entry of
        None \<Rightarrow> collect_files max_results matches entries files
      | Some file_type \<Rightarrow>
          if we_depth entry = 0 \<or> file_type \<noteq> RegularFile then collect_files max_results matches entries files
          else case we_relative entry of
            None \<Rightarrow> Inl OutsideRoot
          | Some relative \<Rightarrow>
              if \<not> matches relative then collect_files max_results matches entries files
              else if (case max_results of None \<Rightarrow> False | Some limit \<Rightarrow> limit \<le> length (files @ [relative]))
                then Inr (files @ [relative])
              else collect_files max_results matches entries (files @ [relative]))"

definition discover_repository_files_matching ::
    "glob_library \<Rightarrow> walker \<Rightarrow> ignore_policy \<Rightarrow> nat option \<Rightarrow> nat option \<Rightarrow> (rel_path \<Rightarrow> bool)
       \<Rightarrow> (discovery_error, rel_path list) outcome" where
  "discover_repository_files_matching gl walker policy max_depth max_results matches =
     and_then (collect_files max_results matches
       (walker \<lparr>ws_git_ignore = ip_use_gitignore policy, ws_max_depth = max_depth, ws_keep = keep_entry gl policy\<rparr>) [])
     (\<lambda>files. Inr (sorted_unique files))"

definition discover_repository_files ::
    "glob_library \<Rightarrow> walker \<Rightarrow> ignore_policy \<Rightarrow> nat option \<Rightarrow> (discovery_error, rel_path list) outcome" where
  "discover_repository_files gl walker policy max_depth =
     discover_repository_files_matching gl walker policy max_depth None (\<lambda>_. True)"

text \<open>
  The matcher for single paths; \<open>gitignore\<close> is the \<open>ignore\<close> crate's matcher of the checkout, which a policy without
  \<open>.gitignore\<close> support does not build.
\<close>

definition path_matcher_excludes ::
    "glob_library \<Rightarrow> ignore_policy \<Rightarrow> (rel_path \<Rightarrow> bool \<Rightarrow> string + bool) option \<Rightarrow> rel_path \<Rightarrow> bool
       \<Rightarrow> (discovery_error, bool) outcome" where
  "path_matcher_excludes gl policy gitignore relative directory =
     (if policy_excludes gl policy relative directory then Inr True
      else case gitignore of
        None \<Rightarrow> Inr False
      | Some matcher \<Rightarrow> map_error WalkFailed (matcher relative directory))"

subsection \<open>Normalized patterns\<close>

definition portable_component :: "string \<Rightarrow> bool" where
  "portable_component c \<longleftrightarrow>
     c \<noteq> [] \<and> c \<noteq> ''.'' \<and> c \<noteq> ''..'' \<and> \<not> contains_char (CHR 0x5C # ''/[]{}'') c \<and> (contains_str ''**'' c \<longrightarrow> c = ''**'')"

definition portable_pattern :: "string \<Rightarrow> bool" where
  "portable_pattern pattern \<longleftrightarrow>
     (\<exists>components directory. pattern = join ''/'' components @ (if directory then ''/'' else [])
        \<and> components \<noteq> [] \<and> list_all portable_component components) \<and> \<not> absolute_pattern pattern"

definition path_components :: "string \<Rightarrow> string list" where
  "path_components pattern = filter (\<lambda>c. c \<noteq> [] \<and> c \<noteq> ''.'') (components_of pattern)"

definition names_directory :: "string \<Rightarrow> bool" where
  "names_directory pattern \<longleftrightarrow>
     ends_with ''/'' pattern \<or> find (\<lambda>c. c \<noteq> []) (rev (components_of pattern)) = Some ''.''"

lemma normalize_pattern_Inr:
  "normalize_pattern p = Inr n \<longleftrightarrow>
     trim p \<noteq> [] \<and> \<not> absolute_pattern p \<and> \<not> contains_char (CHR 0x5C # ''[]{}'') p
     \<and> ''..'' \<notin> set (components_of p) \<and> \<not> list_ex unsafe_character (utf8_decode p)
     \<and> path_components p \<noteq> [] \<and> list_all (\<lambda>c. contains_str ''**'' c \<longrightarrow> c = ''**'') (path_components p)
     \<and> \<not> absolute_pattern (join ''/'' (path_components p))
     \<and> n = join ''/'' (path_components p) @ (if names_directory p then ''/'' else [])"
proof -
  have guarded: "(if b then Inl e else r) = Inr m \<longleftrightarrow> \<not> b \<and> r = Inr m" for b e r and m :: 'b by simp
  have chars: "contains_char (CHR 0x5C # ''[]{}'') p \<longleftrightarrow> contains_char [CHR 0x5C] p \<or> contains_char ''[]{}'' p"
    by (auto simp: contains_char_iff)
  have dots: "list_ex (\<lambda>c. c = ''..'') cs \<longleftrightarrow> ''..'' \<in> set cs" for cs by (auto simp: list_ex_iff)
  have stars: "list_ex (\<lambda>c. contains_str ''**'' c \<and> c \<noteq> ''**'') cs \<longleftrightarrow>
      \<not> list_all (\<lambda>c. contains_str ''**'' c \<longrightarrow> c = ''**'') cs" for cs
    by (simp add: list_ex_iff list_all_iff)
  show ?thesis
    unfolding normalize_pattern_def validate_supported_syntax_def Let_def chars dots stars
      path_components_def [symmetric] names_directory_def [symmetric]
      guarded and_then_eq_Inr
    by (cases "names_directory p"; simp only: if_True if_False append_Nil2 sum.inject simp_thms) blast+
qed

lemma components_of_join:
  assumes "cs \<noteq> []" and "\<And>c. c \<in> set cs \<Longrightarrow> CHR ''/'' \<notin> set c"
  shows "components_of (join ''/'' cs) = cs"
  using assms
proof (induction cs)
  case (Cons c cs)
  show ?case
  proof (cases cs)
    case Nil
    then show ?thesis using Cons.prems(2) [of c] split_on_id [of c "\<lambda>c. c = CHR ''/''"] by auto
  next
    case (Cons d ds)
    then have "components_of (c @ ''/'' @ join ''/'' cs) = c # components_of (join ''/'' cs)"
      using Cons.prems(2) [of c] by (simp, intro split_on_append_sep) auto
    then show ?thesis using Cons Cons.IH Cons.prems(2) by simp
  qed
qed simp


lemma join_directory: "cs \<noteq> [] \<Longrightarrow> join ''/'' (cs @ [[]]) = join ''/'' cs @ ''/''"
  by (induction cs rule: join.induct [of _ "''/''"]) auto

lemma components_of_pattern:
  assumes "cs \<noteq> []" and "\<And>c. c \<in> set cs \<Longrightarrow> CHR ''/'' \<notin> set c"
  shows "components_of (join ''/'' cs @ (if dir then ''/'' else [])) = cs @ (if dir then [[]] else [])"
proof (cases dir)
  case True
  have "components_of (join ''/'' (cs @ [[]])) = cs @ [[]]" using assms(2) by (intro components_of_join) auto
  then show ?thesis using True assms(1) by (simp add: join_directory)
qed (use components_of_join [OF assms] in simp)

lemma absolute_directory:
  assumes "s \<noteq> []" and "\<not> absolute_pattern s"
  shows "\<not> absolute_pattern (s @ (if dir then ''/'' else []))"
  using assms by (cases s; cases "tl s") (auto simp: absolute_pattern_def starts_with_def nth_append split: if_splits)

lemma set_path_components: "c \<in> set (path_components p) \<Longrightarrow> c \<in> set (components_of p) \<and> c \<noteq> [] \<and> c \<noteq> ''.''"
  by (simp add: path_components_def)

lemma component_chars: "c \<in> set (components_of p) \<Longrightarrow> set c \<subseteq> set p \<and> CHR ''/'' \<notin> set c"
  using split_on_infix split_on_no_sep by fastforce


lemma join_nonempty: "cs \<noteq> [] \<Longrightarrow> [] \<notin> set cs \<Longrightarrow> join ''/'' cs \<noteq> []"
  by (induction cs rule: induct_list012) auto

lemma set_join: "set (join ''/'' cs) \<subseteq> insert (CHR ''/'') (\<Union> (set ` set cs))"
  by (induction cs rule: induct_list012) auto

lemma normalized_components:
  assumes "normalize_pattern p = Inr n"
  shows "components_of n = path_components p @ (if names_directory p then [[]] else [])"
    and "list_all portable_component (path_components p)" and "path_components p \<noteq> []"
proof -
  note p = assms [unfolded normalize_pattern_Inr]
  show "path_components p \<noteq> []" using p by simp
  have comp: "c \<in> set (components_of p) \<and> c \<noteq> [] \<and> c \<noteq> ''.'' \<and> set c \<subseteq> set p \<and> CHR ''/'' \<notin> set c"
    if "c \<in> set (path_components p)" for c
    using set_path_components [OF that] component_chars by blast
  then show "list_all portable_component (path_components p)"
    using p by (fastforce simp: list_all_iff portable_component_def contains_char_iff)
  show "components_of n = path_components p @ (if names_directory p then [[]] else [])"
    using p comp components_of_pattern [of "path_components p" "names_directory p"] by simp
qed

lemma names_directory_normalized:
  assumes "normalize_pattern p = Inr n"
  shows "names_directory n \<longleftrightarrow> names_directory p" and "ends_with ''/'' n \<longleftrightarrow> names_directory p"
proof -
  note p = assms [unfolded normalize_pattern_Inr] and cs = normalized_components [OF assms]
  let ?last = "last (path_components p)"
  have last: "portable_component ?last" using cs(2,3) by (simp add: list_all_iff)
  have tail: "join ''/'' xs = join ''/'' (butlast xs @ [[]]) @ last xs" if "xs \<noteq> []" for xs
    using that by (induction xs rule: join.induct [of _ "''/''"]) (auto simp: neq_Nil_conv)
  show ends: "ends_with ''/'' n \<longleftrightarrow> names_directory p"
  proof (cases "names_directory p")
    case False
    then have "n = join ''/'' (butlast (path_components p) @ [[]]) @ ?last" using p tail [of "path_components p"] by simp
    moreover have "?last \<noteq> []" "CHR ''/'' \<notin> set ?last"
      using last by (auto simp: portable_component_def contains_char_iff)
    ultimately show ?thesis using False by (auto simp: ends_with_iff) (metis last_appendR last_in_set last_snoc)
  qed (use p in \<open>auto simp: ends_with_iff\<close>)
  have "find (\<lambda>c. c \<noteq> []) (rev (components_of n)) = Some ?last"
    using cs(1,3) last by (cases "path_components p" rule: rev_cases) (auto simp: portable_component_def)
  then show "names_directory n \<longleftrightarrow> names_directory p"
    using ends last by (auto simp: names_directory_def portable_component_def)
qed

text \<open>
  An accepted pattern is portable: relative, with at least one component, none of them empty, \<open>.\<close> or
  \<open>..\<close>, no backslash and no wildcard beyond \<open>*\<close>, \<open>?\<close> and a whole \<open>**\<close>. It keeps the components of the
  pattern as written, ends with a slash exactly when the pattern names a directory, and an ASCII pattern is
  left as it is by another normalization unless all that remains is white space.
\<close>

lemma normalize_pattern_portable:
  assumes "normalize_pattern p = Inr n"
  shows "portable_pattern n \<and> path_components n = path_components p \<and> (ends_with ''/'' n \<longleftrightarrow> names_directory p)
     \<and> (list_all (\<lambda>c. of_char c < (128::nat)) p \<and> trim n \<noteq> [] \<longrightarrow> normalize_pattern n = Inr n)"
proof -
  note p = assms [unfolded normalize_pattern_Inr] and cs = normalized_components [OF assms]
    and dir = names_directory_normalized [OF assms]
  have portable: "portable_component c" if "c \<in> set (path_components p)" for c
    using cs(2) that by (simp add: list_all_iff)
  have same: "path_components n = path_components p"
    unfolding path_components_def cs(1) using portable
    by (auto simp: path_components_def portable_component_def intro!: filter_True)
  have abs: "\<not> absolute_pattern n"
    using p join_nonempty [of "path_components p"] portable absolute_directory by (metis portable_component_def)
  have chars: "set n \<subseteq> insert (CHR ''/'') (set p)"
  proof -
    have "\<Union> (set ` set (path_components p)) \<subseteq> set p" using component_chars set_path_components by blast
    then show ?thesis using p set_join [of "path_components p"] by (auto split: if_splits)
  qed
  have "normalize_pattern n = Inr n" if "list_all (\<lambda>c. of_char c < (128::nat)) p" "trim n \<noteq> []"
  proof -
    have ascii: "utf8_decode p = map of_char p" "utf8_decode n = map of_char n"
      using that(1) chars by (auto intro!: utf8_decode_ascii simp: list_all_iff)
    have "\<not> list_ex unsafe_character (utf8_decode n)"
    proof -
      have "\<not> unsafe_character (of_char CHR ''/'')" by (simp add: unsafe_character_def is_control_def)
      moreover have "\<forall>c \<in> set p. \<not> unsafe_character (of_char c)" using p unfolding ascii by (simp add: list_ex_iff)
      ultimately show ?thesis using chars unfolding ascii by (auto simp: list_ex_iff)
    qed
    moreover have "\<not> contains_char (CHR 0x5C # ''[]{}'') n" using p chars by (auto simp: contains_char_iff)
    moreover have "''..'' \<notin> set (components_of n)" using portable unfolding cs(1) by (auto simp: portable_component_def)
    ultimately show ?thesis unfolding normalize_pattern_Inr same dir(1) using p abs that(2) by simp
  qed
  moreover have "portable_pattern n"
    using p cs(2,3) abs unfolding portable_pattern_def by (intro conjI exI [of _ "path_components p"]) auto
  ultimately show ?thesis using same dir(2) by blast
qed

subsection \<open>What discovery finds\<close>

text \<open>
  Documented behaviour of \<open>globset\<close> with \<open>literal_separator\<close> and without escapes, for the patterns the policy
  compiles (no character classes and no alternates): a set matches a text only when one of its patterns does, and
  the components of a pattern before its first wildcard are the leading components of every text it matches.
\<close>

definition literal_components :: "string \<Rightarrow> string list" where
  "literal_components pattern =
     filter (\<lambda>c. c \<noteq> []) (takeWhile (\<lambda>c. \<not> contains_char ''*?'' c) (components_of pattern))"

definition separates_literally :: "glob_library \<Rightarrow> bool" where
  "separates_literally gl \<longleftrightarrow>
     (\<forall>patterns text. list_all portable_pattern patterns \<longrightarrow> gl_is_match gl patterns text \<longrightarrow>
        (\<exists>pattern \<in> set patterns. \<exists>rest.
          filter (\<lambda>c. c \<noteq> []) (components_of text) = literal_components pattern @ rest))"

text \<open>
  Documented behaviour of the walk over a tree of entries: without errors it yields an entry exactly when every
  entry on the way to it, itself included, satisfies the filter and is not ignored by an enabled \<open>.gitignore\<close>
  file, every entry above it is a directory, and it is within the depth bound.
\<close>

definition entry_at :: "(rel_path \<Rightarrow> entry_type option) \<Rightarrow> rel_path \<Rightarrow> walk_entry" where
  "entry_at tree path = \<lparr>we_depth = length path, we_file_type = tree path, we_relative = Some path\<rparr>"

definition reached ::
    "(rel_path \<Rightarrow> entry_type option) \<Rightarrow> (rel_path \<Rightarrow> bool) \<Rightarrow> walk_settings \<Rightarrow> rel_path \<Rightarrow> bool" where
  "reached tree ignored settings path \<longleftrightarrow>
     (\<forall>k \<in> {0<..length path}. ws_keep settings (entry_at tree (take k path)) \<and> \<not> (ws_git_ignore settings \<and> ignored (take k path)))
     \<and> (\<forall>k < length path. tree (take k path) = Some Directory)
     \<and> (case ws_max_depth settings of None \<Rightarrow> True | Some depth \<Rightarrow> length path \<le> depth)"

definition walks_tree :: "walker \<Rightarrow> (rel_path \<Rightarrow> entry_type option) \<Rightarrow> (rel_path \<Rightarrow> bool) \<Rightarrow> bool" where
  "walks_tree walker tree ignored \<longleftrightarrow>
     (\<forall>settings. \<exists>paths. walker settings = map (\<lambda>path. Inr (entry_at tree path)) paths
        \<and> set paths = {path. tree path \<noteq> None \<and> reached tree ignored settings path})"

definition rule_matches :: "glob_library \<Rightarrow> glob_set \<Rightarrow> rel_path \<Rightarrow> bool \<Rightarrow> bool" where
  "rule_matches gl matcher path directory \<longleftrightarrow>
     gl_is_match gl matcher (path_candidate path) \<or> directory \<and> gl_is_match gl matcher (path_candidate path @ ''/'')"

definition hard_excluded :: "glob_library \<Rightarrow> ignore_policy \<Rightarrow> rel_path \<Rightarrow> bool \<Rightarrow> bool" where
  "hard_excluded gl policy path directory \<longleftrightarrow>
     rule_matches gl (ip_protected_matcher policy) path directory \<or> rule_matches gl (ip_configured_matcher policy) path directory"

lemma collect_files_all:
  "collect_files None (\<lambda>_. True) (map (\<lambda>path. Inr (entry_at tree path)) paths) files
     = Inr (files @ filter (\<lambda>path. path \<noteq> [] \<and> tree path = Some RegularFile) paths)"
  by (induction paths arbitrary: files) (auto simp: entry_at_def split: option.split)

lemma discover_exact:
  assumes "walks_tree walker tree ignored"
  shows "\<exists>files. discover_repository_files gl walker policy max_depth = Inr files
     \<and> set files = {path. path \<noteq> [] \<and> tree path = Some RegularFile \<and> reached tree ignored
         \<lparr>ws_git_ignore = ip_use_gitignore policy, ws_max_depth = max_depth, ws_keep = keep_entry gl policy\<rparr> path}"
proof -
  let ?settings = "\<lparr>ws_git_ignore = ip_use_gitignore policy, ws_max_depth = max_depth, ws_keep = keep_entry gl policy\<rparr>"
  obtain paths where "walker ?settings = map (\<lambda>path. Inr (entry_at tree path)) paths"
      "set paths = {path. tree path \<noteq> None \<and> reached tree ignored ?settings path}"
    using assms unfolding walks_tree_def by blast
  then show ?thesis
    by (auto simp: discover_repository_files_def discover_repository_files_matching_def collect_files_all)
qed

lemma policy_excludes_eq:
  "policy_excludes gl policy path directory \<longleftrightarrow>
     hard_excluded gl policy path directory
     \<or> rule_matches gl (ip_default_matcher policy) path directory
       \<and> \<not> rule_matches gl (ip_include_matcher policy) path directory
       \<and> \<not> (directory \<and> may_contain_included_default policy path)"
  by (auto simp: policy_excludes_def hard_excluded_def rule_matches_def Let_def)

definition file_path :: "string list \<Rightarrow> rel_path" where
  "file_path names = map Normal names"

definition plain_name :: "string \<Rightarrow> bool" where
  "plain_name name \<longleftrightarrow> name \<noteq> [] \<and> name \<noteq> ''.'' \<and> name \<noteq> ''..'' \<and> CHR ''/'' \<notin> set name"

lemma path_candidate_file: "path_candidate (file_path names) = join ''/'' names"
proof -
  have "List.map_filter normal_name (map Normal names) = names"
    by (induction names) (simp_all add: List.map_filter_simps)
  then show ?thesis by (simp add: path_candidate_def file_path_def)
qed

lemma candidate_components:
  assumes "names \<noteq> []" and "list_all plain_name names"
  shows "filter (\<lambda>c. c \<noteq> []) (components_of (path_candidate (file_path names))) = names"
proof -
  have "components_of (join ''/'' names) = names"
    using assms by (intro components_of_join) (auto simp: list_all_iff plain_name_def)
  moreover have "filter (\<lambda>c. c \<noteq> []) names = names"
    using assms(2) by (auto simp: list_all_iff plain_name_def intro: filter_True)
  ultimately show ?thesis by (simp add: path_candidate_file)
qed

lemma literal_prefix_eq:
  assumes "\<And>c. c \<in> set cs \<Longrightarrow> c \<noteq> ''.'' \<and> c \<noteq> ''..''"
  shows "literal_prefix cs acc = acc @ map Normal (filter (\<lambda>c. c \<noteq> []) (takeWhile (\<lambda>c. \<not> contains_char ''*?'' c) cs))"
  using assms by (induction cs acc rule: literal_prefix.induct) (auto simp: path_push_def)

lemma include_prefixes_mem:
  assumes "pattern \<in> set patterns"
  shows "(let prefix = literal_prefix (components_of pattern) []; (prefixes, anywhere) = include_prefixes patterns in
     (prefix = [] \<longrightarrow> anywhere) \<and> (prefix \<noteq> [] \<longrightarrow> prefix \<in> set prefixes))"
proof -
  let ?step = "\<lambda>pattern (prefixes, anywhere). let prefix = literal_prefix (components_of pattern) [] in
          if prefix = [] then (prefixes, True) else (prefixes @ [prefix], anywhere)"
  have "fold ?step ps (acc, anywhere) =
      (acc @ filter (\<lambda>p. p \<noteq> []) (map (\<lambda>p. literal_prefix (components_of p) []) ps),
       anywhere \<or> [] \<in> set (map (\<lambda>p. literal_prefix (components_of p) []) ps))" for ps acc anywhere
    by (induction ps arbitrary: acc anywhere) (auto simp: Let_def)
  from this [of patterns "[]" False] assms show ?thesis
    by (auto simp: include_prefixes_def Let_def image_iff) metis
qed

lemma compile_globs_Inr: "compile_globs gl patterns = Inr matcher \<Longrightarrow> matcher = patterns"
  by (auto simp: compile_globs_def split: sum.splits)

lemma policy_parts:
  assumes "ignore_policy_with_gitignore gl excludes es includes is git gs = Inr policy"
  obtains normalized where "normalize_patterns includes = Inr normalized"
    "ip_include_matcher policy = sorted_unique normalized"
    "(ip_include_prefixes policy, ip_include_can_match_anywhere policy) = include_prefixes (sorted_unique normalized)"
  using assms unfolding ignore_policy_with_gitignore_def
  by (auto simp: Let_def split_beta dest: compile_globs_Inr)

lemma normalized_member:
  assumes "normalize_patterns patterns = Inr normalized" and "n \<in> set normalized"
  shows "\<exists>p. normalize_pattern p = Inr n"
  using assms by (auto simp: normalize_patterns_def collect_all_eq_Inr list_all2_conv_all_nth in_set_conv_nth)

lemma include_reaches:
  assumes normalized: "normalize_patterns includes = Inr normalized"
    and prefixes: "(ip_include_prefixes policy, ip_include_can_match_anywhere policy) = include_prefixes (sorted_unique normalized)"
    and pattern: "pattern \<in> set normalized"
  shows "may_contain_included_default policy (file_path (take k (literal_components pattern @ rest)))"
proof -
  obtain raw where "normalize_pattern raw = Inr pattern" using normalized_member [OF normalized pattern] by blast
  then have "c \<noteq> ''.'' \<and> c \<noteq> ''..''" if "c \<in> set (components_of pattern)" for c
    using that normalized_components by (fastforce simp: list_all_iff portable_component_def split: if_splits)
  then have "literal_prefix (components_of pattern) [] = file_path (literal_components pattern)"
    by (simp add: literal_prefix_eq file_path_def literal_components_def)
  then have covered: "ip_include_can_match_anywhere policy \<or> file_path (literal_components pattern) \<in> set (ip_include_prefixes policy)"
    using include_prefixes_mem [of pattern "sorted_unique normalized"] pattern prefixes by (auto simp: Let_def split: prod.splits)
  have "take k (literal_components pattern @ rest) = take k (literal_components pattern)
      \<or> literal_components pattern = take (length (literal_components pattern)) (take k (literal_components pattern @ rest))"
    by auto
  then show ?thesis
    using covered by (auto simp: may_contain_included_default_def list_ex_iff path_starts_with_def file_path_def take_map min_def
        intro!: bexI [of _ "map Normal (literal_components pattern)"])
qed

text \<open>
  C29: an exception to the default exclusions reaches every file it matches. When an accepted policy has an include
  pattern that matches a regular file below directories of the checkout, discovery succeeds and its result holds the
  file exactly when the file is within the depth bound, no protected or configured pattern excludes it or a directory
  above it, and, if the policy uses \<open>.gitignore\<close> files, none of them ignores it or a directory above it. No
  directory above it is pruned by a default exclusion.
\<close>

theorem included_files_discovered:
  assumes accepted: "ignore_policy_with_gitignore gl excludes es includes is git gs = Inr policy"
    and globs: "separates_literally gl" and walks: "walks_tree walker tree ignored"
    and names: "names \<noteq> []" "list_all plain_name names"
    and files: "tree (file_path names) = Some RegularFile"
    and directories: "\<forall>k < length names. tree (file_path (take k names)) = Some Directory"
    and matched: "gl_is_match gl (ip_include_matcher policy) (path_candidate (file_path names))"
  shows "\<exists>files. discover_repository_files gl walker policy max_depth = Inr files
     \<and> (file_path names \<in> set files \<longleftrightarrow>
          (case max_depth of None \<Rightarrow> True | Some depth \<Rightarrow> length names \<le> depth)
          \<and> (\<forall>k \<in> {0<..<length names}. \<not> hard_excluded gl policy (file_path (take k names)) True)
          \<and> \<not> hard_excluded gl policy (file_path names) False
          \<and> (ip_use_gitignore policy \<longrightarrow> (\<forall>k \<in> {0<..length names}. \<not> ignored (file_path (take k names)))))"
proof -
  obtain normalized where n: "normalize_patterns includes = Inr normalized"
      "ip_include_matcher policy = sorted_unique normalized"
      "(ip_include_prefixes policy, ip_include_can_match_anywhere policy) = include_prefixes (sorted_unique normalized)"
    using policy_parts [OF accepted] by blast
  have portable: "list_all portable_pattern (sorted_unique normalized)"
    using normalized_member [OF n(1)] normalize_pattern_portable by (force simp: list_all_iff)
  obtain pattern rest where pattern: "pattern \<in> set normalized" "names = literal_components pattern @ rest"
    using globs matched portable candidate_components [OF names] unfolding separates_literally_def n(2) by fastforce
  have reachable: "may_contain_included_default policy (file_path (take k names))" for k
    using include_reaches [OF n(1) n(3) pattern(1), of k rest] pattern(2) by simp
  have path: "take k (file_path names) = file_path (take k names)" for k by (simp add: file_path_def take_map)
  have above: "keep_entry gl policy (entry_at tree (file_path (take k names))) \<longleftrightarrow> \<not> hard_excluded gl policy (file_path (take k names)) True"
    if "k \<in> {0<..<length names}" for k
  proof -
    have "tree (file_path (take k names)) = Some Directory" using directories that by simp
    moreover have "file_path (take k names) \<noteq> []" using that names(1) by (simp add: file_path_def)
    ultimately show ?thesis using reachable [of k] by (simp add: keep_entry_def entry_at_def policy_excludes_eq)
  qed
  have itself: "keep_entry gl policy (entry_at tree (file_path names)) \<longleftrightarrow> \<not> hard_excluded gl policy (file_path names) False"
  proof -
    have "rule_matches gl (ip_include_matcher policy) (file_path names) False" using matched by (simp add: rule_matches_def)
    then show ?thesis using files names(1) by (simp add: keep_entry_def entry_at_def policy_excludes_eq file_path_def)
  qed
  have ends: "{0<..length names} = insert (length names) {0<..<length names}" using names(1) by auto
  have len: "length (file_path names) = length names" by (simp add: file_path_def)
  obtain found where found: "discover_repository_files gl walker policy max_depth = Inr found"
      "set found = {path. path \<noteq> [] \<and> tree path = Some RegularFile \<and> reached tree ignored
         \<lparr>ws_git_ignore = ip_use_gitignore policy, ws_max_depth = max_depth, ws_keep = keep_entry gl policy\<rparr> path}"
    using discover_exact [OF walks] by blast
  have "file_path names \<in> set found \<longleftrightarrow> reached tree ignored
      \<lparr>ws_git_ignore = ip_use_gitignore policy, ws_max_depth = max_depth, ws_keep = keep_entry gl policy\<rparr> (file_path names)"
    using files names(1) by (simp add: found(2) file_path_def)
  also have "\<dots> \<longleftrightarrow> (case max_depth of None \<Rightarrow> True | Some depth \<Rightarrow> length names \<le> depth)
          \<and> (\<forall>k \<in> {0<..<length names}. \<not> hard_excluded gl policy (file_path (take k names)) True)
          \<and> \<not> hard_excluded gl policy (file_path names) False
          \<and> (ip_use_gitignore policy \<longrightarrow> (\<forall>k \<in> {0<..length names}. \<not> ignored (file_path (take k names))))"
    unfolding reached_def len path using directories itself above unfolding ends by (auto simp: ball_Un)
  finally show ?thesis using found(1) by blast
qed

text \<open>A library whose patterns match the texts they spell, and every file below a directory.\<close>

definition literal_globs :: glob_library where
  "literal_globs =
     \<lparr>gl_build = (\<lambda>_. Inr ()), gl_build_set = (\<lambda>_. Inr ()),
      gl_is_match = (\<lambda>patterns text. list_ex (\<lambda>p. p = text \<or> p = ''**/vendor/**'' \<and> starts_with ''vendor/'' text) patterns)\<rparr>"

lemma literal_globs_separate: "separates_literally literal_globs"
proof -
  have "\<exists>rest. filter (\<lambda>c. c \<noteq> []) (components_of s) = literal_components s @ rest" for s
    unfolding literal_components_def
    by (metis filter_append takeWhile_dropWhile_id)
  moreover have "literal_components ''**/vendor/**'' = []"
    by (simp add: literal_components_def contains_char_def)
  ultimately show ?thesis
    by (fastforce simp: separates_literally_def literal_globs_def list_ex_iff)
qed

text \<open>A checkout with two files in a directory that the default exclusions name, and the walk over it.\<close>

definition sample_tree :: "rel_path \<Rightarrow> entry_type option" where
  "sample_tree path =
     (if path = [] \<or> path = file_path [''vendor''] then Some Directory
      else if path = file_path [''vendor'', ''a''] \<or> path = file_path [''vendor'', ''b''] then Some RegularFile else None)"

definition sample_walker :: walker where
  "sample_walker settings =
     map (\<lambda>path. Inr (entry_at sample_tree path)) (filter (reached sample_tree (\<lambda>_. False) settings)
       [[], file_path [''vendor''], file_path [''vendor'', ''a''], file_path [''vendor'', ''b'']])"

lemma sample_walker_walks: "walks_tree sample_walker sample_tree (\<lambda>_. False)"
  unfolding walks_tree_def sample_walker_def
  by (intro allI exI conjI, rule refl) (auto simp: sample_tree_def)

theorem included_files_discovered_witness:
  "\<exists>policy files. ignore_policy_with_gitignore literal_globs [] DefaultSource [''vendor/a''] WorkspaceManifest False DefaultSource
      = Inr policy
     \<and> discover_repository_files literal_globs sample_walker policy None = Inr files
     \<and> file_path [''vendor'', ''a''] \<in> set files"
proof -
  have "trimmed ''vendor/a''" by (simp add: trimmed_def white_space_def starts_with_def ends_with_def)
  then have "trim ''vendor/a'' \<noteq> []" by (simp add: trim_id)
  moreover have "utf8_decode ''vendor/a'' = map of_char ''vendor/a''" by (rule utf8_decode_ascii) auto
  ultimately have n: "normalize_pattern ''vendor/a'' = Inr ''vendor/a''"
    by (simp add: normalize_pattern_def absolute_pattern_def starts_with_def ends_with_def contains_char_def
        unsafe_character_def is_control_def validate_supported_syntax_def contains_str_def)
  have compile: "compile_globs literal_globs patterns = Inr patterns" for patterns
    by (simp add: compile_globs_def literal_globs_def)
  have prefixes: "include_prefixes [''vendor/a''] = ([file_path [''vendor'', ''a'']], False)"
    by (simp add: include_prefixes_def path_push_def contains_char_def file_path_def sorted_unique_def)
  obtain policy where policy: "ignore_policy_with_gitignore literal_globs [] DefaultSource [''vendor/a''] WorkspaceManifest False DefaultSource
      = Inr policy" "ip_include_matcher policy = [''vendor/a'']" "ip_protected_matcher policy = PROTECTED_EXCLUDES"
      "ip_configured_matcher policy = []" "ip_use_gitignore policy = False"
    using n compile prefixes
    by (simp add: ignore_policy_with_gitignore_def normalize_patterns_def validate_protected_includes_def
        PROTECTED_DIRECTORY_NAMES_def sorted_unique_def Let_def)
  have names: "list_all plain_name [''vendor'', ''a'']" by (simp add: plain_name_def)
  have tree: "sample_tree (file_path [''vendor'', ''a'']) = Some RegularFile"
    "\<forall>k < length [''vendor'', ''a'']. sample_tree (file_path (take k [''vendor'', ''a''])) = Some Directory"
    by (simp_all add: sample_tree_def file_path_def less_Suc_eq)
  have match: "gl_is_match literal_globs (ip_include_matcher policy) (path_candidate (file_path [''vendor'', ''a'']))"
    by (simp add: policy(2) literal_globs_def path_candidate_file)
  have clean: "\<not> hard_excluded literal_globs policy (file_path [''vendor'', ''a'']) False"
    "\<forall>k \<in> {0<..<length [''vendor'', ''a'']}. \<not> hard_excluded literal_globs policy (file_path (take k [''vendor'', ''a''])) True"
    by (auto simp: hard_excluded_def rule_matches_def policy(3,4) literal_globs_def path_candidate_file PROTECTED_EXCLUDES_def
        less_Suc_eq starts_with_def)
  show ?thesis
    using included_files_discovered [OF policy(1) literal_globs_separate sample_walker_walks _ names tree match, of None]
      clean policy(1,5) by auto
qed

end
