(* ===== verification/Manifest.thy ===== *)
theory Manifest
  imports Route_Links Execution_Policy Ignore_Policy
begin

text \<open>
  \<open>crates/code-system-graph-core/src/manifest.rs\<close>: the workspace manifest and its validation. The YAML parser
  is the argument \<open>yaml\<close>, which gives the decoded wire form or a diagnostic; \<open>gl\<close> is the glob library, and
  \<open>now\<close> and \<open>latest\<close> are the platform clock of the execution policy.

  The properties: a manifest is accepted exactly when it is well formed (every named text non-empty and safe,
  the manual links concrete and pairwise different, the limits resolvable, the patterns valid, and no
  authority claimed by two repositories), and it is returned as decoded.
\<close>

subsection \<open>Configuration\<close>

record repository_config =
  rc_path :: string
  rc_openapi :: "string option"
  rc_http_consumers :: "http_consumer_config list option"
  rc_integration_tests :: "integration_test_config list option"
  rc_implementations :: "contract_implementation_config list option"
  rc_excludes :: "string list option"
  rc_include_defaults :: "string list option"
  rc_authorities :: "string list option"

record manual_link_config =
  ml_from :: string
  ml_to :: string
  ml_relation :: edge_kind
  ml_contract :: "string option"
  ml_reason :: string
  ml_suppress :: bool

record workspace_manifest =
  wm_version :: nat
  wm_name :: string
  wm_allowed_roots :: "string list"
  wm_repos :: "(string, repository_config) btree_map"
  wm_manual_links :: "manual_link_config list"
  wm_extraction_budgets :: "extraction_budget_overrides option"
  wm_execution_policy :: "execution_policy_overrides option"

record manifest_extensions =
  me_repository_use_gitignore :: "(string, bool) btree_map"

definition extensions_use_gitignore :: "manifest_extensions \<Rightarrow> string \<Rightarrow> bool option" where
  "extensions_use_gitignore e alias = bt_get (me_repository_use_gitignore e) alias"

record repository_config_wire =
  rw_path :: string
  rw_openapi :: "string option"
  rw_http_consumers :: "http_consumer_config list option"
  rw_integration_tests :: "integration_test_config list option"
  rw_implementations :: "contract_implementation_config list option"
  rw_excludes :: "string list option"
  rw_include_defaults :: "string list option"
  rw_use_gitignore :: "bool option"
  rw_authorities :: "string list option"

record workspace_manifest_wire =
  ww_version :: nat
  ww_name :: string
  ww_allowed_roots :: "string list"
  ww_repos :: "(string, repository_config_wire) btree_map"
  ww_manual_links :: "manual_link_config list"
  ww_extraction_budgets :: "extraction_budget_overrides option"
  ww_execution_policy :: "execution_policy_overrides option"

datatype manifest_error =
  InvalidYaml string
| UnsupportedVersion nat
| EmptyField string
| UnsafeMetadata string
| FieldTooLong string nat
| InvalidIgnorePattern string ignore_pattern_error
| ManifestInvalidExtractionBudget invalid_extraction_budget
| ManifestInvalidExecutionPolicy invalid_execution_policy
| EmptyRepositories
| NonConcreteManualRelation nat
| ManualSelfLink nat string
| DuplicateManualLink nat nat string string edge_kind
| InvalidAuthority string
| DuplicateAuthority string string string

subsection \<open>Validation\<close>

definition validate_not_empty :: "string \<Rightarrow> string \<Rightarrow> (manifest_error, unit) outcome" where
  "validate_not_empty field value =
     (if trim value = [] then Inl (EmptyField field)
      else if contains_unsafe_metadata_characters value then Inl (UnsafeMetadata field)
      else Inr ())"

definition validate_maximum :: "string \<Rightarrow> string \<Rightarrow> nat \<Rightarrow> (manifest_error, unit) outcome" where
  "validate_maximum field value maximum =
     (if maximum < length value then Inl (FieldTooLong field maximum) else Inr ())"

definition indexed :: "string \<Rightarrow> nat \<Rightarrow> string \<Rightarrow> string" where
  "indexed list index field = list @ ''['' @ show_nat index @ '']'' @ field"

definition validate_link_text :: "nat \<Rightarrow> manual_link_config \<Rightarrow> (manifest_error, unit) outcome" where
  "validate_link_text index link =
     and_then (validate_not_empty (indexed ''manualLinks'' index ''.from'') (ml_from link)) (\<lambda>_.
     and_then (validate_not_empty (indexed ''manualLinks'' index ''.to'') (ml_to link)) (\<lambda>_.
     and_then (validate_not_empty (indexed ''manualLinks'' index ''.reason'') (ml_reason link)) (\<lambda>_.
     and_then (validate_maximum (indexed ''manualLinks'' index ''.from'') (ml_from link) 2048) (\<lambda>_.
     and_then (validate_maximum (indexed ''manualLinks'' index ''.to'') (ml_to link) 2048) (\<lambda>_.
     and_then (validate_maximum (indexed ''manualLinks'' index ''.reason'') (ml_reason link) 4096) (\<lambda>_.
     and_then (case ml_contract link of
         None \<Rightarrow> Inr ()
       | Some contract \<Rightarrow>
           and_then (validate_not_empty (indexed ''manualLinks'' index ''.contract'') contract) (\<lambda>_.
             validate_maximum (indexed ''manualLinks'' index ''.contract'') contract 1024)) (\<lambda>_.
     if ml_relation link = ManualLink then Inl (NonConcreteManualRelation index)
     else if ml_from link = ml_to link then Inl (ManualSelfLink index (ml_from link))
     else Inr ())))))))"

definition link_identity :: "manual_link_config \<Rightarrow> string \<times> string \<times> edge_kind" where
  "link_identity link = (ml_from link, ml_to link, ml_relation link)"

fun validate_links_from ::
  "nat \<Rightarrow> manual_link_config list \<Rightarrow> (string \<times> string \<times> edge_kind, nat) btree_map \<Rightarrow> (manifest_error, unit) outcome" where
  "validate_links_from index [] identities = Inr ()"
| "validate_links_from index (link # links) identities =
     and_then (validate_link_text index link) (\<lambda>_.
       case bt_get identities (link_identity link) of
         Some first \<Rightarrow> Inl (DuplicateManualLink first index (ml_from link) (ml_to link) (ml_relation link))
       | None \<Rightarrow> validate_links_from (index + 1) links (bt_insert (link_identity link) index identities))"

definition validate_manual_links :: "manual_link_config list \<Rightarrow> (manifest_error, unit) outcome" where
  "validate_manual_links links = validate_links_from 0 links []"

definition validate_repository_ignore_patterns ::
  "glob_library \<Rightarrow> string \<Rightarrow> repository_config \<Rightarrow> (manifest_error, unit) outcome" where
  "validate_repository_ignore_patterns gl alias repository =
     and_then (case rc_excludes repository of
         None \<Rightarrow> Inr ()
       | Some patterns \<Rightarrow> map_error (InvalidIgnorePattern (''repos.'' @ alias @ ''.excludes''))
           (validate_excludes gl patterns)) (\<lambda>_.
     case rc_include_defaults repository of
       None \<Rightarrow> Inr ()
     | Some patterns \<Rightarrow> map_error (InvalidIgnorePattern (''repos.'' @ alias @ ''.includeDefaults''))
         (validate_include_defaults gl patterns))"

abbreviation flatten_option :: "'a list option \<Rightarrow> 'a list" where
  "flatten_option values \<equiv> (case values of None \<Rightarrow> [] | Some xs \<Rightarrow> xs)"

definition validate_consumer :: "string \<Rightarrow> nat \<times> http_consumer_config \<Rightarrow> (manifest_error, unit) outcome" where
  "validate_consumer alias = (\<lambda>(index, consumer).
     let list = ''repos.'' @ alias @ ''.httpConsumers'' in
     and_then (validate_not_empty (indexed list index ''.method'') (cc_method consumer)) (\<lambda>_.
     and_then (validate_not_empty (indexed list index ''.path'') (cc_path consumer)) (\<lambda>_.
     validate_not_empty (indexed list index ''.source'') (cc_source consumer))))"

definition validate_integration_test :: "string \<Rightarrow> nat \<times> integration_test_config \<Rightarrow> (manifest_error, unit) outcome" where
  "validate_integration_test alias = (\<lambda>(index, test).
     check_all (\<lambda>(field, value). validate_not_empty (indexed (''repos.'' @ alias @ ''.integrationTests'') index (''.'' @ field)) value)
       [(''name'', tc_name test), (''path'', tc_path test), (''framework'', tc_framework test),
        (''language'', tc_language test), (''validates.method'', hc_method (tc_validates test)),
        (''validates.path'', hc_path (tc_validates test))])"

definition validate_implementation :: "string \<Rightarrow> nat \<times> contract_implementation_config \<Rightarrow> (manifest_error, unit) outcome" where
  "validate_implementation alias = (\<lambda>(index, implementation).
     check_all (\<lambda>(field, value). validate_not_empty (indexed (''repos.'' @ alias @ ''.implementations'') index (''.'' @ field)) value)
       [(''language'', ci_language implementation), (''path'', ci_path implementation),
        (''symbol'', ci_symbol implementation), (''implements.method'', hc_method (ci_implements implementation)),
        (''implements.path'', hc_path (ci_implements implementation))])"

definition validate_repository :: "glob_library \<Rightarrow> string \<times> repository_config \<Rightarrow> (manifest_error, unit) outcome" where
  "validate_repository gl = (\<lambda>(alias, repository).
     and_then (validate_not_empty (''repos.'' @ alias) alias) (\<lambda>_.
     and_then (validate_not_empty (''repos.'' @ alias @ ''.path'') (rc_path repository)) (\<lambda>_.
     and_then (case rc_openapi repository of
         None \<Rightarrow> Inr () | Some openapi \<Rightarrow> validate_not_empty (''repos.'' @ alias @ ''.openapi'') openapi) (\<lambda>_.
     and_then (check_all (validate_consumer alias) (enumerate 0 (flatten_option (rc_http_consumers repository)))) (\<lambda>_.
     and_then (check_all (validate_integration_test alias)
       (enumerate 0 (flatten_option (rc_integration_tests repository)))) (\<lambda>_.
     and_then (check_all (validate_implementation alias)
       (enumerate 0 (flatten_option (rc_implementations repository)))) (\<lambda>_.
     validate_repository_ignore_patterns gl alias repository)))))))"

fun declare_owned ::
  "string \<Rightarrow> (nat \<times> string) list \<Rightarrow> (string, string) btree_map \<Rightarrow> (manifest_error, (string, string) btree_map) outcome" where
  "declare_owned alias [] owners = Inr owners"
| "declare_owned alias ((index, authority) # rest) owners =
     (let field = indexed (''repos.'' @ alias @ ''.authorities'') index [] in
      and_then (validate_not_empty field authority) (\<lambda>_.
      and_then (ok_or (InvalidAuthority field) (normalize_authority authority)) (\<lambda>normalized.
        case bt_get owners normalized of
          Some first \<Rightarrow>
            if first \<noteq> alias then Inl (DuplicateAuthority normalized first alias)
            else declare_owned alias rest (bt_insert normalized alias owners)
        | None \<Rightarrow> declare_owned alias rest (bt_insert normalized alias owners))))"

fun declare_all_owned ::
  "(string \<times> repository_config) list \<Rightarrow> (string, string) btree_map \<Rightarrow> (manifest_error, (string, string) btree_map) outcome" where
  "declare_all_owned [] owners = Inr owners"
| "declare_all_owned ((alias, repository) # repos) owners =
     and_then (declare_owned alias (enumerate 0 (flatten_option (rc_authorities repository))) owners)
       (declare_all_owned repos)"

definition validate_authorities :: "(string, repository_config) btree_map \<Rightarrow> (manifest_error, unit) outcome" where
  "validate_authorities repos = and_then (declare_all_owned repos []) (\<lambda>_. Inr ())"

definition validate_manifest ::
  "glob_library \<Rightarrow> (string \<Rightarrow> nat) \<Rightarrow> nat \<Rightarrow> workspace_manifest \<Rightarrow> (manifest_error, workspace_manifest) outcome" where
  "validate_manifest gl now latest manifest =
     (if wm_version manifest \<noteq> 1 then Inl (UnsupportedVersion (wm_version manifest))
      else
        and_then (validate_not_empty ''name'' (wm_name manifest)) (\<lambda>_.
        and_then (check_all (\<lambda>(index, base). validate_not_empty (indexed ''allowedRoots'' index []) base)
          (enumerate 0 (wm_allowed_roots manifest))) (\<lambda>_.
        if wm_repos manifest = [] then Inl EmptyRepositories
        else
          and_then (validate_manual_links (wm_manual_links manifest)) (\<lambda>_.
          and_then (map_error ManifestInvalidExtractionBudget (resolve_budgets (wm_extraction_budgets manifest))) (\<lambda>_.
          and_then (map_error ManifestInvalidExecutionPolicy (resolve_policy now latest (wm_execution_policy manifest))) (\<lambda>_.
          and_then (check_all (validate_repository gl) (wm_repos manifest)) (\<lambda>_.
          and_then (validate_authorities (wm_repos manifest)) (\<lambda>_.
          Inr manifest))))))))"

subsection \<open>Parsing\<close>

definition repository_of_wire :: "repository_config_wire \<Rightarrow> repository_config" where
  "repository_of_wire w =
     \<lparr>rc_path = rw_path w, rc_openapi = rw_openapi w, rc_http_consumers = rw_http_consumers w,
      rc_integration_tests = rw_integration_tests w, rc_implementations = rw_implementations w,
      rc_excludes = rw_excludes w, rc_include_defaults = rw_include_defaults w, rc_authorities = rw_authorities w\<rparr>"

definition collect_use_gitignore :: "(string, repository_config_wire) btree_map \<Rightarrow> (string, bool) btree_map" where
  "collect_use_gitignore repos =
     fold (\<lambda>(alias, w) m. case rw_use_gitignore w of None \<Rightarrow> m | Some value \<Rightarrow> bt_insert alias value m) repos []"

definition manifest_of_wire :: "workspace_manifest_wire \<Rightarrow> workspace_manifest" where
  "manifest_of_wire w =
     \<lparr>wm_version = ww_version w, wm_name = ww_name w, wm_allowed_roots = ww_allowed_roots w,
      wm_repos = fold (\<lambda>(alias, repository) m. bt_insert alias (repository_of_wire repository) m) (ww_repos w) [],
      wm_manual_links = ww_manual_links w, wm_extraction_budgets = ww_extraction_budgets w,
      wm_execution_policy = ww_execution_policy w\<rparr>"

definition parse_manifest_with_extensions ::
  "(string \<Rightarrow> (string, workspace_manifest_wire) outcome) \<Rightarrow> glob_library \<Rightarrow> (string \<Rightarrow> nat) \<Rightarrow> nat \<Rightarrow> string
     \<Rightarrow> (manifest_error, workspace_manifest \<times> manifest_extensions) outcome" where
  "parse_manifest_with_extensions yaml gl now latest input =
     and_then (map_error InvalidYaml (yaml input)) (\<lambda>wire.
       and_then (validate_manifest gl now latest (manifest_of_wire wire)) (\<lambda>manifest.
         Inr (manifest, \<lparr>me_repository_use_gitignore = collect_use_gitignore (ww_repos wire)\<rparr>)))"

definition parse_manifest ::
  "(string \<Rightarrow> (string, workspace_manifest_wire) outcome) \<Rightarrow> glob_library \<Rightarrow> (string \<Rightarrow> nat) \<Rightarrow> nat \<Rightarrow> string
     \<Rightarrow> (manifest_error, workspace_manifest) outcome" where
  "parse_manifest yaml gl now latest input =
     and_then (parse_manifest_with_extensions yaml gl now latest input) (\<lambda>(manifest, _). Inr manifest)"


subsection \<open>Well-formed manifests\<close>

definition text_ok :: "string \<Rightarrow> bool" where
  "text_ok value \<longleftrightarrow> trim value \<noteq> [] \<and> \<not> contains_unsafe_metadata_characters value"

definition link_ok :: "manual_link_config \<Rightarrow> bool" where
  "link_ok link \<longleftrightarrow>
     text_ok (ml_from link) \<and> length (ml_from link) \<le> 2048 \<and> text_ok (ml_to link) \<and> length (ml_to link) \<le> 2048
     \<and> text_ok (ml_reason link) \<and> length (ml_reason link) \<le> 4096
     \<and> (\<forall>contract. ml_contract link = Some contract \<longrightarrow> text_ok contract \<and> length contract \<le> 1024)
     \<and> ml_relation link \<noteq> ManualLink \<and> ml_from link \<noteq> ml_to link"

definition links_ok :: "manual_link_config list \<Rightarrow> bool" where
  "links_ok links \<longleftrightarrow> list_all link_ok links \<and> distinct (map link_identity links)"

definition consumer_ok :: "http_consumer_config \<Rightarrow> bool" where
  "consumer_ok c \<longleftrightarrow> text_ok (cc_method c) \<and> text_ok (cc_path c) \<and> text_ok (cc_source c)"

definition contract_ok :: "http_contract_config \<Rightarrow> bool" where
  "contract_ok c \<longleftrightarrow> text_ok (hc_method c) \<and> text_ok (hc_path c)"

definition test_ok :: "integration_test_config \<Rightarrow> bool" where
  "test_ok t \<longleftrightarrow> text_ok (tc_name t) \<and> text_ok (tc_path t) \<and> text_ok (tc_framework t) \<and> text_ok (tc_language t)
     \<and> contract_ok (tc_validates t)"

definition implementation_ok :: "contract_implementation_config \<Rightarrow> bool" where
  "implementation_ok i \<longleftrightarrow> text_ok (ci_language i) \<and> text_ok (ci_path i) \<and> text_ok (ci_symbol i) \<and> contract_ok (ci_implements i)"

definition patterns_ok :: "glob_library \<Rightarrow> repository_config \<Rightarrow> bool" where
  "patterns_ok gl r \<longleftrightarrow>
     (\<forall>patterns. rc_excludes r = Some patterns \<longrightarrow> validate_excludes gl patterns = Inr ())
     \<and> (\<forall>patterns. rc_include_defaults r = Some patterns \<longrightarrow> validate_include_defaults gl patterns = Inr ())"

definition repository_ok :: "glob_library \<Rightarrow> string \<Rightarrow> repository_config \<Rightarrow> bool" where
  "repository_ok gl alias r \<longleftrightarrow>
     text_ok alias \<and> text_ok (rc_path r) \<and> (\<forall>openapi. rc_openapi r = Some openapi \<longrightarrow> text_ok openapi)
     \<and> list_all consumer_ok (flatten_option (rc_http_consumers r))
     \<and> list_all test_ok (flatten_option (rc_integration_tests r))
     \<and> list_all implementation_ok (flatten_option (rc_implementations r)) \<and> patterns_ok gl r"

definition declared_authorities :: "repository_config \<Rightarrow> string list" where
  "declared_authorities r = flatten_option (rc_authorities r)"

definition claims :: "repository_config \<Rightarrow> string \<Rightarrow> bool" where
  "claims r n \<longleftrightarrow> (\<exists>a \<in> set (declared_authorities r). normalize_authority a = Some n)"

definition declarable :: "repository_config \<Rightarrow> bool" where
  "declarable r \<longleftrightarrow> (\<forall>a \<in> set (declared_authorities r). text_ok a \<and> normalize_authority a \<noteq> None)"

definition authorities_ok :: "(string, repository_config) btree_map \<Rightarrow> bool" where
  "authorities_ok repos \<longleftrightarrow>
     (\<forall>(alias, r) \<in> set repos. declarable r)
     \<and> (\<forall>(alias, r) \<in> set repos. \<forall>(alias', r') \<in> set repos. \<forall>n. claims r n \<and> claims r' n \<longrightarrow> alias = alias')"

definition manifest_ok :: "glob_library \<Rightarrow> (string \<Rightarrow> nat) \<Rightarrow> nat \<Rightarrow> workspace_manifest \<Rightarrow> bool" where
  "manifest_ok gl now latest m \<longleftrightarrow>
     wm_version m = 1 \<and> text_ok (wm_name m) \<and> list_all text_ok (wm_allowed_roots m) \<and> wm_repos m \<noteq> []
     \<and> links_ok (wm_manual_links m)
     \<and> (\<exists>b. resolve_budgets (wm_extraction_budgets m) = Inr b)
     \<and> (\<exists>p. resolve_policy now latest (wm_execution_policy m) = Inr p)
     \<and> (\<forall>(alias, r) \<in> set (wm_repos m). repository_ok gl alias r) \<and> authorities_ok (wm_repos m)"

lemma validate_not_empty_Inr [simp]: "validate_not_empty field v = Inr u \<longleftrightarrow> text_ok v"
  by (auto simp: validate_not_empty_def text_ok_def)

lemma validate_text_ok [simp]: "text_ok v \<Longrightarrow> validate_not_empty field v = Inr ()"
  by simp

lemma validate_maximum_Inr [simp]: "validate_maximum field v m = Inr u \<longleftrightarrow> length v \<le> m"
  by (auto simp: validate_maximum_def)

lemma check_enumerate:
  assumes "\<And>i x. f (i, x) = Inr () \<longleftrightarrow> P x"
  shows "check_all f (enumerate n xs) = Inr u \<longleftrightarrow> list_all P xs"
  using assms by (induction xs arbitrary: n) (auto simp del: check_all_eq_Inr)

lemma validate_link_text_Inr [simp]: "validate_link_text index link = Inr u \<longleftrightarrow> link_ok link"
  by (auto simp: validate_link_text_def link_ok_def split: option.splits if_splits)

lemma validate_links_from_Inr:
  "validate_links_from index links identities = Inr u \<longleftrightarrow>
     links_ok links \<and> (\<forall>link \<in> set links. bt_get identities (link_identity link) = None)"
proof (induction links arbitrary: index identities)
  case (Cons link links)
  show ?case
    using Cons.IH by (auto simp: links_ok_def bt_get_insert_if image_iff split: option.splits if_splits)
qed (simp add: links_ok_def)

lemma validate_repository_Inr [simp]: "validate_repository gl (alias, r) = Inr u \<longleftrightarrow> repository_ok gl alias r"
proof -
  have "check_all (validate_consumer alias) (enumerate 0 xs) = Inr v \<longleftrightarrow> list_all consumer_ok xs" for xs v
    by (rule check_enumerate) (auto simp: validate_consumer_def consumer_ok_def Let_def)
  moreover have "check_all (validate_integration_test alias) (enumerate 0 xs) = Inr v \<longleftrightarrow> list_all test_ok xs" for xs v
    by (rule check_enumerate) (auto simp: validate_integration_test_def test_ok_def contract_ok_def)
  moreover have "check_all (validate_implementation alias) (enumerate 0 xs) = Inr v \<longleftrightarrow> list_all implementation_ok xs" for xs v
    by (rule check_enumerate) (auto simp: validate_implementation_def implementation_ok_def contract_ok_def)
  ultimately show ?thesis
    by (auto simp: validate_repository_def repository_ok_def validate_repository_ignore_patterns_def patterns_ok_def
        simp del: check_all_eq_Inr split: option.splits)
qed


lemma declare_owned_spec:
  "(case declare_owned al items owners of
      Inr owners' \<Rightarrow> (\<forall>(i, a) \<in> set items. text_ok a \<and> (\<exists>n. normalize_authority a = Some n \<and> bt_get owners n \<in> {None, Some al}))
        \<and> (\<forall>n. bt_get owners' n = (if \<exists>(i, a) \<in> set items. normalize_authority a = Some n then Some al else bt_get owners n))
    | Inl e \<Rightarrow> \<exists>(i, a) \<in> set items. \<not> (text_ok a \<and> (\<exists>n. normalize_authority a = Some n \<and> bt_get owners n \<in> {None, Some al})))"
proof (induction items arbitrary: owners)
  case (Cons item rest)
  obtain index authority where item: "item = (index, authority)" by fastforce
  show ?case
  proof (cases "text_ok authority \<and> normalize_authority authority \<noteq> None")
    case True
    then obtain n where n: "normalize_authority authority = Some n" "text_ok authority" by blast
    then have ok: "validate_not_empty (indexed (''repos.'' @ al @ ''.authorities'') index []) authority = Inr ()" by simp
    show ?thesis
    proof (cases "bt_get owners n \<in> {None, Some al}")
      case True
      then have step: "declare_owned al (item # rest) owners = declare_owned al rest (bt_insert n al owners)"
        using n ok by (auto simp: item Let_def)
      have IH: "case declare_owned al rest (bt_insert n al owners) of
         Inr owners' \<Rightarrow> (\<forall>(i, a) \<in> set rest. text_ok a
             \<and> (\<exists>m. normalize_authority a = Some m \<and> bt_get (bt_insert n al owners) m \<in> {None, Some al}))
           \<and> (\<forall>m. bt_get owners' m = (if \<exists>(i, a) \<in> set rest. normalize_authority a = Some m then Some al
                else bt_get (bt_insert n al owners) m))
       | Inl e \<Rightarrow> \<exists>(i, a) \<in> set rest. \<not> (text_ok a
             \<and> (\<exists>m. normalize_authority a = Some m \<and> bt_get (bt_insert n al owners) m \<in> {None, Some al}))"
        by (rule Cons.IH)
      have same: "bt_get (bt_insert n al owners) m \<in> {None, Some al} \<longleftrightarrow> bt_get owners m \<in> {None, Some al}" for m
        using True by (auto simp: bt_get_insert_if)
      show ?thesis
        using IH True n unfolding step same by (auto simp: item bt_get_insert_if split: sum.splits if_splits)
    next
      case False
      then show ?thesis using n by (auto simp: item Let_def split: option.splits)
    qed
  next
    case False
    then show ?thesis
      by (cases "text_ok authority") (auto simp: item Let_def validate_not_empty_def text_ok_def)
  qed
qed simp


lemma in_enumerate: "(\<exists>i. (i, a) \<in> set (enumerate n xs)) \<longleftrightarrow> a \<in> set xs"
  by (induction xs arbitrary: n) auto

lemma claims_iff:
  "(\<exists>(i, a) \<in> set (enumerate 0 (declared_authorities r)). normalize_authority a = Some n) \<longleftrightarrow> claims r n"
  "(\<forall>(i, a) \<in> set (enumerate 0 (declared_authorities r)). text_ok a
      \<and> (\<exists>n. normalize_authority a = Some n \<and> P n)) \<longleftrightarrow> declarable r \<and> (\<forall>n. claims r n \<longrightarrow> P n)"
proof -
  have ex: "(\<exists>(i, a) \<in> set (enumerate 0 (declared_authorities r)). Q a) \<longleftrightarrow> (\<exists>a \<in> set (declared_authorities r). Q a)" for Q
    using in_enumerate [of _ 0 "declared_authorities r"] by blast
  have all: "(\<forall>(i, a) \<in> set (enumerate 0 (declared_authorities r)). Q a) \<longleftrightarrow> (\<forall>a \<in> set (declared_authorities r). Q a)" for Q
    using in_enumerate [of _ 0 "declared_authorities r"] by blast
  show "(\<exists>(i, a) \<in> set (enumerate 0 (declared_authorities r)). normalize_authority a = Some n) \<longleftrightarrow> claims r n"
    unfolding ex claims_def ..
  show "(\<forall>(i, a) \<in> set (enumerate 0 (declared_authorities r)). text_ok a
      \<and> (\<exists>n. normalize_authority a = Some n \<and> P n)) \<longleftrightarrow> declarable r \<and> (\<forall>n. claims r n \<longrightarrow> P n)"
    unfolding all claims_def declarable_def by fastforce
qed

lemma declare_owned_Inr:
  "declare_owned alias (enumerate 0 (declared_authorities r)) owners = Inr owners' \<Longrightarrow>
     declarable r \<and> (\<forall>n. claims r n \<longrightarrow> bt_get owners n \<in> {None, Some alias})
     \<and> (\<forall>n. bt_get owners' n = (if claims r n then Some alias else bt_get owners n))"
  using declare_owned_spec [where al = "alias" and items = "enumerate 0 (declared_authorities r)" and owners = owners]
  unfolding claims_iff by simp

lemma declare_owned_Inl:
  "declare_owned alias (enumerate 0 (declared_authorities r)) owners = Inl e \<Longrightarrow>
     \<not> (declarable r \<and> (\<forall>n. claims r n \<longrightarrow> bt_get owners n \<in> {None, Some alias}))"
  using declare_owned_spec [where al = "alias" and items = "enumerate 0 (declared_authorities r)" and owners = owners]
  unfolding claims_iff(2) [symmetric] by fastforce

lemma authorities_ok_Cons:
  assumes "alias \<notin> fst ` set repos"
  shows "authorities_ok ((alias, r) # repos) \<longleftrightarrow>
     declarable r \<and> authorities_ok repos \<and> (\<forall>(alias', r') \<in> set repos. \<forall>n. claims r n \<longrightarrow> \<not> claims r' n)"
  using assms unfolding authorities_ok_def by force

lemma declare_all_owned_Inr:
  assumes "distinct (map fst repos)"
  shows "(\<exists>owners'. declare_all_owned repos owners = Inr owners') \<longleftrightarrow>
     authorities_ok repos \<and> (\<forall>(alias, r) \<in> set repos. \<forall>n. claims r n \<longrightarrow> bt_get owners n \<in> {None, Some alias})"
  using assms
proof (induction repos arbitrary: owners)
  case (Cons item repos)
  obtain al r where item: "item = (al, r)" by fastforce
  note fresh = authorities_ok_Cons [of al repos r]
  show ?case
  proof (cases "declare_owned al (enumerate 0 (declared_authorities r)) owners")
    case (Inl e)
    then show ?thesis
      using declare_owned_Inl [OF Inl] Cons.prems fresh by (auto simp: item declared_authorities_def [symmetric])
  next
    case (Inr owners')
    note step = declare_owned_Inr [OF Inr]
    have keep: "bt_get owners' n \<in> {None, Some al'} \<longleftrightarrow> \<not> claims r n \<and> bt_get owners n \<in> {None, Some al'}"
      if "al' \<noteq> al" for n al' using step that by auto
    have apart: "al' \<noteq> al" if "(al', r') \<in> set repos" for al' r' using Cons.prems that by (force simp: item)
    have "(\<forall>(al', r') \<in> set repos. \<forall>n. claims r' n \<longrightarrow> bt_get owners' n \<in> {None, Some al'}) \<longleftrightarrow>
        (\<forall>(al', r') \<in> set repos. \<forall>n. claims r' n \<longrightarrow> \<not> claims r n \<and> bt_get owners n \<in> {None, Some al'})"
      using keep apart by blast
    then have "(\<exists>os. declare_all_owned (item # repos) owners = Inr os) \<longleftrightarrow>
        authorities_ok repos \<and> (\<forall>(al', r') \<in> set repos. \<forall>n. claims r' n \<longrightarrow> \<not> claims r n \<and> bt_get owners n \<in> {None, Some al'})"
      using Cons.IH [of owners'] Cons.prems Inr by (simp add: item declared_authorities_def [symmetric])
    also have "\<dots> \<longleftrightarrow> authorities_ok (item # repos)
        \<and> (\<forall>(al', r') \<in> set (item # repos). \<forall>n. claims r' n \<longrightarrow> bt_get owners n \<in> {None, Some al'})"
    proof -
      have "authorities_ok (item # repos) \<longleftrightarrow> declarable r \<and> authorities_ok repos
          \<and> (\<forall>(al', r') \<in> set repos. \<forall>n. claims r n \<longrightarrow> \<not> claims r' n)"
        using fresh Cons.prems by (simp add: item)
      moreover have "declarable r" "\<forall>n. claims r n \<longrightarrow> bt_get owners n \<in> {None, Some al}" using step by blast+
      ultimately show ?thesis unfolding item set_simps ball_simps split_conv by blast
    qed
    finally show ?thesis .
  qed
qed (simp add: authorities_ok_def)

text \<open>
  C24: validation returns the manifest unchanged exactly when it is well formed: version 1, every named text
  non-empty and free of control and bidirectional characters, at least one repository, manual links within
  their byte limits, concrete, between different endpoints and pairwise different, limits that resolve, valid
  patterns, and no authority claimed by two repositories.
\<close>

theorem validate_manifest_exact:
  assumes "bt_wf (wm_repos m)"
  shows "validate_manifest gl now latest m = Inr m' \<longleftrightarrow> m' = m \<and> manifest_ok gl now latest m"
proof -
  have "validate_authorities (wm_repos m) = Inr u \<longleftrightarrow> authorities_ok (wm_repos m)" for u
    using declare_all_owned_Inr [OF bt_wf_distinct [OF assms], of "[]"] by (auto simp: validate_authorities_def)
  moreover have "check_all (\<lambda>(index, base). validate_not_empty (indexed ''allowedRoots'' index []) base)
      (enumerate 0 (wm_allowed_roots m)) = Inr u \<longleftrightarrow> list_all text_ok (wm_allowed_roots m)" for u
    by (rule check_enumerate) simp
  moreover have "check_all (validate_repository gl) (wm_repos m) = Inr u \<longleftrightarrow>
      (\<forall>(alias, r) \<in> set (wm_repos m). repository_ok gl alias r)" for u
    by (auto split: prod.splits)
  moreover have "validate_manual_links (wm_manual_links m) = Inr u \<longleftrightarrow> links_ok (wm_manual_links m)" for u
    by (simp add: validate_manual_links_def validate_links_from_Inr)
  ultimately show ?thesis
    by (auto simp: validate_manifest_def manifest_ok_def simp del: check_all_eq_Inr split: if_splits)
qed


lemma default_limits_resolve:
  "resolve_budgets None = Inr default_budgets" "resolve_policy (\<lambda>_. 0) (2 ^ 90) None = Inr default_policy"
proof -
  have "representable_policy default_policy"
    by (simp add: representable_policy_def scan_canonical_values_def agent_canonical_values_def default_policy_def usize_max_def)
  then have "validate_scalar_values (\<lambda>_. 0) (2 ^ 90) default_policy = Inr ()"
    unfolding validate_scalar_values_Inr [OF \<open>representable_policy default_policy\<close>]
    by (simp add: scalars_ok_def deadline_fits_def scan_canonical_values_def agent_canonical_values_def default_policy_def)
  moreover have "validate_mcp_minimums default_policy = Inr ()" "validate_scan_relationships default_policy = Inr ()"
    "validate_explore_relationships default_policy = Inr ()"
    unfolding validate_mcp_minimums_Inr validate_scan_relationships_Inr validate_explore_relationships_Inr
    by (simp_all add: mcp_minimums_ok_def scan_limits_nest_def explore_limits_nest_def capacities_representable_def
        default_policy_def usize_max_def)
  ultimately show "resolve_policy (\<lambda>_. 0) (2 ^ 90) None = Inr default_policy"
    by (simp add: resolve_policy_def validate_policy_def)
  show "resolve_budgets None = Inr default_budgets"
    by (simp add: resolve_budgets_def validate_budgets_def canonical_values_def default_budgets_def validate_field_def
        usize_try_from_def usize_max_def)
qed

lemma text_ok_ascii:
  assumes "s \<noteq> []" and "trimmed s" and "\<forall>c \<in> set s. (32::nat) \<le> of_char c \<and> of_char c < (127::nat)"
  shows "text_ok s"
proof -
  have "utf8_decode s = map of_char s" using assms(3) by (intro utf8_decode_ascii) force
  moreover have "\<not> (is_control n \<or> is_bidi_format n)" if "32 \<le> n" "n < 127" for n
    using that by (simp add: is_control_def is_bidi_format_def)
  ultimately show ?thesis
    using assms by (auto simp: text_ok_def trim_id contains_unsafe_metadata_characters_def list_ex_iff)
qed

definition plain_repository :: "string \<Rightarrow> string list \<Rightarrow> repository_config" where
  "plain_repository path authorities =
     \<lparr>rc_path = path, rc_openapi = None, rc_http_consumers = None, rc_integration_tests = None, rc_implementations = None,
      rc_excludes = None, rc_include_defaults = None, rc_authorities = Some authorities\<rparr>"

definition plain_manifest :: "(string, repository_config) btree_map \<Rightarrow> workspace_manifest" where
  "plain_manifest repos =
     \<lparr>wm_version = 1, wm_name = ''shop'', wm_allowed_roots = [], wm_repos = repos, wm_manual_links = [],
      wm_extraction_budgets = None, wm_execution_policy = None\<rparr>"

theorem validate_manifest_exact_witness:
  "validate_manifest literal_globs (\<lambda>_. 0) (2 ^ 90) (plain_manifest [(''api'', plain_repository ''a'' [])])
     = Inr (plain_manifest [(''api'', plain_repository ''a'' [])])
   \<and> validate_manifest literal_globs (\<lambda>_. 0) (2 ^ 90) (plain_manifest []) \<noteq> Inr (plain_manifest [])"
proof -
  have "trimmed ''shop''" "trimmed ''api''" "trimmed ''a''"
    by (simp_all add: trimmed_def white_space_def starts_with_def ends_with_def)
  then have texts: "text_ok ''shop''" "text_ok ''api''" "text_ok ''a''" by (simp_all add: text_ok_ascii)
  have "repository_ok literal_globs ''api'' (plain_repository ''a'' [])"
    using texts by (simp add: repository_ok_def plain_repository_def patterns_ok_def)
  moreover have "authorities_ok [(''api'', plain_repository ''a'' [])]"
    by (simp add: authorities_ok_def declarable_def declared_authorities_def plain_repository_def)
  ultimately have "manifest_ok literal_globs (\<lambda>_. 0) (2 ^ 90) (plain_manifest [(''api'', plain_repository ''a'' [])])"
    using texts default_limits_resolve by (simp add: manifest_ok_def plain_manifest_def links_ok_def)
  moreover have "\<not> manifest_ok literal_globs (\<lambda>_. 0) (2 ^ 90) (plain_manifest [])"
    by (simp add: manifest_ok_def plain_manifest_def)
  ultimately show ?thesis
    using validate_manifest_exact [of "plain_manifest [(''api'', plain_repository ''a'' [])]"]
      validate_manifest_exact [of "plain_manifest []"]
    by (simp add: plain_manifest_def bt_wf_def)
qed

end
