(* ===== verification/Linker.thy ===== *)
theory Linker
  imports Manifest
begin

text \<open>
  \<open>crates/code-system-graph-core/src/linker.rs\<close>: exact manual relationships. Each declaration of the manifest
  names two nodes by identifier or stable key and a relation; it either creates that relationship, replacing
  the automatic edges with the same endpoints and relation, or suppresses them.

  The properties: the edges that result are exactly the automatic ones that no declaration names plus one
  confirmed edge for each creation, with one decision and one evidence record for each declaration; and each
  error is reported exactly for its cause, at the first declaration that has it.
\<close>

subsection \<open>Types\<close>

datatype manual_link_endpoint = From | To

fun manual_link_endpoint_display :: "manual_link_endpoint \<Rightarrow> string" where
  "manual_link_endpoint_display From = ''from''"
| "manual_link_endpoint_display To = ''to''"

datatype manual_link_error =
  InvalidDeclaration manifest_error
| MissingEndpoint nat manual_link_endpoint string
| AmbiguousEndpoint nat manual_link_endpoint string "node_id list"
| ResolvedSelfLink nat string
| DuplicateResolvedLink nat nat node_id node_id edge_kind
| MissingSuppressionTarget nat node_id node_id edge_kind

record manual_link_resolution =
  mr_edges :: "edge list"
  mr_evidence :: "evidence list"
  mr_decisions :: "link_decision list"

record resolved_manual_link =
  rl_index :: nat
  rl_link :: manual_link_config
  rl_source :: node_id
  rl_target :: node_id

fun edge_kind_debug :: "edge_kind \<Rightarrow> string" where
  "edge_kind_debug Contains = ''Contains''"
| "edge_kind_debug Provides = ''Provides''"
| "edge_kind_debug Consumes = ''Consumes''"
| "edge_kind_debug CallsRemote = ''CallsRemote''"
| "edge_kind_debug Publishes = ''Publishes''"
| "edge_kind_debug Subscribes = ''Subscribes''"
| "edge_kind_debug DeliversTo = ''DeliversTo''"
| "edge_kind_debug DependsOnPackage = ''DependsOnPackage''"
| "edge_kind_debug DependsOnRepository = ''DependsOnRepository''"
| "edge_kind_debug ReadsTable = ''ReadsTable''"
| "edge_kind_debug WritesTable = ''WritesTable''"
| "edge_kind_debug Deploys = ''Deploys''"
| "edge_kind_debug Configures = ''Configures''"
| "edge_kind_debug Documents = ''Documents''"
| "edge_kind_debug OwnedBy = ''OwnedBy''"
| "edge_kind_debug ImplementedBy = ''ImplementedBy''"
| "edge_kind_debug Validates = ''Validates''"
| "edge_kind_debug ChangedIn = ''ChangedIn''"
| "edge_kind_debug Affects = ''Affects''"
| "edge_kind_debug Precedes = ''Precedes''"
| "edge_kind_debug Reverts = ''Reverts''"
| "edge_kind_debug CompatibleWith = ''CompatibleWith''"
| "edge_kind_debug IncompatibleWith = ''IncompatibleWith''"
| "edge_kind_debug MemberOf = ''MemberOf''"
| "edge_kind_debug ManualLink = ''ManualLink''"

subsection \<open>Resolution\<close>

definition resolve_manual_endpoint ::
  "node list \<Rightarrow> nat \<Rightarrow> manual_link_endpoint \<Rightarrow> string \<Rightarrow> (manual_link_error, node_id) outcome" where
  "resolve_manual_endpoint nodes index endpoint value =
     (case bs_of_list (map n_id (filter (\<lambda>node. n_id node = value \<or> n_stable_key node = value) nodes)) of
        [] \<Rightarrow> Inl (MissingEndpoint index endpoint value)
      | [node] \<Rightarrow> Inr node
      | candidates \<Rightarrow> Inl (AmbiguousEndpoint index endpoint value candidates))"

definition edge_matches :: "resolved_manual_link \<Rightarrow> edge \<Rightarrow> bool" where
  "edge_matches link edge \<longleftrightarrow>
     e_source edge = rl_source link \<and> e_target edge = rl_target link \<and> e_kind edge = ml_relation (rl_link link)"

definition show_bool :: "bool \<Rightarrow> string" where
  "show_bool b = (if b then ''true'' else ''false'')"

definition manual_link_key :: "resolved_manual_link \<Rightarrow> string" where
  "manual_link_key link =
     (let contract = (case ml_contract (rl_link link) of None \<Rightarrow> [] | Some c \<Rightarrow> c) in
      rl_source link @ '':'' @ rl_target link @ '':'' @ edge_kind_debug (ml_relation (rl_link link)) @ '':''
        @ contract @ '':'' @ show_bool (ml_suppress (rl_link link)) @ '':'' @ ml_reason (rl_link link))"

definition manual_link_evidence :: "(string \<Rightarrow> string) \<Rightarrow> resolved_manual_link \<Rightarrow> evidence" where
  "manual_link_evidence hash link =
     \<lparr>ev_id = stable_id hash ''evidence'' (manual_link_key link), ev_repo_id = None, ev_file_path = None,
      ev_start_line = None, ev_end_line = None, ev_extractor = ''code-system-graph.manual-link'',
      ev_extractor_version = ''1.0.0'', ev_provenance = Manual, ev_confidence = f32_lit 1,
      ev_observed_at_commit = None,
      ev_content_hash = Some (stable_id hash ''manual-link-declaration'' (manual_link_key link)),
      ev_note = Some (ml_reason (rl_link link))\<rparr>"

definition manual_link_edge :: "(string \<Rightarrow> string) \<Rightarrow> resolved_manual_link \<Rightarrow> evidence \<Rightarrow> edge" where
  "manual_link_edge hash link evidence =
     (let key = rl_source link @ '':'' @ edge_kind_debug (ml_relation (rl_link link)) @ '':'' @ rl_target link in
      \<lparr>e_id = stable_id hash ''edge'' key, e_source = rl_source link, e_target = rl_target link,
       e_kind = ml_relation (rl_link link), e_confidence = f32_lit 1, e_status = Confirmed,
       e_evidence = [ev_id evidence]\<rparr>)"

definition manual_link_decision :: "resolved_manual_link \<Rightarrow> evidence_ref \<Rightarrow> link_status \<Rightarrow> link_decision" where
  "manual_link_decision link evidence status =
     (let reasons =
        [ml_reason (rl_link link), ''both endpoints matched an exact node ID or stable key'']
        @ (case ml_contract (rl_link link) of None \<Rightarrow> [] | Some contract \<Rightarrow> [''declared contract: '' @ contract])
        @ [case status of
             LinkConfirmed \<Rightarrow> ''manual declaration created the exact relationship''
           | LinkSuppressed \<Rightarrow> ''manual declaration removed the exact automatic relationship''
           | _ \<Rightarrow> ''manual declaration was not applied''] in
      \<lparr>ld_source = rl_source link, ld_target = rl_target link, ld_relation = ml_relation (rl_link link),
       ld_matcher = ''manual_exact'', ld_matcher_version = (1, 0, 0), ld_score = f32_lit 1,
       ld_confidence = f32_lit 1, ld_reasons = reasons, ld_rejected_alternatives = [],
       ld_evidence = [evidence], ld_status = status\<rparr>)"

fun resolve_links_from ::
  "node list \<Rightarrow> nat \<Rightarrow> manual_link_config list \<Rightarrow> (node_id \<times> node_id \<times> edge_kind, nat) btree_map
     \<Rightarrow> resolved_manual_link list \<Rightarrow> (manual_link_error, resolved_manual_link list) outcome" where
  "resolve_links_from nodes index [] identities resolved = Inr resolved"
| "resolve_links_from nodes index (link # links) identities resolved =
     and_then (resolve_manual_endpoint nodes index From (ml_from link)) (\<lambda>source.
     and_then (resolve_manual_endpoint nodes index To (ml_to link)) (\<lambda>target.
     if source = target then Inl (ResolvedSelfLink index source)
     else
       case bt_get identities (source, target, ml_relation link) of
         Some first \<Rightarrow> Inl (DuplicateResolvedLink first index source target (ml_relation link))
       | None \<Rightarrow>
           resolve_links_from nodes (index + 1) links
             (bt_insert (source, target, ml_relation link) index identities)
             (resolved @ [\<lparr>rl_index = index, rl_link = link, rl_source = source, rl_target = target\<rparr>])))"

definition resolved_order :: "resolved_manual_link \<Rightarrow> node_id \<times> node_id \<times> edge_kind \<times> bool" where
  "resolved_order link = (rl_source link, rl_target link, ml_relation (rl_link link), ml_suppress (rl_link link))"

fun apply_links ::
  "(string \<Rightarrow> string) \<Rightarrow> resolved_manual_link list \<Rightarrow> edge list \<Rightarrow> evidence list \<Rightarrow> link_decision list
     \<Rightarrow> (manual_link_error, manual_link_resolution) outcome" where
  "apply_links hash [] edges evidence decisions =
     Inr \<lparr>mr_edges = edges, mr_evidence = evidence, mr_decisions = decisions\<rparr>"
| "apply_links hash (item # items) edges evidence decisions =
     (let manual_evidence = manual_link_evidence hash item;
          evidence_ref = \<lparr>er_id = ev_id manual_evidence, er_provenance = Manual\<rparr>;
          kept = filter (\<lambda>edge. \<not> edge_matches item edge) edges in
      if ml_suppress (rl_link item) then
        if length edges - length kept = 0 then
          Inl (MissingSuppressionTarget (rl_index item) (rl_source item) (rl_target item) (ml_relation (rl_link item)))
        else
          apply_links hash items kept (evidence @ [manual_evidence])
            (decisions @ [manual_link_decision item evidence_ref LinkSuppressed])
      else
        apply_links hash items (kept @ [manual_link_edge hash item manual_evidence]) (evidence @ [manual_evidence])
          (decisions @ [manual_link_decision item evidence_ref LinkConfirmed]))"

definition decision_order :: "link_decision \<Rightarrow> node_id \<times> node_id \<times> edge_kind \<times> link_status" where
  "decision_order d = (ld_source d, ld_target d, ld_relation d, ld_status d)"

definition resolve_manual_links ::
  "(string \<Rightarrow> string) \<Rightarrow> manual_link_config list \<Rightarrow> node list \<Rightarrow> edge list
     \<Rightarrow> (manual_link_error, manual_link_resolution) outcome" where
  "resolve_manual_links hash links nodes automatic_edges =
     and_then (map_error InvalidDeclaration (validate_manual_links links)) (\<lambda>_.
     and_then (resolve_links_from nodes 0 links [] []) (\<lambda>resolved.
     and_then (apply_links hash (sort_key resolved_order resolved) (sort_key e_id automatic_edges) [] []) (\<lambda>r.
       Inr \<lparr>mr_edges = sort_key e_id (mr_edges r), mr_evidence = sort_key ev_id (mr_evidence r),
            mr_decisions = sort_key decision_order (mr_decisions r)\<rparr>)))"


subsection \<open>Applying declarations\<close>

definition resolved_triple :: "resolved_manual_link \<Rightarrow> node_id \<times> node_id \<times> edge_kind" where
  "resolved_triple link = (rl_source link, rl_target link, ml_relation (rl_link link))"

definition edge_triple :: "edge \<Rightarrow> node_id \<times> node_id \<times> edge_kind" where
  "edge_triple e = (e_source e, e_target e, e_kind e)"

abbreviation creates :: "resolved_manual_link \<Rightarrow> bool" where
  "creates link \<equiv> \<not> ml_suppress (rl_link link)"

definition created_edge :: "(string \<Rightarrow> string) \<Rightarrow> resolved_manual_link \<Rightarrow> edge" where
  "created_edge hash link = manual_link_edge hash link (manual_link_evidence hash link)"

definition decision_of :: "(string \<Rightarrow> string) \<Rightarrow> resolved_manual_link \<Rightarrow> link_decision" where
  "decision_of hash link =
     manual_link_decision link \<lparr>er_id = ev_id (manual_link_evidence hash link), er_provenance = Manual\<rparr>
       (if creates link then LinkConfirmed else LinkSuppressed)"

definition untouched :: "resolved_manual_link list \<Rightarrow> edge list \<Rightarrow> edge list" where
  "untouched items edges = filter (\<lambda>e. edge_triple e \<notin> set (map resolved_triple items)) edges"

definition idle_suppression :: "edge list \<Rightarrow> resolved_manual_link \<Rightarrow> bool" where
  "idle_suppression edges link \<longleftrightarrow> \<not> creates link \<and> resolved_triple link \<notin> edge_triple ` set edges"

lemma edge_matches_triple: "edge_matches link e \<longleftrightarrow> edge_triple e = resolved_triple link"
  by (auto simp: edge_matches_def edge_triple_def resolved_triple_def)

lemma created_edge_triple [simp]: "edge_triple (created_edge hash link) = resolved_triple link"
  by (simp add: created_edge_def manual_link_edge_def edge_triple_def resolved_triple_def)

lemma apply_links_eq:
  assumes "distinct (map resolved_triple items)"
    and "edge_triple ` set made \<inter> set (map resolved_triple items) = {}"
  shows "apply_links hash items (edges @ made) evs ds =
     (case find (idle_suppression edges) items of
        Some i \<Rightarrow> Inl (MissingSuppressionTarget (rl_index i) (rl_source i) (rl_target i) (ml_relation (rl_link i)))
      | None \<Rightarrow> Inr \<lparr>mr_edges = untouched items edges @ made @ map (created_edge hash) (filter creates items),
          mr_evidence = evs @ map (manual_link_evidence hash) items, mr_decisions = ds @ map (decision_of hash) items\<rparr>)"
  using assms
proof (induction items arbitrary: edges made evs ds)
  case (Cons item items)
  let ?kept = "filter (\<lambda>e. edge_triple e \<noteq> resolved_triple item) edges"
  have kept: "filter (\<lambda>e. \<not> edge_matches item e) (edges @ made) = ?kept @ made"
    using Cons.prems(2) by (auto simp: edge_matches_triple filter_id_conv) (metis imageI)
  have find: "find (idle_suppression ?kept) items = find (idle_suppression edges) items"
  proof (rule find_cong [OF refl])
    fix x assume "x \<in> set items"
    then have "resolved_triple x \<noteq> resolved_triple item" using Cons.prems(1) by (simp add: image_iff) metis
    then show "idle_suppression ?kept x = idle_suppression edges x"
      by (auto simp: idle_suppression_def image_iff)
  qed
  have rest: "untouched items ?kept = untouched (item # items) edges"
    by (auto simp: untouched_def conj_commute)
  have gone: "length (edges @ made) - length (?kept @ made) = 0 \<longleftrightarrow> resolved_triple item \<notin> edge_triple ` set edges"
  proof -
    have "length edges - length ?kept = length (filter (\<lambda>e. edge_triple e = resolved_triple item) edges)"
      using sum_length_filter_compl [of "\<lambda>e. edge_triple e \<noteq> resolved_triple item" edges] by simp
    then have "length (edges @ made) - length (?kept @ made) = 0 \<longleftrightarrow> filter (\<lambda>e. edge_triple e = resolved_triple item) edges = []"
      by simp
    then show ?thesis by (simp add: filter_empty_conv image_iff) metis
  qed
  show ?case
  proof (cases "creates item")
    case True
    then have "\<not> idle_suppression edges item" by (simp add: idle_suppression_def)
    moreover have "apply_links hash items (?kept @ (made @ [created_edge hash item])) (evs @ [manual_link_evidence hash item])
        (ds @ [decision_of hash item]) =
     (case find (idle_suppression ?kept) items of
        Some i \<Rightarrow> Inl (MissingSuppressionTarget (rl_index i) (rl_source i) (rl_target i) (ml_relation (rl_link i)))
      | None \<Rightarrow> Inr \<lparr>mr_edges = untouched items ?kept @ (made @ [created_edge hash item]) @ map (created_edge hash) (filter creates items),
          mr_evidence = (evs @ [manual_link_evidence hash item]) @ map (manual_link_evidence hash) items,
          mr_decisions = (ds @ [decision_of hash item]) @ map (decision_of hash) items\<rparr>)"
      using Cons.prems by (intro Cons.IH) auto
    moreover have "apply_links hash (item # items) (edges @ made) evs ds =
        apply_links hash items (?kept @ (made @ [created_edge hash item])) (evs @ [manual_link_evidence hash item])
          (ds @ [decision_of hash item])"
      using True kept by (simp add: Let_def created_edge_def decision_of_def)
    ultimately show ?thesis using True find rest by (simp split: option.split)
  next
    case False
    then have idle: "idle_suppression edges item \<longleftrightarrow> resolved_triple item \<notin> edge_triple ` set edges"
      by (simp add: idle_suppression_def)
    have "apply_links hash items (?kept @ made) (evs @ [manual_link_evidence hash item]) (ds @ [decision_of hash item]) =
     (case find (idle_suppression ?kept) items of
        Some i \<Rightarrow> Inl (MissingSuppressionTarget (rl_index i) (rl_source i) (rl_target i) (ml_relation (rl_link i)))
      | None \<Rightarrow> Inr \<lparr>mr_edges = untouched items ?kept @ made @ map (created_edge hash) (filter creates items),
          mr_evidence = (evs @ [manual_link_evidence hash item]) @ map (manual_link_evidence hash) items,
          mr_decisions = (ds @ [decision_of hash item]) @ map (decision_of hash) items\<rparr>)"
      using Cons.prems by (intro Cons.IH) auto
    moreover have "apply_links hash (item # items) (edges @ made) evs ds =
       (if idle_suppression edges item
        then Inl (MissingSuppressionTarget (rl_index item) (rl_source item) (rl_target item) (ml_relation (rl_link item)))
        else apply_links hash items (?kept @ made) (evs @ [manual_link_evidence hash item]) (ds @ [decision_of hash item]))"
      using False kept gone idle by (simp add: Let_def decision_of_def)
    ultimately show ?thesis using False find rest by (simp split: option.split)
  qed
qed (simp add: untouched_def)


subsection \<open>Resolving endpoints\<close>

definition named_nodes :: "node list \<Rightarrow> string \<Rightarrow> node_id set" where
  "named_nodes nodes value = {n_id n | n. n \<in> set nodes \<and> (n_id n = value \<or> n_stable_key n = value)}"

definition resolves :: "node list \<Rightarrow> nat \<Rightarrow> manual_link_config \<Rightarrow> resolved_manual_link \<Rightarrow> bool" where
  "resolves nodes index link r \<longleftrightarrow>
     rl_index r = index \<and> rl_link r = link \<and> named_nodes nodes (ml_from link) = {rl_source r}
     \<and> named_nodes nodes (ml_to link) = {rl_target r} \<and> rl_source r \<noteq> rl_target r"

definition resolution :: "node list \<Rightarrow> nat \<Rightarrow> manual_link_config list \<Rightarrow> resolved_manual_link list \<Rightarrow> bool" where
  "resolution nodes index links rs \<longleftrightarrow>
     list_all2 (\<lambda>(i, link) r. resolves nodes i link r) (enumerate index links) rs \<and> distinct (map resolved_triple rs)"

lemma resolve_manual_endpoint_Inr:
  "resolve_manual_endpoint nodes index endpoint v = Inr node \<longleftrightarrow> named_nodes nodes v = {node}"
proof -
  let ?ids = "map n_id (filter (\<lambda>node. n_id node = v \<or> n_stable_key node = v) nodes)"
  have named: "set (bs_of_list ?ids) = named_nodes nodes v" by (auto simp: named_nodes_def)
  have single: "bs_of_list ?ids = [node] \<longleftrightarrow> named_nodes nodes v = {node}"
    using bs_wf_of_list [of ?ids] unfolding named [symmetric]
    by (cases "bs_of_list ?ids"; cases "tl (bs_of_list ?ids)") (auto simp: insert_eq_iff)
  show ?thesis
    unfolding single [symmetric] resolve_manual_endpoint_def by (auto split: list.split)
qed

lemma resolve_links_from_Inr:
  "resolve_links_from nodes index links ids acc = Inr out \<longleftrightarrow>
     (\<exists>rs. out = acc @ rs \<and> resolution nodes index links rs \<and> (\<forall>r \<in> set rs. bt_get ids (resolved_triple r) = None))"
proof (induction links arbitrary: index ids acc)
  case (Cons link links)
  have step: "resolve_links_from nodes index (link # links) ids acc = Inr out \<longleftrightarrow>
     (\<exists>r. resolves nodes index link r \<and> bt_get ids (resolved_triple r) = None
        \<and> resolve_links_from nodes (index + 1) links (bt_insert (resolved_triple r) index ids) (acc @ [r]) = Inr out)"
  proof -
    have "resolves nodes index link r \<longleftrightarrow>
        (\<exists>a b. r = \<lparr>rl_index = index, rl_link = link, rl_source = a, rl_target = b\<rparr> \<and> a \<noteq> b
          \<and> named_nodes nodes (ml_from link) = {a} \<and> named_nodes nodes (ml_to link) = {b})" for r
      by (cases r) (auto simp: resolves_def)
    then show ?thesis
      by (auto simp: resolve_manual_endpoint_Inr resolved_triple_def split: option.splits if_splits)
  qed
  have split: "resolution nodes index (link # links) rs \<longleftrightarrow>
      (\<exists>r rs'. rs = r # rs' \<and> resolves nodes index link r \<and> resolution nodes (index + 1) links rs'
        \<and> resolved_triple r \<notin> resolved_triple ` set rs')" for rs
    by (cases rs) (auto simp: resolution_def)
  show ?case
    unfolding step Cons.IH split
    by (auto simp: bt_get_insert_if image_iff split: if_splits) metis+
qed (auto simp: resolution_def)


definition applied :: "(string \<Rightarrow> string) \<Rightarrow> resolved_manual_link list \<Rightarrow> edge list \<Rightarrow> manual_link_resolution" where
  "applied hash rs automatic =
     (let items = sort_key resolved_order rs in
      \<lparr>mr_edges = sort_key e_id (untouched rs (sort_key e_id automatic) @ map (created_edge hash) (filter creates items)),
       mr_evidence = sort_key ev_id (map (manual_link_evidence hash) items),
       mr_decisions = sort_key decision_order (map (decision_of hash) items)\<rparr>)"

lemma apply_sorted:
  assumes "distinct (map resolved_triple rs)"
  shows "apply_links hash (sort_key resolved_order rs) (sort_key e_id automatic) [] [] =
     (case find (idle_suppression automatic) (sort_key resolved_order rs) of
        Some i \<Rightarrow> Inl (MissingSuppressionTarget (rl_index i) (rl_source i) (rl_target i) (ml_relation (rl_link i)))
      | None \<Rightarrow> Inr \<lparr>mr_edges = untouched rs (sort_key e_id automatic)
            @ map (created_edge hash) (filter creates (sort_key resolved_order rs)),
          mr_evidence = map (manual_link_evidence hash) (sort_key resolved_order rs),
          mr_decisions = map (decision_of hash) (sort_key resolved_order rs)\<rparr>)"
proof -
  have "distinct (map resolved_triple (sort_key resolved_order rs))"
    using assms by (auto simp: distinct_map)
  moreover have "idle_suppression (sort_key e_id automatic) = idle_suppression automatic"
    by (auto simp: idle_suppression_def fun_eq_iff)
  moreover have "untouched (sort_key resolved_order rs) es = untouched rs es" for es
    by (simp add: untouched_def)
  ultimately show ?thesis
    using apply_links_eq [of "sort_key resolved_order rs" "[]" hash "sort_key e_id automatic" "[]" "[]"]
    by (simp split: option.split)
qed

lemma find_None_iff_set: "find P xs = None \<longleftrightarrow> (\<forall>x \<in> set xs. \<not> P x)"
  by (induction xs) auto

text \<open>
  C23: manual links resolve exactly when the declarations are valid, each endpoint names exactly one node by
  identifier or stable key, the two nodes of a link differ, no two links resolve to the same relationship and
  every suppression names an automatic edge. The edges are then the automatic ones that no link names plus one
  confirmed edge for each link that creates one, in the order of their identifiers, with one evidence record
  and one decision for each link.
\<close>

theorem resolve_manual_links_exact:
  "resolve_manual_links hash links nodes automatic = Inr r \<longleftrightarrow>
     links_ok links
     \<and> (\<exists>rs. resolution nodes 0 links rs \<and> (\<forall>i \<in> set rs. \<not> idle_suppression automatic i) \<and> r = applied hash rs automatic)"
proof -
  have valid: "map_error InvalidDeclaration (validate_manual_links links) = Inr u \<longleftrightarrow> links_ok links" for u
    by (simp add: validate_manual_links_def validate_links_from_Inr)
  have "apply_links hash (sort_key resolved_order rs) (sort_key e_id automatic) [] [] = Inr q
      \<longleftrightarrow> (\<forall>i \<in> set rs. \<not> idle_suppression automatic i)
        \<and> q = \<lparr>mr_edges = untouched rs (sort_key e_id automatic)
              @ map (created_edge hash) (filter creates (sort_key resolved_order rs)),
            mr_evidence = map (manual_link_evidence hash) (sort_key resolved_order rs),
            mr_decisions = map (decision_of hash) (sort_key resolved_order rs)\<rparr>"
    if "resolution nodes 0 links rs" for rs q
    using apply_sorted [of rs hash automatic] that find_None_iff_set [of "idle_suppression automatic" "sort_key resolved_order rs"]
    by (auto simp: resolution_def split: option.splits)
  then show ?thesis
    unfolding resolve_manual_links_def and_then_eq_Inr valid resolve_links_from_Inr
    by (auto simp: applied_def Let_def)
qed


definition sample_link :: "bool \<Rightarrow> manual_link_config" where
  "sample_link suppress = \<lparr>ml_from = ''web'', ml_to = ''api'', ml_relation = Consumes, ml_contract = None,
     ml_reason = ''agreed'', ml_suppress = suppress\<rparr>"

theorem resolve_manual_links_exact_witness:
  "(\<exists>r. resolve_manual_links (\<lambda>s. s) [sample_link True] [sample_node ''web'', sample_node ''api'']
        [(sample_edge ''e1'' ''web'' ''api'')\<lparr>e_kind := Consumes\<rparr>] = Inr r \<and> mr_edges r = [])
   \<and> (\<forall>r. resolve_manual_links (\<lambda>s. s) [sample_link True] [sample_node ''web'', sample_node ''api''] [] \<noteq> Inr r)"
proof -
  let ?nodes = "[sample_node ''web'', sample_node ''api'']"
  let ?edge = "(sample_edge ''e1'' ''web'' ''api'')\<lparr>e_kind := Consumes\<rparr>"
  let ?r = "\<lparr>rl_index = 0, rl_link = sample_link True, rl_source = ''web'', rl_target = ''api''\<rparr>"
  have "trimmed ''web''" "trimmed ''api''" "trimmed ''agreed''"
    by (simp_all add: trimmed_def white_space_def starts_with_def ends_with_def)
  then have "text_ok ''web''" "text_ok ''api''" "text_ok ''agreed''" by (simp_all add: text_ok_ascii)
  then have ok: "links_ok [sample_link True]" by (simp add: links_ok_def link_ok_def sample_link_def)
  have "named_nodes [] v = {}" "named_nodes (n # ns) v =
      (if n_id n = v \<or> n_stable_key n = v then insert (n_id n) (named_nodes ns v) else named_nodes ns v)" for n ns v
    by (auto simp: named_nodes_def)
  then have named: "named_nodes ?nodes ''web'' = {''web''}" "named_nodes ?nodes ''api'' = {''api''}"
    by (simp_all add: sample_node_def)
  define r0 where "r0 = ?r"
  have unique: "resolves ?nodes 0 (sample_link True) r \<longleftrightarrow> r = r0" for r
    unfolding r0_def by (cases r) (simp add: resolves_def sample_link_def named, blast)
  have res: "resolution ?nodes 0 [sample_link True] rs \<longleftrightarrow> rs = [r0]" for rs
  proof -
    have "list_all2 (\<lambda>(i, link) r. resolves ?nodes i link r) (enumerate 0 [sample_link True]) rs \<longleftrightarrow>
        (\<exists>r. rs = [r] \<and> resolves ?nodes 0 (sample_link True) r)"
      by (cases rs) auto
    then show ?thesis unfolding resolution_def unique by auto
  qed
  have "mr_edges (applied (\<lambda>s. s) [r0] [?edge]) = []"
    by (simp add: applied_def untouched_def edge_triple_def resolved_triple_def sample_edge_def sample_link_def r0_def)
  moreover have "\<not> idle_suppression [?edge] r0" "idle_suppression [] r0"
    by (simp_all add: idle_suppression_def edge_triple_def resolved_triple_def sample_edge_def sample_link_def r0_def)
  ultimately show ?thesis
    unfolding resolve_manual_links_exact res using ok by auto
qed

end
