(* ===== verification/Traversal.thy ===== *)
theory Traversal
  imports Model Text_Ops
begin

text \<open>
  \<open>crates/code-system-graph-core/src/query.rs\<close>, second half: bounded traversal of the graph for confirmed
  paths (\<open>traverse\<close>), by hop count, by weight, or for the k best paths. The functional argument \<open>elapsed\<close> is
  the wall clock: \<open>elapsed n\<close> is the time since the start, in nanoseconds, that the n-th reading of
  \<open>timed_out\<close> sees; \<open>tr_reads\<close> counts the readings. Weights are binary64 floats.
\<close>

subsection \<open>Requests and reports\<close>

datatype traversal_algorithm = Bfs | Dijkstra | KShortest

datatype traversal_direction = Outgoing | Incoming | Both

record traversal_filters =
  tf_edge_kinds :: "edge_kind list"
  tf_min_confidence :: f64
  tf_include_tests :: bool
  tf_include_generated_artifacts :: bool
  tf_environment_namespace :: "string option"

definition default_traversal_filters :: traversal_filters where
  "default_traversal_filters =
     \<lparr>tf_edge_kinds = [], tf_min_confidence = Fin 0, tf_include_tests = True,
      tf_include_generated_artifacts = True, tf_environment_namespace = None\<rparr>"

record edge_kind_cost =
  kc_kind :: edge_kind
  kc_cost :: f64

record traversal_options =
  to_algorithm :: traversal_algorithm
  to_direction :: traversal_direction
  to_max_depth :: nat
  to_max_cross_repo_hops :: nat
  to_node_limit :: nat
  to_edge_limit :: nat
  to_timeout_ms :: nat
  to_k :: nat
  to_edge_kind_costs :: "edge_kind_cost list"

definition default_traversal_options :: traversal_options where
  "default_traversal_options =
     \<lparr>to_algorithm = Bfs, to_direction = Outgoing, to_max_depth = 8, to_max_cross_repo_hops = 4,
      to_node_limit = 10000, to_edge_limit = 50000, to_timeout_ms = 1000, to_k = 1, to_edge_kind_costs = []\<rparr>"

record traversal_request =
  tq_start :: node_id
  tq_target :: node_id
  tq_filters :: traversal_filters
  tq_options :: traversal_options

datatype path_segment_scope = LocalSegment | CrossRepository

record path_segment =
  ps_trace :: trace_segment
  ps_scope :: path_segment_scope
  ps_reversed :: bool
  ps_weight :: f64

record traversal_path =
  tp_segments :: "path_segment list"
  tp_total_weight :: f64
  tp_cross_repo_hops :: nat

record traversal_limits =
  tl_max_depth :: nat
  tl_max_cross_repo_hops :: nat
  tl_node_limit :: nat
  tl_edge_limit :: nat
  tl_timeout_ms :: nat
  tl_max_paths :: nat

record traversal_report =
  tr_paths :: "traversal_path list"
  tr_frontier :: "node list"
  tr_candidate_unresolved_edges :: "edge list"
  tr_coverage_gaps :: "string list"
  tr_truncated :: bool
  tr_visited_nodes :: nat
  tr_examined_edges :: nat
  tr_limits :: traversal_limits

datatype query_error =
  EmptyQuery
| InvalidPagination
| InvalidScore string string
| DuplicateNode string
| DuplicateEdge string
| DanglingEdge string string
| UnknownAnchor string
| InvalidTraversalLimits
| InvalidMinimumConfidence
| InvalidEdgeConfidence string
| InvalidEdgeCost edge_kind
| InconsistentPath string

subsection \<open>The graph\<close>

record traversal_graph =
  tg_nodes :: "(node_id, node) btree_map"
  tg_outgoing :: "(node_id, edge list) btree_map"
  tg_incoming :: "(node_id, edge list) btree_map"

text \<open>\<open>f64::from\<close> of an \<open>f32\<close> is exact.\<close>

definition f64_from :: "f32 \<Rightarrow> f64" where
  "f64_from x = x"

fun check_costs :: "edge_kind_cost list \<Rightarrow> edge_kind list \<Rightarrow> (query_error, unit) outcome" where
  "check_costs [] cost_kinds = Inr ()"
| "check_costs (item # items) cost_kinds =
     (if \<not> fp_is_finite (kc_cost item) \<or> fp_le (kc_cost item) (Fin 0) \<or> kc_kind item \<in> set cost_kinds
      then Inl (InvalidEdgeCost (kc_kind item))
      else check_costs items (cost_kinds @ [kc_kind item]))"

definition validate_traversal_request :: "traversal_request \<Rightarrow> (query_error, unit) outcome" where
  "validate_traversal_request request =
     (let options = tq_options request in
      if to_max_depth options = 0 \<or> 128 < to_max_depth options \<or> to_node_limit options = 0
        \<or> 100000 < to_node_limit options \<or> to_edge_limit options = 0 \<or> 1000000 < to_edge_limit options
        \<or> 60000 < to_timeout_ms options \<or> to_k options = 0 \<or> 16 < to_k options
      then Inl InvalidTraversalLimits
      else if \<not> unit_interval (tf_min_confidence (tq_filters request)) then Inl InvalidMinimumConfidence
      else check_costs (to_edge_kind_costs options) [])"

fun distinct_nodes_from :: "node list \<Rightarrow> (node_id, node) btree_map \<Rightarrow> (query_error, (node_id, node) btree_map) outcome" where
  "distinct_nodes_from [] distinct_map = Inr distinct_map"
| "distinct_nodes_from (node # nodes) distinct_map =
     (if bt_get distinct_map (n_id node) \<noteq> None then Inl (DuplicateNode (n_id node))
      else distinct_nodes_from nodes (bt_insert (n_id node) node distinct_map))"

definition distinct_nodes :: "node list \<Rightarrow> (query_error, (node_id, node) btree_map) outcome" where
  "distinct_nodes nodes = distinct_nodes_from nodes []"

definition validate_graph_edge :: "edge \<Rightarrow> (node_id, node) btree_map \<Rightarrow> (query_error, unit) outcome" where
  "validate_graph_edge edge nodes =
     and_then (check_all (\<lambda>endpoint. if bt_contains nodes endpoint then Inr () else Inl (DanglingEdge (e_id edge) endpoint))
       [e_source edge, e_target edge]) (\<lambda>_.
     if \<not> unit_interval (f64_from (e_confidence edge)) then Inl (InvalidEdgeConfidence (e_id edge)) else Inr ())"

fun add_graph_edges ::
  "(node_id, node) btree_map \<Rightarrow> edge list \<Rightarrow> edge_id btree_set \<Rightarrow> (node_id, edge list) btree_map
     \<Rightarrow> (node_id, edge list) btree_map
     \<Rightarrow> (query_error, (node_id, edge list) btree_map \<times> (node_id, edge list) btree_map) outcome" where
  "add_graph_edges nodes [] edge_ids outgoing incoming = Inr (outgoing, incoming)"
| "add_graph_edges nodes (edge # edges) edge_ids outgoing incoming =
     (if e_id edge \<in> set edge_ids then Inl (DuplicateEdge (e_id edge))
      else and_then (validate_graph_edge edge nodes) (\<lambda>_.
        add_graph_edges nodes edges (bs_insert (e_id edge) edge_ids) (bt_push (e_source edge) edge outgoing)
          (bt_push (e_target edge) edge incoming)))"

definition traversal_graph_new :: "node list \<Rightarrow> edge list \<Rightarrow> (query_error, traversal_graph) outcome" where
  "traversal_graph_new nodes edges =
     and_then (distinct_nodes nodes) (\<lambda>nodes.
     and_then (add_graph_edges nodes edges [] [] []) (\<lambda>(outgoing, incoming).
       Inr \<lparr>tg_nodes = nodes, tg_outgoing = bt_map_values (sort_key e_id) outgoing,
            tg_incoming = bt_map_values (sort_key e_id) incoming\<rparr>))"

definition require_anchor :: "traversal_graph \<Rightarrow> node_id \<Rightarrow> (query_error, unit) outcome" where
  "require_anchor graph node_id =
     (if bt_contains (tg_nodes graph) node_id then Inr () else Inl (UnknownAnchor node_id))"

record adjacent =
  ad_edge :: edge
  ad_next :: node_id
  ad_reversed :: bool

definition adjacent_order :: "adjacent \<Rightarrow> edge_id \<times> node_id \<times> bool" where
  "adjacent_order a = (e_id (ad_edge a), ad_next a, ad_reversed a)"

definition graph_adjacent :: "traversal_graph \<Rightarrow> node_id \<Rightarrow> traversal_direction \<Rightarrow> adjacent list" where
  "graph_adjacent graph node_id direction =
     (let forward = (if direction = Outgoing \<or> direction = Both
            then map (\<lambda>edge. \<lparr>ad_edge = edge, ad_next = e_target edge, ad_reversed = False\<rparr>)
              (bt_group (tg_outgoing graph) node_id) else []);
          backward = (if direction = Incoming \<or> direction = Both
            then map (\<lambda>edge. \<lparr>ad_edge = edge, ad_next = e_source edge, ad_reversed = True\<rparr>)
              (bt_group (tg_incoming graph) node_id) else []) in
      dedup_by (\<lambda>left right. e_id (ad_edge left) = e_id (ad_edge right) \<and> ad_next left = ad_next right
          \<and> ad_reversed left = ad_reversed right)
        (sort_key adjacent_order (forward @ backward)))"

subsection \<open>Path states and the runtime\<close>

record path_state =
  st_nodes :: "node_id list"
  st_steps :: "adjacent list"
  st_total_weight :: f64
  st_cross_repo_hops :: nat

definition path_state_start :: "node_id \<Rightarrow> path_state" where
  "path_state_start node_id =
     \<lparr>st_nodes = [node_id], st_steps = [], st_total_weight = Fin 0, st_cross_repo_hops = 0\<rparr>"

definition path_state_current :: "path_state \<Rightarrow> node_id option" where
  "path_state_current state = (if st_nodes state = [] then None else Some (last (st_nodes state)))"

definition path_state_extended :: "path_state \<Rightarrow> adjacent \<Rightarrow> f64 \<Rightarrow> bool \<Rightarrow> path_state" where
  "path_state_extended state adjacent weight cross_repo =
     \<lparr>st_nodes = st_nodes state @ [ad_next adjacent], st_steps = st_steps state @ [adjacent],
      st_total_weight = fp_add binary64 (st_total_weight state) weight,
      st_cross_repo_hops = st_cross_repo_hops state + (if cross_repo then 1 else 0)\<rparr>"

record traversal_runtime =
  tr_reads :: nat
  tr_timeout :: nat
  tr_observed_nodes :: "node_id btree_set"
  tr_examined :: nat
  tr_candidate_edges :: "(edge_id, edge) btree_map"
  tr_frontier_depth :: nat
  tr_frontier_ids :: "node_id btree_set"
  tr_gaps :: "string btree_set"
  tr_stopped :: bool

definition traversal_runtime_new :: "traversal_request \<Rightarrow> traversal_runtime" where
  "traversal_runtime_new request =
     \<lparr>tr_reads = 0, tr_timeout = to_timeout_ms (tq_options request) * 1000000,
      tr_observed_nodes = [tq_start request], tr_examined = 0, tr_candidate_edges = [],
      tr_frontier_depth = 0, tr_frontier_ids = [tq_start request], tr_gaps = [], tr_stopped = False\<rparr>"

definition truncate_with :: "string \<Rightarrow> traversal_runtime \<Rightarrow> traversal_runtime" where
  "truncate_with gap rt = rt\<lparr>tr_stopped := True, tr_gaps := bs_insert gap (tr_gaps rt)\<rparr>"

definition timed_out :: "(nat \<Rightarrow> nat) \<Rightarrow> traversal_runtime \<Rightarrow> bool \<times> traversal_runtime" where
  "timed_out elapsed rt =
     (let reading = elapsed (tr_reads rt); rt = rt\<lparr>tr_reads := tr_reads rt + 1\<rparr> in
      if tr_timeout rt \<le> reading then (True, truncate_with ''Traversal stopped at the timeout bound.'' rt)
      else (False, rt))"

definition examine_edge :: "nat \<Rightarrow> traversal_runtime \<Rightarrow> bool \<times> traversal_runtime" where
  "examine_edge edge_limit rt =
     (if edge_limit \<le> tr_examined rt then (False, truncate_with ''Traversal stopped at the edge limit.'' rt)
      else (True, rt\<lparr>tr_examined := tr_examined rt + 1\<rparr>))"

definition observe_node :: "node_id \<Rightarrow> nat \<Rightarrow> traversal_runtime \<Rightarrow> bool \<times> traversal_runtime" where
  "observe_node node_id node_limit rt =
     (if node_id \<in> set (tr_observed_nodes rt) then (True, rt)
      else if node_limit \<le> length (tr_observed_nodes rt)
        then (False, truncate_with ''Traversal stopped at the node limit.'' rt)
      else (True, rt\<lparr>tr_observed_nodes := bs_insert node_id (tr_observed_nodes rt)\<rparr>))"

definition record_frontier :: "node_id \<Rightarrow> nat \<Rightarrow> traversal_runtime \<Rightarrow> traversal_runtime" where
  "record_frontier node_id depth rt =
     (if tr_frontier_depth rt < depth then rt\<lparr>tr_frontier_depth := depth, tr_frontier_ids := [node_id]\<rparr>
      else if depth = tr_frontier_depth rt then rt\<lparr>tr_frontier_ids := bs_insert node_id (tr_frontier_ids rt)\<rparr>
      else rt)"

definition record_candidate :: "edge \<Rightarrow> traversal_runtime \<Rightarrow> traversal_runtime" where
  "record_candidate edge rt =
     rt\<lparr>tr_candidate_edges :=
       (case bt_get (tr_candidate_edges rt) (e_id edge) of
          Some _ \<Rightarrow> tr_candidate_edges rt | None \<Rightarrow> bt_insert (e_id edge) edge (tr_candidate_edges rt))\<rparr>"

definition record_depth_bound :: "traversal_runtime \<Rightarrow> traversal_runtime" where
  "record_depth_bound rt = truncate_with ''Traversal stopped at the depth limit.'' rt"

definition record_cross_repo_bound :: "traversal_runtime \<Rightarrow> traversal_runtime" where
  "record_cross_repo_bound rt = truncate_with ''A path branch exceeded the cross-repository hop limit.'' rt"

subsection \<open>Filters and weights\<close>

definition edge_passes_filters :: "edge \<Rightarrow> traversal_filters \<Rightarrow> bool" where
  "edge_passes_filters edge filters \<longleftrightarrow>
     (tf_edge_kinds filters = [] \<or> e_kind edge \<in> set (tf_edge_kinds filters))
     \<and> fp_le (tf_min_confidence filters) (f64_from (e_confidence edge))"

definition deployment_namespace :: "string \<Rightarrow> string option" where
  "deployment_namespace stable_key =
     (case split_once '':'' stable_key of
        Some (prefix, rest) \<Rightarrow>
          if prefix \<noteq> ''deployment'' then None
          else
            (case split_once '':'' rest of
               Some (technology, rest) \<Rightarrow>
                 (case split_once '':'' rest of
                    Some (namespace, name) \<Rightarrow> if namespace = [] then None else Some namespace
                  | None \<Rightarrow> None)
             | None \<Rightarrow> None)
      | None \<Rightarrow> None)"

definition is_generated_artifact :: "node \<Rightarrow> bool" where
  "is_generated_artifact node =
     (let key = map (\<lambda>c. if c = CHR 0x5C then CHR ''/'' else c) (to_ascii_lowercase (n_stable_key node)) in
      list_ex (\<lambda>marker. contains_str marker key)
        [''/generated/'', ''/target/'', ''/dist/'', ''/build/'', ''/vendor/'', ''.generated.'', ''_generated.'', ''/gen/''])"

definition node_passes_filters ::
  "traversal_graph \<Rightarrow> node_id \<Rightarrow> traversal_filters \<Rightarrow> traversal_runtime \<Rightarrow> bool \<times> traversal_runtime" where
  "node_passes_filters graph node_id filters rt =
     (case bt_get (tg_nodes graph) node_id of
        None \<Rightarrow> (False, rt)
      | Some node \<Rightarrow>
          if \<not> tf_include_tests filters \<and> n_kind node = TestCase then (False, rt)
          else if \<not> tf_include_generated_artifacts filters \<and> n_kind node = Artifact \<and> is_generated_artifact node
            then (False, rt)
          else
            (case tf_environment_namespace filters of
               None \<Rightarrow> (True, rt)
             | Some namespace \<Rightarrow>
                 if n_kind node \<noteq> Deployment then (True, rt)
                 else
                   (case deployment_namespace (n_stable_key node) of
                      Some deployed \<Rightarrow> (deployed = namespace, rt)
                    | None \<Rightarrow> (False, rt\<lparr>tr_gaps := bs_insert
                        (''Deployment `'' @ n_id node @ ''` has no representable environment namespace.'') (tr_gaps rt)\<rparr>))))"

definition segment_is_cross_repo :: "traversal_graph \<Rightarrow> node_id \<Rightarrow> node_id \<Rightarrow> (query_error, bool) outcome" where
  "segment_is_cross_repo graph source target =
     and_then (ok_or (InconsistentPath source) (bt_get (tg_nodes graph) source)) (\<lambda>source_node.
     and_then (ok_or (InconsistentPath target) (bt_get (tg_nodes graph) target)) (\<lambda>target_node.
     Inr (n_repo_id source_node \<noteq> n_repo_id target_node)))"

definition edge_weight :: "edge \<Rightarrow> traversal_options \<Rightarrow> (query_error, f64) outcome" where
  "edge_weight edge options =
     (let base = (case find (\<lambda>item. kc_kind item = e_kind edge) (to_edge_kind_costs options) of
            None \<Rightarrow> f64_lit 1 | Some item \<Rightarrow> kc_cost item);
          confidence = fp_max (f64_from (e_confidence edge)) (f64_lit (1 / 100));
          weight = fp_div binary64 base confidence in
      if fp_is_finite weight \<and> fp_lt (Fin 0) weight then Inr weight else Inl (InvalidEdgeCost (e_kind edge)))"


subsection \<open>Expansion\<close>

text \<open>The body of the loop over the adjacent edges: leave the loop, continue with the next edge, or queue a state.\<close>

datatype expand_step = Stop traversal_runtime | Skip traversal_runtime | Push traversal_runtime path_state

definition expand_one ::
  "(nat \<Rightarrow> nat) \<Rightarrow> traversal_graph \<Rightarrow> traversal_request \<Rightarrow> path_state \<Rightarrow> node_id \<Rightarrow> adjacent \<Rightarrow> traversal_runtime
     \<Rightarrow> (query_error, expand_step) outcome" where
  "expand_one elapsed graph request state current a rt =
     (let options = tq_options request; (out, rt) = timed_out elapsed rt in
      if out then Inr (Stop rt)
      else
        let (ok, rt) = examine_edge (to_edge_limit options) rt in
        if \<not> ok then Inr (Stop rt)
        else if \<not> edge_passes_filters (ad_edge a) (tq_filters request) then Inr (Skip rt)
        else if e_status (ad_edge a) \<noteq> Confirmed then Inr (Skip (record_candidate (ad_edge a) rt))
        else if ad_next a \<in> set (st_nodes state) then Inr (Skip rt)
        else
          let (pass, rt) = node_passes_filters graph (ad_next a) (tq_filters request) rt in
          if \<not> pass then Inr (Skip rt)
          else and_then (segment_is_cross_repo graph current (ad_next a)) (\<lambda>cross_repo.
            if to_max_cross_repo_hops options < st_cross_repo_hops state + (if cross_repo then 1 else 0)
            then Inr (Skip (record_cross_repo_bound rt))
            else
              let (seen, rt) = observe_node (ad_next a) (to_node_limit options) rt in
              if \<not> seen then Inr (Skip rt)
              else and_then (edge_weight (ad_edge a) options) (\<lambda>weight.
                Inr (Push rt (path_state_extended state a weight cross_repo)))))"

fun expand_adjacent ::
  "(nat \<Rightarrow> nat) \<Rightarrow> traversal_graph \<Rightarrow> traversal_request \<Rightarrow> path_state \<Rightarrow> node_id \<Rightarrow> adjacent list \<Rightarrow> traversal_runtime
     \<Rightarrow> path_state list \<Rightarrow> (query_error, traversal_runtime \<times> path_state list) outcome" where
  "expand_adjacent elapsed graph request state current [] rt queue = Inr (rt, queue)"
| "expand_adjacent elapsed graph request state current (a # adjacents) rt queue =
     and_then (expand_one elapsed graph request state current a rt) (\<lambda>step.
       case step of
         Stop rt \<Rightarrow> Inr (rt, queue)
       | Skip rt \<Rightarrow> expand_adjacent elapsed graph request state current adjacents rt queue
       | Push rt next \<Rightarrow> expand_adjacent elapsed graph request state current adjacents rt (queue @ [next]))"

definition expand_bfs_state ::
  "(nat \<Rightarrow> nat) \<Rightarrow> traversal_graph \<Rightarrow> traversal_request \<Rightarrow> traversal_runtime \<Rightarrow> path_state \<Rightarrow> path_state list
     \<Rightarrow> (query_error, traversal_runtime \<times> path_state list) outcome" where
  "expand_bfs_state elapsed graph request rt state queue =
     (case path_state_current state of
        None \<Rightarrow> Inr (rt, queue)
      | Some current \<Rightarrow>
          expand_adjacent elapsed graph request state current
            (graph_adjacent graph current (to_direction (tq_options request))) rt queue)"

definition expand_weighted_state ::
  "(nat \<Rightarrow> nat) \<Rightarrow> traversal_graph \<Rightarrow> traversal_request \<Rightarrow> traversal_runtime \<Rightarrow> path_state \<Rightarrow> path_state list
     \<Rightarrow> (query_error, traversal_runtime \<times> path_state list) outcome" where
  "expand_weighted_state elapsed graph request rt state candidates =
     (case path_state_current state of
        None \<Rightarrow> Inr (rt, candidates)
      | Some current \<Rightarrow>
          expand_adjacent elapsed graph request state current
            (graph_adjacent graph current (to_direction (tq_options request))) rt candidates)"

fun materialize_segments ::
  "traversal_graph \<Rightarrow> path_state \<Rightarrow> traversal_request \<Rightarrow> nat \<Rightarrow> adjacent list \<Rightarrow> (query_error, path_segment list) outcome" where
  "materialize_segments graph state request index [] = Inr []"
| "materialize_segments graph state request index (step # steps) =
     and_then (ok_or (InconsistentPath (tq_start request))
       (if index < length (st_nodes state) then Some (st_nodes state ! index) else None)) (\<lambda>source_id.
     and_then (ok_or (InconsistentPath (tq_target request))
       (if index + 1 < length (st_nodes state) then Some (st_nodes state ! (index + 1)) else None)) (\<lambda>target_id.
     and_then (ok_or (InconsistentPath source_id) (bt_get (tg_nodes graph) source_id)) (\<lambda>source.
     and_then (ok_or (InconsistentPath target_id) (bt_get (tg_nodes graph) target_id)) (\<lambda>target.
     and_then (edge_weight (ad_edge step) (tq_options request)) (\<lambda>weight.
     and_then (materialize_segments graph state request (index + 1) steps) (\<lambda>segments.
       Inr (\<lparr>ps_trace = \<lparr>seg_source = source, seg_edge = ad_edge step, seg_target = target\<rparr>,
             ps_scope = (if n_repo_id source \<noteq> n_repo_id target then CrossRepository else LocalSegment),
             ps_reversed = ad_reversed step, ps_weight = weight\<rparr> # segments)))))))"

definition materialize_path :: "traversal_graph \<Rightarrow> path_state \<Rightarrow> traversal_request \<Rightarrow> (query_error, traversal_path) outcome" where
  "materialize_path graph state request =
     and_then (materialize_segments graph state request 0 (st_steps state)) (\<lambda>segments.
       Inr \<lparr>tp_segments = segments, tp_total_weight = st_total_weight state,
            tp_cross_repo_hops = st_cross_repo_hops state\<rparr>)"

subsection \<open>The work that is left\<close>

text \<open>Every state that is queued was paid for with an examined edge.\<close>

definition work_left :: "traversal_request \<Rightarrow> traversal_runtime \<Rightarrow> path_state list \<Rightarrow> nat" where
  "work_left request rt queue = (to_edge_limit (tq_options request) - tr_examined rt) + length queue"

lemma runtime_examined [simp]:
  "tr_examined (snd (timed_out elapsed rt)) = tr_examined rt"
  "tr_examined (snd (observe_node node_id limit rt)) = tr_examined rt"
  "tr_examined (record_frontier node_id depth rt) = tr_examined rt"
  "tr_examined (record_candidate edge rt) = tr_examined rt"
  "tr_examined (record_depth_bound rt) = tr_examined rt"
  "tr_examined (record_cross_repo_bound rt) = tr_examined rt"
  "tr_examined (snd (node_passes_filters graph node_id filters rt)) = tr_examined rt"
  by (auto simp: timed_out_def observe_node_def record_frontier_def record_candidate_def record_depth_bound_def
      record_cross_repo_bound_def truncate_with_def node_passes_filters_def Let_def split: option.splits)

lemma expand_one_examined:
  assumes "expand_one elapsed graph request state current a rt = Inr step"
  shows "case step of
     Stop rt' \<Rightarrow> tr_examined rt' = tr_examined rt
   | Skip rt' \<Rightarrow> tr_examined rt' = tr_examined rt + 1 \<and> tr_examined rt < to_edge_limit (tq_options request)
   | Push rt' _ \<Rightarrow> tr_examined rt' = tr_examined rt + 1 \<and> tr_examined rt < to_edge_limit (tq_options request)"
  using assms
  by (auto simp: expand_one_def examine_edge_def truncate_with_def Let_def split_beta split: if_splits)

lemma expand_adjacent_work:
  "expand_adjacent elapsed graph request state current as rt queue = Inr (rt', queue') \<Longrightarrow>
     work_left request rt' queue' \<le> work_left request rt queue"
proof (induction as arbitrary: rt queue)
  case (Cons a as)
  then obtain step where step: "expand_one elapsed graph request state current a rt = Inr step" by auto
  show ?case
    using expand_one_examined [OF step] Cons.prems step
    by (cases step) (auto simp: work_left_def dest!: Cons.IH)
qed (simp add: work_left_def)


subsection \<open>The loops\<close>

lemma expand_work:
  "expand_bfs_state elapsed graph request rt state queue = Inr (rt', queue') \<Longrightarrow>
     work_left request rt' queue' \<le> work_left request rt queue"
  "expand_weighted_state elapsed graph request rt state queue = Inr (rt', queue') \<Longrightarrow>
     work_left request rt' queue' \<le> work_left request rt queue"
  by (auto simp: expand_bfs_state_def expand_weighted_state_def split: option.splits dest: expand_adjacent_work)

lemma work_left_runtime [simp]:
  "work_left request (snd (timed_out elapsed rt)) queue = work_left request rt queue"
  "work_left request (record_frontier node_id depth rt) queue = work_left request rt queue"
  "work_left request (record_depth_bound rt) queue = work_left request rt queue"
  by (simp_all add: work_left_def)

function bfs_search ::
  "(nat \<Rightarrow> nat) \<Rightarrow> traversal_graph \<Rightarrow> traversal_request \<Rightarrow> path_state list \<Rightarrow> traversal_runtime
     \<Rightarrow> (query_error, traversal_path list \<times> traversal_runtime) outcome" where
  "bfs_search elapsed graph request [] rt = Inr ([], rt)"
| "bfs_search elapsed graph request (state # queue) rt =
     (if fst (timed_out elapsed rt) then Inr ([], snd (timed_out elapsed rt))
      else
        case path_state_current state of
          None \<Rightarrow> bfs_search elapsed graph request queue (snd (timed_out elapsed rt))
        | Some current \<Rightarrow>
            if current = tq_target request then
              and_then (materialize_path graph state request) (\<lambda>path.
                Inr ([path], record_frontier current (length (st_steps state)) (snd (timed_out elapsed rt))))
            else if to_max_depth (tq_options request) \<le> length (st_steps state) then
              bfs_search elapsed graph request queue
                (record_depth_bound (record_frontier current (length (st_steps state)) (snd (timed_out elapsed rt))))
            else
              and_then (expand_bfs_state elapsed graph request
                  (record_frontier current (length (st_steps state)) (snd (timed_out elapsed rt))) state queue)
                (\<lambda>nxt. if tr_stopped (fst nxt) \<and> snd nxt = [] then Inr ([], fst nxt)
                   else bfs_search elapsed graph request (snd nxt) (fst nxt)))"
  by pat_completeness auto
termination
proof (relation "measure (\<lambda>(elapsed, graph, request, queue, rt). work_left request rt queue)", goal_cases)
  case (4 elapsed graph request state queue rt current nxt)
  then show ?case using expand_work(1) [of elapsed graph request _ state queue "fst nxt" "snd nxt"]
    by (fastforce simp: work_left_def)
qed (simp_all add: work_left_def)

definition bfs ::
  "(nat \<Rightarrow> nat) \<Rightarrow> traversal_graph \<Rightarrow> traversal_request \<Rightarrow> traversal_runtime
     \<Rightarrow> (query_error, traversal_path list \<times> traversal_runtime) outcome" where
  "bfs elapsed graph request rt = bfs_search elapsed graph request [path_state_start (tq_start request)] rt"

definition path_state_order :: "path_state \<Rightarrow> f64 \<times> node_id list \<times> edge_id list \<times> bool list" where
  "path_state_order state =
     (st_total_weight state, st_nodes state, map (\<lambda>step. e_id (ad_edge step)) (st_steps state),
      map ad_reversed (st_steps state))"

definition select_best_state :: "path_state list \<Rightarrow> nat" where
  "select_best_state candidates =
     fold (\<lambda>index best. if path_state_order (candidates ! index) < path_state_order (candidates ! best) then index else best)
       [1..<length candidates] 0"

definition remove_at :: "nat \<Rightarrow> 'a list \<Rightarrow> 'a list" where
  "remove_at i xs = take i xs @ drop (i + 1) xs"

lemma select_best_bound: "candidates \<noteq> [] \<Longrightarrow> select_best_state candidates < length candidates"
proof -
  assume "candidates \<noteq> []"
  then have "fold (\<lambda>index best. if P index best then index else best) [1..<n] 0 < length candidates"
    if "n \<le> length candidates" for P n
    using that by (induction n) (auto simp: upt_Suc_append le_Suc_eq)
  then show ?thesis by (simp add: select_best_state_def)
qed

lemma length_remove_at [simp]: "i < length xs \<Longrightarrow> length (remove_at i xs) = length xs - 1"
  by (simp add: remove_at_def)

function weighted_loop ::
  "(nat \<Rightarrow> nat) \<Rightarrow> traversal_graph \<Rightarrow> traversal_request \<Rightarrow> nat \<Rightarrow> path_state list \<Rightarrow> traversal_path list \<Rightarrow> traversal_runtime
     \<Rightarrow> (query_error, traversal_path list \<times> traversal_runtime) outcome" where
  "weighted_loop elapsed graph request wanted candidates paths rt =
     (if candidates = [] \<or> wanted \<le> length paths then Inr (paths, rt)
      else if fst (timed_out elapsed rt) then Inr (paths, snd (timed_out elapsed rt))
      else
        let state = candidates ! select_best_state candidates;
            rest = remove_at (select_best_state candidates) candidates in
        case path_state_current state of
          None \<Rightarrow> weighted_loop elapsed graph request wanted rest paths (snd (timed_out elapsed rt))
        | Some current \<Rightarrow>
            if current = tq_target request then
              and_then (materialize_path graph state request) (\<lambda>path.
                weighted_loop elapsed graph request wanted rest (paths @ [path])
                  (record_frontier current (length (st_steps state)) (snd (timed_out elapsed rt))))
            else if to_max_depth (tq_options request) \<le> length (st_steps state) then
              weighted_loop elapsed graph request wanted rest paths
                (record_depth_bound (record_frontier current (length (st_steps state)) (snd (timed_out elapsed rt))))
            else
              and_then (expand_weighted_state elapsed graph request
                  (record_frontier current (length (st_steps state)) (snd (timed_out elapsed rt))) state rest)
                (\<lambda>nxt. weighted_loop elapsed graph request wanted (snd nxt) paths (fst nxt)))"
  by pat_completeness auto
termination
proof (relation "measure (\<lambda>(elapsed, graph, request, wanted, candidates, paths, rt). work_left request rt candidates)", goal_cases)
  case (5 elapsed graph request wanted candidates paths rt state rest current nxt)
  then have "work_left request (fst nxt) (snd nxt) \<le> work_left request rt rest"
    using expand_work(2) [of elapsed graph request _ state rest "fst nxt" "snd nxt"] by fastforce
  moreover have "length rest < length candidates" using 5 select_best_bound [of candidates] by simp
  ultimately show ?case by (simp add: work_left_def)
qed (simp_all add: work_left_def select_best_bound)

declare weighted_loop.simps [simp del]

definition path_order :: "traversal_path \<Rightarrow> f64 \<times> nat \<times> edge_id list \<times> node_id list" where
  "path_order path =
     (tp_total_weight path, length (tp_segments path), map (\<lambda>s. e_id (seg_edge (ps_trace s))) (tp_segments path),
      map (\<lambda>s. n_id (seg_target (ps_trace s))) (tp_segments path))"

definition weighted_paths ::
  "(nat \<Rightarrow> nat) \<Rightarrow> traversal_graph \<Rightarrow> traversal_request \<Rightarrow> traversal_runtime \<Rightarrow> nat
     \<Rightarrow> (query_error, traversal_path list \<times> traversal_runtime) outcome" where
  "weighted_paths elapsed graph request rt wanted =
     and_then (weighted_loop elapsed graph request wanted [path_state_start (tq_start request)] [] rt)
       (\<lambda>(paths, rt). Inr (sort_key path_order paths, rt))"

subsection \<open>The report\<close>

definition build_traversal_report ::
  "traversal_graph \<Rightarrow> traversal_request \<Rightarrow> traversal_runtime \<Rightarrow> traversal_path list \<Rightarrow> (query_error, traversal_report) outcome" where
  "build_traversal_report graph request rt paths =
     (let gaps = tr_gaps rt;
          gaps = (if paths = []
            then bs_insert ''No confirmed path was observed within available coverage and bounds.'' gaps else gaps);
          gaps = (if tr_candidate_edges rt \<noteq> []
            then bs_insert ''Unresolved candidate edges were excluded from confirmed paths.'' gaps else gaps);
          options = tq_options request in
      and_then (collect_all (\<lambda>node_id. ok_or (InconsistentPath node_id) (bt_get (tg_nodes graph) node_id)) (tr_frontier_ids rt))
        (\<lambda>frontier.
          Inr \<lparr>tr_paths = paths, tr_frontier = frontier, tr_candidate_unresolved_edges = bt_values (tr_candidate_edges rt),
               tr_coverage_gaps = gaps, tr_truncated = tr_stopped rt, tr_visited_nodes = length (tr_observed_nodes rt),
               tr_examined_edges = tr_examined rt,
               tr_limits = \<lparr>tl_max_depth = to_max_depth options, tl_max_cross_repo_hops = to_max_cross_repo_hops options,
                 tl_node_limit = to_node_limit options, tl_edge_limit = to_edge_limit options,
                 tl_timeout_ms = to_timeout_ms options,
                 tl_max_paths = (if to_algorithm options = KShortest then to_k options else 1)\<rparr>\<rparr>))"

definition find_paths ::
  "(nat \<Rightarrow> nat) \<Rightarrow> traversal_graph \<Rightarrow> traversal_request \<Rightarrow> traversal_runtime
     \<Rightarrow> (query_error, traversal_path list \<times> traversal_runtime) outcome" where
  "find_paths elapsed graph request rt =
     (if tq_start request = tq_target request then
        Inr ([\<lparr>tp_segments = [], tp_total_weight = Fin 0, tp_cross_repo_hops = 0\<rparr>], rt)
      else
        case to_algorithm (tq_options request) of
          Bfs \<Rightarrow> bfs elapsed graph request rt
        | Dijkstra \<Rightarrow> weighted_paths elapsed graph request rt 1
        | KShortest \<Rightarrow> weighted_paths elapsed graph request rt (to_k (tq_options request)))"

definition traverse ::
  "(nat \<Rightarrow> nat) \<Rightarrow> node list \<Rightarrow> edge list \<Rightarrow> traversal_request \<Rightarrow> (query_error, traversal_report) outcome" where
  "traverse elapsed nodes edges request =
     and_then (validate_traversal_request request) (\<lambda>_.
     and_then (traversal_graph_new nodes edges) (\<lambda>graph.
     and_then (require_anchor graph (tq_start request)) (\<lambda>_.
     and_then (require_anchor graph (tq_target request)) (\<lambda>_.
     and_then (find_paths elapsed graph request (traversal_runtime_new request)) (\<lambda>(paths, rt).
       build_traversal_report graph request rt paths)))))"

end
