(* ===== verification/Traversal_Paths.thy ===== *)
theory Traversal_Paths
  imports Traversal "HOL-Library.Sublist" "HOL-Library.Multiset"
begin

text \<open>
  Correctness of the bounded search of \<open>query.rs\<close>. The breadth-first loop and the weighted loop are runs of one
  state machine that differ in which queued state they take next. Its invariants are proved once, in the locale
  \<open>queue_discipline\<close> (what is queued is a trail; what is not queued was found; no path is built twice), and in its
  extension \<open>best_first\<close> (what is found comes before what is queued); both loops interpret it.
\<close>

subsection \<open>Trails\<close>

definition node_ok :: "traversal_graph \<Rightarrow> traversal_filters \<Rightarrow> node_id \<Rightarrow> bool" where
  "node_ok graph filters node_id \<longleftrightarrow>
     (\<exists>node. bt_get (tg_nodes graph) node_id = Some node
        \<and> (tf_include_tests filters \<or> n_kind node \<noteq> TestCase)
        \<and> (tf_include_generated_artifacts filters \<or> n_kind node \<noteq> Artifact \<or> \<not> is_generated_artifact node)
        \<and> (tf_environment_namespace filters = None \<or> n_kind node \<noteq> Deployment
           \<or> deployment_namespace (n_stable_key node) = tf_environment_namespace filters))"

text \<open>One admissible step: a confirmed edge that passes the filters, to a node that is not on the path yet.\<close>

definition extends :: "traversal_graph \<Rightarrow> traversal_request \<Rightarrow> path_state \<Rightarrow> path_state \<Rightarrow> bool" where
  "extends graph request s t \<longleftrightarrow>
     st_nodes s \<noteq> [] \<and> (\<exists>a weight cross_repo.
       a \<in> set (graph_adjacent graph (last (st_nodes s)) (to_direction (tq_options request)))
       \<and> edge_passes_filters (ad_edge a) (tq_filters request) \<and> e_status (ad_edge a) = Confirmed
       \<and> ad_next a \<notin> set (st_nodes s) \<and> node_ok graph (tq_filters request) (ad_next a)
       \<and> segment_is_cross_repo graph (last (st_nodes s)) (ad_next a) = Inr cross_repo
       \<and> edge_weight (ad_edge a) (tq_options request) = Inr weight
       \<and> t = path_state_extended s a weight cross_repo)"

definition trail :: "traversal_graph \<Rightarrow> traversal_request \<Rightarrow> path_state \<Rightarrow> bool" where
  "trail graph request s \<longleftrightarrow> (extends graph request)\<^sup>*\<^sup>* (path_state_start (tq_start request)) s"

definition at_target :: "traversal_request \<Rightarrow> path_state \<Rightarrow> bool" where
  "at_target request s \<longleftrightarrow> path_state_current s = Some (tq_target request)"

lemma node_passes_filters_eq: "fst (node_passes_filters graph node_id filters rt) \<longleftrightarrow> node_ok graph filters node_id"
  by (auto simp: node_passes_filters_def node_ok_def split: option.splits)

lemma extended_simps [simp]:
  "st_nodes (path_state_extended s a w c) = st_nodes s @ [ad_next a]"
  "st_steps (path_state_extended s a w c) = st_steps s @ [a]"
  "st_total_weight (path_state_extended s a w c) = fp_add binary64 (st_total_weight s) w"
  "st_cross_repo_hops (path_state_extended s a w c) = st_cross_repo_hops s + (if c then 1 else 0)"
  by (simp_all add: path_state_extended_def)

lemma start_simps [simp]:
  "st_nodes (path_state_start u) = [u]" "st_steps (path_state_start u) = []"
  "st_total_weight (path_state_start u) = Fin 0" "st_cross_repo_hops (path_state_start u) = 0"
  by (simp_all add: path_state_start_def)

lemma trail_start [simp]: "trail graph request (path_state_start (tq_start request))"
  by (simp add: trail_def)

lemma trail_extends: "trail graph request s \<Longrightarrow> extends graph request s t \<Longrightarrow> trail graph request t"
  by (simp add: trail_def)

lemma trail_induct [consumes 1, case_names start step]:
  assumes "trail graph request s" and "P (path_state_start (tq_start request))"
    and "\<And>s t. trail graph request s \<Longrightarrow> P s \<Longrightarrow> extends graph request s t \<Longrightarrow> P t"
  shows "P s"
  using assms(1) unfolding trail_def
proof (induction rule: rtranclp_induct)
  case (step y z)
  then show ?case using assms(3) by (simp add: trail_def)
qed (rule assms(2))

lemma extends_grows: "extends graph request s t \<Longrightarrow> \<exists>n. st_nodes t = st_nodes s @ [n] \<and> n \<notin> set (st_nodes s)"
  by (auto simp: extends_def)

lemma trail_nodes:
  assumes "trail graph request s"
  shows "st_nodes s \<noteq> [] \<and> distinct (st_nodes s) \<and> hd (st_nodes s) = tq_start request
     \<and> length (st_nodes s) = length (st_steps s) + 1"
  using assms
proof (induction rule: trail_induct)
  case (step s t)
  then show ?case by (auto simp: extends_def)
qed simp

lemma extends_chain_nodes:
  "(extends graph request)\<^sup>*\<^sup>* s t \<Longrightarrow> \<exists>more. st_nodes t = st_nodes s @ more"
proof (induction rule: rtranclp_induct)
  case (step y z)
  then show ?case using extends_grows [OF step(2)] by auto
qed simp

lemma target_final:
  assumes "trail graph request s" "at_target request s" "(extends graph request)\<^sup>*\<^sup>* s t" "at_target request t"
  shows "t = s"
proof (rule ccontr)
  assume "t \<noteq> s"
  then obtain u where u: "extends graph request s u" "(extends graph request)\<^sup>*\<^sup>* u t"
    using assms(3) by (metis converse_rtranclpE)
  obtain n where n: "st_nodes u = st_nodes s @ [n]" using extends_grows [OF u(1)] by blast
  obtain more where more: "st_nodes t = st_nodes u @ more" using extends_chain_nodes [OF u(2)] by blast
  have "trail graph request t" using assms(1,3) unfolding trail_def by (rule rtranclp_trans)
  then have "distinct (st_nodes t)" by (simp add: trail_nodes)
  moreover have "last (st_nodes s) = tq_target request" "last (st_nodes t) = tq_target request" "st_nodes s \<noteq> []"
    using assms(2,4) by (auto simp: at_target_def path_state_current_def split: if_splits)
  moreover have "last (st_nodes t) \<in> set ([n] @ more)" using n more by (simp add: last_append)
  moreover have "last (st_nodes s) \<in> set (st_nodes s)" using \<open>st_nodes s \<noteq> []\<close> by simp
  ultimately show False using n more by auto
qed

subsection \<open>Expansion\<close>

definition within_hops :: "traversal_request \<Rightarrow> path_state \<Rightarrow> bool" where
  "within_hops request s \<longleftrightarrow> st_cross_repo_hops s \<le> to_max_cross_repo_hops (tq_options request)"

lemma runtime_stopped [simp]:
  "tr_stopped rt \<Longrightarrow> tr_stopped (snd (timed_out elapsed rt))"
  "fst (timed_out elapsed rt) \<Longrightarrow> tr_stopped (snd (timed_out elapsed rt))"
  "tr_stopped rt \<Longrightarrow> tr_stopped (snd (examine_edge limit rt))"
  "\<not> fst (examine_edge limit rt) \<Longrightarrow> tr_stopped (snd (examine_edge limit rt))"
  "tr_stopped rt \<Longrightarrow> tr_stopped (snd (observe_node n nl rt))"
  "\<not> fst (observe_node n nl rt) \<Longrightarrow> tr_stopped (snd (observe_node n nl rt))"
  "tr_stopped (record_frontier n d rt) = tr_stopped rt"
  "tr_stopped (record_candidate e rt) = tr_stopped rt"
  "tr_stopped (record_depth_bound rt)"
  "tr_stopped (record_cross_repo_bound rt)"
  "tr_stopped (snd (node_passes_filters graph n f rt)) = tr_stopped rt"
  by (auto simp: timed_out_def examine_edge_def observe_node_def record_frontier_def record_candidate_def
      record_depth_bound_def record_cross_repo_bound_def truncate_with_def node_passes_filters_def Let_def split: option.splits if_splits)

lemma extends_extended:
  "extends graph request s (path_state_extended s a w c) \<longleftrightarrow>
     st_nodes s \<noteq> [] \<and> a \<in> set (graph_adjacent graph (last (st_nodes s)) (to_direction (tq_options request)))
     \<and> edge_passes_filters (ad_edge a) (tq_filters request) \<and> e_status (ad_edge a) = Confirmed
     \<and> ad_next a \<notin> set (st_nodes s) \<and> node_ok graph (tq_filters request) (ad_next a)
     \<and> (\<exists>w' c'. segment_is_cross_repo graph (last (st_nodes s)) (ad_next a) = Inr c'
          \<and> edge_weight (ad_edge a) (tq_options request) = Inr w'
          \<and> path_state_extended s a w c = path_state_extended s a w' c')"
proof -
  have "a = a'" if "path_state_extended s a w c = path_state_extended s a' w' c'" for a' w' c'
    using that by (simp add: path_state_extended_def)
  then show ?thesis unfolding extends_def by blast
qed

lemma expand_one_result:
  assumes "expand_one elapsed graph request state (last (st_nodes state)) a rt = Inr step" and "st_nodes state \<noteq> []"
    and "a \<in> set (graph_adjacent graph (last (st_nodes state)) (to_direction (tq_options request)))"
  shows "case step of
     Stop rt' \<Rightarrow> tr_stopped rt'
   | Skip rt' \<Rightarrow> (tr_stopped rt \<longrightarrow> tr_stopped rt')
       \<and> (\<not> tr_stopped rt' \<longrightarrow> \<not> (\<exists>w c. extends graph request state (path_state_extended state a w c)))
   | Push rt' t \<Rightarrow> (tr_stopped rt \<longrightarrow> tr_stopped rt') \<and> extends graph request state t \<and> within_hops request t
       \<and> (\<forall>w c. extends graph request state (path_state_extended state a w c) \<longrightarrow> path_state_extended state a w c = t)"
  using assms
  by (auto simp: expand_one_def Let_def split_beta node_passes_filters_eq extends_extended within_hops_def
      split: if_splits)

lemma graph_adjacent_distinct: "distinct (graph_adjacent graph u direction)"
proof -
  let ?all = "(if direction = Outgoing \<or> direction = Both
      then map (\<lambda>edge. \<lparr>ad_edge = edge, ad_next = e_target edge, ad_reversed = False\<rparr>) (bt_group (tg_outgoing graph) u) else [])
    @ (if direction = Incoming \<or> direction = Both
      then map (\<lambda>edge. \<lparr>ad_edge = edge, ad_next = e_source edge, ad_reversed = True\<rparr>) (bt_group (tg_incoming graph) u) else [])"
  have "graph_adjacent graph u direction = dedup_by (\<lambda>x y. adjacent_order x = adjacent_order y) (sort_key adjacent_order ?all)"
    by (simp add: graph_adjacent_def Let_def adjacent_order_def)
  moreover have "sorted_wrt (<) (map adjacent_order (dedup_by (\<lambda>x y. adjacent_order x = adjacent_order y) (sort_key adjacent_order ?all)))"
    by (rule dedup_sorted(1)) simp
  ultimately show ?thesis by (metis distinct_map strict_sorted_iff)
qed

lemma expand_adjacent_result:
  assumes "expand_adjacent elapsed graph request state (last (st_nodes state)) as rt queue = Inr (rt', queue')"
    and "st_nodes state \<noteq> []"
    and "set as \<subseteq> set (graph_adjacent graph (last (st_nodes state)) (to_direction (tq_options request)))"
  shows "(tr_stopped rt \<longrightarrow> tr_stopped rt') \<and> (\<exists>new. queue' = queue @ new
     \<and> (\<forall>t \<in> set new. extends graph request state t \<and> within_hops request t \<and> last (st_steps t) \<in> set as)
     \<and> (distinct as \<longrightarrow> distinct (map st_steps new))
     \<and> (\<not> tr_stopped rt' \<longrightarrow> (\<forall>a \<in> set as. \<forall>w c. extends graph request state (path_state_extended state a w c)
          \<longrightarrow> path_state_extended state a w c \<in> set new)))"
  using assms
proof (induction as arbitrary: rt queue)
  case (Cons a as)
  obtain step where step: "expand_one elapsed graph request state (last (st_nodes state)) a rt = Inr step"
    using Cons.prems(1) by auto
  note one = expand_one_result [OF step Cons.prems(2)]
  show ?case
  proof (cases step)
    case (Stop rt1)
    then show ?thesis using Cons.prems step one by auto
  next
    case (Skip rt1)
    then show ?thesis using Cons.prems step one Cons.IH [of rt1 queue] by fastforce
  next
    case (Push rt1 t)
    have last: "last (st_steps t) = a" using step Push
      by (auto simp: expand_one_def Let_def split_beta split: if_splits)
    have "expand_adjacent elapsed graph request state (last (st_nodes state)) as rt1 (queue @ [t]) = Inr (rt', queue')"
      using Cons.prems(1) step Push by simp
    then obtain new where new: "tr_stopped rt1 \<longrightarrow> tr_stopped rt'" "queue' = (queue @ [t]) @ new"
        "\<forall>t \<in> set new. extends graph request state t \<and> within_hops request t \<and> last (st_steps t) \<in> set as"
        "distinct as \<longrightarrow> distinct (map st_steps new)"
        "\<not> tr_stopped rt' \<longrightarrow> (\<forall>a \<in> set as. \<forall>w c. extends graph request state (path_state_extended state a w c)
          \<longrightarrow> path_state_extended state a w c \<in> set new)"
      using Cons.IH [of rt1 "queue @ [t]"] Cons.prems(2,3) by auto
    have pushed: "tr_stopped rt \<longrightarrow> tr_stopped rt1" "extends graph request state t" "within_hops request t"
        "\<forall>w c. extends graph request state (path_state_extended state a w c) \<longrightarrow> path_state_extended state a w c = t"
      using one Push Cons.prems(3) by simp_all
    have "distinct (a # as) \<longrightarrow> distinct (map st_steps (t # new))" using new(3,4) last by auto
    then show ?thesis
      using new pushed last by (intro conjI exI [of _ "t # new"]) auto
  qed
qed simp

lemma expand_result:
  assumes "expand_adjacent elapsed graph request state (last (st_nodes state))
      (graph_adjacent graph (last (st_nodes state)) (to_direction (tq_options request))) rt queue = Inr (rt', queue')"
    and "st_nodes state \<noteq> []"
  shows "tr_stopped rt \<longrightarrow> tr_stopped rt'" and "\<exists>new. queue' = queue @ new
     \<and> (\<forall>t \<in> set new. extends graph request state t \<and> within_hops request t) \<and> distinct (map st_steps new)
     \<and> (\<not> tr_stopped rt' \<longrightarrow> (\<forall>t. extends graph request state t \<longrightarrow> t \<in> set new))"
proof -
  note result = expand_adjacent_result [OF assms order_refl]
  show "tr_stopped rt \<longrightarrow> tr_stopped rt'" using result by blast
  obtain new where new: "queue' = queue @ new"
      "\<forall>t \<in> set new. extends graph request state t \<and> within_hops request t" "distinct (map st_steps new)"
      "\<not> tr_stopped rt' \<longrightarrow> (\<forall>a \<in> set (graph_adjacent graph (last (st_nodes state)) (to_direction (tq_options request))).
          \<forall>w c. extends graph request state (path_state_extended state a w c) \<longrightarrow> path_state_extended state a w c \<in> set new)"
    using result graph_adjacent_distinct by blast
  have "t \<in> set new" if t: "extends graph request state t" and live: "\<not> tr_stopped rt'" for t
  proof -
    obtain a w c where a: "t = path_state_extended state a w c"
        "a \<in> set (graph_adjacent graph (last (st_nodes state)) (to_direction (tq_options request)))"
      using t unfolding extends_def by blast
    then show ?thesis using new(4) live t by simp
  qed
  then show "\<exists>new. queue' = queue @ new
     \<and> (\<forall>t \<in> set new. extends graph request state t \<and> within_hops request t) \<and> distinct (map st_steps new)
     \<and> (\<not> tr_stopped rt' \<longrightarrow> (\<forall>t. extends graph request state t \<longrightarrow> t \<in> set new))"
    using new(1-3) by blast
qed

subsection \<open>The search as a state machine\<close>

type_synonym search_config = "path_state list \<times> path_state list \<times> traversal_runtime"

text \<open>
  Both loops are runs of one machine: the queued states, the states that reached the target, and the runtime.
  \<open>pick\<close> is the position the loop takes from the queue.
\<close>

inductive search_step ::
  "(nat \<Rightarrow> nat) \<Rightarrow> traversal_graph \<Rightarrow> traversal_request \<Rightarrow> (path_state list \<Rightarrow> nat) \<Rightarrow> search_config \<Rightarrow> search_config \<Rightarrow> bool"
  for elapsed graph request pick where
  expire: "queue \<noteq> [] \<Longrightarrow> timed_out elapsed rt = (True, rt') \<Longrightarrow>
     search_step elapsed graph request pick (queue, found, rt) ([], found, rt')"
| find: "queue \<noteq> [] \<Longrightarrow> timed_out elapsed rt = (False, rt') \<Longrightarrow> at_target request (queue ! pick queue) \<Longrightarrow>
     search_step elapsed graph request pick (queue, found, rt)
       (remove_at (pick queue) queue, found @ [queue ! pick queue],
        record_frontier (tq_target request) (length (st_steps (queue ! pick queue))) rt')"
| bound: "queue \<noteq> [] \<Longrightarrow> timed_out elapsed rt = (False, rt') \<Longrightarrow> \<not> at_target request (queue ! pick queue) \<Longrightarrow>
     to_max_depth (tq_options request) \<le> length (st_steps (queue ! pick queue)) \<Longrightarrow>
     search_step elapsed graph request pick (queue, found, rt)
       (remove_at (pick queue) queue, found,
        record_depth_bound (record_frontier (last (st_nodes (queue ! pick queue))) (length (st_steps (queue ! pick queue))) rt'))"
| expand: "queue \<noteq> [] \<Longrightarrow> timed_out elapsed rt = (False, rt') \<Longrightarrow> \<not> at_target request (queue ! pick queue) \<Longrightarrow>
     length (st_steps (queue ! pick queue)) < to_max_depth (tq_options request) \<Longrightarrow>
     expand_adjacent elapsed graph request (queue ! pick queue) (last (st_nodes (queue ! pick queue)))
       (graph_adjacent graph (last (st_nodes (queue ! pick queue))) (to_direction (tq_options request)))
       (record_frontier (last (st_nodes (queue ! pick queue))) (length (st_steps (queue ! pick queue))) rt')
       (remove_at (pick queue) queue) = Inr (rt'', queue') \<Longrightarrow>
     search_step elapsed graph request pick (queue, found, rt) (queue', found, rt'')"

definition searches ::
  "(nat \<Rightarrow> nat) \<Rightarrow> traversal_graph \<Rightarrow> traversal_request \<Rightarrow> (path_state list \<Rightarrow> nat) \<Rightarrow> search_config \<Rightarrow> search_config \<Rightarrow> bool" where
  "searches elapsed graph request pick = (search_step elapsed graph request pick)\<^sup>*\<^sup>*"

definition states_nonempty :: "path_state list \<Rightarrow> bool" where
  "states_nonempty queue \<longleftrightarrow> (\<forall>s \<in> set queue. st_nodes s \<noteq> [])"

lemma current_nonempty: "st_nodes s \<noteq> [] \<Longrightarrow> path_state_current s = Some (last (st_nodes s))"
  by (simp add: path_state_current_def)

lemma set_remove_at: "set (remove_at i xs) \<subseteq> set xs"
  by (auto simp: remove_at_def dest: in_set_takeD in_set_dropD)

lemma set_remove_at_nth: "i < length xs \<Longrightarrow> set xs = insert (xs ! i) (set (remove_at i xs))"
  unfolding remove_at_def by (subst id_take_nth_drop [of i xs]) auto

lemma searches_step:
  "search_step elapsed graph request pick c d \<Longrightarrow> searches elapsed graph request pick d e \<Longrightarrow> searches elapsed graph request pick c e"
  by (simp add: searches_def converse_rtranclp_into_rtranclp)

lemma searches_refl [simp]: "searches elapsed graph request pick c c"
  by (simp add: searches_def)

text \<open>How a loop ends: with enough paths, with nothing queued, or stopped by a bound.\<close>

definition finished :: "nat \<Rightarrow> search_config \<Rightarrow> bool" where
  "finished wanted config = (case config of (queue, found, rt) \<Rightarrow> queue = [] \<or> wanted \<le> length found)"

definition renders :: "traversal_graph \<Rightarrow> traversal_request \<Rightarrow> path_state list \<Rightarrow> traversal_path list \<Rightarrow> bool" where
  "renders graph request found paths \<longleftrightarrow> list_all2 (\<lambda>s p. materialize_path graph s request = Inr p) found paths"

lemma search_step_work:
  assumes "search_step elapsed graph request pick (queue, found, rt) (queue', found', rt')" and "pick queue < length queue"
  shows "work_left request rt' queue' < work_left request rt queue"
proof -
  have clock: "tr_examined r = tr_examined rt" if "timed_out elapsed rt = (b, r)" for b r
    using that runtime_examined(1) [of elapsed rt] by simp
  have shorter: "length (remove_at (pick queue) queue) < length queue"
    using assms(2) by (cases queue) simp_all
  show ?thesis
    using assms(1)
  proof cases
    case (expand rt1)
    then have "work_left request rt' queue' \<le> work_left request rt1 (remove_at (pick queue) queue)"
      using expand_adjacent_work by fastforce
    then show ?thesis using clock [of False rt1] expand shorter by (simp add: work_left_def)
  qed (use clock shorter assms(2) in \<open>auto simp: work_left_def\<close>)
qed

lemma expanded_nonempty:
  assumes "expand_adjacent elapsed graph request state (last (st_nodes state))
      (graph_adjacent graph (last (st_nodes state)) (to_direction (tq_options request))) rt queue = Inr (rt', queue')"
    and "st_nodes state \<noteq> []" and "states_nonempty queue"
  shows "states_nonempty queue'"
  using expand_result(2) [OF assms(1,2)] assms(3) extends_grows by (fastforce simp: states_nonempty_def)

lemma search_step_nonempty:
  assumes "search_step elapsed graph request pick (queue, found, rt) (queue', found', rt')" and "pick queue < length queue"
    and "states_nonempty queue"
  shows "states_nonempty queue'"
proof -
  have rest: "states_nonempty (remove_at (pick queue) queue)"
    using assms(3) set_remove_at [of "pick queue" queue] by (auto simp: states_nonempty_def)
  have picked: "st_nodes (queue ! pick queue) \<noteq> []" using assms(2,3) by (simp add: states_nonempty_def)
  from assms(1) show ?thesis
  proof cases
    case (expand rt1)
    then show ?thesis using expanded_nonempty [OF _ picked rest] by blast
  qed (use rest in \<open>auto simp: states_nonempty_def\<close>)
qed

text \<open>One iteration of a loop is one step of the machine.\<close>

lemma bfs_search_one:
  assumes "bfs_search elapsed graph request (state # queue) rt = Inr (paths, rt')" and "st_nodes state \<noteq> []"
  shows "\<exists>queue' found rt1. search_step elapsed graph request (\<lambda>_. 0) (state # queue, [], rt) (queue', found, rt1)
     \<and> (found = [] \<and> bfs_search elapsed graph request queue' rt1 = Inr (paths, rt')
        \<or> found = [state] \<and> rt1 = rt' \<and> renders graph request found paths)"
proof -
  note state = current_nonempty [OF assms(2)]
  have tail: "remove_at 0 (state # queue) = queue" by (simp add: remove_at_def)
  obtain out rt1 where clock: "timed_out elapsed rt = (out, rt1)" by fastforce
  let ?rt2 = "record_frontier (last (st_nodes state)) (length (st_steps state)) rt1"
  let ?c = "(state # queue, [], rt)"
  consider (expired) "out" | (target) "\<not> out" "last (st_nodes state) = tq_target request"
    | (deep) "\<not> out" "last (st_nodes state) \<noteq> tq_target request" "to_max_depth (tq_options request) \<le> length (st_steps state)"
    | (open_state) "\<not> out" "last (st_nodes state) \<noteq> tq_target request" "length (st_steps state) < to_max_depth (tq_options request)"
    by linarith
  then show ?thesis
  proof cases
    case expired
    then have "search_step elapsed graph request (\<lambda>_. 0) ?c ([], [], rt1)" using clock by (intro expire) auto
    moreover have "bfs_search elapsed graph request [] rt1 = Inr (paths, rt')" using assms(1) clock expired by simp
    ultimately show ?thesis by blast
  next
    case target
    then have "search_step elapsed graph request (\<lambda>_. 0) ?c (queue, [state], ?rt2)"
      using search_step.find [of "state # queue" elapsed rt rt1 request "\<lambda>_. 0" graph "[]"] clock tail state
      by (simp add: at_target_def)
    moreover have "rt' = ?rt2 \<and> renders graph request [state] paths"
      using assms(1) clock target state by (auto simp: renders_def)
    ultimately show ?thesis by blast
  next
    case deep
    then have "search_step elapsed graph request (\<lambda>_. 0) ?c (queue, [], record_depth_bound ?rt2)"
      using search_step.bound [of "state # queue" elapsed rt rt1 request "\<lambda>_. 0" graph "[]"] clock tail state
      by (simp add: at_target_def)
    moreover have "bfs_search elapsed graph request queue (record_depth_bound ?rt2) = Inr (paths, rt')"
      using assms(1) clock deep state by simp
    ultimately show ?thesis by blast
  next
    case open_state
    then obtain rt3 queue' where run: "expand_bfs_state elapsed graph request ?rt2 state queue = Inr (rt3, queue')"
        "bfs_search elapsed graph request queue' rt3 = Inr (paths, rt')"
      using assms(1) clock state by (auto split: if_splits)
    then have "search_step elapsed graph request (\<lambda>_. 0) ?c (queue', [], rt3)"
      using search_step.expand [of "state # queue" elapsed rt rt1 request "\<lambda>_. 0" graph rt3 queue' "[]"]
        clock open_state tail state by (simp add: at_target_def expand_bfs_state_def)
    then show ?thesis using run(2) by blast
  qed
qed

lemma bfs_search_refines:
  assumes "bfs_search elapsed graph request queue rt = Inr (paths, rt')" and "states_nonempty queue"
  shows "\<exists>queue' found. searches elapsed graph request (\<lambda>_. 0) (queue, [], rt) (queue', found, rt')
     \<and> renders graph request found paths \<and> finished 1 (queue', found, rt')"
  using assms
proof (induction "work_left request rt queue" arbitrary: queue rt rule: less_induct)
  case less
  show ?case
  proof (cases queue)
    case Nil
    then show ?thesis using less.prems(1) by (auto simp: renders_def finished_def intro!: exI [of _ "[]"])
  next
    case (Cons state rest)
    then have "st_nodes state \<noteq> []" using less.prems(2) by (simp add: states_nonempty_def)
    then obtain queue' found rt1 where
      step: "search_step elapsed graph request (\<lambda>_. 0) (queue, [], rt) (queue', found, rt1)" and
      after: "found = [] \<and> bfs_search elapsed graph request queue' rt1 = Inr (paths, rt')
        \<or> found = [state] \<and> rt1 = rt' \<and> renders graph request found paths"
      using bfs_search_one less.prems(1) Cons by blast
    from after show ?thesis
    proof (elim disjE conjE)
      assume "found = []" and go: "bfs_search elapsed graph request queue' rt1 = Inr (paths, rt')"
      have "work_left request rt1 queue' < work_left request rt queue" using search_step_work [OF step] Cons by simp
      then obtain queue'' found' where "searches elapsed graph request (\<lambda>_. 0) (queue', [], rt1) (queue'', found', rt')"
          "renders graph request found' paths" "finished 1 (queue'', found', rt')"
        using less.hyps [OF _ go search_step_nonempty [OF step]] less.prems(2) Cons by fastforce
      then show ?thesis using step \<open>found = []\<close> by (blast intro: searches_step)
    next
      assume "found = [state]" "rt1 = rt'" "renders graph request found paths"
      then show ?thesis
        using step by (intro exI [of _ queue'] exI [of _ found]) (auto simp: finished_def intro: searches_step)
    qed
  qed
qed

lemma weighted_loop_one:
  assumes "weighted_loop elapsed graph request wanted candidates paths rt = Inr (paths', rt')"
    and "candidates \<noteq> []" and "length paths < wanted" and "states_nonempty candidates" and "renders graph request found paths"
  shows "\<exists>queue' found' paths1 rt1.
     search_step elapsed graph request select_best_state (candidates, found, rt) (queue', found', rt1)
     \<and> renders graph request found' paths1 \<and> weighted_loop elapsed graph request wanted queue' paths1 rt1 = Inr (paths', rt')"
proof -
  let ?best = "select_best_state candidates"
  let ?rest = "remove_at ?best candidates"
  define state where "state = candidates ! ?best"
  have nonempty: "st_nodes state \<noteq> []"
    using assms(2,4) select_best_bound [OF assms(2)] by (simp add: states_nonempty_def state_def)
  note current = current_nonempty [OF nonempty]
  obtain out rt1 where clock: "timed_out elapsed rt = (out, rt1)" by fastforce
  let ?rt2 = "record_frontier (last (st_nodes state)) (length (st_steps state)) rt1"
  note unfold = assms(1) [unfolded weighted_loop.simps [of elapsed graph request wanted candidates]]
  consider (expired) "out" | (target) "\<not> out" "last (st_nodes state) = tq_target request"
    | (deep) "\<not> out" "last (st_nodes state) \<noteq> tq_target request" "to_max_depth (tq_options request) \<le> length (st_steps state)"
    | (open_state) "\<not> out" "last (st_nodes state) \<noteq> tq_target request" "length (st_steps state) < to_max_depth (tq_options request)"
    by linarith
  then show ?thesis
  proof cases
    case expired
    then have "search_step elapsed graph request select_best_state (candidates, found, rt) ([], found, rt1)"
      using clock assms(2) by (intro expire) auto
    moreover have "weighted_loop elapsed graph request wanted [] paths rt1 = Inr (paths', rt')"
      using unfold clock expired assms(2,3) by (simp add: weighted_loop.simps)
    ultimately show ?thesis using assms(5) by blast
  next
    case target
    then have "search_step elapsed graph request select_best_state (candidates, found, rt) (?rest, found @ [state], ?rt2)"
      using search_step.find [of candidates elapsed rt rt1 request select_best_state graph found] clock current assms(2)
      by (simp add: at_target_def state_def)
    moreover obtain path where "materialize_path graph state request = Inr path"
        "weighted_loop elapsed graph request wanted ?rest (paths @ [path]) ?rt2 = Inr (paths', rt')"
      using unfold clock target current assms(2,3) by (auto simp: Let_def state_def)
    moreover from this have "renders graph request (found @ [state]) (paths @ [path])"
      using assms(5) by (simp add: renders_def list_all2_appendI)
    ultimately show ?thesis by blast
  next
    case deep
    then have "search_step elapsed graph request select_best_state (candidates, found, rt) (?rest, found, record_depth_bound ?rt2)"
      using search_step.bound [of candidates elapsed rt rt1 request select_best_state graph found] clock current assms(2)
      by (simp add: at_target_def state_def)
    moreover have "weighted_loop elapsed graph request wanted ?rest paths (record_depth_bound ?rt2) = Inr (paths', rt')"
      using unfold clock deep current assms(2,3) by (simp add: Let_def state_def)
    ultimately show ?thesis using assms(5) by blast
  next
    case open_state
    then obtain rt3 queue' where run: "expand_weighted_state elapsed graph request ?rt2 state ?rest = Inr (rt3, queue')"
        "weighted_loop elapsed graph request wanted queue' paths rt3 = Inr (paths', rt')"
      using unfold clock current assms(2,3) by (auto simp: Let_def state_def)
    then have "search_step elapsed graph request select_best_state (candidates, found, rt) (queue', found, rt3)"
      using search_step.expand [of candidates elapsed rt rt1 request select_best_state graph rt3 queue' found]
        clock open_state current assms(2) by (simp add: at_target_def expand_weighted_state_def state_def)
    then show ?thesis using run(2) assms(5) by blast
  qed
qed

lemma weighted_loop_refines:
  assumes "weighted_loop elapsed graph request wanted queue paths rt = Inr (paths', rt')"
    and "states_nonempty queue" and "renders graph request found paths"
  shows "\<exists>queue' found'. searches elapsed graph request select_best_state (queue, found, rt) (queue', found', rt')
     \<and> renders graph request found' paths' \<and> finished wanted (queue', found', rt')"
  using assms
proof (induction "work_left request rt queue" arbitrary: queue rt paths found rule: less_induct)
  case less
  have len: "length found = length paths" using less.prems(3) by (simp add: renders_def list_all2_lengthD)
  show ?case
  proof (cases "queue = [] \<or> wanted \<le> length paths")
    case True
    then have "paths' = paths \<and> rt' = rt" using less.prems(1) by (auto simp: weighted_loop.simps)
    then show ?thesis using less.prems(3) True len by (intro exI [of _ queue] exI [of _ found]) (auto simp: finished_def)
  next
    case False
    then obtain queue' found' paths1 rt1 where
      step: "search_step elapsed graph request select_best_state (queue, found, rt) (queue', found', rt1)" and
      after: "renders graph request found' paths1" "weighted_loop elapsed graph request wanted queue' paths1 rt1 = Inr (paths', rt')"
      using weighted_loop_one [OF less.prems(1) _ _ less.prems(2,3)] by (auto simp: not_le)
    have pick: "select_best_state queue < length queue" using False by (simp add: select_best_bound)
    have "\<exists>queue'' found''. searches elapsed graph request select_best_state (queue', found', rt1) (queue'', found'', rt')
       \<and> renders graph request found'' paths' \<and> finished wanted (queue'', found'', rt')"
      using less.hyps [OF search_step_work [OF step pick] after(2) search_step_nonempty [OF step pick less.prems(2)] after(1)] .
    then show ?thesis using step by (blast intro: searches_step)
  qed
qed

subsection \<open>Invariants of the search\<close>

text \<open>Every queued state is a trail within the bounds, and every found one reaches the target.\<close>

definition sound_config :: "traversal_graph \<Rightarrow> traversal_request \<Rightarrow> search_config \<Rightarrow> bool" where
  "sound_config graph request config = (case config of (queue, found, rt) \<Rightarrow>
     (\<forall>s \<in> set queue \<union> set found. trail graph request s \<and> within_hops request s
        \<and> length (st_steps s) \<le> to_max_depth (tq_options request))
     \<and> (\<forall>s \<in> set found. at_target request s))"

locale queue_discipline =
  fixes pick :: "path_state list \<Rightarrow> nat"
  assumes pick_bound: "queue \<noteq> [] \<Longrightarrow> pick queue < length queue"
begin

lemma step_sound:
  assumes "search_step elapsed graph request pick c c'" and "sound_config graph request c"
  shows "sound_config graph request c'"
  using assms
proof cases
  case (find queue rt rt' found)
  then show ?thesis
    using assms(2) pick_bound [of queue] set_remove_at [of "pick queue" queue] by (auto simp: sound_config_def)
next
  case (bound queue rt rt' found)
  then show ?thesis
    using assms(2) set_remove_at [of "pick queue" queue] by (auto simp: sound_config_def)
next
  case (expand queue rt rt' rt'' queue' found)
  let ?state = "queue ! pick queue"
  have state: "trail graph request ?state" using expand assms(2) pick_bound by (auto simp: sound_config_def)
  obtain new where new: "queue' = remove_at (pick queue) queue @ new"
      "\<forall>t \<in> set new. extends graph request ?state t \<and> within_hops request t"
    using expand_result(2) [OF expand(7)] trail_nodes [OF state] by blast
  have "trail graph request t \<and> length (st_steps t) \<le> to_max_depth (tq_options request)" if "t \<in> set new" for t
  proof -
    have t: "extends graph request ?state t" using new that by blast
    then have "length (st_steps t) = length (st_steps ?state) + 1" by (auto simp: extends_def)
    then show ?thesis using trail_extends [OF state t] expand(6) by simp
  qed
  then show ?thesis
    using assms(2) expand(1,2) new set_remove_at [of "pick queue" queue] by (auto simp: sound_config_def)
qed (auto simp: sound_config_def)

lemma searches_sound:
  "searches elapsed graph request pick c c' \<Longrightarrow> sound_config graph request c \<Longrightarrow> sound_config graph request c'"
  unfolding searches_def by (induction rule: rtranclp_induct) (auto intro: step_sound)

text \<open>What a step keeps of sound configurations, a search keeps.\<close>

lemma searches_keep:
  assumes "searches elapsed graph request pick c c'" and "sound_config graph request c"
    and "\<And>d e. search_step elapsed graph request pick d e \<Longrightarrow> sound_config graph request d \<Longrightarrow> P d \<Longrightarrow> P e" and "P c"
  shows "P c'"
  using assms(1)[unfolded searches_def] assms(2,4)
proof (induction rule: rtranclp_induct)
  case (step d e)
  then have "sound_config graph request d" using searches_sound [of elapsed graph request c d] by (simp add: searches_def)
  then show ?case using step assms(3) by blast
qed

end

text \<open>Unless a bound stopped the search, every trail to the target was found or has a queued prefix.\<close>

definition covers_config :: "traversal_graph \<Rightarrow> traversal_request \<Rightarrow> search_config \<Rightarrow> bool" where
  "covers_config graph request config = (case config of (queue, found, rt) \<Rightarrow>
     tr_stopped rt \<or> (\<forall>t. trail graph request t \<and> at_target request t \<longrightarrow>
        t \<in> set found \<or> (\<exists>s \<in> set queue. (extends graph request)\<^sup>*\<^sup>* s t)))"

lemma clock_keeps_stopped: "timed_out elapsed rt = (b, rt') \<Longrightarrow> (tr_stopped rt \<longrightarrow> tr_stopped rt') \<and> (b \<longrightarrow> tr_stopped rt')"
  using runtime_stopped(1,2) by (metis fst_conv snd_conv)

context queue_discipline
begin

lemma step_covers:
  assumes "search_step elapsed graph request pick c c'" and "sound_config graph request c" and "covers_config graph request c"
  shows "covers_config graph request c'"
  using assms(1)
proof cases
  case (expire queue rt rt' found)
  then show ?thesis using clock_keeps_stopped [of elapsed rt True rt'] by (simp add: covers_config_def)
next
  case (find queue rt rt' found)
  let ?state = "queue ! pick queue"
  have state: "trail graph request ?state" using find assms(2) pick_bound by (auto simp: sound_config_def)
  have split: "set queue = insert ?state (set (remove_at (pick queue) queue))"
    using find pick_bound by (intro set_remove_at_nth) auto
  have "t = ?state" if "(extends graph request)\<^sup>*\<^sup>* ?state t" "at_target request t" for t
    using target_final [OF state find(5) that] .
  then show ?thesis
    using assms(3) find(1,2) split clock_keeps_stopped [of elapsed rt False rt'] find(4)
    by (simp add: covers_config_def) blast
next
  case (bound queue rt rt' found)
  then show ?thesis by (simp add: covers_config_def)
next
  case (expand queue rt rt' rt'' queue' found)
  let ?state = "queue ! pick queue"
  have state: "trail graph request ?state" using expand assms(2) pick_bound by (auto simp: sound_config_def)
  have split: "set queue = insert ?state (set (remove_at (pick queue) queue))"
    using expand pick_bound by (intro set_remove_at_nth) auto
  have nodes: "st_nodes ?state \<noteq> []" using trail_nodes [OF state] by blast
  note result = expand_result [OF expand(7) nodes]
  obtain new where new: "queue' = remove_at (pick queue) queue @ new"
      "\<not> tr_stopped rt'' \<longrightarrow> (\<forall>t. extends graph request ?state t \<longrightarrow> t \<in> set new)"
    using result(2) by blast
  have "\<exists>s \<in> set new. (extends graph request)\<^sup>*\<^sup>* s t"
    if "(extends graph request)\<^sup>*\<^sup>* ?state t" "at_target request t" "\<not> tr_stopped rt''" for t
    using that new(2) expand(5) by (metis converse_rtranclpE)
  then show ?thesis
    using assms(3) expand(1,2) split new(1) result(1) clock_keeps_stopped [of elapsed rt False rt'] expand(4)
    by (simp add: covers_config_def) blast
qed

lemma searches_covers:
  assumes "searches elapsed graph request pick c c'" and "sound_config graph request c" and "covers_config graph request c"
  shows "covers_config graph request c'"
  using searches_keep [OF assms(1,2), of "covers_config graph request"] step_covers assms(3) by blast

end

text \<open>No state of a search is an extension of another: every path is built once.\<close>

definition antichain :: "path_state list \<Rightarrow> bool" where
  "antichain states \<longleftrightarrow> distinct (map st_steps states)
     \<and> (\<forall>s \<in> set states. \<forall>t \<in> set states. prefix (st_steps s) (st_steps t) \<longrightarrow> st_steps s = st_steps t)"

definition antichain_config :: "search_config \<Rightarrow> bool" where
  "antichain_config config = (case config of (queue, found, rt) \<Rightarrow> antichain (queue @ found))"

lemma antichain_perm: "mset xs = mset ys \<Longrightarrow> antichain xs \<Longrightarrow> antichain ys"
  unfolding antichain_def by (metis mset_eq_imp_distinct_iff mset_map set_mset_mset)

lemma antichain_drop: "antichain (s # states) \<Longrightarrow> antichain states"
  by (auto simp: antichain_def)

lemma antichain_branch:
  assumes "antichain (s # states)" and "distinct (map st_steps new)" and "\<forall>t \<in> set new. \<exists>a. st_steps t = st_steps s @ [a]"
  shows "antichain (new @ states)"
proof -
  have apart: "\<not> prefix (st_steps s) (st_steps u) \<and> \<not> prefix (st_steps u) (st_steps s)" if "u \<in> set states" for u
  proof -
    have "st_steps s \<noteq> st_steps u" using assms(1) that by (auto simp: antichain_def)
    then show ?thesis using assms(1) that unfolding antichain_def by (metis list.set_intros)
  qed
  have old: "\<not> prefix (st_steps t) (st_steps u) \<and> \<not> prefix (st_steps u) (st_steps t)"
    if t: "t \<in> set new" and u: "u \<in> set states" for t u
  proof -
    obtain a where "st_steps t = st_steps s @ [a]" using assms(3) t by blast
    then show ?thesis using apart [OF u] by (auto simp: prefix_snoc intro: append_prefixD)
  qed
  have same: "st_steps t = st_steps u" if "t \<in> set new" "u \<in> set new" "prefix (st_steps t) (st_steps u)" for t u
  proof -
    have "length (st_steps v) = Suc (length (st_steps s))" if "v \<in> set new" for v using assms(3) that by fastforce
    then have "length (st_steps t) = length (st_steps u)" using that by simp
    then show ?thesis using that(3) by (auto elim!: prefixE)
  qed
  have "distinct (map st_steps (new @ states))"
    using assms(1,2) old by (auto simp: antichain_def) (metis prefix_order.refl)
  moreover have "\<forall>s \<in> set states. \<forall>t \<in> set states. prefix (st_steps s) (st_steps t) \<longrightarrow> st_steps s = st_steps t"
    using assms(1) by (simp add: antichain_def)
  ultimately show ?thesis
    unfolding antichain_def using old same by (metis Un_iff set_append)
qed

context queue_discipline
begin

lemma mset_pick:
  assumes "queue \<noteq> []"
  shows "mset queue = mset (queue ! pick queue # remove_at (pick queue) queue)"
proof -
  have "queue = take (pick queue) queue @ queue ! pick queue # drop (Suc (pick queue)) queue"
    using pick_bound [OF assms] by (rule id_take_nth_drop)
  then have "mset queue = mset (take (pick queue) queue @ queue ! pick queue # drop (Suc (pick queue)) queue)" by simp
  then show ?thesis by (simp add: remove_at_def)
qed

lemma step_antichain:
  assumes "search_step elapsed graph request pick c c'" and "sound_config graph request c" and "antichain_config c"
  shows "antichain_config c'"
  using assms(1)
proof cases
  case (expire queue rt rt' found)
  then show ?thesis using assms(3) by (auto simp: antichain_config_def antichain_def)
next
  case (find queue rt rt' found)
  have "mset (queue @ found) = mset (remove_at (pick queue) queue @ found @ [queue ! pick queue])"
    using mset_pick [OF find(3)] by simp
  then show ?thesis using assms(3) find(1,2) antichain_perm unfolding antichain_config_def by blast
next
  case (bound queue rt rt' found)
  have "mset (queue @ found) = mset (queue ! pick queue # remove_at (pick queue) queue @ found)"
    using mset_pick [OF bound(3)] by simp
  then show ?thesis
    using assms(3) bound(1,2) antichain_perm antichain_drop unfolding antichain_config_def by (metis (no_types, lifting) case_prod_conv)
next
  case (expand queue rt rt' rt'' queue' found)
  let ?state = "queue ! pick queue" and ?rest = "remove_at (pick queue) queue @ found"
  have state: "trail graph request ?state" using expand assms(2) pick_bound by (auto simp: sound_config_def)
  obtain new where new: "queue' = remove_at (pick queue) queue @ new" "distinct (map st_steps new)"
      "\<forall>t \<in> set new. extends graph request ?state t"
    using expand_result(2) [OF expand(7)] trail_nodes [OF state] by blast
  have "mset (queue @ found) = mset (?state # ?rest)" using mset_pick [OF expand(3)] by simp
  then have "antichain (?state # ?rest)" using assms(3) expand(1) antichain_perm unfolding antichain_config_def by (metis (no_types, lifting) case_prod_conv)
  moreover have "\<forall>t \<in> set new. \<exists>a. st_steps t = st_steps ?state @ [a]" using new(3) by (auto simp: extends_def)
  ultimately have "antichain (new @ ?rest)" using new(2) by (intro antichain_branch)
  moreover have "mset (new @ ?rest) = mset (queue' @ found)" using new(1) by simp
  ultimately show ?thesis using expand(2) antichain_perm unfolding antichain_config_def by (metis (no_types, lifting) case_prod_conv)
qed

lemma searches_antichain:
  assumes "searches elapsed graph request pick c c'" and "sound_config graph request c" and "antichain_config c"
  shows "antichain_config c'"
  using searches_keep [OF assms(1,2), of antichain_config] step_antichain assms(3) by blast

lemma found_distinct:
  assumes "searches elapsed graph request pick ([path_state_start (tq_start request)], [], rt) (queue, found, rt')"
  shows "distinct (map st_steps found)"
proof -
  have "sound_config graph request ([path_state_start (tq_start request)], [], rt)"
    by (simp add: sound_config_def within_hops_def)
  then have "antichain_config (queue, found, rt')"
    using searches_antichain [OF assms] by (simp add: antichain_config_def antichain_def)
  then show ?thesis by (simp add: antichain_config_def antichain_def)
qed

end

text \<open>
  A discipline that takes the states in the order of a key that never decreases along a trail. \<open>ordered\<close> is
  what the queue must satisfy for the picked state to be the least one.
\<close>

locale best_first = queue_discipline pick
  for pick :: "path_state list \<Rightarrow> nat" +
  fixes graph :: traversal_graph and request :: traversal_request
    and key :: "path_state \<Rightarrow> 'k::linorder" and ordered :: "path_state list \<Rightarrow> bool"
  assumes ordered_Nil: "ordered []"
    and pick_least: "ordered queue \<Longrightarrow> s \<in> set queue \<Longrightarrow> key (queue ! pick queue) \<le> key s"
    and key_grows: "trail graph request s \<Longrightarrow> extends graph request s t \<Longrightarrow> key s \<le> key t"
    and ordered_expand: "ordered queue \<Longrightarrow> queue \<noteq> [] \<Longrightarrow> \<forall>t \<in> set new. extends graph request (queue ! pick queue) t \<Longrightarrow>
      ordered (remove_at (pick queue) queue @ new)"
begin

lemma key_chain:
  assumes "(extends graph request)\<^sup>*\<^sup>* s t" and "trail graph request s"
  shows "key s \<le> key t"
  using assms
proof (induction rule: rtranclp_induct)
  case (step y z)
  then have "trail graph request y" by (auto simp: trail_def intro: rtranclp_trans)
  then show ?case using step key_grows [of y z] by force
qed simp

text \<open>What was found comes before everything that is queued.\<close>

definition ordered_config :: "search_config \<Rightarrow> bool" where
  "ordered_config config = (case config of (queue, found, rt) \<Rightarrow>
     ordered queue \<and> (\<forall>f \<in> set found. \<forall>s \<in> set queue. key f \<le> key s))"

end

context best_first
begin

lemma step_ordered:
  assumes "search_step elapsed graph request pick c c'" and "sound_config graph request c" and "ordered_config c"
  shows "ordered_config c'"
  using assms(1)
proof cases
  case (expire queue rt rt' found)
  then show ?thesis using assms(3) ordered_Nil by (simp add: ordered_config_def)
next
  case (find queue rt rt' found)
  have "ordered (remove_at (pick queue) queue @ [])"
    using assms(3) find by (intro ordered_expand) (auto simp: ordered_config_def)
  then show ?thesis
    using assms(3) find pick_least [of queue] set_remove_at [of "pick queue" queue] by (auto simp: ordered_config_def)
next
  case (bound queue rt rt' found)
  have "ordered (remove_at (pick queue) queue @ [])"
    using assms(3) bound by (intro ordered_expand) (auto simp: ordered_config_def)
  then show ?thesis
    using assms(3) bound set_remove_at [of "pick queue" queue] by (auto simp: ordered_config_def)
next
  case (expand queue rt rt' rt'' queue' found)
  let ?state = "queue ! pick queue"
  have member: "?state \<in> set queue" using expand pick_bound by simp
  then have state: "trail graph request ?state" using expand assms(2) by (auto simp: sound_config_def)
  obtain new where new: "queue' = remove_at (pick queue) queue @ new" "\<forall>t \<in> set new. extends graph request ?state t"
    using expand_result(2) [OF expand(7)] trail_nodes [OF state] by blast
  have "ordered queue'" using assms(3) expand(1,3) new by (auto simp: ordered_config_def intro: ordered_expand)
  moreover have "key f \<le> key t" if "f \<in> set found" "t \<in> set new" for f t
    using that assms(3) expand(1) member new(2) key_grows [OF state] by (fastforce simp: ordered_config_def)
  ultimately show ?thesis
    using assms(3) expand(1,2) new(1) set_remove_at [of "pick queue" queue] by (auto simp: ordered_config_def)
qed

lemma searches_ordered:
  assumes "searches elapsed graph request pick c c'" and "sound_config graph request c" and "ordered_config c"
  shows "ordered_config c'"
  using searches_keep [OF assms(1,2), of ordered_config] step_ordered assms(3) by blast

text \<open>When no bound stopped the search, the found trails are the least ones, or all of them.\<close>

lemma found_least:
  assumes "searches elapsed graph request pick ([path_state_start (tq_start request)], [], rt) (queue, found, rt')"
    and "finished wanted (queue, found, rt')" and "\<not> tr_stopped rt'"
    and "ordered [path_state_start (tq_start request)]"
    and "trail graph request t" and "at_target request t" and "t \<notin> set found"
  shows "wanted \<le> length found \<and> (\<forall>f \<in> set found. key f \<le> key t)"
proof -
  let ?c = "([path_state_start (tq_start request)], [], rt)"
  have sound: "sound_config graph request ?c" by (simp add: sound_config_def within_hops_def)
  have "covers_config graph request ?c" by (auto simp: covers_config_def trail_def)
  then have "covers_config graph request (queue, found, rt')" using searches_covers [OF assms(1) sound] by blast
  then obtain s where s: "s \<in> set queue" "(extends graph request)\<^sup>*\<^sup>* s t"
    using assms(3,5,6,7) by (auto simp: covers_config_def)
  have "sound_config graph request (queue, found, rt')" using searches_sound [OF assms(1) sound] .
  then have "key s \<le> key t" using key_chain [OF s(2)] s(1) by (auto simp: sound_config_def)
  moreover have "ordered_config (queue, found, rt')"
    using searches_ordered [OF assms(1) sound] assms(4) by (simp add: ordered_config_def)
  ultimately show ?thesis
    using s(1) assms(2) by (fastforce simp: ordered_config_def finished_def)
qed

end

subsection \<open>The two queues\<close>

text \<open>Breadth first: the queue holds two levels at most, the front one first.\<close>

definition levels :: "path_state list \<Rightarrow> bool" where
  "levels queue \<longleftrightarrow> sorted (map (\<lambda>s. length (st_steps s)) queue)
     \<and> (\<forall>s \<in> set queue. length (st_steps s) \<le> Suc (length (st_steps (hd queue))))"

lemma levels_push:
  assumes "levels (s # queue)" and new: "\<forall>t \<in> set new. length (st_steps t) = Suc (length (st_steps s))"
  shows "levels (queue @ new)"
proof -
  have "sorted (map (\<lambda>s. length (st_steps s)) new)"
    using new by (induction new) auto
  moreover have queue: "sorted (map (\<lambda>s. length (st_steps s)) queue)"
      "\<forall>u \<in> set queue. length (st_steps s) \<le> length (st_steps u) \<and> length (st_steps u) \<le> Suc (length (st_steps s))"
    using assms(1) by (auto simp: levels_def)
  moreover have "length (st_steps u) \<le> Suc (length (st_steps (hd (queue @ new))))" if "u \<in> set (queue @ new)" for u
  proof -
    have "hd (queue @ new) \<in> set (queue @ new)" using that by (intro hd_in_set) auto
    then have "length (st_steps s) \<le> length (st_steps (hd (queue @ new)))"
      using queue(2) new by (metis Un_iff set_append le_SucI order_refl)
    moreover have "length (st_steps u) \<le> Suc (length (st_steps s))" using that queue(2) new by auto
    ultimately show ?thesis by simp
  qed
  ultimately show ?thesis
    using new unfolding levels_def by (simp add: sorted_append)
qed

lemma extends_length: "extends graph request s t \<Longrightarrow> length (st_steps t) = Suc (length (st_steps s))"
  by (auto simp: extends_def)

interpretation fifo: best_first "\<lambda>_. 0" graph request "\<lambda>s. length (st_steps s)" levels for graph request
proof
  fix queue s assume "levels queue" "s \<in> set queue"
  then show "length (st_steps (queue ! 0)) \<le> length (st_steps s)"
    by (cases queue) (auto simp: levels_def)
next
  fix queue new assume "levels queue" "queue \<noteq> []" "\<forall>t \<in> set new. extends graph request (queue ! 0) t"
  moreover from this obtain s rest where "queue = s # rest" by (cases queue) auto
  ultimately show "levels (remove_at 0 queue @ new)"
    using levels_push [of s rest new] extends_length by (simp add: remove_at_def) blast
qed (auto simp: levels_def extends_length)

text \<open>By weight: the least state is taken; a total never decreases along a trail.\<close>

lemma fp_round_positive:
  assumes "fp_lt (Fin 0) (fp_round F x)"
  shows "0 < x"
  using assms round_pos_nonneg [of "- x" F] by (auto simp: fp_round_def fp_lt_def Let_def split: if_splits)

lemma fp_div_weight:
  assumes "fp_is_finite (fp_div F x y)" and "fp_lt (Fin 0) (fp_div F x y)" and "1 < precision F"
  shows "fp_weight F (fp_div F x y)"
proof -
  have zero: "\<not> fp_lt (Fin 0) (fp_signed neg (Fin 0))" "\<not> fp_is_finite (fp_signed neg PosInf)" "\<not> fp_is_finite NaN" for neg
    by (simp_all add: fp_signed_def fp_lt_def fp_is_finite_def)
  obtain a b where quotient: "fp_div F x y = fp_round F (a / b)"
    using assms(1,2) zero by (auto simp: fp_div_def Let_def split: if_splits option.splits)
  then have "0 < a / b" using assms(2) fp_round_positive by metis
  then show ?thesis using quotient assms(3) by (simp add: fp_weight_round)
qed

lemma edge_weight_valid: "edge_weight edge options = Inr weight \<Longrightarrow> fp_weight binary64 weight"
  using fp_div_weight [of binary64] by (auto simp: edge_weight_def Let_def binary64_def split: if_splits)

lemma trail_weight: "trail graph request s \<Longrightarrow> fp_weight binary64 (st_total_weight s)"
proof (induction rule: trail_induct)
  case start
  then show ?case by (simp add: binary64_def)
next
  case (step s t)
  then show ?case using edge_weight_valid f64_weight.wadd_valid by (fastforce simp: extends_def)
qed

lemma select_best_least:
  assumes "s \<in> set candidates"
  shows "path_state_order (candidates ! select_best_state candidates) \<le> path_state_order s"
proof -
  define best where "best = (\<lambda>n. fold (\<lambda>index best. if path_state_order (candidates ! index)
      < path_state_order (candidates ! best) then index else best) [1..<n] 0)"
  have grow: "best (Suc n) = (if path_state_order (candidates ! n) < path_state_order (candidates ! best n) then n else best n)"
    if "0 < n" for n
    using that by (simp add: best_def upt_Suc_append)
  have least: "\<forall>i < n. path_state_order (candidates ! best n) \<le> path_state_order (candidates ! i)" if "0 < n" for n
    using that
  proof (induction n rule: nat_induct_non_zero)
    case (Suc n)
    have "path_state_order (candidates ! best (Suc n)) \<le> path_state_order (candidates ! best n)"
        "path_state_order (candidates ! best (Suc n)) \<le> path_state_order (candidates ! n)"
      using Suc.hyps by (auto simp: grow)
    then show ?case using Suc.IH by (metis less_Suc_eq order_trans)
  qed (simp add: best_def)
  obtain i where i: "i < length candidates" "s = candidates ! i" using assms by (auto simp: in_set_conv_nth)
  have "select_best_state candidates = best (length candidates)" by (simp add: select_best_state_def best_def)
  moreover have "0 < length candidates" using i(1) by linarith
  ultimately show ?thesis using least [of "length candidates"] i by simp
qed

lemma list_le_append: "(xs :: 'a::linorder list) < xs @ [y]"
  by (simp add: list_less_def lexord_append_rightI)

interpretation cheapest: best_first select_best_state graph request path_state_order "\<lambda>_. True" for graph request
proof
  fix s t assume s: "trail graph request s" and "extends graph request s t"
  then obtain a w c where t: "edge_weight (ad_edge a) (tq_options request) = Inr w" "t = path_state_extended s a w c"
    by (auto simp: extends_def)
  have "st_total_weight s \<le> st_total_weight t"
    using f64_weight.wadd_increasing trail_weight [OF s] edge_weight_valid [OF t(1)] t(2) by simp
  moreover have "st_nodes s < st_nodes t" using t(2) by (simp add: list_le_append)
  ultimately show "path_state_order s \<le> path_state_order t"
    by (auto simp: path_state_order_def)
qed (simp_all add: select_best_bound select_best_least)

end
