(* ===== verification/Traversal_Correct.thy ===== *)
theory Traversal_Correct
  imports Traversal_Paths
begin

text \<open>
  What a traversal report promises. The paths a request admits are stated over the nodes and edges of the call
  (\<open>admissible_path\<close>), independent of the search; the trails of the search are shown to be exactly these walks, so
  the invariants of \<open>Traversal_Paths\<close> become the soundness, optimality, bounds and errors of \<open>traverse\<close>.
\<close>

subsection \<open>The graph of a request\<close>

lemma distinct_nodes_from_result:
  assumes "distinct_nodes_from nodes m = Inr m'" and "bt_wf m"
  shows "bt_wf m' \<and> (\<forall>u n. bt_get m' u = Some n \<longleftrightarrow> bt_get m u = Some n \<or> n \<in> set nodes \<and> n_id n = u)"
  using assms
proof (induction nodes arbitrary: m)
  case (Cons node nodes)
  then have absent: "bt_get m (n_id node) = None" and go: "distinct_nodes_from nodes (bt_insert (n_id node) node m) = Inr m'"
    by (auto split: if_splits)
  show ?case
    using Cons.IH [OF go] Cons.prems(2) absent by (auto split: if_splits)
qed simp

lemma add_graph_edges_result:
  assumes "add_graph_edges nodes edges ids out inc = Inr (out', inc')"
  shows "out' = fold (\<lambda>e. bt_push (e_source e) e) edges out \<and> inc' = fold (\<lambda>e. bt_push (e_target e) e) edges inc
     \<and> distinct (map e_id edges) \<and> (\<forall>e \<in> set edges. e_id e \<notin> set ids \<and> validate_graph_edge e nodes = Inr ())"
  using assms
proof (induction edges arbitrary: ids out inc)
  case (Cons e edges)
  then have e: "e_id e \<notin> set ids" "validate_graph_edge e nodes = Inr ()"
      "add_graph_edges nodes edges (bs_insert (e_id e) ids) (bt_push (e_source e) e out) (bt_push (e_target e) e inc) = Inr (out', inc')"
    by (auto split: if_splits)
  from Cons.IH [OF e(3)] show ?case using e(1,2) by (auto simp: rev_image_eqI)
qed simp

lemma graph_nodes:
  assumes "traversal_graph_new nodes edges = Inr graph"
  shows "bt_get (tg_nodes graph) u = Some n \<longleftrightarrow> n \<in> set nodes \<and> n_id n = u"
  using assms distinct_nodes_from_result [of nodes "[]"]
  by (auto simp: traversal_graph_new_def distinct_nodes_def)

lemma graph_groups:
  assumes "traversal_graph_new nodes edges = Inr graph"
  shows "set (bt_group (tg_outgoing graph) u) = {e \<in> set edges. e_source e = u}"
    and "set (bt_group (tg_incoming graph) u) = {e \<in> set edges. e_target e = u}"
    and "distinct (map e_id edges)"
proof -
  obtain m out inc where "add_graph_edges m edges [] [] [] = Inr (out, inc)"
      "tg_outgoing graph = bt_map_values (sort_key e_id) out" "tg_incoming graph = bt_map_values (sort_key e_id) inc"
    using assms by (auto simp: traversal_graph_new_def)
  with add_graph_edges_result [OF this(1)]
  show "set (bt_group (tg_outgoing graph) u) = {e \<in> set edges. e_source e = u}"
    and "set (bt_group (tg_incoming graph) u) = {e \<in> set edges. e_target e = u}"
    and "distinct (map e_id edges)"
    by (simp_all add: bt_simps)
qed

lemma graph_adjacent_set:
  assumes graph: "traversal_graph_new nodes edges = Inr graph"
  shows "a \<in> set (graph_adjacent graph u direction) \<longleftrightarrow> ad_edge a \<in> set edges
     \<and> (if ad_reversed a then direction \<in> {Incoming, Both} \<and> e_target (ad_edge a) = u \<and> ad_next a = e_source (ad_edge a)
        else direction \<in> {Outgoing, Both} \<and> e_source (ad_edge a) = u \<and> ad_next a = e_target (ad_edge a))"
proof -
  let ?all = "(if direction = Outgoing \<or> direction = Both
      then map (\<lambda>edge. \<lparr>ad_edge = edge, ad_next = e_target edge, ad_reversed = False\<rparr>) (bt_group (tg_outgoing graph) u) else [])
    @ (if direction = Incoming \<or> direction = Both
      then map (\<lambda>edge. \<lparr>ad_edge = edge, ad_next = e_source edge, ad_reversed = True\<rparr>) (bt_group (tg_incoming graph) u) else [])"
  let ?dedup = "dedup_by (\<lambda>x y. adjacent_order x = adjacent_order y) (sort_key adjacent_order ?all)"
  have eq: "graph_adjacent graph u direction = ?dedup"
    by (simp add: graph_adjacent_def Let_def adjacent_order_def)
  have all: "a \<in> set ?all \<longleftrightarrow> ad_edge a \<in> set edges
     \<and> (if ad_reversed a then direction \<in> {Incoming, Both} \<and> e_target (ad_edge a) = u \<and> ad_next a = e_source (ad_edge a)
        else direction \<in> {Outgoing, Both} \<and> e_source (ad_edge a) = u \<and> ad_next a = e_target (ad_edge a))" for a
    using graph_groups [OF graph] by (cases a) auto
  have inj: "inj_on adjacent_order (set ?all)"
  proof (rule inj_onI)
    fix x y assume "x \<in> set ?all" "y \<in> set ?all" and order: "adjacent_order x = adjacent_order y"
    then have "ad_edge x \<in> set edges" "ad_edge y \<in> set edges" using all by blast+
    then have "ad_edge x = ad_edge y"
      using order graph_groups(3) [OF graph] by (auto simp: adjacent_order_def distinct_map inj_on_def)
    then show "x = y" using order by (cases x; cases y) (simp add: adjacent_order_def)
  qed
  have "adjacent_order ` set ?dedup = adjacent_order ` set ?all" "set ?dedup \<subseteq> set ?all"
    using dedup_sorted(2,3) [of adjacent_order "sort_key adjacent_order ?all"] by simp_all
  then have "set ?dedup = set ?all" using inj by (simp add: inj_on_image_eq_iff)
  then show ?thesis using all eq by simp
qed

subsection \<open>The paths a traversal may report\<close>

definition node_admitted :: "traversal_filters \<Rightarrow> node \<Rightarrow> bool" where
  "node_admitted filters node \<longleftrightarrow>
     (tf_include_tests filters \<or> n_kind node \<noteq> TestCase)
     \<and> (tf_include_generated_artifacts filters \<or> n_kind node \<noteq> Artifact \<or> \<not> is_generated_artifact node)
     \<and> (tf_environment_namespace filters = None \<or> n_kind node \<noteq> Deployment
        \<or> deployment_namespace (n_stable_key node) = tf_environment_namespace filters)"

definition admissible_segment :: "node list \<Rightarrow> edge list \<Rightarrow> traversal_request \<Rightarrow> path_segment \<Rightarrow> bool" where
  "admissible_segment nodes edges request segment \<longleftrightarrow>
     (let source = seg_source (ps_trace segment); edge = seg_edge (ps_trace segment); target = seg_target (ps_trace segment) in
      source \<in> set nodes \<and> target \<in> set nodes \<and> edge \<in> set edges
      \<and> (if ps_reversed segment
         then to_direction (tq_options request) \<in> {Incoming, Both} \<and> e_target edge = n_id source \<and> e_source edge = n_id target
         else to_direction (tq_options request) \<in> {Outgoing, Both} \<and> e_source edge = n_id source \<and> e_target edge = n_id target)
      \<and> e_status edge = Confirmed \<and> edge_passes_filters edge (tq_filters request) \<and> node_admitted (tq_filters request) target
      \<and> edge_weight edge (tq_options request) = Inr (ps_weight segment)
      \<and> ps_scope segment = (if n_repo_id source \<noteq> n_repo_id target then CrossRepository else LocalSegment))"

abbreviation segment_from :: "path_segment \<Rightarrow> node_id" where
  "segment_from segment \<equiv> n_id (seg_source (ps_trace segment))"

abbreviation segment_to :: "path_segment \<Rightarrow> node_id" where
  "segment_to segment \<equiv> n_id (seg_target (ps_trace segment))"

fun joined :: "node_id \<Rightarrow> path_segment list \<Rightarrow> node_id \<Rightarrow> bool" where
  "joined u [] v \<longleftrightarrow> u = v"
| "joined u (segment # segments) v \<longleftrightarrow> segment_from segment = u \<and> joined (segment_to segment) segments v"

definition path_of :: "path_segment list \<Rightarrow> traversal_path" where
  "path_of segments =
     \<lparr>tp_segments = segments, tp_total_weight = foldl (fp_add binary64) (Fin 0) (map ps_weight segments),
      tp_cross_repo_hops = length (filter (\<lambda>s. ps_scope s = CrossRepository) segments)\<rparr>"

definition admissible_path :: "node list \<Rightarrow> edge list \<Rightarrow> traversal_request \<Rightarrow> traversal_path \<Rightarrow> bool" where
  "admissible_path nodes edges request path \<longleftrightarrow>
     joined (tq_start request) (tp_segments path) (tq_target request)
     \<and> distinct (tq_start request # map segment_to (tp_segments path))
     \<and> (\<forall>segment \<in> set (tp_segments path). admissible_segment nodes edges request segment)
     \<and> path = path_of (tp_segments path)"


lemma joined_snoc [simp]:
  "joined u (segments @ [segment]) v \<longleftrightarrow> joined u segments (segment_from segment) \<and> segment_to segment = v"
  by (induction segments arbitrary: u) auto

lemma node_ok_admitted:
  assumes "traversal_graph_new nodes edges = Inr graph"
  shows "node_ok graph filters u \<longleftrightarrow> (\<exists>node \<in> set nodes. n_id node = u \<and> node_admitted filters node)"
  using graph_nodes [OF assms] by (auto simp: node_ok_def node_admitted_def)

definition step_of :: "path_segment \<Rightarrow> adjacent" where
  "step_of segment = \<lparr>ad_edge = seg_edge (ps_trace segment), ad_next = segment_to segment, ad_reversed = ps_reversed segment\<rparr>"

text \<open>The state a search has when it has walked the segments.\<close>

definition state_of :: "traversal_request \<Rightarrow> path_segment list \<Rightarrow> path_state" where
  "state_of request segments =
     \<lparr>st_nodes = tq_start request # map segment_to segments, st_steps = map step_of segments,
      st_total_weight = tp_total_weight (path_of segments), st_cross_repo_hops = tp_cross_repo_hops (path_of segments)\<rparr>"

definition admissible_walk :: "node list \<Rightarrow> edge list \<Rightarrow> traversal_request \<Rightarrow> path_segment list \<Rightarrow> node_id \<Rightarrow> bool" where
  "admissible_walk nodes edges request segments v \<longleftrightarrow>
     joined (tq_start request) segments v \<and> distinct (tq_start request # map segment_to segments)
     \<and> (\<forall>segment \<in> set segments. admissible_segment nodes edges request segment)"

lemma admissible_path_walk:
  "admissible_path nodes edges request path \<longleftrightarrow>
     (\<exists>segments. path = path_of segments \<and> admissible_walk nodes edges request segments (tq_target request))"
  by (auto simp: admissible_path_def admissible_walk_def path_of_def)

lemma state_of_Nil [simp]: "state_of request [] = path_state_start (tq_start request)"
  by (simp add: state_of_def path_of_def path_state_start_def)

lemma state_of_snoc:
  "state_of request (segments @ [segment]) =
     path_state_extended (state_of request segments) (step_of segment) (ps_weight segment) (ps_scope segment = CrossRepository)"
  by (simp add: state_of_def path_of_def path_state_extended_def step_of_def)

lemma joined_last: "joined u segments v \<Longrightarrow> last (u # map segment_to segments) = v"
  by (induction segments arbitrary: u) auto

lemma walk_last: "admissible_walk nodes edges request segments v \<Longrightarrow> last (st_nodes (state_of request segments)) = v"
  using joined_last by (fastforce simp: admissible_walk_def state_of_def)

lemma extends_segment:
  assumes graph: "traversal_graph_new nodes edges = Inr graph" and walk: "admissible_walk nodes edges request segments u"
  shows "extends graph request (state_of request segments) t \<longleftrightarrow>
     (\<exists>segment. t = state_of request (segments @ [segment]) \<and> admissible_walk nodes edges request (segments @ [segment]) (segment_to segment))"
proof
  assume "extends graph request (state_of request segments) t"
  then obtain a weight cross where a: "a \<in> set (graph_adjacent graph u (to_direction (tq_options request)))"
      "edge_passes_filters (ad_edge a) (tq_filters request)" "e_status (ad_edge a) = Confirmed"
      "ad_next a \<notin> set (st_nodes (state_of request segments))" "node_ok graph (tq_filters request) (ad_next a)"
      "segment_is_cross_repo graph u (ad_next a) = Inr cross" "edge_weight (ad_edge a) (tq_options request) = Inr weight"
      "t = path_state_extended (state_of request segments) a weight cross"
    unfolding extends_def walk_last [OF walk] by blast
  obtain target where target: "target \<in> set nodes" "n_id target = ad_next a" "node_admitted (tq_filters request) target"
    using a(5) node_ok_admitted [OF graph] by blast
  obtain source where source: "source \<in> set nodes" "n_id source = u" "cross = (n_repo_id source \<noteq> n_repo_id target)"
  proof -
    have "bt_get (tg_nodes graph) (ad_next a) = Some target" using graph_nodes [OF graph] target(1,2) by simp
    then obtain source where "bt_get (tg_nodes graph) u = Some source" "cross = (n_repo_id source \<noteq> n_repo_id target)"
      using a(6) by (auto simp: segment_is_cross_repo_def)
    then show thesis using that graph_nodes [OF graph] by blast
  qed
  define segment where "segment = \<lparr>ps_trace = \<lparr>seg_source = source, seg_edge = ad_edge a, seg_target = target\<rparr>,
     ps_scope = (if cross then CrossRepository else LocalSegment), ps_reversed = ad_reversed a, ps_weight = weight\<rparr>"
  have "admissible_segment nodes edges request segment"
    using a target source graph_adjacent_set [OF graph, of a] by (auto simp: admissible_segment_def segment_def)
  then have "admissible_walk nodes edges request (segments @ [segment]) (segment_to segment)"
    using walk a(4) target(2) source(2) by (auto simp: admissible_walk_def segment_def state_of_def)
  moreover have "t = state_of request (segments @ [segment])"
    using a(8) target(2) by (cases a) (simp add: state_of_snoc segment_def step_of_def)
  ultimately show "\<exists>segment. t = state_of request (segments @ [segment])
     \<and> admissible_walk nodes edges request (segments @ [segment]) (segment_to segment)" by blast
next
  assume "\<exists>segment. t = state_of request (segments @ [segment]) \<and> admissible_walk nodes edges request (segments @ [segment]) (segment_to segment)"
  then obtain segment where t: "t = state_of request (segments @ [segment])"
    and next_walk: "admissible_walk nodes edges request (segments @ [segment]) (segment_to segment)" by blast
  let ?source = "seg_source (ps_trace segment)" and ?target = "seg_target (ps_trace segment)"
  have ok: "admissible_segment nodes edges request segment" and fresh: "segment_to segment \<notin> set (st_nodes (state_of request segments))"
    using next_walk by (auto simp: admissible_walk_def state_of_def)
  have "admissible_walk nodes edges request segments (segment_from segment)" using next_walk by (simp add: admissible_walk_def)
  then have u: "n_id ?source = u" using walk_last walk by metis
  have adjacent: "step_of segment \<in> set (graph_adjacent graph u (to_direction (tq_options request)))"
    using ok u by (auto simp: graph_adjacent_set [OF graph] step_of_def admissible_segment_def Let_def split: if_splits)
  have ends: "bt_get (tg_nodes graph) u = Some ?source" "bt_get (tg_nodes graph) (segment_to segment) = Some ?target"
    using ok u by (auto simp: graph_nodes [OF graph] admissible_segment_def Let_def)
  have cross: "segment_is_cross_repo graph u (segment_to segment) = Inr (ps_scope segment = CrossRepository)"
    using ok ends by (simp add: segment_is_cross_repo_def admissible_segment_def Let_def)
  have "node_ok graph (tq_filters request) (segment_to segment)"
    using ok unfolding node_ok_admitted [OF graph] by (auto simp: admissible_segment_def Let_def)
  then show "extends graph request (state_of request segments) t"
    using adjacent cross ok fresh unfolding t state_of_snoc extends_extended walk_last [OF walk]
    by (auto simp: step_of_def admissible_segment_def Let_def state_of_def)
qed


lemma walk_end: "admissible_walk nodes edges request (segments @ [segment]) v \<Longrightarrow> v = segment_to segment"
  by (simp add: admissible_walk_def)

lemma walk_butlast:
  "admissible_walk nodes edges request (segments @ [segment]) v \<Longrightarrow> admissible_walk nodes edges request segments (segment_from segment)"
  by (simp add: admissible_walk_def)

text \<open>The trails of the search are the walks over the confirmed, admitted part of the graph.\<close>

lemma trail_iff_walk:
  assumes graph: "traversal_graph_new nodes edges = Inr graph"
  shows "trail graph request s \<longleftrightarrow> (\<exists>segments v. s = state_of request segments \<and> admissible_walk nodes edges request segments v)"
proof
  assume "trail graph request s"
  then show "\<exists>segments v. s = state_of request segments \<and> admissible_walk nodes edges request segments v"
  proof (induction rule: trail_induct)
    case start
    have "admissible_walk nodes edges request [] (tq_start request)" by (simp add: admissible_walk_def)
    then show ?case by (intro exI [of _ "[]"] exI [of _ "tq_start request"]) simp
  next
    case (step s t)
    then show ?case using extends_segment [OF graph] by blast
  qed
next
  assume "\<exists>segments v. s = state_of request segments \<and> admissible_walk nodes edges request segments v"
  then obtain segments v where "s = state_of request segments" "admissible_walk nodes edges request segments v" by blast
  then show "trail graph request s"
  proof (induction segments arbitrary: s v rule: rev_induct)
    case (snoc segment segments)
    note walk = walk_butlast [OF snoc.prems(2)]
    have "admissible_walk nodes edges request (segments @ [segment]) (segment_to segment)"
      using snoc.prems(2) walk_end [OF snoc.prems(2)] by simp
    then have "extends graph request (state_of request segments) s"
      using extends_segment [OF graph walk] snoc.prems(1) by blast
    then show ?case using snoc.IH [OF refl walk] trail_extends by blast
  qed simp
qed

lemma materialize_segments_walk:
  assumes graph: "traversal_graph_new nodes edges = Inr graph"
    and "drop index (st_nodes state) = u # map segment_to segments" and "joined u segments v"
    and "\<forall>segment \<in> set segments. admissible_segment nodes edges request segment"
  shows "materialize_segments graph state request index (map step_of segments) = Inr segments"
  using assms(2-)
proof (induction segments arbitrary: index u)
  case (Cons segment segments)
  have bound: "index + 1 < length (st_nodes state)"
    using arg_cong [OF Cons.prems(1), of length] by simp
  have at: "st_nodes state ! index = u" "st_nodes state ! (index + 1) = segment_to segment"
      "drop (index + 1) (st_nodes state) = segment_to segment # map segment_to segments"
    using Cons.prems(1) bound by (metis add.commute hd_drop_conv_nth list.sel(1) add_lessD1,
      metis Cons.prems(1) add.commute hd_drop_conv_nth list.sel(1) list.sel(3) list.simps(9) drop_Suc plus_1_eq_Suc tl_drop,
      metis Cons.prems(1) add.commute list.sel(3) list.simps(9) drop_Suc plus_1_eq_Suc tl_drop)
  have ok: "admissible_segment nodes edges request segment" using Cons.prems(3) by simp
  have ends: "bt_get (tg_nodes graph) u = Some (seg_source (ps_trace segment))"
      "bt_get (tg_nodes graph) (segment_to segment) = Some (seg_target (ps_trace segment))"
    using ok Cons.prems(2) by (auto simp: graph_nodes [OF graph] admissible_segment_def Let_def)
  have weight: "edge_weight (seg_edge (ps_trace segment)) (tq_options request) = Inr (ps_weight segment)"
      "ps_scope segment = (if n_repo_id (seg_source (ps_trace segment)) \<noteq> n_repo_id (seg_target (ps_trace segment))
         then CrossRepository else LocalSegment)"
    using ok by (simp_all add: admissible_segment_def Let_def)
  have "materialize_segments graph state request (index + 1) (map step_of segments) = Inr segments"
    using Cons.IH [OF at(3)] Cons.prems(2,3) by simp
  moreover have "segment = \<lparr>ps_trace = \<lparr>seg_source = seg_source (ps_trace segment), seg_edge = seg_edge (ps_trace segment),
       seg_target = seg_target (ps_trace segment)\<rparr>, ps_scope = ps_scope segment, ps_reversed = ps_reversed segment,
       ps_weight = ps_weight segment\<rparr>" by simp
  ultimately show ?case
    using bound at(1,2) ends weight by (simp add: step_of_def [of segment])
qed simp

lemma materialize_walk:
  assumes "traversal_graph_new nodes edges = Inr graph" and "admissible_walk nodes edges request segments v"
  shows "materialize_path graph (state_of request segments) request = Inr (path_of segments)"
proof -
  have "materialize_segments graph (state_of request segments) request 0 (map step_of segments) = Inr segments"
    by (rule materialize_segments_walk [OF assms(1)]) (use assms(2) in \<open>auto simp: admissible_walk_def state_of_def\<close>)
  then show ?thesis by (simp add: materialize_path_def state_of_def path_of_def)
qed

lemma found_path:
  assumes "traversal_graph_new nodes edges = Inr graph" and "trail graph request s" and "at_target request s"
  shows "\<exists>path. materialize_path graph s request = Inr path \<and> admissible_path nodes edges request path
     \<and> length (tp_segments path) = length (st_steps s) \<and> tp_total_weight path = st_total_weight s
     \<and> tp_cross_repo_hops path = st_cross_repo_hops s \<and> map step_of (tp_segments path) = st_steps s"
proof -
  obtain segments v where s: "s = state_of request segments" "admissible_walk nodes edges request segments v"
    using assms(2) trail_iff_walk [OF assms(1)] by blast
  have "v = tq_target request"
    using assms(3) walk_last [OF s(2)] s(1) by (simp add: at_target_def path_state_current_def state_of_def split: if_splits)
  then have "admissible_path nodes edges request (path_of segments)" using s(2) admissible_path_walk by blast
  then show ?thesis
    using materialize_walk [OF assms(1) s(2)] s(1) by (simp add: state_of_def path_of_def)
qed

lemma path_found:
  assumes "traversal_graph_new nodes edges = Inr graph" and "admissible_path nodes edges request path"
  shows "\<exists>s. trail graph request s \<and> at_target request s \<and> materialize_path graph s request = Inr path
     \<and> length (tp_segments path) = length (st_steps s) \<and> tp_total_weight path = st_total_weight s"
proof -
  obtain segments where path: "path = path_of segments" and walk: "admissible_walk nodes edges request segments (tq_target request)"
    using assms(2) admissible_path_walk by blast
  have "trail graph request (state_of request segments)" using walk trail_iff_walk [OF assms(1)] by blast
  moreover have "at_target request (state_of request segments)"
    using walk_last [OF walk] by (simp add: at_target_def path_state_current_def state_of_def)
  ultimately show ?thesis
    using materialize_walk [OF assms(1) walk] path
    by (intro exI [of _ "state_of request segments"]) (simp add: state_of_def path_of_def)
qed

subsection \<open>What the runtime records\<close>

definition runtime_ok :: "node list \<Rightarrow> edge list \<Rightarrow> traversal_request \<Rightarrow> traversal_runtime \<Rightarrow> bool" where
  "runtime_ok nodes edges request rt \<longleftrightarrow>
     tr_examined rt \<le> to_edge_limit (tq_options request)
     \<and> bs_wf (tr_observed_nodes rt) \<and> length (tr_observed_nodes rt) \<le> to_node_limit (tq_options request)
     \<and> set (tr_frontier_ids rt) \<subseteq> n_id ` set nodes
     \<and> (\<forall>(key, edge) \<in> set (tr_candidate_edges rt). edge \<in> set edges \<and> e_status edge \<noteq> Confirmed
          \<and> edge_passes_filters edge (tq_filters request))"

lemma runtime_ok_primitives:
  assumes ok: "runtime_ok nodes edges request rt"
  shows "runtime_ok nodes edges request (snd (timed_out elapsed rt))"
    and "runtime_ok nodes edges request (snd (examine_edge (to_edge_limit (tq_options request)) rt))"
    and "runtime_ok nodes edges request (snd (observe_node n (to_node_limit (tq_options request)) rt))"
    and "n \<in> n_id ` set nodes \<Longrightarrow> runtime_ok nodes edges request (record_frontier n depth rt)"
    and "edge \<in> set edges \<Longrightarrow> e_status edge \<noteq> Confirmed \<Longrightarrow> edge_passes_filters edge (tq_filters request) \<Longrightarrow>
      runtime_ok nodes edges request (record_candidate edge rt)"
    and "runtime_ok nodes edges request (record_depth_bound rt)"
    and "runtime_ok nodes edges request (record_cross_repo_bound rt)"
    and "runtime_ok nodes edges request (snd (node_passes_filters graph n filters rt))"
proof -
  have gaps: "runtime_ok nodes edges request (truncate_with gap rt')" if "runtime_ok nodes edges request rt'" for gap rt'
    using that by (simp add: runtime_ok_def truncate_with_def)
  have reads: "runtime_ok nodes edges request (rt\<lparr>tr_reads := m\<rparr>)" for m using ok by (simp add: runtime_ok_def)
  show "runtime_ok nodes edges request (snd (timed_out elapsed rt))"
    by (simp add: timed_out_def Let_def gaps reads)
  show "runtime_ok nodes edges request (snd (examine_edge (to_edge_limit (tq_options request)) rt))"
    using ok gaps [OF ok] by (simp add: examine_edge_def) (simp add: runtime_ok_def)
  show "runtime_ok nodes edges request (snd (observe_node n (to_node_limit (tq_options request)) rt))"
    using ok gaps [OF ok] by (simp add: observe_node_def) (simp add: runtime_ok_def length_bs_insert)
  show "runtime_ok nodes edges request (record_frontier n depth rt)" if "n \<in> n_id ` set nodes"
    using ok that by (simp add: record_frontier_def runtime_ok_def)
  show "runtime_ok nodes edges request (record_depth_bound rt)" "runtime_ok nodes edges request (record_cross_repo_bound rt)"
    by (simp_all add: record_depth_bound_def record_cross_repo_bound_def gaps ok)
  show "runtime_ok nodes edges request (snd (node_passes_filters graph n filters rt))"
    using ok by (auto simp: node_passes_filters_def runtime_ok_def split: option.splits)
  show "runtime_ok nodes edges request (record_candidate edge rt)"
    if "edge \<in> set edges" "e_status edge \<noteq> Confirmed" "edge_passes_filters edge (tq_filters request)"
    using ok that set_bt_insert [of "e_id edge" edge "tr_candidate_edges rt"]
    by (auto simp: record_candidate_def runtime_ok_def split: option.split)
qed

lemma expand_one_ok:
  assumes "expand_one elapsed graph request state current a rt = Inr step" and "runtime_ok nodes edges request rt"
    and "ad_edge a \<in> set edges"
  shows "case step of Stop rt' \<Rightarrow> runtime_ok nodes edges request rt' | Skip rt' \<Rightarrow> runtime_ok nodes edges request rt'
    | Push rt' t \<Rightarrow> runtime_ok nodes edges request rt'"
  using assms runtime_ok_primitives
  by (auto simp: expand_one_def Let_def split_beta split: if_splits)

lemma expand_adjacent_ok:
  assumes "expand_adjacent elapsed graph request state current as rt queue = Inr (rt', queue')"
    and "runtime_ok nodes edges request rt" and "ad_edge ` set as \<subseteq> set edges"
  shows "runtime_ok nodes edges request rt'"
  using assms
proof (induction as arbitrary: rt queue)
  case (Cons a as)
  then obtain step where step: "expand_one elapsed graph request state current a rt = Inr step" by auto
  show ?case
    using expand_one_ok [OF step Cons.prems(2)] Cons.prems step Cons.IH by (cases step) auto
qed simp

lemma trail_nodes_known:
  assumes "trail graph request s" and "bt_contains (tg_nodes graph) (tq_start request)"
  shows "\<forall>u \<in> set (st_nodes s). bt_contains (tg_nodes graph) u"
  using assms
proof (induction rule: trail_induct)
  case (step s t)
  then show ?case by (auto simp: extends_def node_ok_def bt_contains_def)
qed simp

context queue_discipline
begin

lemma step_runtime_ok:
  assumes graph: "traversal_graph_new nodes edges = Inr graph" and anchor: "bt_contains (tg_nodes graph) (tq_start request)"
    and "search_step elapsed graph request pick c c'" and "sound_config graph request c"
    and "runtime_ok nodes edges request (snd (snd c))"
  shows "runtime_ok nodes edges request (snd (snd c'))"
proof -
  have known: "last (st_nodes s) \<in> n_id ` set nodes" if trail: "trail graph request s" for s
  proof -
    have "last (st_nodes s) \<in> set (st_nodes s)" using trail_nodes [OF trail] by simp
    then obtain n where "bt_get (tg_nodes graph) (last (st_nodes s)) = Some n"
      using trail_nodes_known [OF trail anchor] by (auto simp: bt_contains_def)
    then show ?thesis using graph_nodes [OF graph] by (metis image_eqI)
  qed
  have clock: "runtime_ok nodes edges request rt'" if "timed_out elapsed rt = (b, rt')" "runtime_ok nodes edges request rt" for b rt rt'
    using runtime_ok_primitives(1) [OF that(2), of elapsed] that(1) by simp
  from assms(3) show ?thesis
  proof cases
    case (expire queue rt rt' found)
    then show ?thesis using assms(5) clock by simp
  next
    case (find queue rt rt' found)
    have "trail graph request (queue ! pick queue)" using find(1,3) assms(4) pick_bound by (simp add: sound_config_def)
    then have "tq_target request \<in> n_id ` set nodes"
      using known find(5) by (force simp: at_target_def path_state_current_def split: if_splits)
    then show ?thesis using find clock assms(5) runtime_ok_primitives(4) by simp
  next
    case (bound queue rt rt' found)
    have "trail graph request (queue ! pick queue)" using bound(1,3) assms(4) pick_bound by (simp add: sound_config_def)
    then show ?thesis using bound clock assms(5) runtime_ok_primitives(4,6) known by simp
  next
    case (expand queue rt rt' rt'' queue' found)
    have "trail graph request (queue ! pick queue)" using expand(1,3) assms(4) pick_bound by (simp add: sound_config_def)
    then have "runtime_ok nodes edges request (record_frontier (last (st_nodes (queue ! pick queue))) (length (st_steps (queue ! pick queue))) rt')"
      using clock [OF expand(4)] expand(1) assms(5) runtime_ok_primitives(4) known by simp
    then have "runtime_ok nodes edges request rt''"
      using expand_adjacent_ok [OF expand(7)] graph_adjacent_set [OF graph] by blast
    then show ?thesis using expand(2) by simp
  qed
qed

lemma searches_runtime_ok:
  assumes "traversal_graph_new nodes edges = Inr graph" and "bt_contains (tg_nodes graph) (tq_start request)"
    and "searches elapsed graph request pick c c'" and "sound_config graph request c"
    and "runtime_ok nodes edges request (snd (snd c))"
  shows "runtime_ok nodes edges request (snd (snd c'))"
  using searches_keep [OF assms(3,4), of "\<lambda>c. runtime_ok nodes edges request (snd (snd c))"]
    step_runtime_ok [OF assms(1,2)] assms(5) by blast

end

subsection \<open>How often the clock is read\<close>

lemma runtime_reads [simp]:
  "tr_reads (snd (timed_out elapsed rt)) = tr_reads rt + 1"
  "tr_reads (snd (examine_edge limit rt)) = tr_reads rt"
  "tr_reads (snd (observe_node n nl rt)) = tr_reads rt"
  "tr_reads (record_frontier n d rt) = tr_reads rt"
  "tr_reads (record_candidate e rt) = tr_reads rt"
  "tr_reads (record_depth_bound rt) = tr_reads rt"
  "tr_reads (record_cross_repo_bound rt) = tr_reads rt"
  "tr_reads (snd (node_passes_filters graph n f rt)) = tr_reads rt"
  by (auto simp: timed_out_def examine_edge_def observe_node_def record_frontier_def record_candidate_def
      record_depth_bound_def record_cross_repo_bound_def truncate_with_def node_passes_filters_def Let_def split: option.splits if_splits)

lemma expand_one_reads:
  assumes "expand_one elapsed graph request state current a rt = Inr step"
  shows "case step of Stop rt' \<Rightarrow> tr_reads rt' = tr_reads rt + 1
    | Skip rt' \<Rightarrow> tr_reads rt' = tr_reads rt + 1
    | Push rt' t \<Rightarrow> tr_reads rt' = tr_reads rt + 1"
  using assms by (auto simp: expand_one_def Let_def split_beta split: if_splits)

text \<open>Three readings per examined edge and two per queued state pay for the rest of the search.\<close>

definition reads_due :: "traversal_request \<Rightarrow> traversal_runtime \<Rightarrow> path_state list \<Rightarrow> nat" where
  "reads_due request rt queue =
     tr_reads rt + 3 * (to_edge_limit (tq_options request) - tr_examined rt) + 2 * length queue"

lemma expand_adjacent_reads:
  "expand_adjacent elapsed graph request state current as rt queue = Inr (rt', queue') \<Longrightarrow>
     reads_due request rt' queue' \<le> reads_due request rt queue + 1"
proof (induction as arbitrary: rt queue)
  case (Cons a as)
  then obtain step where step: "expand_one elapsed graph request state current a rt = Inr step" by auto
  have paid: "3 * (limit - examined) = 3 * (limit - Suc examined) + 3" if "examined < limit" for limit examined :: nat
    using that by linarith
  show ?case
  proof (cases step)
    case (Stop rt1)
    then show ?thesis
      using expand_one_examined [OF step] expand_one_reads [OF step] Cons.prems step by (simp add: reads_due_def)
  next
    case (Skip rt1)
    then show ?thesis
      using expand_one_examined [OF step] expand_one_reads [OF step] Cons.IH [of rt1 queue] Cons.prems step
      by (simp add: reads_due_def paid)
  next
    case (Push rt1 t)
    then show ?thesis
      using expand_one_examined [OF step] expand_one_reads [OF step] Cons.IH [of rt1 "queue @ [t]"] Cons.prems step
      by (simp add: reads_due_def paid)
  qed
qed (simp add: reads_due_def)

lemma clock_runtime:
  assumes "timed_out elapsed rt = (b, rt')"
  shows "tr_reads rt' = tr_reads rt + 1" and "tr_examined rt' = tr_examined rt" and "tr_timeout rt' = tr_timeout rt"
    and "b \<longleftrightarrow> tr_timeout rt \<le> elapsed (tr_reads rt)"
  using assms runtime_reads(1) [of elapsed rt] runtime_examined(1) [of elapsed rt]
  by (auto simp: timed_out_def Let_def truncate_with_def split: if_splits)

context queue_discipline
begin

lemma step_reads:
  assumes "search_step elapsed graph request pick c c'"
  shows "reads_due request (snd (snd c')) (fst c') \<le> reads_due request (snd (snd c)) (fst c)"
proof -
  have shorter: "length queue = Suc (length (remove_at (pick queue) queue))" if "queue \<noteq> []" for queue
    using pick_bound [OF that] by (cases queue) simp_all
  from assms show ?thesis
  proof cases
    case (expire queue rt rt' found)
    then show ?thesis using clock_runtime [OF expire(4)] by (cases queue) (simp_all add: reads_due_def)
  next
    case (find queue rt rt' found)
    then show ?thesis using clock_runtime [OF find(4)] shorter [OF find(3)] by (simp add: reads_due_def)
  next
    case (bound queue rt rt' found)
    then show ?thesis using clock_runtime [OF bound(4)] shorter [OF bound(3)] by (simp add: reads_due_def)
  next
    case (expand queue rt rt' rt'' queue' found)
    then show ?thesis
      using clock_runtime [OF expand(4)] shorter [OF expand(3)] expand_adjacent_reads [OF expand(7)] by (simp add: reads_due_def)
  qed
qed

lemma searches_reads:
  "searches elapsed graph request pick c c' \<Longrightarrow>
     reads_due request (snd (snd c')) (fst c') \<le> reads_due request (snd (snd c)) (fst c)"
  unfolding searches_def by (induction rule: rtranclp_induct) (auto dest: step_reads)

end

text \<open>Once a reading has reached the timeout, the search ends within two readings.\<close>

lemma runtime_timeout [simp]:
  "tr_timeout (snd (timed_out elapsed rt)) = tr_timeout rt"
  "tr_timeout (snd (examine_edge limit rt)) = tr_timeout rt"
  "tr_timeout (snd (observe_node n nl rt)) = tr_timeout rt"
  "tr_timeout (record_frontier n d rt) = tr_timeout rt"
  "tr_timeout (record_candidate e rt) = tr_timeout rt"
  "tr_timeout (record_depth_bound rt) = tr_timeout rt"
  "tr_timeout (record_cross_repo_bound rt) = tr_timeout rt"
  "tr_timeout (snd (node_passes_filters graph n f rt)) = tr_timeout rt"
  by (auto simp: timed_out_def examine_edge_def observe_node_def record_frontier_def record_candidate_def
      record_depth_bound_def record_cross_repo_bound_def truncate_with_def node_passes_filters_def Let_def split: option.splits if_splits)

lemma timed_out_iff: "fst (timed_out elapsed rt) \<longleftrightarrow> tr_timeout rt \<le> elapsed (tr_reads rt)"
  by (simp add: timed_out_def Let_def truncate_with_def)

lemma expand_one_timeout:
  assumes "expand_one elapsed graph request state current a rt = Inr step"
  shows "case step of Stop rt' \<Rightarrow> tr_timeout rt' = tr_timeout rt
    | Skip rt' \<Rightarrow> tr_timeout rt' = tr_timeout rt \<and> elapsed (tr_reads rt) < tr_timeout rt
    | Push rt' t \<Rightarrow> tr_timeout rt' = tr_timeout rt \<and> elapsed (tr_reads rt) < tr_timeout rt"
  using assms by (auto simp: expand_one_def timed_out_iff not_le Let_def split_beta split: if_splits)

lemma expand_adjacent_timeout:
  assumes "expand_adjacent elapsed graph request state current as rt queue = Inr (rt', queue')"
    and "mono elapsed" and "tr_timeout rt \<le> elapsed r" and "tr_reads rt \<le> r"
  shows "tr_reads rt' \<le> r + 1 \<and> tr_timeout rt' = tr_timeout rt"
  using assms(1,3,4)
proof (induction as arbitrary: rt queue)
  case (Cons a as)
  then obtain step where step: "expand_one elapsed graph request state current a rt = Inr step" by auto
  have live: "tr_reads rt < r" if "elapsed (tr_reads rt) < tr_timeout rt"
    using that Cons.prems(2,3) by (metis le_neq_implies_less not_le)
  show ?case
    using expand_one_reads [OF step] expand_one_timeout [OF step] Cons.prems step Cons.IH live
    by (cases step) auto
qed simp


definition expired_by :: "(nat \<Rightarrow> nat) \<Rightarrow> nat \<Rightarrow> search_config \<Rightarrow> bool" where
  "expired_by elapsed r config = (case config of (queue, found, rt) \<Rightarrow>
     tr_timeout rt \<le> elapsed r \<and> (tr_reads rt \<le> r + 1 \<or> queue = [] \<and> tr_reads rt \<le> r + 2))"

context queue_discipline
begin

lemma step_expired_by:
  assumes "search_step elapsed graph request pick c c'" and "mono elapsed" and "expired_by elapsed r c"
  shows "expired_by elapsed r c'"
proof -
  have late: "tr_reads rt < r" if "\<not> tr_timeout rt \<le> elapsed (tr_reads rt)" "tr_timeout rt \<le> elapsed r" for rt
    using that monoD [OF assms(2), of r "tr_reads rt"] by linarith
  from assms(1) show ?thesis
  proof cases
    case (expire queue rt rt' found)
    then show ?thesis using assms(3) clock_runtime [OF expire(4)] by (auto simp: expired_by_def)
  next
    case (find queue rt rt' found)
    then show ?thesis using assms(3) clock_runtime [OF find(4)] late [of rt] by (simp add: expired_by_def)
  next
    case (bound queue rt rt' found)
    then show ?thesis using assms(3) clock_runtime [OF bound(4)] late [of rt] by (simp add: expired_by_def)
  next
    case (expand queue rt rt' rt'' queue' found)
    have "tr_timeout rt \<le> elapsed r" "tr_reads rt < r"
      using assms(3) expand(1) clock_runtime(4) [OF expand(4)] late [of rt] by (simp_all add: expired_by_def)
    then have "tr_reads rt'' \<le> r + 1 \<and> tr_timeout rt'' = tr_timeout rt"
      using expand_adjacent_timeout [OF expand(7) assms(2), of r] clock_runtime [OF expand(4)] by simp
    then show ?thesis using expand(2) \<open>tr_timeout rt \<le> elapsed r\<close> by (simp add: expired_by_def)
  qed
qed

lemma searches_expired_by:
  "searches elapsed graph request pick c c' \<Longrightarrow> mono elapsed \<Longrightarrow> expired_by elapsed r c \<Longrightarrow> expired_by elapsed r c'"
  unfolding searches_def by (induction rule: rtranclp_induct) (auto intro: step_expired_by)

end

subsection \<open>Runs of the algorithms\<close>

definition wanted_paths :: "traversal_request \<Rightarrow> nat" where
  "wanted_paths request = (if to_algorithm (tq_options request) = KShortest then to_k (tq_options request) else 1)"

definition discipline :: "traversal_request \<Rightarrow> path_state list \<Rightarrow> nat" where
  "discipline request = (if to_algorithm (tq_options request) = Bfs then (\<lambda>_. 0) else select_best_state)"

abbreviation initial_config :: "traversal_request \<Rightarrow> search_config" where
  "initial_config request \<equiv> ([path_state_start (tq_start request)], [], traversal_runtime_new request)"

interpretation request_queue: queue_discipline "discipline request" for request
  by unfold_locales (simp add: discipline_def select_best_bound)

lemma initial_sound: "sound_config graph request (initial_config request)"
  by (simp add: sound_config_def within_hops_def)

lemma find_paths_searches:
  assumes "find_paths elapsed graph request (traversal_runtime_new request) = Inr (paths, rt)"
    and "tq_start request \<noteq> tq_target request"
  shows "\<exists>queue found rendered. searches elapsed graph request (discipline request) (initial_config request) (queue, found, rt)
     \<and> renders graph request found rendered \<and> mset paths = mset rendered \<and> finished (wanted_paths request) (queue, found, rt)"
proof -
  have start: "states_nonempty [path_state_start (tq_start request)]" "renders graph request [] []"
    by (simp_all add: states_nonempty_def renders_def)
  show ?thesis
  proof (cases "to_algorithm (tq_options request)")
    case Bfs
    then have "bfs_search elapsed graph request [path_state_start (tq_start request)] (traversal_runtime_new request) = Inr (paths, rt)"
      using assms by (simp add: find_paths_def bfs_def)
    from bfs_search_refines [OF this start(1)] show ?thesis
      using Bfs unfolding discipline_def wanted_paths_def by auto
  next
    case Dijkstra
    then obtain rendered where "weighted_loop elapsed graph request 1 [path_state_start (tq_start request)] []
        (traversal_runtime_new request) = Inr (rendered, rt)" "mset paths = mset rendered"
      using assms by (auto simp: find_paths_def weighted_paths_def)
    with weighted_loop_refines [OF this(1) start] show ?thesis
      using Dijkstra unfolding discipline_def wanted_paths_def by auto
  next
    case KShortest
    then obtain rendered where "weighted_loop elapsed graph request (to_k (tq_options request)) [path_state_start (tq_start request)] []
        (traversal_runtime_new request) = Inr (rendered, rt)" "mset paths = mset rendered"
      using assms by (auto simp: find_paths_def weighted_paths_def)
    with weighted_loop_refines [OF this(1) start] show ?thesis
      using KShortest unfolding discipline_def wanted_paths_def by auto
  qed
qed

lemma bfs_search_count: "bfs_search elapsed graph request queue rt = Inr (paths, rt') \<Longrightarrow> length paths \<le> 1"
  by (induction elapsed graph request queue rt rule: bfs_search.induct) (auto split: if_splits option.splits)

lemma weighted_loop_count:
  "weighted_loop elapsed graph request wanted queue paths rt = Inr (paths', rt') \<Longrightarrow> length paths \<le> wanted \<Longrightarrow> length paths' \<le> wanted"
proof (induction elapsed graph request wanted queue paths rt rule: weighted_loop.induct)
  case (1 elapsed graph request wanted candidates paths rt)
  note unfold = "1.prems"(1) [unfolded weighted_loop.simps [of elapsed graph request wanted candidates]]
  show ?case
    using unfold "1.prems"(2) "1.IH" by (auto simp: Let_def not_le split: if_splits option.splits)
qed

lemma find_paths_count:
  assumes "find_paths elapsed graph request rt = Inr (paths, rt')" and "0 < to_k (tq_options request)"
  shows "length paths \<le> wanted_paths request"
  using assms
  by (auto simp: find_paths_def wanted_paths_def bfs_def weighted_paths_def simp del: bfs_search.simps
      split: if_splits traversal_algorithm.splits dest!: bfs_search_count weighted_loop_count)

lemma renders_member:
  assumes "renders graph request found rendered" and "mset paths = mset rendered"
  shows "path \<in> set paths \<longleftrightarrow> (\<exists>s \<in> set found. materialize_path graph s request = Inr path)"
proof -
  have "path \<in> set paths \<longleftrightarrow> path \<in> set rendered" using assms(2) by (metis set_mset_mset)
  moreover have "path \<in> set rendered \<longleftrightarrow> (\<exists>s \<in> set found. materialize_path graph s request = Inr path)"
    using assms(1) unfolding renders_def by (induction rule: list_all2_induct) auto
  ultimately show ?thesis by simp
qed

text \<open>A request from a node to itself has the empty path only.\<close>

lemma trivial_path:
  assumes "tq_start request = tq_target request"
  shows "admissible_path nodes edges request path \<longleftrightarrow> path = path_of []"
proof
  assume "admissible_path nodes edges request path"
  then obtain segments where path: "path = path_of segments" and walk: "admissible_walk nodes edges request segments (tq_target request)"
    using admissible_path_walk by blast
  have "segments = []"
  proof (rule ccontr)
    assume "segments \<noteq> []"
    then have "last (map segment_to segments) = tq_start request"
      using walk joined_last [of "tq_start request" segments] assms by (simp add: admissible_walk_def)
    then show False using walk \<open>segments \<noteq> []\<close> last_in_set [of "map segment_to segments"] by (auto simp: admissible_walk_def)
  qed
  then show "path = path_of []" using path by simp
next
  assume "path = path_of []"
  then show "admissible_path nodes edges request path" using assms by (simp add: admissible_path_def path_of_def)
qed


subsection \<open>Properties of the traversal\<close>

lemma traverse_result:
  assumes "traverse elapsed nodes edges request = Inr report"
  shows "\<exists>graph paths rt. traversal_graph_new nodes edges = Inr graph \<and> bt_contains (tg_nodes graph) (tq_start request)
     \<and> find_paths elapsed graph request (traversal_runtime_new request) = Inr (paths, rt) \<and> tr_paths report = paths
     \<and> tr_truncated report = tr_stopped rt \<and> tr_visited_nodes report = length (tr_observed_nodes rt)
     \<and> tr_examined_edges report = tr_examined rt \<and> tr_candidate_unresolved_edges report = bt_values (tr_candidate_edges rt)
     \<and> list_all2 (\<lambda>u n. bt_get (tg_nodes graph) u = Some n) (tr_frontier_ids rt) (tr_frontier report)
     \<and> 0 < to_k (tq_options request) \<and> 0 < to_node_limit (tq_options request)"
  using assms
  by (auto simp: traverse_def build_traversal_report_def validate_traversal_request_def require_anchor_def Let_def
      collect_all_eq_Inr split: if_splits)

lemma find_paths_sound:
  assumes graph: "traversal_graph_new nodes edges = Inr graph"
    and run: "find_paths elapsed graph request (traversal_runtime_new request) = Inr (paths, rt)"
  shows "(\<forall>path \<in> set paths. admissible_path nodes edges request path
       \<and> length (tp_segments path) \<le> to_max_depth (tq_options request)
       \<and> tp_cross_repo_hops path \<le> to_max_cross_repo_hops (tq_options request)) \<and> distinct paths"
proof (cases "tq_start request = tq_target request")
  case True
  then have "paths = [path_of []]" using run by (simp add: find_paths_def path_of_def)
  then show ?thesis using trivial_path [OF True] by (simp add: path_of_def)
next
  case False
  then obtain queue found rendered where
    search: "searches elapsed graph request (discipline request) (initial_config request) (queue, found, rt)" and
    rendered: "renders graph request found rendered" "mset paths = mset rendered"
    using find_paths_searches [OF run] by blast
  have found: "trail graph request s" "at_target request s" "within_hops request s"
      "length (st_steps s) \<le> to_max_depth (tq_options request)" if "s \<in> set found" for s
    using request_queue.searches_sound [OF search initial_sound] that by (auto simp: sound_config_def)
  have "distinct (map st_steps found)" using request_queue.found_distinct [OF search] .
  moreover have "map (\<lambda>p. map step_of (tp_segments p)) rendered = map st_steps found"
    using rendered(1) found(1,2) unfolding renders_def
  proof (induction rule: list_all2_induct)
    case (Cons s ss p ps)
    have "map step_of (tp_segments p) = st_steps s"
      using found_path [OF graph Cons.prems(1,2) [of s]] Cons.hyps(1) by auto
    then show ?case using Cons.IH Cons.prems by simp
  qed simp
  ultimately have "distinct (map (\<lambda>p. map step_of (tp_segments p)) rendered)" by simp
  then have "distinct rendered" by (simp add: distinct_map)
  then have "distinct paths" using rendered(2) mset_eq_imp_distinct_iff by blast
  moreover have "admissible_path nodes edges request path \<and> length (tp_segments path) \<le> to_max_depth (tq_options request)
       \<and> tp_cross_repo_hops path \<le> to_max_cross_repo_hops (tq_options request)" if path: "path \<in> set paths" for path
  proof -
    obtain s where "s \<in> set found" "materialize_path graph s request = Inr path"
      using path renders_member [OF rendered] by blast
    then show ?thesis using found_path [OF graph found(1,2)] found(3,4) by (fastforce simp: within_hops_def)
  qed
  ultimately show ?thesis by blast
qed

lemma find_paths_best:
  assumes graph: "traversal_graph_new nodes edges = Inr graph"
    and run: "find_paths elapsed graph request (traversal_runtime_new request) = Inr (paths, rt)"
    and live: "\<not> tr_stopped rt" and other: "admissible_path nodes edges request other" "other \<notin> set paths"
    and k: "0 < to_k (tq_options request)"
  shows "length paths = wanted_paths request \<and> (\<forall>path \<in> set paths.
     if to_algorithm (tq_options request) = Bfs then length (tp_segments path) \<le> length (tp_segments other)
     else tp_total_weight path \<le> tp_total_weight other)"
proof -
  have "tq_start request \<noteq> tq_target request"
  proof
    assume "tq_start request = tq_target request"
    then show False using run other trivial_path by (force simp: find_paths_def path_of_def)
  qed
  then obtain queue found rendered where
    search: "searches elapsed graph request (discipline request) (initial_config request) (queue, found, rt)" and
    rendered: "renders graph request found rendered" "mset paths = mset rendered" and
    finished: "finished (wanted_paths request) (queue, found, rt)"
    using find_paths_searches [OF run] by blast
  obtain t where t: "trail graph request t" "at_target request t" "materialize_path graph t request = Inr other"
      "length (tp_segments other) = length (st_steps t)" "tp_total_weight other = st_total_weight t"
    using path_found [OF graph other(1)] by blast
  have new: "t \<notin> set found" using t(3) other(2) renders_member [OF rendered] by blast
  have states: "trail graph request s" "at_target request s" if "s \<in> set found" for s
    using request_queue.searches_sound [OF search initial_sound] that by (auto simp: sound_config_def)
  have count: "length paths = length found"
    using rendered by (metis list_all2_lengthD mset_eq_length renders_def)
  have least: "wanted_paths request \<le> length found \<and> (\<forall>f \<in> set found.
      if to_algorithm (tq_options request) = Bfs then length (st_steps f) \<le> length (st_steps t)
      else st_total_weight f \<le> st_total_weight t)"
  proof (cases "to_algorithm (tq_options request) = Bfs")
    case True
    then have "searches elapsed graph request (\<lambda>_. 0) (initial_config request) (queue, found, rt)"
      using search by (simp add: discipline_def)
    from fifo.found_least [OF this finished live _ t(1,2) new] show ?thesis using True by (simp add: levels_def)
  next
    case False
    then have "searches elapsed graph request select_best_state (initial_config request) (queue, found, rt)"
      using search by (simp add: discipline_def)
    from cheapest.found_least [OF this finished live _ t(1,2) new] show ?thesis
      using False by (auto simp: path_state_order_def less_eq_prod_def less_imp_le)
  qed
  have "if to_algorithm (tq_options request) = Bfs then length (tp_segments path) \<le> length (tp_segments other)
     else tp_total_weight path \<le> tp_total_weight other" if path: "path \<in> set paths" for path
  proof -
    obtain s where s: "s \<in> set found" "materialize_path graph s request = Inr path"
      using path renders_member [OF rendered] by blast
    then have "length (tp_segments path) = length (st_steps s)" "tp_total_weight path = st_total_weight s"
      using found_path [OF graph states [OF s(1)]] by auto
    then show ?thesis using least s(1) t(4,5) by simp
  qed
  moreover have "length paths = wanted_paths request"
    using least count find_paths_count [OF run k] by simp
  ultimately show ?thesis by blast
qed

lemma find_paths_runtime:
  assumes graph: "traversal_graph_new nodes edges = Inr graph" and anchor: "bt_contains (tg_nodes graph) (tq_start request)"
    and run: "find_paths elapsed graph request (traversal_runtime_new request) = Inr (paths, rt)"
    and limit: "0 < to_node_limit (tq_options request)"
  shows "runtime_ok nodes edges request rt"
proof -
  obtain n where "bt_get (tg_nodes graph) (tq_start request) = Some n" using anchor by (auto simp: bt_contains_def)
  then have "tq_start request \<in> n_id ` set nodes" using graph_nodes [OF graph] by (metis image_eqI)
  then have start: "runtime_ok nodes edges request (traversal_runtime_new request)"
    using limit by (simp add: runtime_ok_def traversal_runtime_new_def)
  show ?thesis
  proof (cases "tq_start request = tq_target request")
    case True
    then show ?thesis using run start by (simp add: find_paths_def)
  next
    case False
    then obtain queue found where
      "searches elapsed graph request (discipline request) (initial_config request) (queue, found, rt)"
      using find_paths_searches [OF run] by blast
    then show ?thesis using request_queue.searches_runtime_ok [OF graph anchor _ initial_sound] start by force
  qed
qed

lemma find_paths_work:
  assumes run: "find_paths elapsed graph request (traversal_runtime_new request) = Inr (paths, rt)"
  shows "tr_reads rt \<le> 3 * to_edge_limit (tq_options request) + 2"
    and "mono elapsed \<Longrightarrow> to_timeout_ms (tq_options request) * 1000000 \<le> elapsed r \<Longrightarrow> tr_reads rt \<le> r + 2"
proof -
  have start: "tr_reads (traversal_runtime_new request) = 0" "tr_examined (traversal_runtime_new request) = 0"
      "tr_timeout (traversal_runtime_new request) = to_timeout_ms (tq_options request) * 1000000"
    by (simp_all add: traversal_runtime_new_def)
  show "tr_reads rt \<le> 3 * to_edge_limit (tq_options request) + 2"
    and "mono elapsed \<Longrightarrow> to_timeout_ms (tq_options request) * 1000000 \<le> elapsed r \<Longrightarrow> tr_reads rt \<le> r + 2"
  proof (atomize (full), cases "tq_start request = tq_target request")
    case True
    then show "tr_reads rt \<le> 3 * to_edge_limit (tq_options request) + 2
      \<and> (mono elapsed \<longrightarrow> to_timeout_ms (tq_options request) * 1000000 \<le> elapsed r \<longrightarrow> tr_reads rt \<le> r + 2)"
      using run start by (auto simp: find_paths_def)
  next
    case False
    then obtain queue found where
      search: "searches elapsed graph request (discipline request) (initial_config request) (queue, found, rt)"
      using find_paths_searches [OF run] by blast
    have "expired_by elapsed r (queue, found, rt)"
      if "mono elapsed" "to_timeout_ms (tq_options request) * 1000000 \<le> elapsed r"
      using request_queue.searches_expired_by [OF search that(1), of r] that(2) start by (simp add: expired_by_def)
    then show "tr_reads rt \<le> 3 * to_edge_limit (tq_options request) + 2
      \<and> (mono elapsed \<longrightarrow> to_timeout_ms (tq_options request) * 1000000 \<le> elapsed r \<longrightarrow> tr_reads rt \<le> r + 2)"
      using request_queue.searches_reads [OF search] start by (auto simp: reads_due_def expired_by_def)
  qed
qed

subsection \<open>Errors\<close>

text \<open>An edge whose weight is not a positive finite number.\<close>

definition cost_error :: "edge list \<Rightarrow> traversal_request \<Rightarrow> query_error \<Rightarrow> bool" where
  "cost_error edges request e \<longleftrightarrow>
     (\<exists>edge \<in> set edges. e = InvalidEdgeCost (e_kind edge) \<and> edge_weight edge (tq_options request) = Inl e)"

lemma edge_weight_error: "edge_weight edge options = Inl e \<Longrightarrow> e = InvalidEdgeCost (e_kind edge)"
  by (auto simp: edge_weight_def Let_def split: if_splits)

lemma expand_one_error:
  assumes "expand_one elapsed graph request state current a rt = Inl e" and "bt_contains (tg_nodes graph) current"
    and edge: "ad_edge a \<in> set edges"
  shows "cost_error edges request e"
proof -
  have cross: "segment_is_cross_repo graph current (ad_next a) \<noteq> Inl e"
    if "fst (node_passes_filters graph (ad_next a) filters rt)" for filters rt
    using that assms(2) node_passes_filters_eq [of graph "ad_next a" filters rt]
    by (auto simp: segment_is_cross_repo_def node_ok_def bt_contains_def)
  have "edge_weight (ad_edge a) (tq_options request) = Inl e"
    using assms(1) cross by (auto simp: expand_one_def Let_def split_beta and_then_eq_Inl split: if_splits)
  then show ?thesis using edge edge_weight_error by (auto simp: cost_error_def)
qed

lemma expand_adjacent_error:
  assumes "expand_adjacent elapsed graph request state current as rt queue = Inl e" and "bt_contains (tg_nodes graph) current"
    and "ad_edge ` set as \<subseteq> set edges"
  shows "cost_error edges request e"
  using assms(1,3)
proof (induction as arbitrary: rt queue)
  case (Cons a as)
  show ?case
  proof (cases "expand_one elapsed graph request state current a rt")
    case (Inl e')
    then show ?thesis using Cons.prems expand_one_error [OF Inl assms(2), of edges] by simp
  next
    case (Inr step)
    then show ?thesis using Cons by (cases step) auto
  qed
qed simp

definition known_trails :: "traversal_graph \<Rightarrow> traversal_request \<Rightarrow> path_state list \<Rightarrow> bool" where
  "known_trails graph request queue \<longleftrightarrow> (\<forall>s \<in> set queue. trail graph request s)"

lemma known_last:
  assumes "trail graph request s" and "bt_contains (tg_nodes graph) (tq_start request)"
  shows "path_state_current s = Some (last (st_nodes s))" and "bt_contains (tg_nodes graph) (last (st_nodes s))"
  using trail_nodes [OF assms(1)] trail_nodes_known [OF assms] by (simp_all add: current_nonempty)

lemma expanded_trails:
  assumes "expand_adjacent elapsed graph request state (last (st_nodes state))
      (graph_adjacent graph (last (st_nodes state)) (to_direction (tq_options request))) rt queue = Inr (rt', queue')"
    and "trail graph request state" and "known_trails graph request queue"
  shows "known_trails graph request queue'"
  using expand_result(2) [OF assms(1)] trail_nodes [OF assms(2)] trail_extends [OF assms(2)] assms(3)
  by (auto simp: known_trails_def)

lemma trail_target_path:
  assumes "traversal_graph_new nodes edges = Inr graph" and "trail graph request s"
    and "path_state_current s = Some (tq_target request)"
  shows "materialize_path graph s request \<noteq> Inl e"
  using found_path [OF assms(1,2)] assms(3) by (auto simp: at_target_def)

lemma bfs_search_error:
  assumes graph: "traversal_graph_new nodes edges = Inr graph" and anchor: "bt_contains (tg_nodes graph) (tq_start request)"
    and "bfs_search elapsed graph request queue rt = Inl e" and "known_trails graph request queue"
  shows "cost_error edges request e"
  using assms(3,4)
proof (induction "work_left request rt queue" arbitrary: queue rt rule: less_induct)
  case less
  then obtain state rest where queue: "queue = state # rest" by (cases queue) auto
  have trail: "trail graph request state" and known: "known_trails graph request rest"
    using less.prems(2) queue by (auto simp: known_trails_def)
  note current = known_last [OF trail anchor]
  have graph_edges: "ad_edge ` set (graph_adjacent graph u direction) \<subseteq> set edges" for u direction
    using graph_adjacent_set [OF graph] by blast
  let ?rt = "record_frontier (last (st_nodes state)) (length (st_steps state)) (snd (timed_out elapsed rt))"
  have "\<not> fst (timed_out elapsed rt)" using less.prems(1) queue by auto
  note loop = less.prems(1) [unfolded queue bfs_search.simps if_not_P [OF this] current(1) option.case]
  have shorter: "work_left request (record_depth_bound ?rt) rest < work_left request rt queue"
    "work_left request ?rt rest < work_left request rt queue"
    using queue by (simp_all add: work_left_def)
  consider (target) "last (st_nodes state) = tq_target request"
    | (deep) "last (st_nodes state) \<noteq> tq_target request" "bfs_search elapsed graph request rest (record_depth_bound ?rt) = Inl e"
    | (failed) "expand_bfs_state elapsed graph request ?rt state rest = Inl e"
    | (expanded) rt' queue' where "expand_bfs_state elapsed graph request ?rt state rest = Inr (rt', queue')"
        "bfs_search elapsed graph request queue' rt' = Inl e"
    using loop by (auto simp: and_then_eq_Inl split: if_splits)
  then show ?case
  proof cases
    case target
    then show ?thesis using loop trail_target_path [OF graph trail] current(1) by (simp add: and_then_eq_Inl)
  next
    case deep
    then show ?thesis using less.hyps [OF shorter(1)] known by blast
  next
    case failed
    then show ?thesis using expand_adjacent_error [OF _ current(2) graph_edges] current(1) by (simp add: expand_bfs_state_def)
  next
    case expanded
    then have "work_left request rt' queue' < work_left request rt queue"
      using expand_work(1) shorter(2) by (meson le_less_trans)
    moreover have "known_trails graph request queue'"
      using expanded(1) expanded_trails [OF _ trail known] current(1) by (simp add: expand_bfs_state_def)
    ultimately show ?thesis using less.hyps expanded(2) by blast
  qed
qed


lemma known_remove: "known_trails graph request queue \<Longrightarrow> known_trails graph request (remove_at i queue)"
  using set_remove_at [of i queue] by (auto simp: known_trails_def)

lemma weighted_loop_error:
  assumes graph: "traversal_graph_new nodes edges = Inr graph" and anchor: "bt_contains (tg_nodes graph) (tq_start request)"
    and "weighted_loop elapsed graph request wanted queue paths rt = Inl e" and "known_trails graph request queue"
  shows "cost_error edges request e"
  using assms(3,4)
proof (induction "work_left request rt queue" arbitrary: queue paths rt rule: less_induct)
  case less
  note unfold = less.prems(1) [unfolded weighted_loop.simps [of elapsed graph request wanted queue]]
  define state where "state = queue ! select_best_state queue"
  define rest where "rest = remove_at (select_best_state queue) queue"
  have some: "queue \<noteq> []" "\<not> (queue = [] \<or> wanted \<le> length paths)" "\<not> fst (timed_out elapsed rt)"
    using unfold by (auto split: if_splits)
  have trail: "trail graph request state" and known: "known_trails graph request rest"
    using less.prems(2) select_best_bound [OF some(1)] by (auto simp: known_trails_def state_def rest_def known_remove [unfolded known_trails_def])
  note current = known_last [OF trail anchor]
  have graph_edges: "ad_edge ` set (graph_adjacent graph u direction) \<subseteq> set edges" for u direction
    using graph_adjacent_set [OF graph] by blast
  let ?rt = "record_frontier (last (st_nodes state)) (length (st_steps state)) (snd (timed_out elapsed rt))"
  note loop = unfold [folded state_def rest_def, unfolded if_not_P [OF some(2)] if_not_P [OF some(3)] Let_def current(1) option.case]
  have shorter: "work_left request (record_depth_bound ?rt) rest < work_left request rt queue"
    "work_left request ?rt rest < work_left request rt queue"
    using some(1) select_best_bound [OF some(1)] by (simp_all add: work_left_def rest_def)
  consider (target) "last (st_nodes state) = tq_target request" "materialize_path graph state request = Inl e"
    | (found) path where "weighted_loop elapsed graph request wanted rest (paths @ [path]) ?rt = Inl e"
    | (deep) "weighted_loop elapsed graph request wanted rest paths (record_depth_bound ?rt) = Inl e"
    | (failed) "expand_weighted_state elapsed graph request ?rt state rest = Inl e"
    | (expanded) rt' queue' where "expand_weighted_state elapsed graph request ?rt state rest = Inr (rt', queue')"
        "weighted_loop elapsed graph request wanted queue' paths rt' = Inl e"
    using loop by (auto simp: and_then_eq_Inl split: if_splits)
  then show ?case
  proof cases
    case target
    then show ?thesis using trail_target_path [OF graph trail] current(1) by simp
  next
    case found
    then show ?thesis using less.hyps [OF shorter(2)] known by blast
  next
    case deep
    then show ?thesis using less.hyps [OF shorter(1)] known by blast
  next
    case failed
    then show ?thesis using expand_adjacent_error [OF _ current(2) graph_edges] current(1) by (simp add: expand_weighted_state_def)
  next
    case expanded
    then have "work_left request rt' queue' < work_left request rt queue"
      using expand_work(2) shorter(2) by (meson le_less_trans)
    moreover have "known_trails graph request queue'"
      using expanded(1) expanded_trails [OF _ trail known] current(1) by (simp add: expand_weighted_state_def)
    ultimately show ?thesis using less.hyps expanded(2) by blast
  qed
qed

lemma find_paths_error:
  assumes graph: "traversal_graph_new nodes edges = Inr graph" and anchor: "bt_contains (tg_nodes graph) (tq_start request)"
    and "find_paths elapsed graph request rt = Inl e"
  shows "cost_error edges request e"
proof -
  have start: "known_trails graph request [path_state_start (tq_start request)]" by (simp add: known_trails_def)
  have "bfs_search elapsed graph request [path_state_start (tq_start request)] rt = Inl e
     \<or> (\<exists>wanted. weighted_loop elapsed graph request wanted [path_state_start (tq_start request)] [] rt = Inl e)"
    using assms(3)
    by (auto simp: find_paths_def bfs_def weighted_paths_def and_then_eq_Inl simp del: bfs_search.simps
        split: if_splits traversal_algorithm.splits)
  then show ?thesis using bfs_search_error [OF graph anchor _ start] weighted_loop_error [OF graph anchor _ start] by blast
qed

text \<open>
  What an error says about the request and the graph: the identity that occurs twice, the edge without its node, the
  cost that is not a positive finite number or that a kind has twice, or the edge whose weight, the cost of its kind
  over its confidence, is not a positive finite number.
\<close>

definition repeated :: "('a \<Rightarrow> 'k) \<Rightarrow> 'a list \<Rightarrow> 'k \<Rightarrow> bool" where
  "repeated key xs k \<longleftrightarrow> 1 < length (filter (\<lambda>x. key x = k) xs)"

definition good_cost :: "f64 \<Rightarrow> bool" where
  "good_cost cost \<longleftrightarrow> fp_is_finite cost \<and> \<not> fp_le cost (Fin 0)"

definition weight_of :: "edge \<Rightarrow> traversal_options \<Rightarrow> f64" where
  "weight_of edge options =
     fp_div binary64 (case find (\<lambda>item. kc_kind item = e_kind edge) (to_edge_kind_costs options) of
         None \<Rightarrow> f64_lit 1 | Some item \<Rightarrow> kc_cost item)
       (fp_max (e_confidence edge) (f64_lit (1 / 100)))"

fun error_justified :: "node list \<Rightarrow> edge list \<Rightarrow> traversal_request \<Rightarrow> query_error \<Rightarrow> bool" where
  "error_justified nodes edges request InvalidTraversalLimits \<longleftrightarrow>
     (let options = tq_options request in
      to_max_depth options \<notin> {1..128} \<or> to_node_limit options \<notin> {1..100000} \<or> to_edge_limit options \<notin> {1..1000000}
      \<or> 60000 < to_timeout_ms options \<or> to_k options \<notin> {1..16})"
| "error_justified nodes edges request InvalidMinimumConfidence \<longleftrightarrow> \<not> unit_interval (tf_min_confidence (tq_filters request))"
| "error_justified nodes edges request (InvalidEdgeCost kind) \<longleftrightarrow>
     (\<exists>item \<in> set (to_edge_kind_costs (tq_options request)). kc_kind item = kind \<and> \<not> good_cost (kc_cost item))
     \<or> repeated kc_kind (to_edge_kind_costs (tq_options request)) kind
     \<or> (\<exists>edge \<in> set edges. e_kind edge = kind
          \<and> \<not> (fp_is_finite (weight_of edge (tq_options request)) \<and> fp_lt (Fin 0) (weight_of edge (tq_options request))))"
| "error_justified nodes edges request (DuplicateNode u) \<longleftrightarrow> repeated n_id nodes u"
| "error_justified nodes edges request (DuplicateEdge i) \<longleftrightarrow> repeated e_id edges i"
| "error_justified nodes edges request (DanglingEdge i u) \<longleftrightarrow>
     u \<notin> n_id ` set nodes \<and> (\<exists>edge \<in> set edges. e_id edge = i \<and> u \<in> {e_source edge, e_target edge})"
| "error_justified nodes edges request (InvalidEdgeConfidence i) \<longleftrightarrow>
     (\<exists>edge \<in> set edges. e_id edge = i \<and> \<not> unit_interval (e_confidence edge))"
| "error_justified nodes edges request (UnknownAnchor u) \<longleftrightarrow> u \<in> {tq_start request, tq_target request} - n_id ` set nodes"
| "error_justified nodes edges request _ \<longleftrightarrow> False"

text \<open>A request and a graph without defects.\<close>

definition request_sound :: "traversal_request \<Rightarrow> bool" where
  "request_sound request \<longleftrightarrow>
     (let options = tq_options request in
      to_max_depth options \<in> {1..128} \<and> to_node_limit options \<in> {1..100000} \<and> to_edge_limit options \<in> {1..1000000}
      \<and> to_timeout_ms options \<le> 60000 \<and> to_k options \<in> {1..16}
      \<and> (\<forall>item \<in> set (to_edge_kind_costs options). good_cost (kc_cost item)) \<and> distinct (map kc_kind (to_edge_kind_costs options)))
     \<and> unit_interval (tf_min_confidence (tq_filters request))"

definition graph_sound :: "node list \<Rightarrow> edge list \<Rightarrow> bool" where
  "graph_sound nodes edges \<longleftrightarrow> distinct (map n_id nodes) \<and> distinct (map e_id edges)
     \<and> (\<forall>edge \<in> set edges. {e_source edge, e_target edge} \<subseteq> n_id ` set nodes \<and> unit_interval (e_confidence edge))"

lemma repeated_Cons: "repeated key (x # xs) k \<longleftrightarrow> repeated key xs k \<or> key x = k \<and> k \<in> key ` set xs"
proof -
  have "0 < length (filter (\<lambda>x. key x = k) xs) \<longleftrightarrow> k \<in> key ` set xs"
    by (auto simp: filter_empty_conv)
  then show ?thesis by (auto simp: repeated_def)
qed

lemma cost_error_weight:
  assumes "cost_error edges request e"
  shows "error_justified nodes edges request e"
  using assms by (force simp: cost_error_def edge_weight_def weight_of_def f64_from_def Let_def split: if_splits)

lemma check_costs_error:
  assumes "check_costs items kinds = Inl e"
  shows "\<exists>kind. e = InvalidEdgeCost kind \<and> ((\<exists>item \<in> set items. kc_kind item = kind \<and> \<not> good_cost (kc_cost item))
     \<or> kind \<in> set kinds \<and> kind \<in> kc_kind ` set items \<or> repeated kc_kind items kind)"
  using assms
proof (induction items arbitrary: kinds)
  case (Cons item items)
  show ?case
  proof (cases "\<not> fp_is_finite (kc_cost item) \<or> fp_le (kc_cost item) (Fin 0) \<or> kc_kind item \<in> set kinds")
    case True
    then have "e = InvalidEdgeCost (kc_kind item)" using Cons.prems by (auto split: if_splits)
    then show ?thesis using True by (auto simp: good_cost_def)
  next
    case False
    with Cons.prems have go: "check_costs items (kinds @ [kc_kind item]) = Inl e" by (auto split: if_splits)
    obtain kind where kind: "e = InvalidEdgeCost kind"
        "(\<exists>item \<in> set items. kc_kind item = kind \<and> \<not> good_cost (kc_cost item))
         \<or> kind \<in> set (kinds @ [kc_kind item]) \<and> kind \<in> kc_kind ` set items \<or> repeated kc_kind items kind"
      using Cons.IH [OF go] by (elim exE conjE) (rule that)
    from kind(2) show ?thesis
    proof (elim disjE)
      assume "kind \<in> set (kinds @ [kc_kind item]) \<and> kind \<in> kc_kind ` set items"
      then show ?thesis using kind(1) by (auto simp: repeated_Cons)
    qed (use kind(1) in \<open>auto simp: repeated_Cons\<close>)
  qed
qed simp

lemma check_costs_ok:
  "check_costs items kinds = Inr () \<Longrightarrow> (\<forall>item \<in> set items. good_cost (kc_cost item) \<and> kc_kind item \<notin> set kinds)
     \<and> distinct (map kc_kind items)"
proof (induction items arbitrary: kinds)
  case (Cons item items)
  have guard: "\<not> (\<not> fp_is_finite (kc_cost item) \<or> fp_le (kc_cost item) (Fin 0) \<or> kc_kind item \<in> set kinds)"
    using Cons.prems by (auto split: if_splits)
  then have "check_costs items (kinds @ [kc_kind item]) = Inr ()" using Cons.prems by (auto split: if_splits)
  from Cons.IH [OF this] have rest: "\<forall>i \<in> set items. good_cost (kc_cost i) \<and> kc_kind i \<notin> set kinds \<and> kc_kind i \<noteq> kc_kind item"
      "distinct (map kc_kind items)" by auto
  then have "kc_kind item \<notin> kc_kind ` set items" by (metis imageE)
  then show ?case using guard rest by (simp add: good_cost_def)
qed simp

lemma validate_request_error:
  assumes "validate_traversal_request request = Inl e"
  shows "error_justified nodes edges request e"
proof (cases "to_max_depth (tq_options request) = 0 \<or> 128 < to_max_depth (tq_options request)
    \<or> to_node_limit (tq_options request) = 0 \<or> 100000 < to_node_limit (tq_options request)
    \<or> to_edge_limit (tq_options request) = 0 \<or> 1000000 < to_edge_limit (tq_options request)
    \<or> 60000 < to_timeout_ms (tq_options request) \<or> to_k (tq_options request) = 0 \<or> 16 < to_k (tq_options request)")
  case True
  then have "e = InvalidTraversalLimits"
    using assms unfolding validate_traversal_request_def Let_def by (simp only: if_True sum.inject)
  then show ?thesis using True by (simp add: Let_def) linarith
next
  case False
  note rest = assms [unfolded validate_traversal_request_def Let_def if_not_P [OF False]]
  show ?thesis
  proof (cases "unit_interval (tf_min_confidence (tq_filters request))")
    case True
    then show ?thesis
      using rest check_costs_error [of "to_edge_kind_costs (tq_options request)" "[]" e] by auto
  next
    case low: False
    then have "e = InvalidMinimumConfidence" using rest by simp
    then show ?thesis using low by simp
  qed
qed

lemma validate_request_ok:
  assumes "validate_traversal_request request = Inr u"
  shows "request_sound request"
  using assms check_costs_ok [of "to_edge_kind_costs (tq_options request)" "[]"]
  by (auto simp: validate_traversal_request_def request_sound_def Let_def split: if_splits)

lemma distinct_nodes_error:
  assumes "distinct_nodes_from nodes m = Inl e"
  shows "\<exists>u \<in> n_id ` set nodes. e = DuplicateNode u \<and> (bt_contains m u \<or> repeated n_id nodes u)"
  using assms
proof (induction nodes arbitrary: m)
  case (Cons node nodes)
  show ?case
  proof (cases "bt_get m (n_id node) = None")
    case True
    then obtain u where "u \<in> n_id ` set nodes" "e = DuplicateNode u"
        "bt_contains (bt_insert (n_id node) node m) u \<or> repeated n_id nodes u"
      using Cons.IH [of "bt_insert (n_id node) node m"] Cons.prems by auto
    then show ?thesis by (auto simp: rev_image_eqI repeated_Cons)
  qed (use Cons.prems in \<open>auto simp: bt_contains_def\<close>)
qed simp

lemma distinct_nodes_ok:
  "distinct_nodes_from nodes m = Inr m' \<Longrightarrow> distinct (map n_id nodes) \<and> (\<forall>node \<in> set nodes. bt_get m (n_id node) = None)"
proof (induction nodes arbitrary: m)
  case (Cons node nodes)
  then have fresh: "bt_get m (n_id node) = None" and go: "distinct_nodes_from nodes (bt_insert (n_id node) node m) = Inr m'"
    by (auto split: if_splits)
  have rest: "distinct (map n_id nodes)" "\<forall>v \<in> set nodes. bt_get (bt_insert (n_id node) node m) (n_id v) = None"
    using Cons.IH [OF go] by auto
  then have "n_id v \<noteq> n_id node \<and> bt_get m (n_id v) = None" if "v \<in> set nodes" for v
    using that by (cases "n_id v = n_id node") force+
  then have "n_id node \<notin> n_id ` set nodes" "\<forall>v \<in> set nodes. bt_get m (n_id v) = None" by (metis imageE)+
  then show ?case using rest(1) fresh by simp
qed simp

lemma add_graph_edges_error:
  assumes "add_graph_edges m edges ids out inc = Inl e"
  shows "(\<exists>i \<in> e_id ` set edges. e = DuplicateEdge i \<and> (i \<in> set ids \<or> repeated e_id edges i))
     \<or> (\<exists>edge \<in> set edges. validate_graph_edge edge m = Inl e)"
  using assms
proof (induction edges arbitrary: ids out inc)
  case (Cons edge edges)
  show ?case
  proof (cases "e_id edge \<in> set ids")
    case True
    then show ?thesis using Cons.prems by auto
  next
    case False
    then consider "validate_graph_edge edge m = Inl e"
      | "add_graph_edges m edges (bs_insert (e_id edge) ids) (bt_push (e_source edge) edge out) (bt_push (e_target edge) edge inc) = Inl e"
      using Cons.prems by (auto simp: and_then_eq_Inl)
    then show ?thesis
    proof cases
      case 2
      from Cons.IH [OF this] show ?thesis by (auto simp: rev_image_eqI repeated_Cons)
    qed simp
  qed
qed simp

lemma graph_new_error:
  assumes "traversal_graph_new nodes edges = Inl e"
  shows "error_justified nodes edges request e"
proof -
  consider (nodes) "distinct_nodes_from nodes [] = Inl e"
    | (edges) m where "distinct_nodes_from nodes [] = Inr m" "add_graph_edges m edges [] [] [] = Inl e"
    using assms by (auto simp: traversal_graph_new_def distinct_nodes_def and_then_eq_Inl)
  then show ?thesis
  proof cases
    case nodes
    from distinct_nodes_error [OF this] show ?thesis by (auto simp: bt_contains_def)
  next
    case edges
    have known: "bt_contains m u \<longleftrightarrow> u \<in> n_id ` set nodes" for u
      using distinct_nodes_from_result [OF edges(1)] by (auto simp: bt_contains_def)
    consider (twice) "\<exists>i \<in> e_id ` set edges. e = DuplicateEdge i \<and> repeated e_id edges i"
      | (bad) edge where "edge \<in> set edges" "validate_graph_edge edge m = Inl e"
      using add_graph_edges_error [OF edges(2)] by auto
    then show ?thesis
    proof cases
      case bad
      then show ?thesis
        by (auto simp: validate_graph_edge_def and_then_eq_Inl f64_from_def known split: if_splits)
    qed auto
  qed
qed

lemma graph_new_ok:
  assumes "traversal_graph_new nodes edges = Inr graph"
  shows "graph_sound nodes edges"
proof -
  obtain m out inc where m: "distinct_nodes_from nodes [] = Inr m" "add_graph_edges m edges [] [] [] = Inr (out, inc)"
    using assms by (auto simp: traversal_graph_new_def distinct_nodes_def)
  have known: "bt_contains m u \<longleftrightarrow> u \<in> n_id ` set nodes" for u
    using distinct_nodes_from_result [OF m(1)] by (auto simp: bt_contains_def)
  have "validate_graph_edge edge m = Inr () \<longleftrightarrow> {e_source edge, e_target edge} \<subseteq> n_id ` set nodes \<and> unit_interval (e_confidence edge)" for edge
    by (auto simp: validate_graph_edge_def known f64_from_def split: if_splits)
  then show ?thesis
    using distinct_nodes_ok [OF m(1)] add_graph_edges_result [OF m(2)] by (simp add: graph_sound_def)
qed


subsection \<open>A sample traversal\<close>

definition sample_request :: traversal_request where
  "sample_request =
     \<lparr>tq_start = ''a'', tq_target = ''c'', tq_filters = default_traversal_filters, tq_options = default_traversal_options\<rparr>"

definition sample_segment :: "string \<Rightarrow> path_segment" where
  "sample_segment i = \<lparr>ps_trace = \<lparr>seg_source = sample_node ''a'', seg_edge = sample_edge i ''a'' ''c'', seg_target = sample_node ''c''\<rparr>,
     ps_scope = CrossRepository, ps_reversed = False, ps_weight = Fin 1\<rparr>"

definition sample_traversal_graph :: traversal_graph where
  "sample_traversal_graph =
     \<lparr>tg_nodes = [(''a'', sample_node ''a''), (''c'', sample_node ''c'')],
      tg_outgoing = [(''a'', [sample_edge ''1'' ''a'' ''c'', sample_edge ''2'' ''a'' ''c''])],
      tg_incoming = [(''c'', [sample_edge ''1'' ''a'' ''c'', sample_edge ''2'' ''a'' ''c''])]\<rparr>"

lemma sample_weight: "fp_div binary64 (f64_lit 1) (fp_max (Fin 1) (f64_lit (1 / 100))) = Fin 1"
proof -
  have "representable binary64 1"
    unfolding representable_def binary64_def by (intro exI [of _ 1] exI [of _ 0]) (simp add: pow2_def)
  then have one: "f64_lit 1 = Fin 1" by (intro fp_round_weight_value) (simp add: binary64_def pow2_def)
  have "f64_lit (1 / 100) \<le> f64_lit 1" by (rule fp_round_mono) (simp_all add: binary64_def)
  moreover have "fp_weight binary64 (f64_lit (1 / 100))" by (rule fp_weight_round) (simp_all add: binary64_def)
  ultimately have "fp_max (Fin 1) (f64_lit (1 / 100)) = Fin 1"
    using one by (cases "f64_lit (1 / 100)") (auto simp: fp_max_def)
  then show ?thesis using one by (simp add: fp_div_def)
qed

lemma sample_numbers: "fp_add binary64 (Fin 0) (Fin 1) = Fin 1"
  "fp_le (Fin 0) (Fin 1)" "fp_lt (Fin 0) (Fin 1)" "unit_interval (Fin 0)" "unit_interval (Fin 1)"
  by code_simp+

lemma sample_graph_built:
  "traversal_graph_new [sample_node ''a'', sample_node ''c''] [sample_edge ''2'' ''a'' ''c'', sample_edge ''1'' ''a'' ''c''] =
     Inr sample_traversal_graph"
proof -
  have ends: "e_source (sample_edge i u v) = u" "e_target (sample_edge i u v) = v" "e_id (sample_edge i u v) = i"
      "e_confidence (sample_edge i u v) = Fin 1" "n_id (sample_node i) = i" for i u v
    by (simp_all add: sample_edge_def sample_node_def)
  show ?thesis
    by (simp add: traversal_graph_new_def distinct_nodes_def validate_graph_edge_def bt_contains_def bt_push_def bt_upsert_def
        bt_map_values_def sample_traversal_graph_def sample_numbers f64_from_def ends)
qed

lemmas traversal_eval =
  bfs_def timed_out_def traversal_runtime_new_def Let_def path_state_current_def record_frontier_def expand_bfs_state_def
  graph_adjacent_def bt_group_def dedup_by_def adjacent_order_def expand_one_def examine_edge_def edge_passes_filters_def
  f64_from_def node_passes_filters_def segment_is_cross_repo_def observe_node_def edge_weight_def path_state_start_def
  path_state_extended_def fp_is_finite_def materialize_path_def truncate_with_def

lemmas sample_eval = sample_request_def default_traversal_filters_def default_traversal_options_def sample_traversal_graph_def
  sample_node_def sample_edge_def sample_segment_def path_of_def sample_weight sample_numbers

lemma sample_search:
  "\<exists>rt. find_paths (\<lambda>_. 0) sample_traversal_graph sample_request (traversal_runtime_new sample_request) =
     Inr ([path_of [sample_segment ''1'']], rt) \<and> tr_reads rt = 4 \<and> \<not> tr_stopped rt \<and> tr_frontier_ids rt = [''c''] \<and> tr_candidate_edges rt = []"
  by (simp add: find_paths_def traversal_eval sample_eval)

lemma sample_expired:
  "find_paths (\<lambda>n. n * 1000000000) sample_traversal_graph sample_request (traversal_runtime_new sample_request) =
     Inr ([], (traversal_runtime_new sample_request)\<lparr>tr_reads := 2, tr_stopped := True,
        tr_gaps := [''Traversal stopped at the timeout bound.'']\<rparr>)"
  by (simp add: find_paths_def traversal_eval sample_eval)

lemma sample_traverse:
  "\<exists>report. traverse (\<lambda>_. 0) [sample_node ''a'', sample_node ''c''] [sample_edge ''2'' ''a'' ''c'', sample_edge ''1'' ''a'' ''c'']
     sample_request = Inr report \<and> tr_paths report = [path_of [sample_segment ''1'']] \<and> \<not> tr_truncated report"
proof -
  have "validate_traversal_request sample_request = Inr ()" by (simp add: validate_traversal_request_def sample_eval Let_def)
  moreover have "require_anchor sample_traversal_graph (tq_start sample_request) = Inr ()"
      "require_anchor sample_traversal_graph (tq_target sample_request) = Inr ()"
    by (simp_all add: require_anchor_def bt_contains_def sample_eval)
  moreover obtain rt where "find_paths (\<lambda>_. 0) sample_traversal_graph sample_request (traversal_runtime_new sample_request) =
     Inr ([path_of [sample_segment ''1'']], rt)" "\<not> tr_stopped rt" "tr_frontier_ids rt = [''c'']"
    using sample_search by blast
  moreover from this have "\<exists>report. build_traversal_report sample_traversal_graph sample_request rt [path_of [sample_segment ''1'']] = Inr report
     \<and> tr_paths report = [path_of [sample_segment ''1'']] \<and> \<not> tr_truncated report"
    by (simp add: build_traversal_report_def Let_def sample_traversal_graph_def)
  ultimately show ?thesis
    by (simp add: traverse_def sample_graph_built)
qed

lemma sample_other:
  "admissible_path [sample_node ''a'', sample_node ''c''] [sample_edge ''2'' ''a'' ''c'', sample_edge ''1'' ''a'' ''c''] sample_request
     (path_of [sample_segment ''2''])"
  by (simp add: admissible_path_def admissible_segment_def edge_passes_filters_def node_admitted_def edge_weight_def f64_from_def
      fp_is_finite_def sample_eval Let_def)

subsection \<open>Properties\<close>

text \<open>
  C15: every path of a traversal report leads from the start to the target over confirmed edges of the graph that
  pass the filters, in the requested direction, never visits a node twice, stays within the depth and
  cross-repository bounds, and carries the sum of its edge weights; no path is reported twice.\<close>

theorem traverse_sound:
  assumes "traverse elapsed nodes edges request = Inr report"
  shows "(\<forall>path \<in> set (tr_paths report). admissible_path nodes edges request path
       \<and> length (tp_segments path) \<le> to_max_depth (tq_options request)
       \<and> tp_cross_repo_hops path \<le> to_max_cross_repo_hops (tq_options request)) \<and> distinct (tr_paths report)"
  using traverse_result [OF assms] find_paths_sound by blast

theorem traverse_sound_witness:
  "\<exists>report. traverse (\<lambda>_. 0) [sample_node ''a'', sample_node ''c''] [sample_edge ''2'' ''a'' ''c'', sample_edge ''1'' ''a'' ''c'']
       sample_request = Inr report \<and> tr_paths report = [path_of [sample_segment ''1'']]
     \<and> (\<forall>path \<in> set (tr_paths report). admissible_path [sample_node ''a'', sample_node ''c'']
          [sample_edge ''2'' ''a'' ''c'', sample_edge ''1'' ''a'' ''c''] sample_request path)"
proof -
  obtain report where report: "traverse (\<lambda>_. 0) [sample_node ''a'', sample_node ''c'']
      [sample_edge ''2'' ''a'' ''c'', sample_edge ''1'' ''a'' ''c''] sample_request = Inr report"
    "tr_paths report = [path_of [sample_segment ''1'']]"
    using sample_traverse by blast
  show ?thesis using report traverse_sound [OF report(1)] by blast
qed

text \<open>
  C16: when a traversal report is not marked truncated, its paths are the best ones: a path that is not reported
  exists only if the wanted number of paths is reported, and then it has at least as many hops as the reported one
  (breadth first) or weighs at least as much as every reported one (by weight).\<close>

theorem traverse_best:
  assumes "traverse elapsed nodes edges request = Inr report" and "\<not> tr_truncated report"
    and "admissible_path nodes edges request other" and "other \<notin> set (tr_paths report)"
  shows "length (tr_paths report) = wanted_paths request \<and> (\<forall>path \<in> set (tr_paths report).
     if to_algorithm (tq_options request) = Bfs then length (tp_segments path) \<le> length (tp_segments other)
     else tp_total_weight path \<le> tp_total_weight other)"
  using traverse_result [OF assms(1)] find_paths_best [OF _ _ _ assms(3)] assms(2,4) by metis

theorem traverse_best_witness:
  "\<exists>report. traverse (\<lambda>_. 0) [sample_node ''a'', sample_node ''c''] [sample_edge ''2'' ''a'' ''c'', sample_edge ''1'' ''a'' ''c'']
       sample_request = Inr report \<and> length (tr_paths report) = wanted_paths sample_request"
proof -
  obtain report where report: "traverse (\<lambda>_. 0) [sample_node ''a'', sample_node ''c'']
      [sample_edge ''2'' ''a'' ''c'', sample_edge ''1'' ''a'' ''c''] sample_request = Inr report"
    "tr_paths report = [path_of [sample_segment ''1'']]" "\<not> tr_truncated report"
    using sample_traverse by blast
  have "path_of [sample_segment ''2''] \<notin> set (tr_paths report)"
    using report(2) by (simp add: path_of_def sample_segment_def sample_edge_def)
  from traverse_best [OF report(1,3) sample_other this] show ?thesis using report(1) by blast
qed

text \<open>
  C34: a traversal examines no more edges, visits no more nodes and reports no more paths than requested; what it
  reports as unresolved are edges of the graph that are not confirmed, and its frontier are nodes of the graph.\<close>

theorem traverse_bounds:
  assumes "traverse elapsed nodes edges request = Inr report"
  shows "tr_examined_edges report \<le> to_edge_limit (tq_options request)
     \<and> tr_visited_nodes report \<le> to_node_limit (tq_options request)
     \<and> length (tr_paths report) \<le> wanted_paths request
     \<and> (\<forall>edge \<in> set (tr_candidate_unresolved_edges report). edge \<in> set edges \<and> e_status edge \<noteq> Confirmed)
     \<and> set (tr_frontier report) \<subseteq> set nodes"
proof -
  obtain graph rt where graph: "traversal_graph_new nodes edges = Inr graph" "bt_contains (tg_nodes graph) (tq_start request)"
    and run: "find_paths elapsed graph request (traversal_runtime_new request) = Inr (tr_paths report, rt)"
    and parts: "tr_visited_nodes report = length (tr_observed_nodes rt)" "tr_examined_edges report = tr_examined rt"
      "tr_candidate_unresolved_edges report = bt_values (tr_candidate_edges rt)"
      "list_all2 (\<lambda>u n. bt_get (tg_nodes graph) u = Some n) (tr_frontier_ids rt) (tr_frontier report)"
    and k: "0 < to_k (tq_options request)" "0 < to_node_limit (tq_options request)"
    using traverse_result [OF assms] by blast
  have ok: "runtime_ok nodes edges request rt" using find_paths_runtime [OF graph run k(2)] .
  have "set (tr_frontier report) \<subseteq> set nodes"
    using parts(4) graph_nodes [OF graph(1)] by (induction rule: list_all2_induct) auto
  then show ?thesis
    using ok parts find_paths_count [OF run k(1)] by (auto simp: runtime_ok_def)
qed

theorem traverse_bounds_witness:
  "\<exists>report. traverse (\<lambda>_. 0) [sample_node ''a'', sample_node ''c''] [sample_edge ''2'' ''a'' ''c'', sample_edge ''1'' ''a'' ''c'']
       sample_request = Inr report \<and> tr_examined_edges report \<le> 50000 \<and> length (tr_paths report) \<le> 1"
proof -
  obtain report where report: "traverse (\<lambda>_. 0) [sample_node ''a'', sample_node ''c'']
      [sample_edge ''2'' ''a'' ''c'', sample_edge ''1'' ''a'' ''c''] sample_request = Inr report"
    using sample_traverse by blast
  show ?thesis using report traverse_bounds [OF report]
    by (simp add: wanted_paths_def sample_request_def default_traversal_options_def)
qed

text \<open>
  C35: the work of a traversal is bounded: the search reads the clock at most three times per edge it may examine
  and twice more, and with a clock that does not run backwards it ends within two readings of the timeout.\<close>

theorem find_paths_terminates:
  assumes "find_paths elapsed graph request (traversal_runtime_new request) = Inr (paths, rt)"
  shows "tr_reads rt \<le> 3 * to_edge_limit (tq_options request) + 2
     \<and> (mono elapsed \<and> to_timeout_ms (tq_options request) * 1000000 \<le> elapsed r \<longrightarrow> tr_reads rt \<le> r + 2)"
  using find_paths_work [OF assms] by blast

theorem find_paths_terminates_witness:
  "\<exists>rt. find_paths (\<lambda>n. n * 1000000000) sample_traversal_graph sample_request (traversal_runtime_new sample_request) = Inr ([], rt)
     \<and> tr_reads rt \<le> 3"
proof -
  have "mono (\<lambda>n::nat. n * 1000000000)" by (simp add: mono_def)
  then show ?thesis
    using find_paths_terminates [OF sample_expired, of 1] sample_expired
    by (simp add: sample_request_def default_traversal_options_def)
qed

lemma traverse_error:
  assumes "traverse elapsed nodes edges request = Inl e"
  shows "error_justified nodes edges request e"
proof (cases "validate_traversal_request request")
  case (Inl e')
  then show ?thesis using assms validate_request_error by (simp add: traverse_def)
next
  case valid: (Inr u)
  show ?thesis
  proof (cases "traversal_graph_new nodes edges")
    case (Inl e')
    then show ?thesis using assms valid graph_new_error by (simp add: traverse_def)
  next
    case graph: (Inr graph)
    have known: "bt_contains (tg_nodes graph) u \<longleftrightarrow> u \<in> n_id ` set nodes" for u
      using graph_nodes [OF graph] by (auto simp: bt_contains_def)
    consider (anchor) u where "u \<in> {tq_start request, tq_target request}" "\<not> bt_contains (tg_nodes graph) u" "e = UnknownAnchor u"
      | (search) "bt_contains (tg_nodes graph) (tq_start request)"
          "find_paths elapsed graph request (traversal_runtime_new request) = Inl e"
      | (report) paths rt where "bt_contains (tg_nodes graph) (tq_start request)"
          "find_paths elapsed graph request (traversal_runtime_new request) = Inr (paths, rt)"
          "build_traversal_report graph request rt paths = Inl e"
      using assms valid graph by (auto simp: traverse_def require_anchor_def and_then_eq_Inl split: if_splits)
    then show ?thesis
    proof cases
      case anchor
      then show ?thesis by (auto simp: known)
    next
      case search
      then show ?thesis using find_paths_error [OF graph] cost_error_weight by blast
    next
      case (report paths rt)
      have "0 < to_node_limit (tq_options request)"
        using valid by (auto simp: validate_traversal_request_def Let_def split: if_splits)
      then have "set (tr_frontier_ids rt) \<subseteq> n_id ` set nodes"
        using find_paths_runtime [OF graph report(1,2)] by (simp add: runtime_ok_def)
      moreover have "\<exists>u \<in> set (tr_frontier_ids rt). bt_get (tg_nodes graph) u = None"
        using report(3) by (auto simp: build_traversal_report_def Let_def and_then_eq_Inl ok_or_def
            dest!: collect_all_eq_Inl split: option.splits)
      ultimately have False using known unfolding bt_contains_def by blast
      then show ?thesis ..
    qed
  qed
qed



end
