(* ===== verification/Communities.thy ===== *)
theory Communities
  imports Model Text_Ops
begin

text \<open>
  \<open>crates/code-system-graph-core/src/communities.rs\<close>: community detection over a graph snapshot (connected
  components, weighted label propagation, or the local-moving phase of Louvain), the description of the detected
  communities, and the comparison of two snapshots. \<open>hash\<close> is the digest of stable identities; the Unicode tables
  of the standard library are the record \<open>unicode\<close>. Weights are binary64 floats, rounded after every operation.
\<close>

subsection \<open>Vocabulary\<close>

datatype community_algorithm = ConnectedComponents | WeightedClustering | Louvain

datatype community_scope = Federated | RepositoryScope repo_id | ServiceScope string | WorkspaceScope

record community_edge_weight =
  cw_kind :: edge_kind
  cw_weight :: f64

record community_config =
  cc_algorithm :: community_algorithm
  cc_scope :: community_scope
  cc_seed :: nat
  cc_resolution :: f64
  cc_minimum_confidence :: f32
  cc_edge_weights :: "community_edge_weight list"
  cc_max_iterations :: nat

record community_metrics =
  cm_size :: nat
  cm_density :: f64
  cm_cohesion :: f64
  cm_coupling :: f64
  cm_cross_community_edges :: nat

record community_label_evidence =
  ce_node_id :: node_id
  ce_term :: string

record community =
  co_id :: community_id
  co_label :: string
  co_members :: "node_id list"
  co_central_nodes :: "node_id list"
  co_repositories :: "repo_id list"
  co_services :: "node_id list"
  co_inbound_contracts :: "node_id list"
  co_outbound_contracts :: "node_id list"
  co_metrics :: community_metrics
  co_label_evidence :: "community_label_evidence list"
  co_limitations :: "string list"

record community_snapshot =
  sn_snapshot_id :: string
  sn_engine_version :: string
  sn_config :: community_config
  sn_communities :: "community list"

datatype community_change_kind = Created | Removed | Split | Merged | MateriallyChanged

record community_change =
  ch_kind :: community_change_kind
  ch_before :: "community_id list"
  ch_after :: "community_id list"
  ch_overlap :: f64
  ch_explanation :: string

record community_delta =
  cd_before_snapshot_id :: string
  cd_after_snapshot_id :: string
  cd_changes :: "community_change list"

datatype community_error =
  InvalidResolution f64
| InvalidMaxIterations nat
| InvalidMinimumConfidence f32
| InvalidEdgeConfidence string f32
| InvalidEdgeWeight edge_kind f64
| DuplicateEdgeWeight edge_kind
| DuplicateNodeId string
| UnknownService string

text \<open>
  The Unicode tables of the standard library, on the UTF-8 form of one character (\<open>is_alphanumeric\<close>,
  \<open>is_alphabetic\<close>, \<open>to_uppercase\<close>) or of a text (\<open>str::to_lowercase\<close>).
\<close>

record unicode =
  uc_is_alphanumeric :: "string \<Rightarrow> bool"
  uc_is_alphabetic :: "string \<Rightarrow> bool"
  uc_to_uppercase :: "string \<Rightarrow> string"
  uc_to_lowercase :: "string \<Rightarrow> string"

subsection \<open>Numbers\<close>

abbreviation f64_add :: "f64 \<Rightarrow> f64 \<Rightarrow> f64" where "f64_add \<equiv> fp_add binary64"
abbreviation f64_sub :: "f64 \<Rightarrow> f64 \<Rightarrow> f64" where "f64_sub \<equiv> fp_sub binary64"
abbreviation f64_mul :: "f64 \<Rightarrow> f64 \<Rightarrow> f64" where "f64_mul \<equiv> fp_mul binary64"
abbreviation f64_div :: "f64 \<Rightarrow> f64 \<Rightarrow> f64" where "f64_div \<equiv> fp_div binary64"

fun fp_abs :: "fp \<Rightarrow> fp" where
  "fp_abs NegInf = PosInf"
| "fp_abs NegZero = Fin 0"
| "fp_abs (Fin q) = Fin \<bar>q\<bar>"
| "fp_abs x = x"

text \<open>A key that orders floats from the greatest to the least (\<open>right.total_cmp(&left)\<close>).\<close>

definition fp_descending :: "fp \<Rightarrow> nat \<times> rat \<times> nat" where
  "fp_descending x = (case fp_key x of (a, q, z) \<Rightarrow> (3 - a, - q, 1 - z))"

definition usize_to_f64 :: "nat \<Rightarrow> f64" where
  "usize_to_f64 n = fp_round binary64 (of_nat n)"

definition saturating_mul :: "nat \<Rightarrow> nat \<Rightarrow> nat" where
  "saturating_mul a b = min (a * b) usize_max"

definition epsilon :: f64 where "epsilon = f64_lit (1 / 10 ^ 12)"
definition page_rank_damping :: f64 where "page_rank_damping = f64_lit (85 / 100)"
definition page_rank_iterations :: nat where "page_rank_iterations = 64"
definition related_overlap :: f64 where "related_overlap = f64_lit (25 / 100)"
definition stable_overlap :: f64 where "stable_overlap = f64_lit (80 / 100)"

text \<open>\<open>format!("{x:.3}")\<close> of a finite non-negative float.\<close>

definition three_decimals :: "f64 \<Rightarrow> string" where
  "three_decimals x =
     (case finite_value x of
        None \<Rightarrow> (if x = PosInf then ''inf'' else if x = NegInf then ''-inf'' else ''NaN'')
      | Some q \<Rightarrow>
          let n = nat \<bar>nearest_even (q * 1000)\<bar>; digit = (\<lambda>d. char_of (48 + d :: nat)) in
          (if fp_is_neg x then ''-'' else []) @ show_nat (n div 1000) @ ''.''
            @ [digit (n div 100 mod 10), digit (n div 10 mod 10), digit (n mod 10)])"

subsection \<open>Inputs\<close>

definition edge_kind_index :: "edge_kind \<Rightarrow> nat" where
  "edge_kind_index kind = edge_kind_rank kind"

record accepted_edge =
  ae_source :: nat
  ae_target :: nat
  ae_weight :: f64

record weighted_graph =
  wg_nodes :: "node list"
  wg_adjacency :: "(nat, f64) btree_map list"
  wg_accepted_edges :: "accepted_edge list"
  wg_weighted_degree :: "f64 list"
  wg_neighbor_count :: "nat list"
  wg_total_undirected_weight :: f64

fun check_node_ids :: "node list \<Rightarrow> node_id btree_set \<Rightarrow> (community_error, unit) outcome" where
  "check_node_ids [] node_ids = Inr ()"
| "check_node_ids (node # nodes) node_ids =
     (if n_id node \<in> set node_ids then Inl (DuplicateNodeId (n_id node))
      else check_node_ids nodes (bs_insert (n_id node) node_ids))"

fun read_weights ::
  "community_edge_weight list \<Rightarrow> f64 list \<Rightarrow> bool list \<Rightarrow> (community_error, f64 list) outcome" where
  "read_weights [] weights configured = Inr weights"
| "read_weights (item # items) weights configured =
     (let index = edge_kind_index (cw_kind item) in
      if \<not> fp_is_finite (cw_weight item) \<or> fp_lt (cw_weight item) (Fin 0)
        then Inl (InvalidEdgeWeight (cw_kind item) (cw_weight item))
      else if configured ! index then Inl (DuplicateEdgeWeight (cw_kind item))
      else read_weights items (weights[index := cw_weight item]) (configured[index := True]))"

definition validate_inputs ::
  "node list \<Rightarrow> edge list \<Rightarrow> community_config \<Rightarrow> (community_error, f64 list) outcome" where
  "validate_inputs nodes edges config =
     (if \<not> fp_is_finite (cc_resolution config) \<or> fp_le (cc_resolution config) (Fin 0)
        then Inl (InvalidResolution (cc_resolution config))
      else if \<not> (1 \<le> cc_max_iterations config \<and> cc_max_iterations config \<le> 10000)
        then Inl (InvalidMaxIterations (cc_max_iterations config))
      else if \<not> unit_interval (cc_minimum_confidence config)
        then Inl (InvalidMinimumConfidence (cc_minimum_confidence config))
      else and_then (check_node_ids nodes []) (\<lambda>_.
        and_then (check_all (\<lambda>edge. if unit_interval (e_confidence edge) then Inr ()
            else Inl (InvalidEdgeConfidence (e_id edge) (e_confidence edge))) edges) (\<lambda>_.
        read_weights (cc_edge_weights config) (replicate 25 (Fin 1)) (replicate 25 False))))"

definition attach_edge :: "edge \<Rightarrow> node_id btree_set \<Rightarrow> node_id btree_set \<Rightarrow> node_id btree_set" where
  "attach_edge edge services selected =
     (let selected = (if e_source edge \<in> set services then bs_insert (e_target edge) selected else selected) in
      if e_target edge \<in> set services then bs_insert (e_source edge) selected else selected)"

definition scoped_node_ids ::
  "node list \<Rightarrow> edge list \<Rightarrow> community_config \<Rightarrow> f64 list \<Rightarrow> (community_error, node_id btree_set) outcome" where
  "scoped_node_ids nodes edges config weights =
     (case cc_scope config of
        Federated \<Rightarrow> Inr (bs_of_list (map n_id nodes))
      | WorkspaceScope \<Rightarrow> Inr (bs_of_list (map n_id nodes))
      | RepositoryScope repo_id \<Rightarrow>
          Inr (bs_of_list (map n_id (filter (\<lambda>node. n_repo_id node = Some repo_id) nodes)))
      | ServiceScope stable_key \<Rightarrow>
          let services = bs_of_list (map n_id
                (filter (\<lambda>node. n_kind node = Service \<and> n_stable_key node = stable_key) nodes)) in
          if services = [] then Inl (UnknownService stable_key)
          else
            let known = bs_of_list (map n_id nodes) in
            Inr (fold (\<lambda>edge selected.
                if e_status edge \<noteq> Confirmed \<or> fp_lt (e_confidence edge) (cc_minimum_confidence config)
                   \<or> fp_le (weights ! edge_kind_index (e_kind edge)) (Fin 0)
                   \<or> e_source edge \<notin> set known \<or> e_target edge \<notin> set known
                then selected else attach_edge edge services selected) edges services))"

subsection \<open>The weighted graph\<close>

definition position_index :: "node list \<Rightarrow> (node_id, nat) btree_map" where
  "position_index graph_nodes =
     fold (\<lambda>(position, node). bt_insert (n_id node) position) (List.enumerate 0 graph_nodes) []"

definition edge_order :: "edge \<Rightarrow> node_id \<times> node_id \<times> nat \<times> edge_id \<times> f32" where
  "edge_order edge = (e_source edge, e_target edge, edge_kind_index (e_kind edge), e_id edge, e_confidence edge)"

definition accept_edge ::
  "community_config \<Rightarrow> f64 list \<Rightarrow> (node_id, nat) btree_map \<Rightarrow> edge \<Rightarrow> accepted_edge option" where
  "accept_edge config weights index edge =
     (if e_status edge \<noteq> Confirmed \<or> fp_lt (e_confidence edge) (cc_minimum_confidence config) then None
      else
        case bt_get index (e_source edge) of
          None \<Rightarrow> None
        | Some source \<Rightarrow>
            (case bt_get index (e_target edge) of
               None \<Rightarrow> None
             | Some target \<Rightarrow>
                 let weight = f64_mul (weights ! edge_kind_index (e_kind edge)) (e_confidence edge) in
                 if fp_le weight (Fin 0) then None
                 else Some \<lparr>ae_source = source, ae_target = target, ae_weight = weight\<rparr>))"

definition edge_pair :: "accepted_edge \<Rightarrow> nat \<times> nat" where
  "edge_pair edge =
     (if ae_source edge \<le> ae_target edge then (ae_source edge, ae_target edge) else (ae_target edge, ae_source edge))"

definition add_weighted_edge ::
  "community_config \<Rightarrow> f64 list \<Rightarrow> (node_id, nat) btree_map \<Rightarrow> edge
     \<Rightarrow> accepted_edge list \<times> (nat \<times> nat, f64) btree_map \<Rightarrow> accepted_edge list \<times> (nat \<times> nat, f64) btree_map" where
  "add_weighted_edge config weights index edge acc =
     (case accept_edge config weights index edge of
        None \<Rightarrow> acc
      | Some accepted \<Rightarrow>
          (fst acc @ [accepted],
           bt_upsert (edge_pair accepted) (\<lambda>total. f64_add total (ae_weight accepted))
             (f64_add (Fin 0) (ae_weight accepted)) (snd acc)))"

record graph_tables =
  gt_adjacency :: "(nat, f64) btree_map list"
  gt_weighted_degree :: "f64 list"
  gt_neighbors :: "nat btree_set list"
  gt_total :: f64

definition list_modify :: "nat \<Rightarrow> ('a \<Rightarrow> 'a) \<Rightarrow> 'a list \<Rightarrow> 'a list" where
  "list_modify i f xs = xs[i := f (xs ! i)]"

fun add_pair :: "(nat \<times> nat) \<times> f64 \<Rightarrow> graph_tables \<Rightarrow> graph_tables" where
  "add_pair ((source, target), weight) tables =
     (let tables = tables\<lparr>gt_total := f64_add (gt_total tables) weight\<rparr> in
      if source = target then
        tables\<lparr>gt_adjacency := list_modify source (bt_insert target weight) (gt_adjacency tables),
               gt_weighted_degree :=
                 list_modify source (\<lambda>d. f64_add d (f64_mul (Fin 2) weight)) (gt_weighted_degree tables)\<rparr>
      else
        tables\<lparr>gt_adjacency := list_modify target (bt_insert source weight)
                 (list_modify source (bt_insert target weight) (gt_adjacency tables)),
               gt_weighted_degree := list_modify target (\<lambda>d. f64_add d weight)
                 (list_modify source (\<lambda>d. f64_add d weight) (gt_weighted_degree tables)),
               gt_neighbors := list_modify target (bs_insert source)
                 (list_modify source (bs_insert target) (gt_neighbors tables))\<rparr>)"

definition empty_tables :: "nat \<Rightarrow> graph_tables" where
  "empty_tables n = \<lparr>gt_adjacency = replicate n [], gt_weighted_degree = replicate n (Fin 0),
     gt_neighbors = replicate n [], gt_total = Fin 0\<rparr>"

definition build_graph ::
  "node list \<Rightarrow> edge list \<Rightarrow> community_config \<Rightarrow> f64 list \<Rightarrow> node_id btree_set \<Rightarrow> weighted_graph" where
  "build_graph nodes edges config weights selected =
     (let graph_nodes = sort_key n_id (filter (\<lambda>node. n_id node \<in> set selected) nodes);
          index = position_index graph_nodes;
          ordered_edges = sort_key edge_order edges;
          (accepted_edges, undirected) = fold (add_weighted_edge config weights index) ordered_edges ([], []);
          tables = fold add_pair undirected (empty_tables (length graph_nodes)) in
      \<lparr>wg_nodes = graph_nodes, wg_adjacency = gt_adjacency tables, wg_accepted_edges = accepted_edges,
       wg_weighted_degree = gt_weighted_degree tables, wg_neighbor_count = map length (gt_neighbors tables),
       wg_total_undirected_weight = gt_total tables\<rparr>)"

subsection \<open>Connected components\<close>

text \<open>
  An assignment is a component number; the value \<open>usize::MAX\<close> that marks a node without one is \<open>None\<close>. Component
  numbers stay below the number of nodes, which a vector keeps below \<open>usize::MAX\<close>. An index out of range would
  panic; the graph has none.
\<close>

definition is_unassigned :: "nat option list \<Rightarrow> nat \<Rightarrow> bool" where
  "is_unassigned assignments node \<longleftrightarrow> node < length assignments \<and> assignments ! node = None"

fun visit_neighbors ::
  "nat \<Rightarrow> (nat, f64) btree_map \<Rightarrow> nat option list \<Rightarrow> nat list \<Rightarrow> nat option list \<times> nat list" where
  "visit_neighbors component [] assignments pending = (assignments, pending)"
| "visit_neighbors component ((neighbor, weight) # neighbors) assignments pending =
     (if fp_lt (Fin 0) weight \<and> is_unassigned assignments neighbor
      then visit_neighbors component neighbors (assignments[neighbor := Some component]) (pending @ [neighbor])
      else visit_neighbors component neighbors assignments pending)"

definition unassigned_count :: "nat option list \<Rightarrow> nat" where
  "unassigned_count assignments = length (filter (\<lambda>a. a = None) assignments)"

lemma unassigned_update:
  "is_unassigned assignments node \<Longrightarrow> unassigned_count assignments = Suc (unassigned_count (assignments[node := Some c]))"
proof -
  assume "is_unassigned assignments node"
  then have split: "assignments = take node assignments @ None # drop (Suc node) assignments" and len: "node < length assignments"
    using id_take_nth_drop [of node assignments] by (auto simp: is_unassigned_def)
  then have "assignments[node := Some c] = take node assignments @ Some c # drop (Suc node) assignments"
    by (simp add: upd_conv_take_nth_drop)
  then show ?thesis using arg_cong [OF split, of unassigned_count] by (simp add: unassigned_count_def)
qed

lemma visit_neighbors_work:
  "visit_neighbors component neighbors assignments pending = (assignments', pending') \<Longrightarrow>
     unassigned_count assignments' + length pending' = unassigned_count assignments + length pending"
proof (induction component neighbors assignments pending rule: visit_neighbors.induct)
  case (2 component neighbor weight neighbors assignments pending)
  then show ?case using unassigned_update [of assignments neighbor component] by (auto split: if_splits)
qed simp

function component_loop :: "weighted_graph \<Rightarrow> nat \<Rightarrow> nat list \<Rightarrow> nat option list \<Rightarrow> nat option list" where
  "component_loop graph component pending assignments =
     (if pending = [] then assignments
      else
        let visited = visit_neighbors component (wg_adjacency graph ! last pending) assignments (butlast pending) in
        component_loop graph component (snd visited) (fst visited))"
  by pat_completeness auto
termination
proof (relation "measure (\<lambda>(graph, component, pending, assignments). unassigned_count assignments + length pending)", goal_cases)
  case (2 graph component pending assignments visited)
  then show ?case
    using visit_neighbors_work [of component "wg_adjacency graph ! last pending" assignments "butlast pending" "fst visited" "snd visited"]
    by (cases pending) simp_all
qed simp

declare component_loop.simps [simp del]

definition component_start :: "weighted_graph \<Rightarrow> nat \<Rightarrow> nat option list \<times> nat \<Rightarrow> nat option list \<times> nat" where
  "component_start graph start state =
     (if fst state ! start \<noteq> None then state
      else (component_loop graph (snd state) [start] ((fst state)[start := Some (snd state)]), snd state + 1))"

text \<open>The second component of a result counts the calls of the progress callback; each reports one unit.\<close>

definition connected_components :: "weighted_graph \<Rightarrow> nat list \<times> nat" where
  "connected_components graph =
     (let (assignments, component) =
        fold (component_start graph) [0..<length (wg_nodes graph)] (replicate (length (wg_nodes graph)) None, 0) in
      (map (\<lambda>a. case a of None \<Rightarrow> usize_max | Some c \<Rightarrow> c) assignments, component))"

subsection \<open>Label propagation\<close>

definition seeded_key :: "(string \<Rightarrow> string) \<Rightarrow> nat \<Rightarrow> string \<Rightarrow> string" where
  "seeded_key hash seed text = stable_id hash ''community-order'' (show_nat seed @ '':'' @ text)"

definition seeded_label_key :: "(string \<Rightarrow> string) \<Rightarrow> weighted_graph \<Rightarrow> nat \<Rightarrow> nat \<Rightarrow> string" where
  "seeded_label_key hash graph seed label =
     (if label < length (wg_nodes graph) then seeded_key hash seed (n_id (wg_nodes graph ! label))
      else stable_id hash ''community-order'' (show_nat seed @ '':empty:'' @ show_nat label))"

definition seeded_node_order :: "(string \<Rightarrow> string) \<Rightarrow> weighted_graph \<Rightarrow> nat \<Rightarrow> nat list" where
  "seeded_node_order hash graph seed =
     sort_key (\<lambda>i. (seeded_key hash seed (n_id (wg_nodes graph ! i)), n_id (wg_nodes graph ! i)))
       [0..<length (wg_nodes graph)]"

definition neighbor_scores ::
  "weighted_graph \<Rightarrow> nat list \<Rightarrow> nat \<Rightarrow> (nat, f64) btree_map \<Rightarrow> (nat, f64) btree_map" where
  "neighbor_scores graph assignments node scores =
     fold (\<lambda>(neighbor, weight) scores.
         if neighbor = node then scores
         else bt_upsert (assignments ! neighbor) (\<lambda>s. f64_add s weight) (f64_add (Fin 0) weight) scores)
       (wg_adjacency graph ! node) scores"

definition better_label ::
  "(string \<Rightarrow> string) \<Rightarrow> weighted_graph \<Rightarrow> nat \<Rightarrow> f64 \<Rightarrow> nat \<times> f64 \<Rightarrow> nat \<times> f64 \<Rightarrow> nat \<times> f64" where
  "better_label hash graph seed current_score candidate best =
     (if fp_lt (f64_add (snd best) epsilon) (snd candidate)
         \<or> fp_le (fp_abs (f64_sub (snd candidate) (snd best))) epsilon
           \<and> fp_lt (f64_add current_score epsilon) (snd candidate)
           \<and> seeded_label_key hash graph seed (fst candidate) < seeded_label_key hash graph seed (fst best)
      then candidate else best)"

definition propagate_node ::
  "(string \<Rightarrow> string) \<Rightarrow> weighted_graph \<Rightarrow> nat \<Rightarrow> nat \<Rightarrow> nat list \<times> bool \<Rightarrow> nat list \<times> bool" where
  "propagate_node hash graph seed node state =
     (let assignments = fst state;
          scores = neighbor_scores graph assignments node [];
          current = assignments ! node;
          current_score = (case bt_get scores current of None \<Rightarrow> Fin 0 | Some score \<Rightarrow> score);
          best = fold (better_label hash graph seed current_score) scores (current, current_score) in
      if fst best \<noteq> current then (assignments[node := fst best], True) else state)"

text \<open>\<open>for _ in 0..max_iterations\<close> with an exit after a pass that changed nothing.\<close>

fun passes :: "('s \<times> bool \<Rightarrow> 's \<times> bool) \<Rightarrow> nat \<Rightarrow> 's \<Rightarrow> 's \<times> nat" where
  "passes pass 0 state = (state, 0)"
| "passes pass (Suc n) state =
     (let (state', changed) = pass (state, False) in
      if changed then (let (final, units) = passes pass n state' in (final, Suc units)) else (state', 1))"

definition weighted_label_propagation :: "(string \<Rightarrow> string) \<Rightarrow> weighted_graph \<Rightarrow> nat \<Rightarrow> nat \<Rightarrow> nat list \<times> nat" where
  "weighted_label_propagation hash graph seed max_iterations =
     passes (fold (propagate_node hash graph seed) (seeded_node_order hash graph seed)) max_iterations
       [0..<length (wg_nodes graph)]"

subsection \<open>Louvain\<close>

record louvain_state =
  lv_assignments :: "nat list"
  lv_community_degree :: "f64 list"
  lv_members :: "nat list"
  lv_empty :: "nat btree_set"

definition louvain_links :: "weighted_graph \<Rightarrow> nat \<Rightarrow> louvain_state \<Rightarrow> (nat, f64) btree_map" where
  "louvain_links graph node state =
     (let current = lv_assignments state ! node;
          links = neighbor_scores graph (lv_assignments state) node [(current, Fin 0)] in
      case lv_empty state of
        [] \<Rightarrow> links
      | label # _ \<Rightarrow> (case bt_get links label of None \<Rightarrow> bt_insert label (Fin 0) links | Some _ \<Rightarrow> links))"

definition louvain_gain :: "weighted_graph \<Rightarrow> f64 \<Rightarrow> nat \<Rightarrow> louvain_state \<Rightarrow> f64 \<Rightarrow> nat \<Rightarrow> f64 \<Rightarrow> f64" where
  "louvain_gain graph resolution node state current_links label candidate_links =
     (let total = wg_total_undirected_weight graph;
          degree = wg_weighted_degree graph ! node;
          source_degree = f64_sub (lv_community_degree state ! (lv_assignments state ! node)) degree in
      f64_sub (f64_div (f64_sub candidate_links current_links) total)
        (f64_div (f64_mul (f64_mul resolution degree) (f64_sub (lv_community_degree state ! label) source_degree))
          (f64_mul (f64_mul (Fin 2) total) total)))"

definition better_community ::
  "string list \<Rightarrow> weighted_graph \<Rightarrow> f64 \<Rightarrow> nat \<Rightarrow> louvain_state \<Rightarrow> f64 \<Rightarrow> nat \<times> f64 \<Rightarrow> nat \<times> f64 \<Rightarrow> nat \<times> f64" where
  "better_community label_keys graph resolution node state current_links candidate best =
     (if fst candidate = lv_assignments state ! node then best
      else
        let gain = louvain_gain graph resolution node state current_links (fst candidate) (snd candidate) in
        if fp_lt (f64_add (snd best) epsilon) gain
           \<or> fp_le (fp_abs (f64_sub gain (snd best))) epsilon \<and> fp_lt epsilon gain
             \<and> label_keys ! fst candidate < label_keys ! fst best
        then (fst candidate, gain) else best)"

definition move_node :: "weighted_graph \<Rightarrow> nat \<Rightarrow> nat \<Rightarrow> louvain_state \<Rightarrow> louvain_state" where
  "move_node graph node best state =
     (let current = lv_assignments state ! node;
          degree = wg_weighted_degree graph ! node;
          members = list_modify best (\<lambda>m. m + 1) (list_modify current (\<lambda>m. m - 1) (lv_members state)) in
      \<lparr>lv_assignments = (lv_assignments state)[node := best],
       lv_community_degree = list_modify best (\<lambda>d. f64_add d degree)
         (list_modify current (\<lambda>d. f64_sub d degree) (lv_community_degree state)),
       lv_members = members,
       lv_empty = removeAll best (if members ! current = 0 then bs_insert current (lv_empty state) else lv_empty state)\<rparr>)"

definition louvain_node ::
  "string list \<Rightarrow> weighted_graph \<Rightarrow> f64 \<Rightarrow> nat \<Rightarrow> louvain_state \<times> bool \<Rightarrow> louvain_state \<times> bool" where
  "louvain_node label_keys graph resolution node acc =
     (let state = fst acc;
          current = lv_assignments state ! node;
          links = louvain_links graph node state;
          current_links = (case bt_get links current of None \<Rightarrow> Fin 0 | Some l \<Rightarrow> l);
          best = fold (better_community label_keys graph resolution node state current_links) links (current, Fin 0) in
      if fst best \<noteq> current \<and> fp_lt epsilon (snd best) then (move_node graph node (fst best) state, True) else acc)"

definition louvain ::
  "(string \<Rightarrow> string) \<Rightarrow> weighted_graph \<Rightarrow> nat \<Rightarrow> f64 \<Rightarrow> nat \<Rightarrow> nat list \<times> nat" where
  "louvain hash graph seed resolution max_iterations =
     (let count = length (wg_nodes graph) in
      if fp_le (wg_total_undirected_weight graph) epsilon then ([0..<count], 0)
      else
        let label_keys = map (seeded_label_key hash graph seed) [0..<count];
            start = \<lparr>lv_assignments = [0..<count], lv_community_degree = wg_weighted_degree graph,
              lv_members = replicate count 1, lv_empty = []\<rparr>;
            (state, units) = passes (fold (louvain_node label_keys graph resolution) (seeded_node_order hash graph seed))
              max_iterations start in
        (lv_assignments state, units))"

subsection \<open>Descriptions\<close>

definition is_contract_kind :: "node_kind \<Rightarrow> bool" where
  "is_contract_kind kind \<longleftrightarrow>
     kind \<in> {HttpOperation, GraphqlOperation, RpcMethod, EventChannel, EventSchema, Database, DatabaseTable}"

definition outgoing_weights :: "weighted_graph \<Rightarrow> f64 list" where
  "outgoing_weights graph =
     fold (\<lambda>edge. list_modify (ae_source edge) (\<lambda>w. f64_add w (ae_weight edge))) (wg_accepted_edges graph)
       (replicate (length (wg_nodes graph)) (Fin 0))"

text \<open>One power iteration. \<open>Iterator::sum\<close> of floats starts at the negative zero.\<close>

definition page_rank_step :: "weighted_graph \<Rightarrow> f64 list \<Rightarrow> f64 list \<Rightarrow> f64 list" where
  "page_rank_step graph outgoing ranks =
     (let count = usize_to_f64 (length (wg_nodes graph));
          dangling = fold (\<lambda>(node, rank) total. f64_add total rank)
            (filter (\<lambda>(node, rank). fp_le (outgoing ! node) epsilon) (List.enumerate 0 ranks)) NegZero;
          base = f64_add (f64_div (f64_sub (Fin 1) page_rank_damping) count)
            (f64_div (f64_mul page_rank_damping dangling) count) in
      fold (\<lambda>edge ranks'.
          if fp_lt epsilon (outgoing ! ae_source edge)
          then list_modify (ae_target edge) (\<lambda>r. f64_add r
            (f64_div (f64_mul (f64_mul page_rank_damping (ranks ! ae_source edge)) (ae_weight edge))
              (outgoing ! ae_source edge))) ranks'
          else ranks')
        (wg_accepted_edges graph) (replicate (length (wg_nodes graph)) base))"

definition weighted_page_rank :: "weighted_graph \<Rightarrow> f64 list" where
  "weighted_page_rank graph =
     (let count = length (wg_nodes graph) in
      if count = 0 then []
      else (page_rank_step graph (outgoing_weights graph) ^^ page_rank_iterations)
        (replicate count (f64_div (Fin 1) (usize_to_f64 count))))"

definition detect_god_nodes :: "weighted_graph \<Rightarrow> nat btree_set" where
  "detect_god_nodes graph =
     (let count = length (wg_nodes graph) in
      if count < 4 then []
      else
        let median = sort (wg_neighbor_count graph) ! (length (wg_neighbor_count graph) div 2);
            majority = (count + 1) div 2 in
        bs_of_list (map fst (filter (\<lambda>(node, degree). majority \<le> degree \<and> max (saturating_mul median 2) 3 \<le> degree)
          (List.enumerate 0 (wg_neighbor_count graph)))))"

definition centrality_score :: "f64 \<Rightarrow> f64 \<Rightarrow> f64 \<Rightarrow> f64" where
  "centrality_score page_rank weighted_degree maximum_degree =
     (let normalized_degree = (if fp_le maximum_degree epsilon then Fin 0 else f64_div weighted_degree maximum_degree) in
      f64_add (f64_mul (f64_lit (65 / 100)) page_rank) (f64_mul (f64_lit (35 / 100)) normalized_degree))"

definition central_nodes :: "weighted_graph \<Rightarrow> nat list \<Rightarrow> f64 list \<Rightarrow> nat btree_set \<Rightarrow> nat list" where
  "central_nodes graph members page_rank god_nodes =
     (let maximum_degree = fold (\<lambda>node m. fp_max m (wg_weighted_degree graph ! node)) members (Fin 0) in
      take 3 (sort_key (\<lambda>node. (node \<notin> set god_nodes,
          fp_descending (centrality_score (page_rank ! node) (wg_weighted_degree graph ! node) maximum_degree),
          n_id (wg_nodes graph ! node))) members))"

fun split_when :: "('a \<Rightarrow> bool) \<Rightarrow> 'a list \<Rightarrow> 'a list list" where
  "split_when P [] = [[]]"
| "split_when P (c # s) =
     (if P c then [] # split_when P s
      else case split_when P s of [] \<Rightarrow> [[c]] | piece # rest \<Rightarrow> (c # piece) # rest)"

definition is_stop_term :: "string \<Rightarrow> bool" where
  "is_stop_term term \<longleftrightarrow> term \<in> set [''api'', ''app'', ''application'', ''artifact'', ''community'', ''default'', ''http'',
     ''https'', ''operation'', ''repo'', ''repository'', ''rpc'', ''service'', ''src'', ''test'', ''tests'', ''version'']"

definition normalized_terms :: "unicode \<Rightarrow> string \<Rightarrow> string btree_set" where
  "normalized_terms uc text =
     bs_of_list (filter (\<lambda>term. 3 \<le> length term \<and> length term \<le> 32
         \<and> list_ex (uc_is_alphabetic uc) (utf8_chars term) \<and> \<not> is_stop_term term)
       (map (\<lambda>piece. uc_to_lowercase uc (concat piece))
         (split_when (\<lambda>c. \<not> uc_is_alphanumeric uc c) (utf8_chars text))))"

definition title_case :: "unicode \<Rightarrow> string \<Rightarrow> string" where
  "title_case uc term =
     (case utf8_chars term of [] \<Rightarrow> [] | first # rest \<Rightarrow> uc_to_uppercase uc first @ concat rest)"

definition u32_max :: nat where
  "u32_max = 2 ^ 32 - 1"

definition term_score :: "weighted_graph \<Rightarrow> nat btree_set \<Rightarrow> nat \<Rightarrow> nat" where
  "term_score graph central_set member =
     (let kind = n_kind (wg_nodes graph ! member) in
      (if kind = Service then 400 else if kind = Repository then 300 else if is_contract_kind kind then 200 else 0)
      + (if member \<in> set central_set then 100 else 0))"

definition add_term :: "nat \<Rightarrow> node_id \<Rightarrow> string \<Rightarrow> (string, nat \<times> node_id \<times> nat) btree_map
    \<Rightarrow> (string, nat \<times> node_id \<times> nat) btree_map" where
  "add_term score node_id term terms =
     (let (total, best_id, best) = (case bt_get terms term of None \<Rightarrow> (0, node_id, 0) | Some entry \<Rightarrow> entry);
          total = min (total + score) u32_max in
      bt_insert term (if best < score \<or> score = best \<and> node_id < best_id then (total, node_id, score) else (total, best_id, best))
        terms)"

definition collect_terms :: "unicode \<Rightarrow> weighted_graph \<Rightarrow> nat btree_set \<Rightarrow> nat list
    \<Rightarrow> (string, nat \<times> node_id \<times> nat) btree_map" where
  "collect_terms uc graph central_set members =
     fold (\<lambda>member terms.
         let node = wg_nodes graph ! member; score = term_score graph central_set member in
         if score = 0 then terms
         else fold (add_term score (n_id node))
           (bs_of_list (normalized_terms uc (n_label node) @ normalized_terms uc (n_stable_key node))) terms)
       members []"

definition structural_label ::
  "unicode \<Rightarrow> weighted_graph \<Rightarrow> nat list \<Rightarrow> nat list \<Rightarrow> string \<times> community_label_evidence list" where
  "structural_label uc graph members central =
     (let terms = collect_terms uc graph (bs_of_list central) members;
          ranked = take 3 (sort_key (\<lambda>(term, score, node_id). (- int score, term, node_id))
            (map (\<lambda>(term, score, node_id, _). (term, score, node_id)) terms)) in
      if ranked = [] then
        (''Community: '' @ (case members of [] \<Rightarrow> ''community'' | member # _ \<Rightarrow> n_label (wg_nodes graph ! member)), [])
      else
        (join '' / '' (map (\<lambda>(term, _, _). title_case uc term) ranked),
         map (\<lambda>(term, _, node_id). \<lparr>ce_node_id = node_id, ce_term = term\<rparr>) ranked))"

record edge_tally =
  ta_inbound :: "node_id btree_set"
  ta_outbound :: "node_id btree_set"
  ta_cohesion :: f64
  ta_coupling :: f64
  ta_cross :: nat
  ta_internal_pairs :: "(nat \<times> nat) btree_set"

definition tally_edge :: "weighted_graph \<Rightarrow> nat btree_set \<Rightarrow> accepted_edge \<Rightarrow> edge_tally \<Rightarrow> edge_tally" where
  "tally_edge graph member_set edge tally =
     (let source_inside = ae_source edge \<in> set member_set;
          target_inside = ae_target edge \<in> set member_set;
          source_node = wg_nodes graph ! ae_source edge;
          target_node = wg_nodes graph ! ae_target edge in
      if source_inside \<and> target_inside then
        tally\<lparr>ta_cohesion := f64_add (ta_cohesion tally) (ae_weight edge),
              ta_internal_pairs := (if ae_source edge \<noteq> ae_target edge
                then bs_insert (ae_source edge, ae_target edge) (ta_internal_pairs tally) else ta_internal_pairs tally)\<rparr>
      else if source_inside \<or> target_inside then
        tally\<lparr>ta_coupling := f64_add (ta_coupling tally) (ae_weight edge), ta_cross := ta_cross tally + 1,
              ta_inbound := (if target_inside \<and> is_contract_kind (n_kind target_node)
                then bs_insert (n_id target_node) (ta_inbound tally) else ta_inbound tally),
              ta_outbound := (if source_inside \<and> is_contract_kind (n_kind source_node)
                then bs_insert (n_id source_node) (ta_outbound tally) else ta_outbound tally)\<rparr>
      else tally)"

definition empty_tally :: edge_tally where
  "empty_tally = \<lparr>ta_inbound = [], ta_outbound = [], ta_cohesion = Fin 0, ta_coupling = Fin 0, ta_cross = 0,
     ta_internal_pairs = []\<rparr>"

definition community_limitations :: "weighted_graph \<Rightarrow> nat list \<Rightarrow> nat btree_set \<Rightarrow> f64 \<Rightarrow> string list" where
  "community_limitations graph members god_nodes cohesion =
     sort ((if length members = 1 then [''Community contains a single node; structural metrics are limited.''] else [])
       @ map (\<lambda>node. ''High-degree god node `'' @ n_id (wg_nodes graph ! node) @ ''` may dominate community structure.'')
           (filter (\<lambda>node. node \<in> set god_nodes) members)
       @ (if fp_le cohesion epsilon then [''Community has no positive internal accepted edge weight.''] else []))"

definition canonical_members :: "node_id list \<Rightarrow> string" where
  "canonical_members member_ids = join ''|'' (map (\<lambda>i. show_nat (length i) @ '':'' @ i) member_ids)"

definition describe_community ::
  "(string \<Rightarrow> string) \<Rightarrow> unicode \<Rightarrow> weighted_graph \<Rightarrow> nat list \<Rightarrow> f64 list \<Rightarrow> nat btree_set \<Rightarrow> community" where
  "describe_community hash uc graph members page_rank god_nodes =
     (let central = central_nodes graph members page_rank god_nodes;
          (label, label_evidence) = structural_label uc graph members central;
          repositories = bs_of_list (List.map_filter (\<lambda>m. n_repo_id (wg_nodes graph ! m)) members);
          services = bs_of_list (map (\<lambda>m. n_id (wg_nodes graph ! m))
            (filter (\<lambda>m. n_kind (wg_nodes graph ! m) = Service) members));
          tally = fold (tally_edge graph (bs_of_list members)) (wg_accepted_edges graph) empty_tally;
          possible = saturating_mul (length members) (length members - 1);
          density = (if possible = 0 then Fin 0
            else f64_div (usize_to_f64 (length (ta_internal_pairs tally))) (usize_to_f64 possible));
          member_ids = map (\<lambda>m. n_id (wg_nodes graph ! m)) members in
      \<lparr>co_id = stable_id hash ''community'' (canonical_members member_ids), co_label = label, co_members = member_ids,
       co_central_nodes = map (\<lambda>m. n_id (wg_nodes graph ! m)) central, co_repositories = repositories,
       co_services = services, co_inbound_contracts = ta_inbound tally, co_outbound_contracts = ta_outbound tally,
       co_metrics = \<lparr>cm_size = length members, cm_density = density, cm_cohesion = ta_cohesion tally,
         cm_coupling = ta_coupling tally, cm_cross_community_edges = ta_cross tally\<rparr>,
       co_label_evidence = label_evidence,
       co_limitations = community_limitations graph members god_nodes (ta_cohesion tally)\<rparr>)"

definition member_groups :: "weighted_graph \<Rightarrow> nat list \<Rightarrow> nat list list" where
  "member_groups graph assignments =
     (let grouped = fold (\<lambda>(node, community). bt_push community node) (List.enumerate 0 assignments) [];
          name = (\<lambda>node. n_id (wg_nodes graph ! node)) in
      sort_key (map name) (map (sort_key name) (bt_values grouped)))"

definition describe_communities :: "(string \<Rightarrow> string) \<Rightarrow> unicode \<Rightarrow> weighted_graph \<Rightarrow> nat list \<Rightarrow> community list" where
  "describe_communities hash uc graph assignments =
     (let page_rank = weighted_page_rank graph; god_nodes = detect_god_nodes graph in
      map (\<lambda>members. describe_community hash uc graph members page_rank god_nodes) (member_groups graph assignments))"

subsection \<open>The analysis\<close>

definition detect_assignments :: "(string \<Rightarrow> string) \<Rightarrow> community_config \<Rightarrow> weighted_graph \<Rightarrow> nat list \<times> nat" where
  "detect_assignments hash config graph =
     (case cc_algorithm config of
        ConnectedComponents \<Rightarrow> connected_components graph
      | WeightedClustering \<Rightarrow> weighted_label_propagation hash graph (cc_seed config) (cc_max_iterations config)
      | Louvain \<Rightarrow> louvain hash graph (cc_seed config) (cc_resolution config) (cc_max_iterations config))"

definition analyze_communities_with_progress ::
  "(string \<Rightarrow> string) \<Rightarrow> unicode \<Rightarrow> string \<Rightarrow> node list \<Rightarrow> edge list \<Rightarrow> community_config
     \<Rightarrow> (community_error, community_snapshot \<times> nat) outcome" where
  "analyze_communities_with_progress hash uc snapshot_id nodes edges config =
     and_then (validate_inputs nodes edges config) (\<lambda>weights.
     and_then (scoped_node_ids nodes edges config weights) (\<lambda>selected.
       let graph = build_graph nodes edges config weights selected;
           (assignments, units) = detect_assignments hash config graph in
       Inr (\<lparr>sn_snapshot_id = snapshot_id, sn_engine_version = ''1.0.0'', sn_config = config,
             sn_communities = describe_communities hash uc graph assignments\<rparr>, units)))"

definition analyze_communities ::
  "(string \<Rightarrow> string) \<Rightarrow> unicode \<Rightarrow> string \<Rightarrow> node list \<Rightarrow> edge list \<Rightarrow> community_config
     \<Rightarrow> (community_error, community_snapshot) outcome" where
  "analyze_communities hash uc snapshot_id nodes edges config =
     and_then (analyze_communities_with_progress hash uc snapshot_id nodes edges config) (\<lambda>(snapshot, _). Inr snapshot)"

subsection \<open>The comparison of two snapshots\<close>

definition overlap_of :: "community \<Rightarrow> community \<Rightarrow> f64" where
  "overlap_of old new =
     (let old_members = bs_of_list (co_members old); new_members = bs_of_list (co_members new);
          intersection = length (filter (\<lambda>m. m \<in> set new_members) old_members);
          union = length (fold bs_insert new_members old_members) in
      if union = 0 then Fin 1 else f64_div (usize_to_f64 intersection) (usize_to_f64 union))"

definition overlap_matrix :: "community list \<Rightarrow> community list \<Rightarrow> (nat \<times> nat, f64) btree_map" where
  "overlap_matrix before after =
     fold (\<lambda>(b, old) overlaps. fold (\<lambda>(a, new). bt_insert (b, a) (overlap_of old new)) (List.enumerate 0 after) overlaps)
       (List.enumerate 0 before) []"

definition is_related :: "(nat \<times> nat, f64) btree_map \<Rightarrow> nat \<Rightarrow> nat \<Rightarrow> bool" where
  "is_related overlaps before after =
     (case bt_get overlaps (before, after) of None \<Rightarrow> False | Some overlap \<Rightarrow> fp_le related_overlap overlap)"

definition related_after :: "(nat \<times> nat, f64) btree_map \<Rightarrow> nat \<Rightarrow> nat \<Rightarrow> nat list list" where
  "related_after overlaps before_count after_count =
     map (\<lambda>before. filter (\<lambda>after. is_related overlaps before after) [0..<after_count]) [0..<before_count]"

definition related_before :: "(nat \<times> nat, f64) btree_map \<Rightarrow> nat \<Rightarrow> nat \<Rightarrow> nat list list" where
  "related_before overlaps before_count after_count =
     map (\<lambda>after. filter (\<lambda>before. is_related overlaps before after) [0..<before_count]) [0..<after_count]"

definition maximum_overlap :: "(nat \<times> nat, f64) btree_map \<Rightarrow> nat list \<Rightarrow> (nat \<Rightarrow> nat \<times> nat) \<Rightarrow> f64" where
  "maximum_overlap overlaps related key =
     fold (\<lambda>overlap m. fp_max m overlap) (List.map_filter (\<lambda>index. bt_get overlaps (key index)) related) (Fin 0)"

record matching =
  ma_changes :: "community_change list"
  ma_before :: "nat btree_set"
  ma_after :: "nat btree_set"

definition community_id_at :: "community_snapshot \<Rightarrow> nat \<Rightarrow> community_id" where
  "community_id_at snapshot index = co_id (sn_communities snapshot ! index)"

definition classify_split ::
  "community_snapshot \<Rightarrow> community_snapshot \<Rightarrow> (nat \<times> nat, f64) btree_map \<Rightarrow> nat \<times> nat list \<Rightarrow> matching \<Rightarrow> matching" where
  "classify_split before after overlaps item m =
     (case item of (before_index, related) \<Rightarrow>
        if 2 \<le> length related then
          \<lparr>ma_changes = ma_changes m @
             [\<lparr>ch_kind = Split, ch_before = [community_id_at before before_index],
               ch_after = map (community_id_at after) related,
               ch_overlap = maximum_overlap overlaps related (\<lambda>index. (before_index, index)),
               ch_explanation = ''One prior community overlaps '' @ show_nat (length related)
                 @ '' successor communities at or above 0.25.''\<rparr>],
           ma_before = bs_insert before_index (ma_before m), ma_after = fold bs_insert related (ma_after m)\<rparr>
        else m)"

definition classify_merge ::
  "community_snapshot \<Rightarrow> community_snapshot \<Rightarrow> (nat \<times> nat, f64) btree_map \<Rightarrow> nat \<times> nat list \<Rightarrow> matching \<Rightarrow> matching" where
  "classify_merge before after overlaps item m =
     (case item of (after_index, related) \<Rightarrow>
        if 2 \<le> length related then
          \<lparr>ma_changes = ma_changes m @
             [\<lparr>ch_kind = Merged, ch_before = map (community_id_at before) related,
               ch_after = [community_id_at after after_index],
               ch_overlap = maximum_overlap overlaps related (\<lambda>index. (index, after_index)),
               ch_explanation = show_nat (length related)
                 @ '' prior communities overlap one successor at or above 0.25.''\<rparr>],
           ma_before = fold bs_insert related (ma_before m), ma_after = bs_insert after_index (ma_after m)\<rparr>
        else m)"

definition classify_structural_changes ::
  "community_snapshot \<Rightarrow> community_snapshot \<Rightarrow> (nat \<times> nat, f64) btree_map \<Rightarrow> nat list list \<Rightarrow> nat list list \<Rightarrow> matching" where
  "classify_structural_changes before after overlaps before_related after_related =
     fold (classify_merge before after overlaps) (List.enumerate 0 after_related)
       (fold (classify_split before after overlaps) (List.enumerate 0 before_related)
         \<lparr>ma_changes = [], ma_before = [], ma_after = []\<rparr>)"

definition classify_pair ::
  "community_snapshot \<Rightarrow> community_snapshot \<Rightarrow> nat \<times> nat \<times> f64 \<Rightarrow> matching \<Rightarrow> matching" where
  "classify_pair before after candidate m =
     (case candidate of (before_index, after_index, overlap) \<Rightarrow>
        if before_index \<in> set (ma_before m) \<or> after_index \<in> set (ma_after m) then m
        else
          \<lparr>ma_changes =
             (if fp_lt (f64_add overlap epsilon) stable_overlap then ma_changes m @
                [\<lparr>ch_kind = MateriallyChanged, ch_before = [community_id_at before before_index],
                  ch_after = [community_id_at after after_index], ch_overlap = overlap,
                  ch_explanation = ''Best one-to-one member overlap is '' @ three_decimals overlap
                    @ '', below the stable threshold 0.80.''\<rparr>]
              else ma_changes m),
           ma_before = bs_insert before_index (ma_before m), ma_after = bs_insert after_index (ma_after m)\<rparr>)"

definition classify_pairwise_changes ::
  "community_snapshot \<Rightarrow> community_snapshot \<Rightarrow> (nat \<times> nat, f64) btree_map \<Rightarrow> matching \<Rightarrow> matching" where
  "classify_pairwise_changes before after overlaps m =
     (let candidates = map (\<lambda>((left, right), overlap). (left, right, overlap))
            (filter (\<lambda>(_, overlap). fp_le related_overlap overlap) overlaps) in
      fold (classify_pair before after)
        (sort_key (\<lambda>(left, right, overlap). (fp_descending overlap, community_id_at before left, community_id_at after right))
          candidates) m)"

definition classify_unmatched :: "community_snapshot \<Rightarrow> community_snapshot \<Rightarrow> matching \<Rightarrow> community_change list" where
  "classify_unmatched before after m =
     ma_changes m
     @ map (\<lambda>(_, community). \<lparr>ch_kind = Removed, ch_before = [co_id community], ch_after = [], ch_overlap = Fin 0,
           ch_explanation = ''No successor community reaches the related-overlap threshold 0.25.''\<rparr>)
         (filter (\<lambda>(index, _). index \<notin> set (ma_before m)) (List.enumerate 0 (sn_communities before)))
     @ map (\<lambda>(_, community). \<lparr>ch_kind = Created, ch_before = [], ch_after = [co_id community], ch_overlap = Fin 0,
           ch_explanation = ''No prior community reaches the related-overlap threshold 0.25.''\<rparr>)
         (filter (\<lambda>(index, _). index \<notin> set (ma_after m)) (List.enumerate 0 (sn_communities after)))"

fun change_kind_index :: "community_change_kind \<Rightarrow> nat" where
  "change_kind_index Created = 0"
| "change_kind_index Removed = 1"
| "change_kind_index Split = 2"
| "change_kind_index Merged = 3"
| "change_kind_index MateriallyChanged = 4"

definition change_order :: "community_change \<Rightarrow> nat \<times> community_id list \<times> community_id list \<times> f64 \<times> string" where
  "change_order change =
     (change_kind_index (ch_kind change), ch_before change, ch_after change, ch_overlap change, ch_explanation change)"

definition compare_community_snapshots :: "community_snapshot \<Rightarrow> community_snapshot \<Rightarrow> community_delta" where
  "compare_community_snapshots before after =
     (let overlaps = overlap_matrix (sn_communities before) (sn_communities after);
          before_related = related_after overlaps (length (sn_communities before)) (length (sn_communities after));
          after_related = related_before overlaps (length (sn_communities before)) (length (sn_communities after));
          m = classify_structural_changes before after overlaps before_related after_related;
          m = classify_pairwise_changes before after overlaps m in
      \<lparr>cd_before_snapshot_id = sn_snapshot_id before, cd_after_snapshot_id = sn_snapshot_id after,
       cd_changes = sort_key change_order (classify_unmatched before after m)\<rparr>)"

end
