(* ===== verification/Communities_Correct.thy ===== *)
theory Communities_Correct
  imports Communities "HOL-Library.Multiset"
begin

text \<open>
  Community detection is correct: the weighted graph links exactly the nodes that a participating edge joins,
  the depth-first marking finds exactly its connected components, every algorithm labels every node, the described
  communities partition the nodes in scope, the bookkeeping of Louvain stays consistent, and the result does not
  depend on the order of the inputs.
\<close>

subsection \<open>Depth-first marking\<close>

definition linked :: "weighted_graph \<Rightarrow> nat \<Rightarrow> nat \<Rightarrow> bool" where
  "linked graph i j \<longleftrightarrow> i < length (wg_adjacency graph) \<and> (\<exists>w. (j, w) \<in> set (wg_adjacency graph ! i) \<and> fp_lt (Fin 0) w)"

text \<open>\<open>extends_with c a a'\<close>: some unmarked nodes got the mark \<open>c\<close>, nothing else changed.\<close>

definition marks :: "nat \<Rightarrow> nat option list \<Rightarrow> nat option list \<Rightarrow> nat set \<Rightarrow> bool" where
  "marks c a a' new \<longleftrightarrow> length a' = length a \<and> (\<forall>i \<in> new. is_unassigned a i)
     \<and> (\<forall>i < length a. a' ! i = (if i \<in> new then Some c else a ! i))"

lemma marks_refl [simp]: "marks c a a {}"
  by (simp add: marks_def)

lemma marks_trans: "marks c a b new \<Longrightarrow> marks c b d extra \<Longrightarrow> marks c a d (new \<union> extra) \<and> new \<inter> extra = {}"
  by (auto simp: marks_def is_unassigned_def split: if_splits)

lemma marks_one: "is_unassigned a i \<Longrightarrow> marks c a (a[i := Some c]) {i}"
  by (auto simp: marks_def is_unassigned_def nth_list_update)

lemma marks_assigned: "marks c a a' new \<Longrightarrow> i < length a \<Longrightarrow> a' ! i \<noteq> None \<longleftrightarrow> i \<in> new \<or> a ! i \<noteq> None"
  by (auto simp: marks_def)

lemma visit_neighbors_marks:
  assumes "visit_neighbors c neighbors a pending = (a', pending')"
  shows "\<exists>new. pending' = pending @ new \<and> marks c a a' (set new)
     \<and> (\<forall>j \<in> set new. \<exists>w. (j, w) \<in> set neighbors \<and> fp_lt (Fin 0) w)
     \<and> (\<forall>(j, w) \<in> set neighbors. fp_lt (Fin 0) w \<and> j < length a \<longrightarrow> a' ! j \<noteq> None)"
  using assms
proof (induction c neighbors a pending rule: visit_neighbors.induct)
  case (2 c neighbor weight neighbors a pending)
  show ?case
  proof (cases "fp_lt (Fin 0) weight \<and> is_unassigned a neighbor")
    case True
    then obtain new where new: "pending' = (pending @ [neighbor]) @ new" "marks c (a[neighbor := Some c]) a' (set new)"
        "\<forall>j \<in> set new. \<exists>w. (j, w) \<in> set neighbors \<and> fp_lt (Fin 0) w"
        "\<forall>(j, w) \<in> set neighbors. fp_lt (Fin 0) w \<and> j < length (a[neighbor := Some c]) \<longrightarrow> a' ! j \<noteq> None"
      using 2 by auto
    have marked: "marks c a a' (set (neighbor # new))"
      using marks_trans [OF marks_one [of a neighbor c] new(2)] True by simp
    then have "neighbor < length a \<longrightarrow> a' ! neighbor \<noteq> None" by (simp add: marks_def)
    then show ?thesis
      using new True marked by (intro exI [of _ "neighbor # new"]) (auto simp: case_prod_unfold)
  next
    case False
    then obtain new where new: "pending' = pending @ new" "marks c a a' (set new)"
        "\<forall>j \<in> set new. \<exists>w. (j, w) \<in> set neighbors \<and> fp_lt (Fin 0) w"
        "\<forall>(j, w) \<in> set neighbors. fp_lt (Fin 0) w \<and> j < length a \<longrightarrow> a' ! j \<noteq> None"
      using 2 by auto
    have "fp_lt (Fin 0) weight \<and> neighbor < length a \<longrightarrow> a' ! neighbor \<noteq> None"
      using False marks_assigned [OF new(2)] by (auto simp: is_unassigned_def)
    then show ?thesis using new by (intro exI [of _ new]) auto
  qed
qed auto

lemma component_loop_marks:
  assumes "\<forall>i < length a. \<forall>j. linked graph i j \<longrightarrow> j < length a" and "length (wg_adjacency graph) = length a"
    and "\<forall>i \<in> set pending. i < length a"
    and "\<forall>i < length a. a ! i = Some c \<longrightarrow> i \<in> set pending \<or> (\<forall>j. linked graph i j \<longrightarrow> a ! j \<noteq> None)"
  shows "\<exists>new. marks c a (component_loop graph c pending a) new
     \<and> (\<forall>j \<in> new. \<exists>i \<in> set pending. (linked graph)\<^sup>*\<^sup>* i j)
     \<and> (\<forall>i < length a. component_loop graph c pending a ! i = Some c \<longrightarrow>
          (\<forall>j. linked graph i j \<longrightarrow> component_loop graph c pending a ! j \<noteq> None))"
  using assms
proof (induction graph c pending a rule: component_loop.induct)
  case (1 graph c pending a)
  show ?case
  proof (cases "pending = []")
    case True
    then show ?thesis using "1.prems"(4) by (intro exI [of _ "{}"]) (simp add: component_loop.simps)
  next
    case False
    let ?node = "last pending"
    obtain a1 pending1 where visit: "visit_neighbors c (wg_adjacency graph ! ?node) a (butlast pending) = (a1, pending1)"
      by fastforce
    then obtain new1 where new1: "pending1 = butlast pending @ new1" "marks c a a1 (set new1)"
        "\<forall>j \<in> set new1. \<exists>w. (j, w) \<in> set (wg_adjacency graph ! ?node) \<and> fp_lt (Fin 0) w"
        "\<forall>(j, w) \<in> set (wg_adjacency graph ! ?node). fp_lt (Fin 0) w \<and> j < length a \<longrightarrow> a1 ! j \<noteq> None"
      using visit_neighbors_marks [OF visit] by blast
    have loop: "component_loop graph c pending a = component_loop graph c pending1 a1"
      using False visit by (subst component_loop.simps) simp
    have node: "?node < length a" using False "1.prems"(3) by simp
    have fresh: "linked graph ?node j" "j < length a" if "j \<in> set new1" for j
      using new1(2,3) that node "1.prems"(2) by (auto simp: linked_def marks_def is_unassigned_def)
    have len: "length a1 = length a" using new1(2) by (simp add: marks_def)
    have finished: "\<forall>j. linked graph ?node j \<longrightarrow> a1 ! j \<noteq> None"
    proof (intro allI impI)
      fix j assume link: "linked graph ?node j"
      then have "j < length a" using "1.prems"(1) node by blast
      then show "a1 ! j \<noteq> None" using new1(4) link by (fastforce simp: linked_def)
    qed
    have old: "i \<in> set pending1 \<or> (\<forall>j. linked graph i j \<longrightarrow> a1 ! j \<noteq> None)" if i: "i < length a" "a1 ! i = Some c" for i
    proof (cases "i \<in> set new1")
      case False
      then have "a ! i = Some c" using i new1(2) by (simp add: marks_def)
      then consider "i \<in> set pending" | "\<forall>j. linked graph i j \<longrightarrow> a ! j \<noteq> None" using "1.prems"(4) i(1) by blast
      then show ?thesis
      proof cases
        case 1
        then have "i \<in> set (butlast pending) \<or> i = ?node"
          using \<open>pending \<noteq> []\<close> by (metis append_butlast_last_id rotate1.simps(2) set_ConsD set_rotate1)
        then show ?thesis using finished new1(1) by auto
      next
        case 2
        then show ?thesis using marks_assigned [OF new1(2)] "1.prems"(1) i(1) by blast
      qed
    qed (simp add: new1(1))
    have pend: "\<forall>i \<in> set pending1. i < length a1"
      using new1(1) fresh(2) "1.prems"(3) len by (auto dest: in_set_butlastD)
    have "\<exists>new. marks c a1 (component_loop graph c pending1 a1) new
     \<and> (\<forall>j \<in> new. \<exists>i \<in> set pending1. (linked graph)\<^sup>*\<^sup>* i j)
     \<and> (\<forall>i < length a1. component_loop graph c pending1 a1 ! i = Some c \<longrightarrow>
          (\<forall>j. linked graph i j \<longrightarrow> component_loop graph c pending1 a1 ! j \<noteq> None))"
      using "1.IH" [OF False refl] "1.prems"(1,2) visit pend old len by simp
    then obtain new where new: "marks c a1 (component_loop graph c pending1 a1) new"
        "\<forall>j \<in> new. \<exists>i \<in> set pending1. (linked graph)\<^sup>*\<^sup>* i j"
        "\<forall>i < length a1. component_loop graph c pending1 a1 ! i = Some c \<longrightarrow>
          (\<forall>j. linked graph i j \<longrightarrow> component_loop graph c pending1 a1 ! j \<noteq> None)" by blast
    have reach: "\<exists>i \<in> set pending. (linked graph)\<^sup>*\<^sup>* i j" if "j \<in> set new1 \<union> new" for j
    proof -
      have from_new: "(linked graph)\<^sup>*\<^sup>* ?node k" if "k \<in> set new1" for k using fresh(1) [OF that] by blast
      consider "j \<in> set new1" | i where "i \<in> set pending1" "(linked graph)\<^sup>*\<^sup>* i j" using new(2) \<open>j \<in> set new1 \<union> new\<close> by blast
      then show ?thesis
      proof cases
        case 1
        then show ?thesis using from_new False last_in_set by blast
      next
        case 2
        then show ?thesis using from_new new1(1) False last_in_set [OF False]
          by (metis Un_iff in_set_butlastD rtranclp_trans set_append)
      qed
    qed
    show ?thesis
      using marks_trans [OF new1(2) new(1)] reach new(3) len unfolding loop by (intro exI [of _ "set new1 \<union> new"]) simp
  qed
qed


text \<open>What holds between two starts: a mark is shared exactly by connected nodes.\<close>

definition components_ok :: "weighted_graph \<Rightarrow> nat option list \<times> nat \<Rightarrow> bool" where
  "components_ok graph state = (case state of (a, component) \<Rightarrow>
     length a = length (wg_adjacency graph)
     \<and> (\<forall>i < length a. \<forall>c. a ! i = Some c \<longrightarrow> c < component)
     \<and> (\<forall>i < length a. \<forall>j. a ! i \<noteq> None \<and> linked graph i j \<longrightarrow> a ! j = a ! i)
     \<and> (\<forall>i < length a. \<forall>j < length a. a ! i \<noteq> None \<and> a ! i = a ! j \<longrightarrow> (linked graph)\<^sup>*\<^sup>* i j))"

definition symmetric_graph :: "weighted_graph \<Rightarrow> bool" where
  "symmetric_graph graph \<longleftrightarrow> length (wg_adjacency graph) = length (wg_nodes graph)
     \<and> (\<forall>i j. linked graph i j \<longrightarrow> j < length (wg_nodes graph) \<and> linked graph j i)"

lemma linked_sym:
  assumes "symmetric_graph graph" and "(linked graph)\<^sup>*\<^sup>* i j"
  shows "(linked graph)\<^sup>*\<^sup>* j i"
  using assms(2)
proof (induction rule: rtranclp_induct)
  case (step j k)
  then show ?case using assms(1) by (auto simp: symmetric_graph_def intro: converse_rtranclp_into_rtranclp)
qed simp

lemma component_start_ok:
  assumes "symmetric_graph graph" and "components_ok graph state" and "start < length (wg_nodes graph)"
  shows "components_ok graph (component_start graph start state)
     \<and> fst (component_start graph start state) ! start \<noteq> None
     \<and> (\<forall>i < length (wg_nodes graph). fst state ! i \<noteq> None \<longrightarrow> fst (component_start graph start state) ! i \<noteq> None)"
proof (cases "fst state ! start = None")
  case True
  obtain a c where state: "state = (a, c)" by (cases state)
  have len: "length a = length (wg_nodes graph)" "length (wg_adjacency graph) = length a"
    using assms(1,2) by (auto simp: symmetric_graph_def components_ok_def state)
  have a: "\<forall>i < length a. \<forall>d. a ! i = Some d \<longrightarrow> d < c"
      "\<forall>i < length a. \<forall>j. a ! i \<noteq> None \<and> linked graph i j \<longrightarrow> a ! j = a ! i"
      "\<forall>i < length a. \<forall>j < length a. a ! i \<noteq> None \<and> a ! i = a ! j \<longrightarrow> (linked graph)\<^sup>*\<^sup>* i j"
    using assms(2) [unfolded components_ok_def state case_prod_conv] by blast+
  let ?b = "a[start := Some c]"
  let ?d = "component_loop graph c [start] ?b"
  have bounded: "\<forall>i < length ?b. \<forall>j. linked graph i j \<longrightarrow> j < length ?b"
    using assms(1) len by (auto simp: symmetric_graph_def)
  have open_only: "\<forall>i < length ?b. ?b ! i = Some c \<longrightarrow> i \<in> set [start] \<or> (\<forall>j. linked graph i j \<longrightarrow> ?b ! j \<noteq> None)"
    using a(1) by (auto simp: nth_list_update)
  obtain new where new: "marks c ?b ?d new" "\<forall>j \<in> new. (linked graph)\<^sup>*\<^sup>* start j"
      "\<forall>i < length a. ?d ! i = Some c \<longrightarrow> (\<forall>j. linked graph i j \<longrightarrow> ?d ! j \<noteq> None)"
    using component_loop_marks [OF bounded _ _ open_only] assms(3) len by auto
  have d: "length ?d = length a" "?d ! i = (if i \<in> insert start new then Some c else a ! i)" if "i < length a" for i
    using new(1) that assms(3) len by (auto simp: marks_def nth_list_update)
  have fresh: "a ! i = None" if "i \<in> insert start new" "i < length a" for i
  proof (cases "i = start")
    case False
    then have "is_unassigned ?b i" using that new(1) by (simp add: marks_def)
    then show ?thesis using False by (simp add: is_unassigned_def)
  qed (use True state in simp)
  have inside: "?d ! i = Some c \<longleftrightarrow> i \<in> insert start new" if "i < length a" for i
    using d(2) [OF that] a(1) that by auto
  have reach: "(linked graph)\<^sup>*\<^sup>* start i" if "i \<in> insert start new" for i using that new(2) by auto
  have edge: "?d ! j = ?d ! i" if i: "i < length a" "?d ! i \<noteq> None" and link: "linked graph i j" for i j
  proof -
    have j: "j < length a" "linked graph j i" using link assms(1) len by (auto simp: symmetric_graph_def)
    show ?thesis
    proof (cases "i \<in> insert start new")
      case True
      then have "?d ! j \<noteq> None" using inside [OF i(1)] new(3) i(1) link by blast
      moreover have "a ! j = None" using a(2) j i(1) fresh [OF True i(1)] by (metis option.distinct(1))
      ultimately show ?thesis using d(2) [OF j(1)] d(2) [OF i(1)] True by (auto split: if_splits)
    next
      case False
      then have "a ! j = a ! i" using d(2) [OF i(1)] i a(2) link by auto
      moreover have "j \<notin> insert start new" using fresh j(1) calculation False d(2) [OF i(1)] i(2) by metis
      ultimately show ?thesis using d(2) [OF j(1)] d(2) [OF i(1)] False by simp
    qed
  qed
  have same: "(linked graph)\<^sup>*\<^sup>* i j" if ij: "i < length a" "j < length a" "?d ! i \<noteq> None" "?d ! i = ?d ! j" for i j
  proof (cases "i \<in> insert start new")
    case True
    then have "j \<in> insert start new" using inside [OF ij(1)] inside [OF ij(2)] ij(4) by simp
    then show ?thesis using reach True linked_sym [OF assms(1)] by (meson rtranclp_trans)
  next
    case False
    then have "?d ! j \<noteq> Some c" using inside [OF ij(1)] ij(4) by simp
    then have "j \<notin> insert start new" using inside [OF ij(2)] by simp
    then show ?thesis using False d(2) [OF ij(1)] d(2) [OF ij(2)] ij a(3) by simp
  qed
  have size: "length ?d = length a" using new(1) by (simp add: marks_def)
  have below: "e < c + 1" if "i < length a" "?d ! i = Some e" for i e
    using that d(2) [OF that(1)] a(1) by (auto simp: less_Suc_eq split: if_splits)
  have "components_ok graph (?d, c + 1)"
    unfolding components_ok_def case_prod_conv size using len(2) [symmetric] below edge same by blast
  then show ?thesis
    using True d assms(3) len by (auto simp: component_start_def state)
qed (use assms in \<open>simp add: component_start_def\<close>)

lemma components_fold:
  assumes "symmetric_graph graph" and "n \<le> length (wg_nodes graph)"
  shows "components_ok graph (fold (component_start graph) [0..<n] (replicate (length (wg_nodes graph)) None, 0))
     \<and> (\<forall>i < n. fst (fold (component_start graph) [0..<n] (replicate (length (wg_nodes graph)) None, 0)) ! i \<noteq> None)"
  using assms(2)
proof (induction n)
  case 0
  then show ?case using assms(1) by (simp add: components_ok_def symmetric_graph_def)
next
  case (Suc n)
  then show ?case using component_start_ok [OF assms(1), of _ n] by (auto simp: less_Suc_eq)
qed

lemma component_count:
  assumes "length a = n"
  shows "snd (fold (component_start graph) [0..<m] (a, k)) \<le> k + m"
  by (induction m) (auto simp: component_start_def)

lemma connected_components_exact:
  assumes "symmetric_graph graph"
  shows "length (fst (connected_components graph)) = length (wg_nodes graph)"
    and "i < length (wg_nodes graph) \<Longrightarrow> j < length (wg_nodes graph) \<Longrightarrow>
      fst (connected_components graph) ! i = fst (connected_components graph) ! j \<longleftrightarrow> (linked graph)\<^sup>*\<^sup>* i j"
    and "snd (connected_components graph) \<le> length (wg_nodes graph)"
proof -
  let ?n = "length (wg_nodes graph)"
  obtain a k where result: "fold (component_start graph) [0..<?n] (replicate ?n None, 0) = (a, k)" by fastforce
  have ok: "components_ok graph (a, k)" and all: "\<forall>i < ?n. a ! i \<noteq> None"
    using components_fold [OF assms order_refl] result by simp_all
  have a: "length a = ?n" "\<forall>i < ?n. \<forall>j. linked graph i j \<longrightarrow> a ! j = a ! i"
      "\<forall>i < ?n. \<forall>j < ?n. a ! i = a ! j \<longrightarrow> (linked graph)\<^sup>*\<^sup>* i j"
  proof -
    show len: "length a = ?n" using ok assms by (simp add: components_ok_def symmetric_graph_def)
    show "\<forall>i < ?n. \<forall>j. linked graph i j \<longrightarrow> a ! j = a ! i"
      using ok [unfolded components_ok_def case_prod_conv] all len by metis
    show "\<forall>i < ?n. \<forall>j < ?n. a ! i = a ! j \<longrightarrow> (linked graph)\<^sup>*\<^sup>* i j"
      using ok [unfolded components_ok_def case_prod_conv] all len by metis
  qed
  have components: "connected_components graph = (map (\<lambda>a. case a of None \<Rightarrow> usize_max | Some c \<Rightarrow> c) a, k)"
    by (simp add: connected_components_def result)
  show "length (fst (connected_components graph)) = ?n" by (simp add: components a(1))
  show "snd (connected_components graph) \<le> ?n"
    using component_count [of "replicate ?n None" ?n graph ?n 0] by (simp add: components result)
  assume i: "i < ?n" and j: "j < ?n"
  have "a ! i = a ! j" if "(linked graph)\<^sup>*\<^sup>* i j" "i < ?n"
    using that
  proof (induction rule: rtranclp_induct)
    case (step u v)
    have "length (wg_adjacency graph) = ?n" using assms unfolding symmetric_graph_def by blast
    then have "u < ?n" using step.hyps(2) unfolding linked_def by metis
    then have "a ! v = a ! u" using a(2) step.hyps(2) by blast
    then show ?case using step by simp
  qed simp
  then have "a ! i = a ! j \<longleftrightarrow> (linked graph)\<^sup>*\<^sup>* i j" using a(3) i j by blast
  moreover have "fst (connected_components graph) ! i = fst (connected_components graph) ! j \<longleftrightarrow> a ! i = a ! j"
    using all i j a(1) by (auto simp: components split: option.splits)
  ultimately show "fst (connected_components graph) ! i = fst (connected_components graph) ! j \<longleftrightarrow> (linked graph)\<^sup>*\<^sup>* i j"
    by simp
qed

subsection \<open>Positive weights\<close>

definition positive_weight :: "f64 \<Rightarrow> bool" where
  "positive_weight w \<longleftrightarrow> fp_weight binary64 w \<and> fp_lt (Fin 0) w"

definition valid_weight :: "f64 \<Rightarrow> bool" where
  "valid_weight w \<longleftrightarrow> fp_is_finite w \<and> \<not> fp_lt w (Fin 0)"

lemma fp_lt_zero_mono: "fp_lt (Fin 0) a \<Longrightarrow> a \<le> b \<Longrightarrow> fp_weight F b \<Longrightarrow> fp_lt (Fin 0) b"
  by (cases a; cases b) (auto simp: fp_lt_def less_eq_fp_def)

lemma positive_add: "positive_weight a \<Longrightarrow> positive_weight w \<Longrightarrow> positive_weight (f64_add a w)"
  using f64_weight.wadd_valid f64_weight.wadd_increasing fp_lt_zero_mono unfolding positive_weight_def by blast

lemma positive_add_zero: "positive_weight w \<Longrightarrow> positive_weight (f64_add (Fin 0) w)"
  by (cases w) (auto simp: positive_weight_def fp_round_weight_value)

lemma accepted_positive:
  assumes "accept_edge config weights index edge = Some accepted" and "\<forall>w \<in> set weights. valid_weight w"
    and "length weights = 25" and "unit_interval (e_confidence edge)"
  shows "positive_weight (ae_weight accepted)"
proof -
  let ?w = "weights ! edge_kind_index (e_kind edge)"
  have "edge_kind_index (e_kind edge) < 25" by (cases "e_kind edge") (simp_all add: edge_kind_index_def)
  then have valid: "valid_weight ?w" using assms(2,3) by simp
  obtain a b where a: "finite_value ?w = Some a" "0 \<le> a" and b: "finite_value (e_confidence edge) = Some b" "0 \<le> b"
  proof -
    obtain a b where "finite_value ?w = Some a" "finite_value (e_confidence edge) = Some b"
      using valid assms(4) by (auto simp: valid_weight_def unit_interval_def fp_is_finite_def)
    moreover have "0 \<le> a" using valid calculation by (cases ?w) (auto simp: valid_weight_def fp_lt_def)
    moreover have "0 \<le> b" using assms(4) calculation by (cases "e_confidence edge") (auto simp: unit_interval_def fp_le_def)
    ultimately show thesis using that by blast
  qed
  have weight: "ae_weight accepted = f64_mul ?w (e_confidence edge)" "\<not> fp_le (f64_mul ?w (e_confidence edge)) (Fin 0)"
    using assms(1) by (auto simp: accept_edge_def Let_def split: if_splits option.splits)
  have nonzero: "a * b \<noteq> 0"
  proof
    assume "a * b = 0"
    then have "f64_mul ?w (e_confidence edge) = fp_signed (fp_is_neg ?w \<noteq> fp_is_neg (e_confidence edge)) (Fin 0)"
      using a b by (auto simp: fp_mul_def Let_def)
    then show False using weight(2) by (auto simp: fp_signed_def fp_le_def split: if_splits)
  qed
  have product: "f64_mul ?w (e_confidence edge) = fp_round binary64 (a * b)"
    using a b nonzero by (auto simp: fp_mul_def Let_def)
  have "fp_weight binary64 (fp_round binary64 (a * b))" using a b by (intro fp_weight_round) (simp_all add: binary64_def)
  moreover from this have "fp_lt (Fin 0) (fp_round binary64 (a * b))"
    using weight(2) product by (cases "fp_round binary64 (a * b)") (auto simp: fp_le_def fp_lt_def)
  ultimately show ?thesis using weight(1) product by (simp add: positive_weight_def)
qed

lemma read_weights_valid:
  assumes "read_weights items weights configured = Inr weights'" and "\<forall>w \<in> set weights. valid_weight w"
  shows "length weights' = length weights \<and> (\<forall>w \<in> set weights'. valid_weight w)"
  using assms
proof (induction items weights configured rule: read_weights.induct)
  case (2 item items weights configured)
  let ?i = "edge_kind_index (cw_kind item)"
  have ok: "\<not> (\<not> fp_is_finite (cw_weight item) \<or> fp_lt (cw_weight item) (Fin 0))" "\<not> configured ! ?i"
    and rest: "read_weights items (weights[?i := cw_weight item]) (configured[?i := True]) = Inr weights'"
    using "2.prems"(1) by (auto simp: Let_def split: if_splits)
  have "\<forall>w \<in> set (weights[?i := cw_weight item]). valid_weight w"
    using set_update_subset_insert [of weights ?i "cw_weight item"] "2.prems"(2) ok(1) by (auto simp: valid_weight_def)
  then show ?case using "2.IH" [OF refl ok rest] by simp
qed simp

lemma validate_inputs_result:
  assumes "validate_inputs nodes edges config = Inr weights"
  shows "length weights = 25" and "\<forall>w \<in> set weights. valid_weight w" and "distinct (map n_id nodes)"
    and "\<forall>edge \<in> set edges. unit_interval (e_confidence edge)"
proof -
  have ids: "distinct (map n_id nodes) \<and> (\<forall>n \<in> set nodes. n_id n \<notin> set seen)" if "check_node_ids nodes seen = Inr u" for u seen nodes
    using that by (induction nodes seen rule: check_node_ids.induct) (auto split: if_splits)
  show "length weights = 25" "\<forall>w \<in> set weights. valid_weight w"
    using assms read_weights_valid [of "cc_edge_weights config" "replicate 25 (Fin 1)" "replicate 25 False" weights]
    by (auto simp: validate_inputs_def valid_weight_def fp_is_finite_def fp_lt_def split: if_splits)
  show "distinct (map n_id nodes)"
    using assms ids [of nodes "[]"] by (auto simp: validate_inputs_def split: if_splits)
  show "\<forall>edge \<in> set edges. unit_interval (e_confidence edge)"
    using assms by (auto simp: validate_inputs_def split: if_splits)
qed

subsection \<open>The tables of the graph\<close>

lemma add_weighted_edge_fold:
  assumes "\<forall>edge \<in> set edges. \<forall>accepted. accept_edge config weights index edge = Some accepted \<longrightarrow> positive_weight (ae_weight accepted)"
    and "bt_wf u" and "\<forall>(k, w) \<in> set u. positive_weight w"
  shows "fst (fold (add_weighted_edge config weights index) edges (as, u)) = as @ List.map_filter (accept_edge config weights index) edges
     \<and> bt_wf (snd (fold (add_weighted_edge config weights index) edges (as, u)))
     \<and> set (bt_keys (snd (fold (add_weighted_edge config weights index) edges (as, u))))
         = set (bt_keys u) \<union> edge_pair ` set (List.map_filter (accept_edge config weights index) edges)
     \<and> (\<forall>(k, w) \<in> set (snd (fold (add_weighted_edge config weights index) edges (as, u))). positive_weight w)"
  using assms
proof (induction edges arbitrary: as u)
  case (Cons edge edges)
  show ?case
  proof (cases "accept_edge config weights index edge")
    case None
    then show ?thesis using Cons by (simp add: add_weighted_edge_def map_filter_simps)
  next
    case (Some accepted)
    let ?u = "bt_upsert (edge_pair accepted) (\<lambda>total. f64_add total (ae_weight accepted)) (f64_add (Fin 0) (ae_weight accepted)) u"
    have pos: "positive_weight (ae_weight accepted)" using Cons.prems(1) Some by simp
    have "set ?u \<subseteq> insert (edge_pair accepted, case bt_get u (edge_pair accepted) of None \<Rightarrow> f64_add (Fin 0) (ae_weight accepted)
        | Some x \<Rightarrow> f64_add x (ae_weight accepted)) (set u)"
      by (simp add: bt_upsert_def set_bt_insert)
    moreover have "positive_weight (case bt_get u (edge_pair accepted) of None \<Rightarrow> f64_add (Fin 0) (ae_weight accepted)
        | Some x \<Rightarrow> f64_add x (ae_weight accepted))"
      using Cons.prems(3) pos by (auto intro: positive_add positive_add_zero dest: map_of_SomeD split: option.split)
    ultimately have "\<forall>(k, w) \<in> set ?u. positive_weight w" using Cons.prems(3) by auto
    moreover have "set (bt_keys ?u) = insert (edge_pair accepted) (set (bt_keys u))" unfolding bt_upsert_def by (rule bt_keys_insert)
    ultimately show ?thesis
      using Cons.IH [of ?u "as @ [accepted]"] Cons.prems(1,2) Some by (auto simp: add_weighted_edge_def map_filter_simps)
  qed
qed (simp add: map_filter_simps)

definition pair_key :: "nat \<Rightarrow> nat \<Rightarrow> nat \<times> nat" where
  "pair_key i j = (min i j, max i j)"

lemma pair_key_sym: "pair_key i j = pair_key j i"
  by (simp add: pair_key_def min.commute max.commute)

lemma edge_pair_key: "edge_pair e = pair_key (ae_source e) (ae_target e)"
  by (simp add: edge_pair_def pair_key_def)

definition tables_ok :: "nat \<Rightarrow> graph_tables \<Rightarrow> bool" where
  "tables_ok n tables \<longleftrightarrow> length (gt_adjacency tables) = n \<and> length (gt_weighted_degree tables) = n
     \<and> length (gt_neighbors tables) = n \<and> (\<forall>m \<in> set (gt_adjacency tables). bt_wf m)"

lemma add_pair_result:
  assumes "tables_ok n tables" and "s \<le> t" and "t < n"
  shows "tables_ok n (add_pair ((s, t), w) tables)
     \<and> (\<forall>i < n. \<forall>j. bt_get (gt_adjacency (add_pair ((s, t), w) tables) ! i) j
          = (if pair_key i j = (s, t) then Some w else bt_get (gt_adjacency tables ! i) j))"
proof -
  let ?adj = "gt_adjacency tables"
  have len: "length ?adj = n" "s < n" using assms by (simp_all add: tables_ok_def)
  have wf: "bt_wf (?adj ! i)" if "i < n" for i using assms(1) that by (simp add: tables_ok_def)
  have nth: "gt_adjacency (add_pair ((s, t), w) tables) ! i
      = (if i = s then bt_insert t w (?adj ! i) else if i = t then bt_insert s w (?adj ! i) else ?adj ! i)" if "i < n" for i
    using that len assms(3) by (auto simp: Let_def list_modify_def nth_list_update)
  have size: "length (gt_adjacency (add_pair ((s, t), w) tables)) = n"
    using len by (simp add: Let_def list_modify_def)
  have "bt_wf m" if "m \<in> set (gt_adjacency (add_pair ((s, t), w) tables))" for m
    using that nth wf size by (auto simp: in_set_conv_nth split: if_splits)
  then have "tables_ok n (add_pair ((s, t), w) tables)"
    using assms(1) size by (simp add: tables_ok_def Let_def list_modify_def)
  moreover have "bt_get (gt_adjacency (add_pair ((s, t), w) tables) ! i) j
      = (if pair_key i j = (s, t) then Some w else bt_get (?adj ! i) j)" if "i < n" for i j
    using nth [OF that] wf [OF that] assms(2) by (auto simp: pair_key_def min_def max_def split: if_splits)
  ultimately show ?thesis by blast
qed

lemma add_pair_fold:
  assumes "tables_ok n tables" and "\<forall>((s, t), w) \<in> set ps. s \<le> t \<and> t < n" and "distinct (map fst ps)"
  shows "tables_ok n (fold add_pair ps tables)
     \<and> (\<forall>i < n. \<forall>j. bt_get (gt_adjacency (fold add_pair ps tables) ! i) j
          = (case map_of ps (pair_key i j) of Some w \<Rightarrow> Some w | None \<Rightarrow> bt_get (gt_adjacency tables ! i) j))"
  using assms
proof (induction ps arbitrary: tables)
  case (Cons p ps)
  obtain s t w where p: "p = ((s, t), w)" by (metis surj_pair)
  have step: "tables_ok n (add_pair p tables)"
      "\<forall>i < n. \<forall>j. bt_get (gt_adjacency (add_pair p tables) ! i) j
          = (if pair_key i j = (s, t) then Some w else bt_get (gt_adjacency tables ! i) j)"
    using add_pair_result [OF Cons.prems(1), of s t w] Cons.prems(2) p by auto
  have fresh: "map_of ps (s, t) = None" using Cons.prems(3) p by (simp add: map_of_eq_None_iff)
  have rest: "tables_ok n (fold add_pair ps (add_pair p tables))"
     "\<forall>i < n. \<forall>j. bt_get (gt_adjacency (fold add_pair ps (add_pair p tables)) ! i) j
          = (case map_of ps (pair_key i j) of Some w \<Rightarrow> Some w | None \<Rightarrow> bt_get (gt_adjacency (add_pair p tables) ! i) j)"
    using Cons.IH [OF step(1)] Cons.prems(2,3) by auto
  show ?case
    using rest step(2) fresh p by (auto split: option.splits simp del: add_pair.simps)
qed simp

lemma map_of_positions:
  assumes "distinct (map n_id (map snd ps))"
  shows "bt_get (fold (\<lambda>(position, node). bt_insert (n_id node) position) ps m) u
     = (case find (\<lambda>(p, node). n_id node = u) ps of Some (p, _) \<Rightarrow> Some p | None \<Rightarrow> bt_get m u)"
  using assms
proof (induction ps arbitrary: m)
  case (Cons q ps)
  obtain p node where q: "q = (p, node)" by fastforce
  show ?case
  proof (cases "n_id node = u")
    case True
    then have "find (\<lambda>(p, node). n_id node = u) ps = None"
      using Cons.prems q by (force simp: find_None_iff)
    then show ?thesis using Cons True q by simp
  next
    case False
    then show ?thesis using Cons q by (simp split: option.split)
  qed
qed simp

lemma position_index_get:
  assumes "distinct (map n_id nodes)"
  shows "bt_get (position_index nodes) u = Some i \<longleftrightarrow> i < length nodes \<and> n_id (nodes ! i) = u"
proof -
  have ids: "distinct (map n_id (map snd (List.enumerate 0 nodes)))" using assms by simp
  have found: "find (\<lambda>(p, node). n_id node = u) (List.enumerate 0 nodes) = Some (p, node) \<Longrightarrow>
      p < length nodes \<and> nodes ! p = node \<and> n_id node = u" for p node
    by (auto simp: find_Some_iff nth_enumerate_eq)
  have unique: "i = j" if "i < length nodes" "j < length nodes" "n_id (nodes ! i) = n_id (nodes ! j)" for i j
    using assms that by (simp add: distinct_conv_nth) metis
  show ?thesis
  proof (cases "find (\<lambda>(p, node). n_id node = u) (List.enumerate 0 nodes)")
    case None
    then have "\<not> (i < length nodes \<and> n_id (nodes ! i) = u)"
      by (auto simp: find_None_iff in_set_enumerate_eq)
    then show ?thesis using map_of_positions [OF ids, of "[]" u] None by (simp add: position_index_def)
  next
    case (Some q)
    then obtain p node where q: "q = (p, node)" by fastforce
    then show ?thesis
      using map_of_positions [OF ids, of "[]" u] Some found [of p node] unique by (auto simp: position_index_def)
  qed
qed


subsection \<open>The graph of an analysis\<close>

text \<open>An edge that takes part in the analysis.\<close>

definition participates :: "community_config \<Rightarrow> f64 list \<Rightarrow> edge \<Rightarrow> bool" where
  "participates config weights edge \<longleftrightarrow> e_status edge = Confirmed
     \<and> \<not> fp_lt (e_confidence edge) (cc_minimum_confidence config)
     \<and> \<not> fp_le (f64_mul (weights ! edge_kind_index (e_kind edge)) (e_confidence edge)) (Fin 0)"

lemma accept_edge_iff:
  assumes "distinct (map n_id nodes)"
  shows "accept_edge config weights (position_index nodes) edge = Some a \<longleftrightarrow>
     participates config weights edge \<and> ae_source a < length nodes \<and> ae_target a < length nodes
     \<and> n_id (nodes ! ae_source a) = e_source edge \<and> n_id (nodes ! ae_target a) = e_target edge
     \<and> ae_weight a = f64_mul (weights ! edge_kind_index (e_kind edge)) (e_confidence edge)"
proof -
  have get: "bt_get (position_index nodes) u = Some i \<longleftrightarrow> i < length nodes \<and> n_id (nodes ! i) = u" for u i
    by (rule position_index_get [OF assms])
  show ?thesis
  proof (cases "bt_get (position_index nodes) (e_source edge)")
    case None
    then have "\<not> (ae_source a < length nodes \<and> n_id (nodes ! ae_source a) = e_source edge)"
      using get [of "e_source edge" "ae_source a"] by simp
    then show ?thesis using None by (auto simp: accept_edge_def)
  next
    case source: (Some i)
    show ?thesis
    proof (cases "bt_get (position_index nodes) (e_target edge)")
      case None
      then have "\<not> (ae_target a < length nodes \<and> n_id (nodes ! ae_target a) = e_target edge)"
        using get [of "e_target edge" "ae_target a"] by simp
      then show ?thesis using None source by (auto simp: accept_edge_def)
    next
      case (Some j)
      then show ?thesis
        using source get [of "e_source edge" "ae_source a"] get [of "e_target edge" "ae_target a"]
        by (cases a) (auto simp: accept_edge_def participates_def Let_def)
    qed
  qed
qed

lemma map_filter_mem: "a \<in> set (List.map_filter f xs) \<longleftrightarrow> (\<exists>x \<in> set xs. f x = Some a)"
  by (induction xs) (auto simp: map_filter_simps split: option.splits)

lemma graph_ids_distinct:
  "distinct (map n_id nodes) \<Longrightarrow> distinct (map n_id (sort_key n_id (filter P nodes)))"
  by (simp add: distinct_map inj_on_def)

lemma build_graph_result:
  assumes "validate_inputs nodes edges config = Inr weights"
    and g_def: "g = build_graph nodes edges config weights selected"
  shows "wg_nodes g = sort_key n_id (filter (\<lambda>node. n_id node \<in> set selected) nodes)"
    and "length (wg_adjacency g) = length (wg_nodes g)" and "length (wg_weighted_degree g) = length (wg_nodes g)"
    and "length (wg_neighbor_count g) = length (wg_nodes g)"
    and "wg_accepted_edges g = List.map_filter (accept_edge config weights (position_index (wg_nodes g))) (sort_key edge_order edges)"
    and "linked g i j \<longleftrightarrow> i < length (wg_nodes g) \<and> j < length (wg_nodes g) \<and>
      (\<exists>e \<in> set (wg_accepted_edges g). pair_key (ae_source e) (ae_target e) = pair_key i j)"
    and "\<forall>m \<in> set (wg_adjacency g). bt_wf m \<and> (\<forall>j \<in> set (bt_keys m). j < length (wg_nodes g))"
proof -
  let ?nodes = "sort_key n_id (filter (\<lambda>node. n_id node \<in> set selected) nodes)"
  let ?accept = "accept_edge config weights (position_index ?nodes)"
  note valid = validate_inputs_result [OF assms(1)]
  have ids: "distinct (map n_id ?nodes)" using graph_ids_distinct [OF valid(3)] .
  have positive: "\<forall>edge \<in> set (sort_key edge_order edges). \<forall>accepted. ?accept edge = Some accepted \<longrightarrow> positive_weight (ae_weight accepted)"
    using accepted_positive valid(1,2,4) by auto
  obtain as u where parts: "fold (add_weighted_edge config weights (position_index ?nodes)) (sort_key edge_order edges) ([], []) = (as, u)"
    by fastforce
  have as: "as = List.map_filter ?accept (sort_key edge_order edges)" and u: "bt_wf u" "set (bt_keys u) = edge_pair ` set as"
      "\<forall>(k, w) \<in> set u. positive_weight w"
    using add_weighted_edge_fold [OF positive, of "[]" "[]"] parts by auto
  have inside: "ae_source e < length ?nodes" "ae_target e < length ?nodes" if "e \<in> set as" for e
    using that as by (auto simp: map_filter_mem accept_edge_iff [OF ids])
  have keys: "\<forall>((s, t), w) \<in> set u. s \<le> t \<and> t < length ?nodes"
  proof clarify
    fix s t w assume "((s, t), w) \<in> set u"
    then have "(s, t) \<in> edge_pair ` set as" using u(2) by force
    then show "s \<le> t \<and> t < length ?nodes" using inside by (auto simp: edge_pair_key pair_key_def)
  qed
  have start: "tables_ok (length ?nodes) (empty_tables (length ?nodes))"
    by (simp add: tables_ok_def empty_tables_def)
  let ?tables = "fold add_pair u (empty_tables (length ?nodes))"
  have ok: "tables_ok (length ?nodes) ?tables"
    and get: "\<forall>i < length ?nodes. \<forall>j. bt_get (gt_adjacency ?tables ! i) j = map_of u (pair_key i j)"
    using add_pair_fold [OF start keys bt_wf_distinct [OF u(1)]] by (auto simp: empty_tables_def split: option.splits)
  have g: "g = \<lparr>wg_nodes = ?nodes, wg_adjacency = gt_adjacency ?tables, wg_accepted_edges = as,
       wg_weighted_degree = gt_weighted_degree ?tables, wg_neighbor_count = map length (gt_neighbors ?tables),
       wg_total_undirected_weight = gt_total ?tables\<rparr>"
    by (simp add: g_def build_graph_def parts Let_def)
  show "wg_nodes g = ?nodes" "length (wg_adjacency g) = length (wg_nodes g)" "length (wg_weighted_degree g) = length (wg_nodes g)"
      "length (wg_neighbor_count g) = length (wg_nodes g)"
      "wg_accepted_edges g = List.map_filter (accept_edge config weights (position_index (wg_nodes g))) (sort_key edge_order edges)"
    using ok as by (simp_all add: g tables_ok_def)
  have wf: "bt_wf (gt_adjacency ?tables ! i)" if "i < length ?nodes" for i using ok that by (simp add: tables_ok_def)
  have member: "(j, w) \<in> set (gt_adjacency ?tables ! i) \<longleftrightarrow> (pair_key i j, w) \<in> set u" if "i < length ?nodes" for i j w
    using bt_get_iff_mem [OF wf [OF that], of j w] bt_get_iff_mem [OF u(1), of "pair_key i j" w] get that by simp
  have pair: "(\<exists>w. (pair_key i j, w) \<in> set u) \<longleftrightarrow> (\<exists>e \<in> set as. pair_key (ae_source e) (ae_target e) = pair_key i j)" for i j
  proof -
    have "(\<exists>w. (pair_key i j, w) \<in> set u) \<longleftrightarrow> pair_key i j \<in> set (bt_keys u)" by force
    also have "\<dots> \<longleftrightarrow> pair_key i j \<in> edge_pair ` set as" by (simp only: u(2))
    finally show ?thesis by (simp add: edge_pair_key image_iff eq_commute)
  qed
  have near: "j < length ?nodes" if "e \<in> set as" "pair_key (ae_source e) (ae_target e) = pair_key i j" for e i j
    using that inside [OF that(1)] by (auto simp: pair_key_def min_def max_def split: if_splits)
  have linked: "linked g i j \<longleftrightarrow> i < length ?nodes \<and> (\<exists>w. (pair_key i j, w) \<in> set u)"
    using member u(3) ok by (fastforce simp: linked_def g tables_ok_def positive_weight_def)
  then show "linked g i j \<longleftrightarrow> i < length (wg_nodes g) \<and> j < length (wg_nodes g) \<and>
      (\<exists>e \<in> set (wg_accepted_edges g). pair_key (ae_source e) (ae_target e) = pair_key i j)"
  proof -
    have "j < length ?nodes" if "\<exists>w. (pair_key i j, w) \<in> set u" using that pair near by blast
    then show ?thesis using linked pair by (simp add: g) blast
  qed
  show "\<forall>m \<in> set (wg_adjacency g). bt_wf m \<and> (\<forall>j \<in> set (bt_keys m). j < length (wg_nodes g))"
  proof
    fix m assume "m \<in> set (wg_adjacency g)"
    then obtain i where i: "i < length ?nodes" "m = gt_adjacency ?tables ! i"
      using ok by (auto simp: g tables_ok_def in_set_conv_nth)
    have "j < length ?nodes" if "(j, w) \<in> set m" for j w
      using that member [OF i(1)] i(2) pair near by blast
    then show "bt_wf m \<and> (\<forall>j \<in> set (bt_keys m). j < length (wg_nodes g))" using wf i by (auto simp: g)
  qed
qed

lemma build_graph_symmetric:
  assumes "validate_inputs nodes edges config = Inr weights"
  shows "symmetric_graph (build_graph nodes edges config weights selected)"
  using build_graph_result(2,6) [OF assms refl] by (simp add: symmetric_graph_def) (metis pair_key_sym)

subsection \<open>Grouping\<close>

lemma bt_values_groups: "bt_wf m \<Longrightarrow> bt_values m = map (bt_group m) (bt_keys m)"
  using bt_wf_distinct [of m] by (auto simp: bt_group_def)

lemma push_fold:
  assumes "bt_wf m" and "\<forall>vs \<in> set (bt_values m). vs \<noteq> []"
  shows "bt_wf (fold (\<lambda>(v, k). bt_push k v) ps m)
     \<and> (\<forall>vs \<in> set (bt_values (fold (\<lambda>(v, k). bt_push k v) ps m)). vs \<noteq> [])
     \<and> set (bt_keys (fold (\<lambda>(v, k). bt_push k v) ps m)) = set (bt_keys m) \<union> snd ` set ps
     \<and> (\<forall>k. bt_group (fold (\<lambda>(v, k). bt_push k v) ps m) k = bt_group m k @ map fst (filter (\<lambda>(v, k'). k' = k) ps))"
  using assms
proof (induction ps arbitrary: m)
  case (Cons p ps)
  obtain v k where p: "p = (v, k)" by fastforce
  have some: "\<forall>vs \<in> set (bt_values (bt_push k v m)). vs \<noteq> []"
    using Cons.prems(2) set_bt_insert by (fastforce simp: bt_push_def bt_upsert_def split: option.splits)
  have keys: "set (bt_keys (bt_push k v m)) = insert k (set (bt_keys m))"
    unfolding bt_push_def bt_upsert_def by (rule bt_keys_insert)
  show ?case
    using Cons.IH [OF bt_wf_push [OF Cons.prems(1), of k v] some] keys p by (auto simp: bt_group_push)
qed simp

lemma mset_concat_groups:
  assumes "distinct ks"
  shows "mset (concat (map (\<lambda>k. filter (\<lambda>x. f x = k) xs) ks)) = mset (filter (\<lambda>x. f x \<in> set ks) xs)"
  using assms
proof (induction ks)
  case (Cons k ks)
  have "mset (filter (\<lambda>x. f x = k) xs) + mset (filter (\<lambda>x. f x \<in> set ks) xs) = mset (filter (\<lambda>x. f x = k \<or> f x \<in> set ks) xs)"
    using Cons.prems by (induction xs) auto
  then show ?case using Cons by simp
qed simp

definition raw_groups :: "nat list \<Rightarrow> nat list list" where
  "raw_groups a = map (\<lambda>c. filter (\<lambda>i. a ! i = c) [0..<length a]) (sorted_list_of_set (set a))"

lemma grouped_eq: "bt_values (fold (\<lambda>(node, community). bt_push community node) (List.enumerate 0 a) []) = raw_groups a"
proof -
  let ?m = "fold (\<lambda>(node, community). bt_push community node) (List.enumerate 0 a) []"
  have m: "bt_wf ?m" "set (bt_keys ?m) = set a"
      "\<And>k. bt_group ?m k = map fst (filter (\<lambda>(v, k'). k' = k) (List.enumerate 0 a))"
    using push_fold [of "[]" "List.enumerate 0 a"] by (auto simp: bt_group_def map_fst_enumerate map_snd_enumerate simp flip: set_map)
  have "bt_keys ?m = sorted_list_of_set (set a)"
    using m(1,2) by (intro sorted_distinct_set_unique) (simp_all add: bt_wf_def strict_sorted_iff)
  moreover have "map fst (filter (\<lambda>(v, k'). k' = k) (List.enumerate 0 a)) = filter (\<lambda>i. a ! i = k) [0..<length a]" for k
    by (simp add: enumerate_map filter_map comp_def)
  ultimately show ?thesis using bt_values_groups [OF m(1)] m(3) by (simp add: raw_groups_def)
qed


definition node_name :: "weighted_graph \<Rightarrow> nat \<Rightarrow> node_id" where
  "node_name graph i = n_id (wg_nodes graph ! i)"

lemma member_groups_eq:
  "member_groups graph a = sort_key (map (node_name graph)) (map (sort_key (node_name graph)) (raw_groups a))"
  unfolding member_groups_def Let_def grouped_eq node_name_def [abs_def] by (rule refl)

lemma mset_concat: "mset (concat xss) = sum_list (map mset xss)"
  by (induction xss) simp_all

lemma member_groups_mset:
  "mset (concat (member_groups graph a)) = mset [0..<length a]"
proof -
  have perm: "mset (concat xss) = mset (concat yss)" if "mset (map mset xss) = mset (map mset yss)" for xss yss :: "nat list list"
    using that by (metis mset_concat mset_map sum_mset_sum_list)
  have "mset (concat (member_groups graph a)) = mset (concat (map (sort_key (node_name graph)) (raw_groups a)))"
    unfolding member_groups_eq by (rule perm) (simp add: multiset.map_comp)
  also have "\<dots> = mset (concat (raw_groups a))" by (simp add: mset_concat comp_def)
  also have "\<dots> = mset (filter (\<lambda>i. a ! i \<in> set a) [0..<length a])"
    unfolding raw_groups_def by (subst mset_concat_groups) simp_all
  also have "filter (\<lambda>i. a ! i \<in> set a) [0..<length a] = [0..<length a]" by (simp add: filter_True)
  finally show ?thesis .
qed

lemma member_groups_same:
  assumes "i < length a" and "j < length a"
  shows "(\<exists>grp \<in> set (member_groups graph a). i \<in> set grp \<and> j \<in> set grp) \<longleftrightarrow> a ! i = a ! j"
  using assms unfolding member_groups_eq by (fastforce simp: raw_groups_def)

lemma member_groups_nonempty: "grp \<in> set (member_groups graph a) \<Longrightarrow> grp \<noteq> [] \<and> set grp \<subseteq> {0..<length a}"
proof -
  assume "grp \<in> set (member_groups graph a)"
  then have "grp \<in> sort_key (node_name graph) ` set (raw_groups a)" unfolding member_groups_eq by simp
  then obtain c where c: "c \<in> set a" and grp: "grp = sort_key (node_name graph) (filter (\<lambda>i. a ! i = c) [0..<length a])"
    by (auto simp: raw_groups_def)
  obtain i where "i < length a" "a ! i = c" using c by (auto simp: in_set_conv_nth)
  then have "i \<in> set grp" using grp by simp
  moreover have "set grp \<subseteq> {0..<length a}" using grp by auto
  ultimately show ?thesis by auto
qed

lemma describe_members:
  "map co_members (describe_communities hash uc graph a) = map (map (node_name graph)) (member_groups graph a)"
  by (simp add: describe_communities_def describe_community_def Let_def split_beta node_name_def [abs_def])

lemma strict_sort_key:
  assumes "distinct (map f xs)"
  shows "sorted_wrt (<) (map f (sort_key f xs))"
proof -
  have "distinct (map f (sort_key f xs))" using assms by (metis distinct_map distinct_sort set_sort)
  then show ?thesis by (simp add: strict_sorted_iff)
qed

text \<open>Whatever the assignments, the communities partition the nodes of the graph.\<close>

lemma describe_partition:
  assumes "distinct (map n_id (wg_nodes graph))" and "length a = length (wg_nodes graph)"
  shows "mset (concat (map co_members (describe_communities hash uc graph a))) = mset (map n_id (wg_nodes graph))"
    and "members \<in> set (map co_members (describe_communities hash uc graph a)) \<Longrightarrow> members \<noteq> [] \<and> sorted_wrt (<) members"
    and "sorted_wrt (<) (map co_members (describe_communities hash uc graph a))"
proof -
  let ?name = "node_name graph"
  have names: "map ?name [0..<length a] = map n_id (wg_nodes graph)"
    using assms(2) by (intro nth_equalityI) (simp_all add: node_name_def)
  have "mset (concat (map (map ?name) (member_groups graph a))) = image_mset ?name (mset (concat (member_groups graph a)))"
    by (simp add: map_concat [symmetric])
  then show total: "mset (concat (map co_members (describe_communities hash uc graph a))) = mset (map n_id (wg_nodes graph))"
    unfolding describe_members by (simp add: member_groups_mset names [symmetric])
  then have apart: "distinct (concat (map co_members (describe_communities hash uc graph a)))"
    using assms(1) mset_eq_imp_distinct_iff by blast
  have inj: "inj_on ?name {0..<length a}"
    using assms names by (metis atLeast_upt distinct_map atLeastLessThan_upt)
  have each: "grp \<noteq> [] \<and> sorted_wrt (<) (map ?name grp)" if grp: "grp \<in> set (member_groups graph a)" for grp
  proof -
    obtain raw where raw: "raw \<in> set (raw_groups a)" "grp = sort_key ?name raw"
      using grp unfolding member_groups_eq set_sort set_map by blast
    have "distinct raw" "set raw \<subseteq> {0..<length a}" using raw(1) by (auto simp: raw_groups_def)
    then have "distinct (map ?name raw)" using inj by (simp add: distinct_map inj_on_subset)
    then show ?thesis using strict_sort_key raw(2) member_groups_nonempty [OF grp] by auto
  qed
  then show "members \<in> set (map co_members (describe_communities hash uc graph a)) \<Longrightarrow> members \<noteq> [] \<and> sorted_wrt (<) members"
    unfolding describe_members by auto
  have "distinct (map co_members (describe_communities hash uc graph a))"
  proof -
    have "[] \<notin> set (map (map ?name) (member_groups graph a))" using each by auto
    then show ?thesis using apart unfolding describe_members distinct_concat_iff by simp
  qed
  moreover have "sorted (map co_members (describe_communities hash uc graph a))"
    unfolding describe_members by (simp add: member_groups_eq)
  ultimately show "sorted_wrt (<) (map co_members (describe_communities hash uc graph a))"
    by (simp add: strict_sorted_iff)
qed


subsection \<open>Assignments\<close>

text \<open>
  Both iterative algorithms visit the nodes in a seeded order, pass after pass, until a pass changes nothing or the
  iterations are used up. What one visit keeps, the whole run keeps.
\<close>

locale node_passes =
  fixes visit :: "nat \<Rightarrow> 's \<times> bool \<Rightarrow> 's \<times> bool" and ok :: "'s \<Rightarrow> bool" and count :: nat
  assumes visit_ok: "ok (fst acc) \<Longrightarrow> node < count \<Longrightarrow> ok (fst (visit node acc))"
begin

lemma pass_ok: "ok (fst acc) \<Longrightarrow> set order \<subseteq> {0..<count} \<Longrightarrow> ok (fst (fold visit order acc))"
  by (induction order arbitrary: acc) (simp_all add: visit_ok)

lemma passes_ok:
  assumes "ok state" and "set order \<subseteq> {0..<count}"
  shows "ok (fst (passes (fold visit order) n state))"
  using assms(1)
proof (induction n arbitrary: state)
  case (Suc n)
  then show ?case using pass_ok [OF _ assms(2), of "(state, False)"] by (auto simp: split_beta Let_def)
qed simp

end

lemma passes_bound: "snd (passes pass n state) \<le> n"
  by (induction n arbitrary: state) (auto simp: split_beta Let_def)

lemma seeded_nodes: "set (seeded_node_order hash graph seed) \<subseteq> {0..<length (wg_nodes graph)}"
  by (simp add: seeded_node_order_def)

interpretation propagation: node_passes "propagate_node hash graph seed" "\<lambda>a. length a = length (wg_nodes graph)" "length (wg_nodes graph)"
  for hash graph seed
  by unfold_locales (simp add: propagate_node_def Let_def)

lemma propagation_length:
  "length (fst (weighted_label_propagation hash graph seed n)) = length (wg_nodes graph)"
  unfolding weighted_label_propagation_def by (rule propagation.passes_ok [OF _ seeded_nodes]) simp

text \<open>The bookkeeping of Louvain: the members of every label are counted, and exactly the labels without a member are free.\<close>

definition louvain_ok :: "weighted_graph \<Rightarrow> louvain_state \<Rightarrow> bool" where
  "louvain_ok graph state \<longleftrightarrow>
     length (lv_assignments state) = length (wg_nodes graph) \<and> length (lv_members state) = length (wg_nodes graph)
     \<and> length (lv_community_degree state) = length (wg_nodes graph)
     \<and> set (lv_assignments state) \<subseteq> {0..<length (wg_nodes graph)}
     \<and> (\<forall>c < length (wg_nodes graph). lv_members state ! c = count_list (lv_assignments state) c)
     \<and> bs_wf (lv_empty state) \<and> set (lv_empty state) = {0..<length (wg_nodes graph)} - set (lv_assignments state)"

lemma count_update:
  assumes "i < length a" and "a ! i \<noteq> b"
  shows "count_list (a[i := b]) c = (if c = b then count_list a c + 1 else if c = a ! i then count_list a c - 1 else count_list a c)"
  using assms by (auto simp: count_mset [symmetric] mset_update)

lemma set_count: "c \<in> set xs \<longleftrightarrow> count_list xs c \<noteq> 0"
  by (simp add: count_list_0_iff)

lemma neighbor_scores_keys:
  "set (bt_keys (neighbor_scores graph a node scores)) \<subseteq> set (bt_keys scores) \<union> (\<lambda>j. a ! j) ` set (bt_keys (wg_adjacency graph ! node))"
proof -
  have "set (bt_keys (fold (\<lambda>(j, w) s. if j = node then s
      else bt_upsert (a ! j) (\<lambda>s. f64_add s w) (f64_add (Fin 0) w) s) ps scores)) \<subseteq> set (bt_keys scores) \<union> (\<lambda>j. a ! j) ` set (bt_keys ps)" for ps
  proof (induction ps arbitrary: scores)
    case (Cons p ps)
    obtain j w where p: "p = (j, w)" by fastforce
    let ?s = "if j = node then scores else bt_upsert (a ! j) (\<lambda>s. f64_add s w) (f64_add (Fin 0) w) scores"
    have "set (bt_keys ?s) \<subseteq> insert (a ! j) (set (bt_keys scores))"
      using bt_keys_insert [of "a ! j" _ scores] by (auto simp: bt_upsert_def simp del: set_map)
    moreover have "set (bt_keys (fold (\<lambda>(j, w) s. if j = node then s
        else bt_upsert (a ! j) (\<lambda>s. f64_add s w) (f64_add (Fin 0) w) s) (p # ps) scores))
      \<subseteq> set (bt_keys ?s) \<union> (\<lambda>j. a ! j) ` set (bt_keys ps)"
      using Cons.IH [of ?s] p by (simp only: fold_simps comp_apply case_prod_conv)
    ultimately show ?case using p by (simp only: list.map set_simps fst_conv) blast
  qed simp
  then show ?thesis unfolding neighbor_scores_def .
qed

definition labels_ok :: "weighted_graph \<Rightarrow> bool" where
  "labels_ok graph \<longleftrightarrow> length (wg_adjacency graph) = length (wg_nodes graph)
     \<and> (\<forall>m \<in> set (wg_adjacency graph). \<forall>j \<in> set (bt_keys m). j < length (wg_nodes graph))"

lemma louvain_label: "louvain_ok graph state \<Longrightarrow> i < length (wg_nodes graph) \<Longrightarrow> lv_assignments state ! i < length (wg_nodes graph)"
  unfolding louvain_ok_def by (metis atLeastLessThan_iff nth_mem subsetD)

lemma louvain_links_keys:
  assumes "louvain_ok graph state" and "labels_ok graph" and "node < length (wg_nodes graph)"
  shows "set (bt_keys (louvain_links graph node state)) \<subseteq> {0..<length (wg_nodes graph)}"
proof -
  let ?n = "length (wg_nodes graph)" and ?a = "lv_assignments state"
  have a: "?a ! j < ?n" if "j < ?n" for j
    using louvain_label [OF assms(1) that] .
  have "set (bt_keys (neighbor_scores graph ?a node [(?a ! node, Fin 0)])) \<subseteq> {0..<?n}"
  proof -
    have "(\<lambda>j. ?a ! j) ` set (bt_keys (wg_adjacency graph ! node)) \<subseteq> {0..<?n}"
    proof clarify
      fix j assume "j \<in> set (bt_keys (wg_adjacency graph ! node))"
      then have "j < ?n" using assms(2,3) unfolding labels_ok_def by (metis nth_mem)
      then show "?a ! j \<in> {0..<?n}" using a by simp
    qed
    moreover have "set (bt_keys [(?a ! node, Fin 0)]) \<subseteq> {0..<?n}" using a assms(3) by simp
    ultimately show ?thesis using neighbor_scores_keys [of graph ?a node "[(?a ! node, Fin 0)]"] by blast
  qed
  moreover have "set (lv_empty state) \<subseteq> {0..<?n}" using assms(1) by (auto simp: louvain_ok_def)
  ultimately show ?thesis
    by (auto simp: louvain_links_def Let_def simp del: set_map split: list.split option.split)
qed

lemma best_community:
  "fst (fold (better_community keys graph resolution node state links) ps best) \<in> insert (fst best) (set (bt_keys ps))"
proof (induction ps arbitrary: best)
  case (Cons p ps)
  have "fst (better_community keys graph resolution node state links p best) \<in> {fst p, fst best}"
    by (simp add: better_community_def Let_def)
  then show ?case using Cons.IH [of "better_community keys graph resolution node state links p best"] by auto
qed simp

lemma move_node_ok:
  assumes ok: "louvain_ok graph state" and node: "node < length (wg_nodes graph)" and best: "best < length (wg_nodes graph)"
    and moved: "best \<noteq> lv_assignments state ! node"
  shows "louvain_ok graph (move_node graph node best state)"
proof -
  let ?n = "length (wg_nodes graph)" and ?a = "lv_assignments state"
  let ?old = "?a ! node" and ?a' = "?a[node := best]"
  let ?s = "move_node graph node best state"
  have len: "length ?a = ?n" "length (lv_members state) = ?n" "length (lv_community_degree state) = ?n"
    and labels: "set ?a \<subseteq> {0..<?n}" and members: "\<forall>c < ?n. lv_members state ! c = count_list ?a c"
    and empty: "bs_wf (lv_empty state)" "set (lv_empty state) = {0..<?n} - set ?a"
    using ok unfolding louvain_ok_def by simp_all
  have old: "?old < ?n" using louvain_label [OF ok node] .
  note count = count_update [of node ?a best]
  have members': "lv_members ?s ! c = count_list ?a' c" if "c < ?n" for c
    using that members count [of c] len node best old moved
    by (auto simp: move_node_def Let_def list_modify_def nth_list_update)
  have labels': "set ?a' \<subseteq> {0..<?n}" using labels best set_update_subset_insert [of ?a node best] by auto
  have "set (lv_empty ?s) = (set (lv_empty state) \<union> (if count_list ?a' ?old = 0 then {?old} else {})) - {best}"
    using members' [OF old] by (auto simp: move_node_def Let_def)
  also have "\<dots> = {0..<?n} - set ?a'"
    using empty(2) count len(1) node moved old best by (auto simp: set_count split: if_splits)
  finally have free: "set (lv_empty ?s) = {0..<?n} - set ?a'" .
  have "bs_wf (lv_empty ?s)"
    using empty(1) by (simp add: move_node_def Let_def sorted_wrt_filter removeAll_filter_not_eq)
  then show ?thesis
    using labels' members' free len unfolding louvain_ok_def by (simp add: move_node_def Let_def list_modify_def)
qed

lemma louvain_node_ok:
  assumes "louvain_ok graph (fst acc)" and "labels_ok graph" and "node < length (wg_nodes graph)"
  shows "louvain_ok graph (fst (louvain_node keys graph resolution node acc))"
proof -
  let ?state = "fst acc"
  let ?links = "louvain_links graph node ?state"
  define best where "best = fold (better_community keys graph resolution node ?state
    (case bt_get ?links (lv_assignments ?state ! node) of None \<Rightarrow> Fin 0 | Some l \<Rightarrow> l)) ?links (lv_assignments ?state ! node, Fin 0)"
  have "lv_assignments ?state ! node < length (wg_nodes graph)"
    using louvain_label [OF assms(1,3)] .
  moreover have "fst best \<in> insert (lv_assignments ?state ! node) (set (bt_keys ?links))"
    unfolding best_def using best_community [where best = "(lv_assignments ?state ! node, Fin 0)"] by (simp only: fst_conv)
  ultimately have "fst best < length (wg_nodes graph)"
    using louvain_links_keys [OF assms] by (metis atLeastLessThan_iff insert_iff subsetD)
  then show ?thesis
    using move_node_ok [OF assms(1,3)] assms(1) by (simp add: louvain_node_def Let_def best_def [symmetric])
qed

interpretation moving: node_passes "louvain_node keys graph resolution" "\<lambda>state. labels_ok graph \<longrightarrow> louvain_ok graph state"
  "length (wg_nodes graph)" for keys graph resolution
  by unfold_locales (simp add: louvain_node_ok)

lemma louvain_length:
  assumes "labels_ok graph" and "length (wg_weighted_degree graph) = length (wg_nodes graph)"
  shows "length (fst (louvain hash graph seed resolution n)) = length (wg_nodes graph)
     \<and> set (fst (louvain hash graph seed resolution n)) \<subseteq> {0..<length (wg_nodes graph)}"
proof -
  let ?count = "length (wg_nodes graph)"
  let ?start = "\<lparr>lv_assignments = [0..<?count], lv_community_degree = wg_weighted_degree graph,
     lv_members = replicate ?count 1, lv_empty = []\<rparr>"
  have "count_list [0..<?count] c = 1" if "c < ?count" for c
    using that by (simp add: count_mset [symmetric] distinct_count_atmost_1 [THEN iffD1])
  then have start: "louvain_ok graph ?start" using assms(2) by (simp add: louvain_ok_def)
  then have "louvain_ok graph (fst (passes (fold (louvain_node keys graph resolution) (seeded_node_order hash graph seed)) n ?start))" for keys
    using moving.passes_ok [OF _ seeded_nodes] assms(1) by blast
  then show ?thesis by (simp add: louvain_def Let_def split_beta louvain_ok_def)
qed

subsection \<open>Independence of the input order\<close>

lemma sort_key_map_eq:
  assumes "mset xs = mset ys" and "\<And>x y. x \<in> set xs \<Longrightarrow> y \<in> set xs \<Longrightarrow> k x = k y \<Longrightarrow> g x = g y"
  shows "map g (sort_key k xs) = map g (sort_key k ys)"
proof -
  define h where "h v = g (SOME x. x \<in> set xs \<and> k x = v)" for v
  have h: "g x = h (k x)" if "x \<in> set xs" for x
    unfolding h_def using that by (rule assms(2)) (rule someI2 [of _ x], use that in auto)+
  have sets: "set ys = set xs" using assms(1) by (metis set_mset_mset)
  have "map k (sort_key k xs) = map k (sort_key k ys)"
  proof -
    have sorted: "sort (map k ys) = map k (sort_key k zs)" if "mset zs = mset ys" for zs
      using that by (intro properties_for_sort) simp_all
    show ?thesis using sorted [OF assms(1)] sorted [OF refl] by simp
  qed
  then have "map h (map k (sort_key k xs)) = map h (map k (sort_key k ys))" by simp
  moreover have "map g (sort_key k xs) = map h (map k (sort_key k xs))" "map g (sort_key k ys) = map h (map k (sort_key k ys))"
    using h sets by auto
  ultimately show ?thesis by simp
qed

lemma map_filter_sort_eq:
  assumes "mset xs = mset ys"
    and "\<And>x y a b. x \<in> set xs \<Longrightarrow> y \<in> set xs \<Longrightarrow> k x = k y \<Longrightarrow> f x = Some a \<Longrightarrow> f y = Some b \<Longrightarrow> a = b"
  shows "List.map_filter f (sort_key k xs) = List.map_filter f (sort_key k ys)"
  unfolding List.map_filter_def filter_sort comp_def
  using assms by (intro sort_key_map_eq) (auto simp: mset_filter)

lemma sort_key_eq:
  assumes "mset xs = mset ys" and "inj_on k (set xs)"
  shows "sort_key k xs = sort_key k ys"
  using sort_key_map_eq [OF assms(1), of k "\<lambda>x. x"] assms(2) by (simp add: inj_on_def)

lemma bs_eq: "bs_wf xs \<Longrightarrow> bs_wf ys \<Longrightarrow> set xs = set ys \<Longrightarrow> xs = ys"
  by (metis sorted_distinct_set_unique strict_sorted_iff)

lemma check_node_ids_iff: "check_node_ids nodes seen = Inr () \<longleftrightarrow> distinct (map n_id nodes) \<and> n_id ` set nodes \<inter> set seen = {}"
  by (induction nodes seen rule: check_node_ids.induct) auto

lemma validate_inputs_perm:
  assumes "mset nodes' = mset nodes" and "mset edges' = mset edges" and "validate_inputs nodes edges config = Inr weights"
  shows "validate_inputs nodes' edges' config = Inr weights"
proof -
  have "set edges' = set edges" using assms(2) by (metis set_mset_mset)
  moreover have "distinct (map n_id nodes') \<longleftrightarrow> distinct (map n_id nodes)"
    using assms(1) by (metis mset_eq_imp_distinct_iff mset_map)
  ultimately show ?thesis
    using assms(3) by (auto simp: validate_inputs_def check_node_ids_iff split: if_splits)
qed

lemma attach_fold:
  assumes "bs_wf selected"
  shows "bs_wf (fold (\<lambda>edge selected. if P edge then selected else attach_edge edge services selected) edges selected)
     \<and> set (fold (\<lambda>edge selected. if P edge then selected else attach_edge edge services selected) edges selected)
       = set selected \<union> {u. \<exists>edge \<in> set edges. \<not> P edge \<and> (e_source edge \<in> set services \<and> u = e_target edge
            \<or> e_target edge \<in> set services \<and> u = e_source edge)}"
  using assms
proof (induction edges arbitrary: selected)
  case (Cons edge edges)
  let ?s = "if P edge then selected else attach_edge edge services selected"
  have "bs_wf ?s" using Cons.prems by (simp add: attach_edge_def Let_def)
  from Cons.IH [OF this] show ?case by (auto simp: attach_edge_def Let_def)
qed simp

lemma scoped_node_ids_perm:
  assumes "mset nodes' = mset nodes" and "mset edges' = mset edges"
  shows "scoped_node_ids nodes' edges' config weights = scoped_node_ids nodes edges config weights"
proof -
  have sets: "set nodes' = set nodes" "set edges' = set edges" using assms by (metis set_mset_mset)+
  have ids: "bs_of_list (map n_id (filter P nodes')) = bs_of_list (map n_id (filter P nodes))" for P
    using sets by (intro bs_eq) auto
  have all: "bs_of_list (map n_id nodes') = bs_of_list (map n_id nodes)" using ids [of "\<lambda>_. True"] by simp
  have fold_eq: "fold (\<lambda>edge selected. if P edge then selected else attach_edge edge services selected) edges' services
      = fold (\<lambda>edge selected. if P edge then selected else attach_edge edge services selected) edges services"
    if "bs_wf services" for P services
    using attach_fold [OF that] sets(2) by (intro bs_eq) auto
  show ?thesis
    unfolding scoped_node_ids_def all ids Let_def by (auto simp: fold_eq split: community_scope.split)
qed

definition add_accepted :: "accepted_edge \<Rightarrow> accepted_edge list \<times> (nat \<times> nat, f64) btree_map
    \<Rightarrow> accepted_edge list \<times> (nat \<times> nat, f64) btree_map" where
  "add_accepted accepted acc = (fst acc @ [accepted],
     bt_upsert (edge_pair accepted) (\<lambda>total. f64_add total (ae_weight accepted)) (f64_add (Fin 0) (ae_weight accepted)) (snd acc))"

lemma add_weighted_edge_filtered:
  "fold (add_weighted_edge config weights index) edges acc = fold add_accepted (List.map_filter (accept_edge config weights index) edges) acc"
  by (induction edges arbitrary: acc) (auto simp: add_weighted_edge_def add_accepted_def map_filter_simps split: option.split)

lemma build_graph_perm:
  assumes "mset nodes' = mset nodes" and "mset edges' = mset edges" and "distinct (map n_id nodes)"
  shows "build_graph nodes' edges' config weights selected = build_graph nodes edges config weights selected"
proof -
  have "inj_on n_id (set nodes')" using assms(1,3) by (metis distinct_map set_mset_mset)
  then have nodes: "sort_key n_id (filter P nodes') = sort_key n_id (filter P nodes)" for P
    using assms(1) by (intro sort_key_eq) (auto simp: inj_on_def)
  have "List.map_filter (accept_edge config weights index) (sort_key edge_order edges')
      = List.map_filter (accept_edge config weights index) (sort_key edge_order edges)" for index
  proof (rule map_filter_sort_eq [OF assms(2)])
    fix x y a b assume "edge_order x = edge_order y"
      "accept_edge config weights index x = Some a" "accept_edge config weights index y = Some b"
    then show "a = b"
      by (auto simp: edge_order_def accept_edge_def Let_def split: if_splits option.splits)
  qed
  then show ?thesis unfolding build_graph_def add_weighted_edge_filtered nodes by simp
qed

lemma analysis_perm:
  assumes "mset nodes' = mset nodes" and "mset edges' = mset edges"
    and "analyze_communities_with_progress hash uc i nodes edges config = Inr result"
  shows "analyze_communities_with_progress hash uc i nodes' edges' config = Inr result"
proof -
  obtain weights selected where weights: "validate_inputs nodes edges config = Inr weights"
    and selected: "scoped_node_ids nodes edges config weights = Inr selected"
    using assms(3) by (auto simp: analyze_communities_with_progress_def)
  note graph = build_graph_perm [OF assms(1,2) validate_inputs_result(3) [OF weights]]
  show ?thesis
    using assms(3) validate_inputs_perm [OF assms(1,2) weights] weights scoped_node_ids_perm [OF assms(1,2)] selected graph
    by (simp add: analyze_communities_with_progress_def)
qed

subsection \<open>The properties\<close>

lemma detected_length:
  assumes "validate_inputs nodes edges config = Inr weights"
  shows "length (fst (detect_assignments hash config (build_graph nodes edges config weights selected)))
     = length (wg_nodes (build_graph nodes edges config weights selected))"
proof -
  let ?graph = "build_graph nodes edges config weights selected"
  note graph = build_graph_result [OF assms refl, of selected]
  have "labels_ok ?graph" using graph(2,7) by (simp add: labels_ok_def)
  then show ?thesis
    using connected_components_exact(1) [OF build_graph_symmetric [OF assms]] propagation_length louvain_length [OF _ graph(3)]
    by (cases "cc_algorithm config") (simp_all add: detect_assignments_def)
qed

lemma analyze_communities_result:
  assumes "validate_inputs nodes edges config = Inr weights" and "scoped_node_ids nodes edges config weights = Inr selected"
  defines "g \<equiv> build_graph nodes edges config weights selected"
  shows "analyze_communities hash uc i nodes edges config = Inr \<lparr>sn_snapshot_id = i, sn_engine_version = ''1.0.0'',
     sn_config = config, sn_communities = describe_communities hash uc g (fst (detect_assignments hash config g))\<rparr>"
  using assms by (simp add: analyze_communities_def analyze_communities_with_progress_def split_beta Let_def)

text \<open>The identities that the scope selects, and the edges that link two of them.\<close>

definition in_scope :: "node list \<Rightarrow> node_id list \<Rightarrow> node_id set" where
  "in_scope nodes selected = n_id ` set nodes \<inter> set selected"

definition edge_joins :: "node list \<Rightarrow> edge list \<Rightarrow> community_config \<Rightarrow> f64 list \<Rightarrow> node_id list \<Rightarrow> node_id \<Rightarrow> node_id \<Rightarrow> bool" where
  "edge_joins nodes edges config weights selected u v \<longleftrightarrow> u \<in> in_scope nodes selected \<and> v \<in> in_scope nodes selected
     \<and> (\<exists>e \<in> set edges. participates config weights e \<and> {e_source e, e_target e} = {u, v})"

lemma graph_names:
  assumes "validate_inputs nodes edges config = Inr weights" and g_def: "g = build_graph nodes edges config weights selected"
  shows "distinct (map n_id (wg_nodes g))" and "n_id ` set (wg_nodes g) = in_scope nodes selected"
  using graph_ids_distinct [OF validate_inputs_result(3) [OF assms(1)]] build_graph_result(1) [OF assms(1) g_def]
  by (auto simp: in_scope_def)

lemma pair_key_eq: "pair_key a b = pair_key i j \<longleftrightarrow> {a, b} = {i, j}"
  by (auto simp: pair_key_def min_def max_def doubleton_eq_iff split: if_splits)

lemma linked_names:
  assumes "validate_inputs nodes edges config = Inr weights" and g_def: "g = build_graph nodes edges config weights selected"
    and "i < length (wg_nodes g)" and "j < length (wg_nodes g)"
  shows "linked g i j \<longleftrightarrow> edge_joins nodes edges config weights selected (node_name g i) (node_name g j)"
proof -
  note ids = graph_names [OF assms(1) g_def]
  note graph = build_graph_result [OF assms(1) g_def]
  have scope: "node_name g k \<in> in_scope nodes selected" if "k < length (wg_nodes g)" for k
    using ids(2) that by (force simp: node_name_def)
  have inj: "node_name g k = node_name g l \<longleftrightarrow> k = l" if "k < length (wg_nodes g)" "l < length (wg_nodes g)" for k l
    using ids(1) that by (simp add: node_name_def distinct_conv_nth) blast
  have "(\<exists>e \<in> set (wg_accepted_edges g). {ae_source e, ae_target e} = {i, j})
      \<longleftrightarrow> (\<exists>e \<in> set edges. participates config weights e \<and> {e_source e, e_target e} = {node_name g i, node_name g j})"
  proof
    assume "\<exists>e \<in> set (wg_accepted_edges g). {ae_source e, ae_target e} = {i, j}"
    then obtain e edge where e: "{ae_source e, ae_target e} = {i, j}" "edge \<in> set edges"
        "accept_edge config weights (position_index (wg_nodes g)) edge = Some e"
      using graph(5) by (auto simp: map_filter_mem)
    then have "participates config weights edge" "node_name g (ae_source e) = e_source edge" "node_name g (ae_target e) = e_target edge"
      using accept_edge_iff [OF ids(1)] by (simp_all add: node_name_def)
    moreover from this have "{e_source edge, e_target edge} = node_name g ` {ae_source e, ae_target e}" by simp
    ultimately show "\<exists>e \<in> set edges. participates config weights e \<and> {e_source e, e_target e} = {node_name g i, node_name g j}"
      using e(1,2) by auto
  next
    assume "\<exists>e \<in> set edges. participates config weights e \<and> {e_source e, e_target e} = {node_name g i, node_name g j}"
    then obtain edge where edge: "edge \<in> set edges" "participates config weights edge"
        "{e_source edge, e_target edge} = {node_name g i, node_name g j}" by blast
    then obtain s t where st: "{s, t} = {i, j}" "e_source edge = node_name g s" "e_target edge = node_name g t"
      by (auto simp: doubleton_eq_iff)
    then have "s < length (wg_nodes g)" "t < length (wg_nodes g)" using assms(3,4) by (auto simp: doubleton_eq_iff)
    then have "accept_edge config weights (position_index (wg_nodes g)) edge = Some
        \<lparr>ae_source = s, ae_target = t, ae_weight = f64_mul (weights ! edge_kind_index (e_kind edge)) (e_confidence edge)\<rparr>"
      using accept_edge_iff [OF ids(1)] st(2,3) edge(2) by (simp add: node_name_def)
    then have "\<lparr>ae_source = s, ae_target = t, ae_weight = f64_mul (weights ! edge_kind_index (e_kind edge)) (e_confidence edge)\<rparr>
        \<in> set (wg_accepted_edges g)"
      unfolding graph(5) map_filter_mem using edge(1) by (intro bexI) simp_all
    then show "\<exists>e \<in> set (wg_accepted_edges g). {ae_source e, ae_target e} = {i, j}" using st(1) by (metis accepted_edge.select_convs(1,2))
  qed
  then show ?thesis
    using graph(6) scope [OF assms(3)] scope [OF assms(4)] assms(3,4) by (simp add: pair_key_eq edge_joins_def)
qed

lemma linked_chain_names:
  assumes "validate_inputs nodes edges config = Inr weights" and g_def: "g = build_graph nodes edges config weights selected"
    and "i < length (wg_nodes g)" and "j < length (wg_nodes g)"
  shows "(linked g)\<^sup>*\<^sup>* i j \<longleftrightarrow> (edge_joins nodes edges config weights selected)\<^sup>*\<^sup>* (node_name g i) (node_name g j)"
proof
  have range: "a < length (wg_nodes g) \<and> b < length (wg_nodes g)" if "linked g a b" for a b
    using that build_graph_result(6) [OF assms(1) g_def] by blast
  show "(edge_joins nodes edges config weights selected)\<^sup>*\<^sup>* (node_name g i) (node_name g j)" if "(linked g)\<^sup>*\<^sup>* i j"
    using that
  proof (induction rule: rtranclp_induct)
    case (step a b)
    then show ?case
      using linked_names [OF assms(1) g_def, of a b] range [OF step.hyps(2)] by (simp add: rtranclp.rtrancl_into_rtrancl)
  qed simp
next
  note ids = graph_names [OF assms(1) g_def]
  have inj: "node_name g k = node_name g l \<longleftrightarrow> k = l" if "k < length (wg_nodes g)" "l < length (wg_nodes g)" for k l
    using ids(1) that by (simp add: node_name_def distinct_conv_nth) blast
  have "\<exists>k < length (wg_nodes g). v = node_name g k \<and> (linked g)\<^sup>*\<^sup>* i k"
    if "(edge_joins nodes edges config weights selected)\<^sup>*\<^sup>* (node_name g i) v" for v
    using that
  proof (induction rule: rtranclp_induct)
    case base
    then show ?case using assms(3) by blast
  next
    case (step u v)
    then obtain k where k: "k < length (wg_nodes g)" "u = node_name g k" "(linked g)\<^sup>*\<^sup>* i k" by blast
    have "v \<in> n_id ` set (wg_nodes g)" using step.hyps(2) ids(2) by (simp add: edge_joins_def)
    then obtain l where l: "l < length (wg_nodes g)" "v = node_name g l" by (auto simp: node_name_def in_set_conv_nth)
    have "linked g k l" using linked_names [OF assms(1) g_def, of k l] k l step.hyps(2) by simp
    then have "(linked g)\<^sup>*\<^sup>* i l" using k(3) by (rule rtranclp.rtrancl_into_rtrancl [rotated])
    then show ?case using l by blast
  qed
  then show "(linked g)\<^sup>*\<^sup>* i j"
    if "(edge_joins nodes edges config weights selected)\<^sup>*\<^sup>* (node_name g i) (node_name g j)"
    using that inj assms(4) by blast
qed

lemma described_together:
  assumes "distinct (map n_id (wg_nodes graph))" and "length a = length (wg_nodes graph)" and "i < length a" and "j < length a"
  shows "(\<exists>c \<in> set (describe_communities hash uc graph a). node_name graph i \<in> set (co_members c) \<and> node_name graph j \<in> set (co_members c))
     \<longleftrightarrow> a ! i = a ! j"
proof -
  have inj: "node_name graph k = node_name graph l \<longleftrightarrow> k = l" if "k < length a" "l < length a" for k l
    using assms(1,2) that by (simp add: node_name_def distinct_conv_nth) blast
  have inside: "node_name graph k \<in> node_name graph ` set grp \<longleftrightarrow> k \<in> set grp"
    if "grp \<in> set (member_groups graph a)" "k < length a" for grp k
    using member_groups_nonempty [OF that(1)] that(2) inj by fastforce
  have "(\<exists>c \<in> set (describe_communities hash uc graph a). P (co_members c))
      \<longleftrightarrow> (\<exists>ms \<in> set (map co_members (describe_communities hash uc graph a)). P ms)" for P by simp
  then have "(\<exists>c \<in> set (describe_communities hash uc graph a). P (co_members c))
      \<longleftrightarrow> (\<exists>grp \<in> set (member_groups graph a). P (map (node_name graph) grp))" for P unfolding describe_members by simp
  from this [of "\<lambda>ms. node_name graph i \<in> set ms \<and> node_name graph j \<in> set ms"] have "(\<exists>c \<in> set (describe_communities hash uc graph a). node_name graph i \<in> set (co_members c) \<and> node_name graph j \<in> set (co_members c))
      \<longleftrightarrow> (\<exists>grp \<in> set (member_groups graph a). i \<in> set grp \<and> j \<in> set grp)"
    using inside assms(3,4) by auto
  then show ?thesis using member_groups_same [OF assms(3,4)] by simp
qed

text \<open>
  C13: On valid inputs the analysis always returns a snapshot, with every algorithm, and its communities partition
  the nodes in scope: every such node is a member of exactly one community and of it once, no community is empty,
  the members of a community and the communities themselves are in strictly increasing order.\<close>
theorem communities_partition:
  assumes "validate_inputs nodes edges config = Inr weights" and "scoped_node_ids nodes edges config weights = Inr selected"
  shows "\<exists>snapshot. analyze_communities hash uc snapshot_id nodes edges config = Inr snapshot
     \<and> sn_snapshot_id snapshot = snapshot_id \<and> sn_config snapshot = config
     \<and> distinct (concat (map co_members (sn_communities snapshot)))
     \<and> set (concat (map co_members (sn_communities snapshot))) = in_scope nodes selected
     \<and> (\<forall>c \<in> set (sn_communities snapshot). co_members c \<noteq> [] \<and> sorted_wrt (<) (co_members c))
     \<and> sorted_wrt (<) (map co_members (sn_communities snapshot))"
proof -
  let ?g = "build_graph nodes edges config weights selected"
  let ?cs = "describe_communities hash uc ?g (fst (detect_assignments hash config ?g))"
  note ids = graph_names [OF assms(1) refl, of selected]
  note parts = describe_partition [OF ids(1) detected_length [OF assms(1), where hash = hash], where hash = hash and uc = uc]
  have "distinct (concat (map co_members ?cs))" "set (concat (map co_members ?cs)) = in_scope nodes selected"
    using parts(1) ids by (metis mset_eq_imp_distinct_iff, metis set_mset_mset list.set_map)
  moreover have "co_members c \<noteq> [] \<and> sorted_wrt (<) (co_members c)" if "c \<in> set ?cs" for c
    using parts(2) [of "co_members c"] that by simp
  ultimately show ?thesis
    unfolding analyze_communities_result [OF assms] using parts(3) by simp
qed

definition sample_unicode :: unicode where
  "sample_unicode = \<lparr>uc_is_alphanumeric = (\<lambda>_. True), uc_is_alphabetic = (\<lambda>_. True),
     uc_to_uppercase = (\<lambda>s. s), uc_to_lowercase = (\<lambda>s. s)\<rparr>"

definition sample_config :: "community_algorithm \<Rightarrow> community_config" where
  "sample_config algorithm = \<lparr>cc_algorithm = algorithm, cc_scope = Federated, cc_seed = 7, cc_resolution = Fin 1,
     cc_minimum_confidence = Fin 0, cc_edge_weights = [], cc_max_iterations = 10\<rparr>"

lemma sample_inputs_valid:
  "validate_inputs [sample_node ''b'', sample_node ''a'', sample_node ''c''] [sample_edge ''e'' ''a'' ''b''] (sample_config algorithm)
     = Inr (replicate 25 (Fin 1))"
  "scoped_node_ids [sample_node ''b'', sample_node ''a'', sample_node ''c''] [sample_edge ''e'' ''a'' ''b''] (sample_config algorithm)
     (replicate 25 (Fin 1)) = Inr [''a'', ''b'', ''c'']"
  by (simp_all add: validate_inputs_def scoped_node_ids_def sample_config_def sample_node_def sample_edge_def unit_interval_def bs_of_list_def fp_le_def fp_lt_def fp_is_finite_def)

theorem communities_partition_witness:
  "\<exists>snapshot. analyze_communities (\<lambda>s. s) sample_unicode ''s'' [sample_node ''b'', sample_node ''a'', sample_node ''c'']
       [sample_edge ''e'' ''a'' ''b''] (sample_config Louvain) = Inr snapshot
     \<and> set (concat (map co_members (sn_communities snapshot))) = {''a'', ''b'', ''c''}"
  using communities_partition [OF sample_inputs_valid, of "\<lambda>s. s" sample_unicode "''s''" Louvain]
  by (simp add: in_scope_def sample_node_def) blast

text \<open>
  C12: With the connected-components algorithm, two nodes in scope are in one community exactly when a chain of
  participating edges links them: confirmed, at or above the minimum confidence, of positive weight, and with both
  ends in scope. The direction of the edges plays no part.\<close>
theorem components_exact:
  assumes "validate_inputs nodes edges config = Inr weights" and "scoped_node_ids nodes edges config weights = Inr selected"
    and "cc_algorithm config = ConnectedComponents"
    and "analyze_communities hash uc snapshot_id nodes edges config = Inr snapshot"
    and "u \<in> in_scope nodes selected" and "v \<in> in_scope nodes selected"
  shows "(\<exists>c \<in> set (sn_communities snapshot). u \<in> set (co_members c) \<and> v \<in> set (co_members c))
     \<longleftrightarrow> (edge_joins nodes edges config weights selected)\<^sup>*\<^sup>* u v"
proof -
  define g where "g = build_graph nodes edges config weights selected"
  note ids = graph_names [OF assms(1) g_def]
  note components = connected_components_exact [OF build_graph_symmetric [OF assms(1), of selected], folded g_def]
  have communities: "sn_communities snapshot = describe_communities hash uc g (fst (connected_components g))"
    using analyze_communities_result [OF assms(1,2)] assms(3,4) unfolding g_def by (auto simp: detect_assignments_def)
  have named: "\<exists>i < length (wg_nodes g). w = node_name g i" if "w \<in> in_scope nodes selected" for w
    using that ids(2) [symmetric] by (auto simp: node_name_def in_set_conv_nth)
  obtain i j where ij: "i < length (wg_nodes g)" "u = node_name g i" "j < length (wg_nodes g)" "v = node_name g j"
    using named [OF assms(5)] named [OF assms(6)] by blast
  show ?thesis
    unfolding communities ij(2,4) linked_chain_names [OF assms(1) g_def ij(1,3), symmetric]
    using described_together [OF ids(1) components(1)] components(1) components(2) [OF ij(1,3)] ij(1,3) by simp
qed

theorem components_exact_witness:
  "\<exists>snapshot. analyze_communities (\<lambda>s. s) sample_unicode ''s'' [sample_node ''b'', sample_node ''a'', sample_node ''c'']
       [sample_edge ''e'' ''a'' ''b''] (sample_config ConnectedComponents) = Inr snapshot
     \<and> (\<exists>c \<in> set (sn_communities snapshot). ''b'' \<in> set (co_members c) \<and> ''a'' \<in> set (co_members c))"
proof -
  let ?nodes = "[sample_node ''b'', sample_node ''a'', sample_node ''c'']" and ?edges = "[sample_edge ''e'' ''a'' ''b'']"
  obtain snapshot where snapshot: "analyze_communities (\<lambda>s. s) sample_unicode ''s'' ?nodes ?edges (sample_config ConnectedComponents) = Inr snapshot"
    using analyze_communities_result [OF sample_inputs_valid] by blast
  have one: "f64_mul (Fin 1) (Fin 1) = Fin 1" by code_simp
  have kind: "edge_kind_index CallsRemote < 25" by (simp add: edge_kind_index_def)
  have "edge_joins ?nodes ?edges (sample_config ConnectedComponents) (replicate 25 (Fin 1)) [''a'', ''b'', ''c''] ''b'' ''a''"
    using kind one by (simp add: edge_joins_def in_scope_def participates_def sample_node_def sample_edge_def sample_config_def
      fp_lt_def fp_le_def insert_commute)
  then show ?thesis
    using components_exact [OF sample_inputs_valid _ snapshot, of "''b''" "''a''"] snapshot
    by (auto simp: in_scope_def sample_node_def sample_config_def)
qed

text \<open>
  C37: The analysis does not depend on the order of its inputs: when it succeeds, the same nodes and edges in any
  other order give the same snapshot, identities, labels and metrics included, with every algorithm.\<close>
theorem analysis_order_independent:
  assumes "mset nodes' = mset nodes" and "mset edges' = mset edges"
    and "analyze_communities hash uc snapshot_id nodes edges config = Inr snapshot"
  shows "analyze_communities hash uc snapshot_id nodes' edges' config = Inr snapshot"
proof -
  obtain units where "analyze_communities_with_progress hash uc snapshot_id nodes edges config = Inr (snapshot, units)"
    using assms(3) by (cases "analyze_communities_with_progress hash uc snapshot_id nodes edges config") (auto simp: analyze_communities_def)
  from analysis_perm [OF assms(1,2) this] show ?thesis by (simp add: analyze_communities_def)
qed

theorem analysis_order_independent_witness:
  "\<exists>snapshot. analyze_communities (\<lambda>s. s) sample_unicode ''s'' [sample_node ''b'', sample_node ''a'', sample_node ''c'']
       [sample_edge ''e'' ''a'' ''b''] (sample_config Louvain) = Inr snapshot
     \<and> analyze_communities (\<lambda>s. s) sample_unicode ''s'' [sample_node ''c'', sample_node ''a'', sample_node ''b'']
       [sample_edge ''e'' ''a'' ''b''] (sample_config Louvain) = Inr snapshot"
proof -
  let ?nodes = "[sample_node ''b'', sample_node ''a'', sample_node ''c'']" and ?edges = "[sample_edge ''e'' ''a'' ''b'']"
  obtain snapshot where snapshot: "analyze_communities (\<lambda>s. s) sample_unicode ''s'' ?nodes ?edges (sample_config Louvain) = Inr snapshot"
    using analyze_communities_result [OF sample_inputs_valid] by blast
  have "mset [sample_node ''c'', sample_node ''a'', sample_node ''b''] = mset ?nodes" by simp
  from analysis_order_independent [OF this refl snapshot] snapshot show ?thesis by blast
qed

text \<open>One step of the local-moving phase of Louvain keeps its bookkeeping: every node has a label below the number
  of nodes, the member counts are the numbers of nodes with each label, and the set of free labels holds exactly
  the labels that no node has, so the label of an emptied community can be reused and no other.\<close>
lemma louvain_bookkeeping:
  assumes "louvain_ok graph (fst acc)" and "labels_ok graph" and "node < length (wg_nodes graph)"
  shows "louvain_ok graph (fst (louvain_node keys graph resolution node acc))"
  using louvain_node_ok [OF assms] .


end
