(* ===== verification/Communities_Compare.thy ===== *)
theory Communities_Compare
  imports Communities
begin

text \<open>
  The comparison of two community snapshots against its specification: which old and new communities are related,
  and the change that every situation asks for. The order in which the comparison visits the candidates and the
  sets of already matched communities do not show in the result.
\<close>

subsection \<open>What changed between two snapshots\<close>

definition related :: "community_snapshot \<Rightarrow> community_snapshot \<Rightarrow> nat \<Rightarrow> nat \<Rightarrow> bool" where
  "related before after b a \<longleftrightarrow> b < length (sn_communities before) \<and> a < length (sn_communities after)
     \<and> fp_le related_overlap (overlap_of (sn_communities before ! b) (sn_communities after ! a))"

definition successors :: "community_snapshot \<Rightarrow> community_snapshot \<Rightarrow> nat \<Rightarrow> nat list" where
  "successors before after b = filter (related before after b) [0..<length (sn_communities after)]"

definition predecessors :: "community_snapshot \<Rightarrow> community_snapshot \<Rightarrow> nat \<Rightarrow> nat list" where
  "predecessors before after a = filter (\<lambda>b. related before after b a) [0..<length (sn_communities before)]"

definition overlap_at :: "community_snapshot \<Rightarrow> community_snapshot \<Rightarrow> nat \<Rightarrow> nat \<Rightarrow> f64" where
  "overlap_at before after b a = overlap_of (sn_communities before ! b) (sn_communities after ! a)"

definition max_overlap :: "f64 list \<Rightarrow> f64" where
  "max_overlap overlaps = fold (\<lambda>overlap m. fp_max m overlap) overlaps (Fin 0)"

text \<open>The change that each situation asks for.\<close>

definition split_change :: "community_snapshot \<Rightarrow> community_snapshot \<Rightarrow> nat \<Rightarrow> community_change" where
  "split_change before after b =
     \<lparr>ch_kind = Split, ch_before = [community_id_at before b], ch_after = map (community_id_at after) (successors before after b),
      ch_overlap = max_overlap (map (overlap_at before after b) (successors before after b)),
      ch_explanation = ''One prior community overlaps '' @ show_nat (length (successors before after b))
        @ '' successor communities at or above 0.25.''\<rparr>"

definition merge_change :: "community_snapshot \<Rightarrow> community_snapshot \<Rightarrow> nat \<Rightarrow> community_change" where
  "merge_change before after a =
     \<lparr>ch_kind = Merged, ch_before = map (community_id_at before) (predecessors before after a), ch_after = [community_id_at after a],
      ch_overlap = max_overlap (map (\<lambda>b. overlap_at before after b a) (predecessors before after a)),
      ch_explanation = show_nat (length (predecessors before after a))
        @ '' prior communities overlap one successor at or above 0.25.''\<rparr>"

definition material_change :: "community_snapshot \<Rightarrow> community_snapshot \<Rightarrow> nat \<Rightarrow> nat \<Rightarrow> community_change" where
  "material_change before after b a =
     \<lparr>ch_kind = MateriallyChanged, ch_before = [community_id_at before b], ch_after = [community_id_at after a],
      ch_overlap = overlap_at before after b a,
      ch_explanation = ''Best one-to-one member overlap is '' @ three_decimals (overlap_at before after b a)
        @ '', below the stable threshold 0.80.''\<rparr>"

definition removed_change :: "community_snapshot \<Rightarrow> nat \<Rightarrow> community_change" where
  "removed_change before b =
     \<lparr>ch_kind = Removed, ch_before = [community_id_at before b], ch_after = [], ch_overlap = Fin 0,
      ch_explanation = ''No successor community reaches the related-overlap threshold 0.25.''\<rparr>"

definition created_change :: "community_snapshot \<Rightarrow> nat \<Rightarrow> community_change" where
  "created_change after a =
     \<lparr>ch_kind = Created, ch_before = [], ch_after = [community_id_at after a], ch_overlap = Fin 0,
      ch_explanation = ''No prior community reaches the related-overlap threshold 0.25.''\<rparr>"

lemma enumerate_upt: "List.enumerate 0 (map f [0..<n]) = map (\<lambda>i. (i, f i)) [0..<n]"
  by (rule nth_equalityI) (simp_all add: nth_enumerate_eq)

lemma overlap_row:
  assumes "bt_wf m"
  shows "bt_wf (fold (\<lambda>a. bt_insert (b, a) (f b a)) as m)
     \<and> (\<forall>k. bt_get (fold (\<lambda>a. bt_insert (b, a) (f b a)) as m) k
          = (if fst k = b \<and> snd k \<in> set as then Some (f (fst k) (snd k)) else bt_get m k))"
  using assms
proof (induction as arbitrary: m)
  case (Cons a as)
  from Cons.IH [OF bt_wf_insert [OF Cons.prems]] show ?case using Cons.prems by auto
qed simp

lemma overlap_rows:
  assumes "bt_wf m"
  shows "bt_wf (fold (\<lambda>b m. fold (\<lambda>a. bt_insert (b, a) (f b a)) as m) bs m)
     \<and> (\<forall>k. bt_get (fold (\<lambda>b m. fold (\<lambda>a. bt_insert (b, a) (f b a)) as m) bs m) k
          = (if fst k \<in> set bs \<and> snd k \<in> set as then Some (f (fst k) (snd k)) else bt_get m k))"
  using assms
proof (induction bs arbitrary: m)
  case (Cons b bs)
  note row = overlap_row [OF Cons.prems, of b f as]
  from Cons.IH [OF conjunct1 [OF row]] show ?case using row by auto
qed simp

lemma overlap_matrix_get:
  "bt_wf (overlap_matrix (sn_communities before) (sn_communities after))
   \<and> (\<forall>b a. bt_get (overlap_matrix (sn_communities before) (sn_communities after)) (b, a)
     = (if b < length (sn_communities before) \<and> a < length (sn_communities after) then Some (overlap_at before after b a) else None))"
proof -
  have "overlap_matrix (sn_communities before) (sn_communities after)
      = fold (\<lambda>b m. fold (\<lambda>a. bt_insert (b, a) (overlap_at before after b a)) [0..<length (sn_communities after)] m)
          [0..<length (sn_communities before)] []"
    by (simp add: overlap_matrix_def enumerate_map fold_map comp_def overlap_at_def)
  then show ?thesis using overlap_rows [of "[]" "overlap_at before after"] by auto
qed

lemma is_related_iff: "is_related (overlap_matrix (sn_communities before) (sn_communities after)) b a \<longleftrightarrow> related before after b a"
  using overlap_matrix_get [of before after] by (auto simp: is_related_def related_def overlap_at_def)

lemma related_lists:
  "related_after (overlap_matrix (sn_communities before) (sn_communities after)) (length (sn_communities before)) (length (sn_communities after))
     = map (successors before after) [0..<length (sn_communities before)]"
  "related_before (overlap_matrix (sn_communities before) (sn_communities after)) (length (sn_communities before)) (length (sn_communities after))
     = map (predecessors before after) [0..<length (sn_communities after)]"
  by (simp_all add: related_after_def related_before_def is_related_iff successors_def predecessors_def)

lemma successors_mem [simp]: "a \<in> set (successors before after b) \<longleftrightarrow> related before after b a"
  by (auto simp: successors_def related_def)

lemma predecessors_mem [simp]: "b \<in> set (predecessors before after a) \<longleftrightarrow> related before after b a"
  by (auto simp: predecessors_def related_def)

lemma map_filter_total: "(\<And>x. x \<in> set xs \<Longrightarrow> f x = Some (g x)) \<Longrightarrow> List.map_filter f xs = map g xs"
  by (induction xs) (auto simp: map_filter_simps)

lemma maximum_overlap_lists:
  "maximum_overlap (overlap_matrix (sn_communities before) (sn_communities after)) (successors before after b) (\<lambda>a. (b, a))
     = max_overlap (map (overlap_at before after b) (successors before after b))"
  "maximum_overlap (overlap_matrix (sn_communities before) (sn_communities after)) (predecessors before after a) (\<lambda>b. (b, a))
     = max_overlap (map (\<lambda>b. overlap_at before after b a) (predecessors before after a))"
proof -
  note get = overlap_matrix_get [of before after]
  have "List.map_filter (\<lambda>index. bt_get (overlap_matrix (sn_communities before) (sn_communities after)) (b, index)) (successors before after b)
      = map (overlap_at before after b) (successors before after b)"
    using get by (intro map_filter_total) (auto simp: related_def)
  then show "maximum_overlap (overlap_matrix (sn_communities before) (sn_communities after)) (successors before after b) (\<lambda>a. (b, a))
     = max_overlap (map (overlap_at before after b) (successors before after b))"
    by (simp add: maximum_overlap_def max_overlap_def)
  have "List.map_filter (\<lambda>index. bt_get (overlap_matrix (sn_communities before) (sn_communities after)) (index, a)) (predecessors before after a)
      = map (\<lambda>b. overlap_at before after b a) (predecessors before after a)"
    using get by (intro map_filter_total) (auto simp: related_def)
  then show "maximum_overlap (overlap_matrix (sn_communities before) (sn_communities after)) (predecessors before after a) (\<lambda>b. (b, a))
     = max_overlap (map (\<lambda>b. overlap_at before after b a) (predecessors before after a))"
    by (simp add: maximum_overlap_def max_overlap_def)
qed


text \<open>The communities that a split or a merge accounts for.\<close>

definition structural_before :: "community_snapshot \<Rightarrow> community_snapshot \<Rightarrow> nat set" where
  "structural_before before after = {b. b < length (sn_communities before) \<and> 2 \<le> length (successors before after b)}
     \<union> {b. \<exists>a < length (sn_communities after). 2 \<le> length (predecessors before after a) \<and> related before after b a}"

definition structural_after :: "community_snapshot \<Rightarrow> community_snapshot \<Rightarrow> nat set" where
  "structural_after before after = {a. \<exists>b < length (sn_communities before). 2 \<le> length (successors before after b) \<and> related before after b a}
     \<union> {a. a < length (sn_communities after) \<and> 2 \<le> length (predecessors before after a)}"

lemma classify_splits:
  defines "step \<equiv> (\<lambda>before after b. classify_split before after (overlap_matrix (sn_communities before) (sn_communities after))
     (b, successors before after b))"
  shows "set (ma_changes (fold (step before after) bs m)) = set (ma_changes m) \<union> split_change before after ` {b \<in> set bs. 2 \<le> length (successors before after b)}
     \<and> set (ma_before (fold (step before after) bs m)) = set (ma_before m) \<union> {b \<in> set bs. 2 \<le> length (successors before after b)}
     \<and> set (ma_after (fold (step before after) bs m)) = set (ma_after m) \<union> {a. \<exists>b \<in> set bs. 2 \<le> length (successors before after b) \<and> related before after b a}"
proof (induction bs arbitrary: m)
  case (Cons b bs)
  have one: "step before after b m = (if 2 \<le> length (successors before after b)
      then \<lparr>ma_changes = ma_changes m @ [split_change before after b], ma_before = bs_insert b (ma_before m),
            ma_after = fold bs_insert (successors before after b) (ma_after m)\<rparr> else m)"
    by (simp add: step_def classify_split_def split_change_def maximum_overlap_lists)
  show ?case
  proof (cases "2 \<le> length (successors before after b)")
    case True
    then show ?thesis using Cons.IH [of "step before after b m"] by (auto simp: one bs_set_fold)
  next
    case False
    then show ?thesis using Cons.IH [of m] by (auto simp: one)
  qed
qed simp

lemma classify_merges:
  defines "step \<equiv> (\<lambda>before after a. classify_merge before after (overlap_matrix (sn_communities before) (sn_communities after))
     (a, predecessors before after a))"
  shows "set (ma_changes (fold (step before after) as m)) = set (ma_changes m) \<union> merge_change before after ` {a \<in> set as. 2 \<le> length (predecessors before after a)}
     \<and> set (ma_after (fold (step before after) as m)) = set (ma_after m) \<union> {a \<in> set as. 2 \<le> length (predecessors before after a)}
     \<and> set (ma_before (fold (step before after) as m)) = set (ma_before m) \<union> {b. \<exists>a \<in> set as. 2 \<le> length (predecessors before after a) \<and> related before after b a}"
proof (induction as arbitrary: m)
  case (Cons a as)
  have one: "step before after a m = (if 2 \<le> length (predecessors before after a)
      then \<lparr>ma_changes = ma_changes m @ [merge_change before after a],
            ma_before = fold bs_insert (predecessors before after a) (ma_before m), ma_after = bs_insert a (ma_after m)\<rparr> else m)"
    by (simp add: step_def classify_merge_def merge_change_def maximum_overlap_lists)
  show ?case
  proof (cases "2 \<le> length (predecessors before after a)")
    case True
    then show ?thesis using Cons.IH [of "step before after a m"] by (auto simp: one bs_set_fold)
  next
    case False
    then show ?thesis using Cons.IH [of m] by (auto simp: one)
  qed
qed simp

lemma classify_structural_result:
  defines "m \<equiv> (\<lambda>before after. classify_structural_changes before after (overlap_matrix (sn_communities before) (sn_communities after))
     (map (successors before after) [0..<length (sn_communities before)])
     (map (predecessors before after) [0..<length (sn_communities after)]))"
  shows "set (ma_changes (m before after)) =
      split_change before after ` {b. b < length (sn_communities before) \<and> 2 \<le> length (successors before after b)}
      \<union> merge_change before after ` {a. a < length (sn_communities after) \<and> 2 \<le> length (predecessors before after a)}"
    and "set (ma_before (m before after)) = structural_before before after"
    and "set (ma_after (m before after)) = structural_after before after"
proof -
  have m: "m before after = fold (\<lambda>a. classify_merge before after (overlap_matrix (sn_communities before) (sn_communities after)) (a, predecessors before after a))
     [0..<length (sn_communities after)]
     (fold (\<lambda>b. classify_split before after (overlap_matrix (sn_communities before) (sn_communities after)) (b, successors before after b))
       [0..<length (sn_communities before)] \<lparr>ma_changes = [], ma_before = [], ma_after = []\<rparr>)"
    by (simp add: m_def classify_structural_changes_def enumerate_upt fold_map comp_def)
  show "set (ma_changes (m before after)) =
      split_change before after ` {b. b < length (sn_communities before) \<and> 2 \<le> length (successors before after b)}
      \<union> merge_change before after ` {a. a < length (sn_communities after) \<and> 2 \<le> length (predecessors before after a)}"
    and "set (ma_before (m before after)) = structural_before before after"
    and "set (ma_after (m before after)) = structural_after before after"
    unfolding m by (auto simp: classify_merges classify_splits structural_before_def structural_after_def)
qed

text \<open>Pairs that only relate to each other.\<close>

definition one_to_one :: "community_snapshot \<Rightarrow> community_snapshot \<Rightarrow> nat \<Rightarrow> nat \<Rightarrow> bool" where
  "one_to_one before after b a \<longleftrightarrow> successors before after b = [a] \<and> predecessors before after a = [b]"

lemma two_members: "distinct xs \<Longrightarrow> 2 \<le> length xs \<longleftrightarrow> (\<exists>x \<in> set xs. \<exists>y \<in> set xs. x \<noteq> y)"
  by (cases xs rule: remdups_adj.cases) auto

lemma single_member: "distinct xs \<Longrightarrow> x \<in> set xs \<Longrightarrow> \<not> 2 \<le> length xs \<Longrightarrow> xs = [x]"
  by (cases xs rule: remdups_adj.cases) auto

lemma related_distinct [simp]: "distinct (successors before after b)" "distinct (predecessors before after a)"
  by (simp_all add: successors_def predecessors_def)

lemma one_to_one_iff:
  assumes "related before after b a"
  shows "one_to_one before after b a \<longleftrightarrow> b \<notin> structural_before before after \<and> a \<notin> structural_after before after"
    and "one_to_one before after b a \<longleftrightarrow> b \<notin> structural_before before after"
    and "one_to_one before after b a \<longleftrightarrow> a \<notin> structural_after before after"
proof -
  have bounds: "b < length (sn_communities before)" "a < length (sn_communities after)" using assms by (simp_all add: related_def)
  have single: "one_to_one before after b a \<longleftrightarrow>
      \<not> 2 \<le> length (successors before after b) \<and> \<not> 2 \<le> length (predecessors before after a)"
  proof
    assume "\<not> 2 \<le> length (successors before after b) \<and> \<not> 2 \<le> length (predecessors before after a)"
    then show "one_to_one before after b a"
      using single_member [of "successors before after b" a] single_member [of "predecessors before after a" b] assms
      by (simp add: one_to_one_def)
  qed (simp add: one_to_one_def)
  have before: "b \<in> structural_before before after \<longleftrightarrow>
      2 \<le> length (successors before after b) \<or> 2 \<le> length (predecessors before after a)"
  proof
    assume "b \<in> structural_before before after"
    then consider "2 \<le> length (successors before after b)"
      | a' where "2 \<le> length (predecessors before after a')" "related before after b a'"
      by (auto simp: structural_before_def)
    then show "2 \<le> length (successors before after b) \<or> 2 \<le> length (predecessors before after a)"
    proof cases
      case 2
      then show ?thesis using assms by (cases "a' = a") (auto simp: two_members)
    qed simp
  qed (use assms bounds in \<open>auto simp: structural_before_def\<close>)
  have after: "a \<in> structural_after before after \<longleftrightarrow>
      2 \<le> length (successors before after b) \<or> 2 \<le> length (predecessors before after a)"
  proof
    assume "a \<in> structural_after before after"
    then consider "2 \<le> length (predecessors before after a)"
      | b' where "2 \<le> length (successors before after b')" "related before after b' a"
      by (auto simp: structural_after_def)
    then show "2 \<le> length (successors before after b) \<or> 2 \<le> length (predecessors before after a)"
    proof cases
      case 2
      then show ?thesis using assms by (cases "b' = b") (auto simp: two_members)
    qed simp
  qed (use assms bounds in \<open>auto simp: structural_after_def\<close>)
  show "one_to_one before after b a \<longleftrightarrow> b \<notin> structural_before before after \<and> a \<notin> structural_after before after"
    and "one_to_one before after b a \<longleftrightarrow> b \<notin> structural_before before after"
    and "one_to_one before after b a \<longleftrightarrow> a \<notin> structural_after before after"
    using single before after by blast+
qed

lemma one_to_one_unique:
  "one_to_one before after b a \<Longrightarrow> related before after b a' \<Longrightarrow> a' = a"
  "one_to_one before after b a \<Longrightarrow> related before after b' a \<Longrightarrow> b' = b"
  "one_to_one before after b a \<Longrightarrow> related before after b a"
  unfolding one_to_one_def
  by (metis empty_iff list.set(1) set_ConsD successors_mem, metis empty_iff list.set(1) set_ConsD predecessors_mem,
      metis list.set_intros(1) successors_mem)

definition unstable :: "community_snapshot \<Rightarrow> community_snapshot \<Rightarrow> nat \<Rightarrow> nat \<Rightarrow> bool" where
  "unstable before after b a \<longleftrightarrow> fp_lt (f64_add (overlap_at before after b a) epsilon) stable_overlap"

definition pair_one_to_one :: "community_snapshot \<Rightarrow> community_snapshot \<Rightarrow> nat \<times> nat \<Rightarrow> bool" where
  "pair_one_to_one before after p \<longleftrightarrow> one_to_one before after (fst p) (snd p)"

definition pair_unstable :: "community_snapshot \<Rightarrow> community_snapshot \<Rightarrow> nat \<times> nat \<Rightarrow> bool" where
  "pair_unstable before after p \<longleftrightarrow> pair_one_to_one before after p \<and> unstable before after (fst p) (snd p)"

definition material_at :: "community_snapshot \<Rightarrow> community_snapshot \<Rightarrow> nat \<times> nat \<Rightarrow> community_change" where
  "material_at before after p = material_change before after (fst p) (snd p)"

lemma filtered_Cons: "{x \<in> set (p # ps). Q x} = (if Q p then insert p {x \<in> set ps. Q x} else {x \<in> set ps. Q x})"
  by auto

lemma classify_pairs:
  assumes "distinct ps" and "\<forall>(b, a) \<in> set ps. related before after b a"
    and "set (ma_before m) = structural_before before after \<union> fst ` used" and "set (ma_after m) = structural_after before after \<union> snd ` used"
    and "used \<inter> set ps = {}" and "\<forall>(b, a) \<in> used. one_to_one before after b a"
  defines "m' \<equiv> fold (\<lambda>(b, a). classify_pair before after (b, a, overlap_at before after b a)) ps m"
  shows "set (ma_changes m') = set (ma_changes m) \<union> material_at before after ` {p \<in> set ps. pair_unstable before after p}
     \<and> set (ma_before m') = structural_before before after \<union> fst ` (used \<union> {p \<in> set ps. pair_one_to_one before after p})
     \<and> set (ma_after m') = structural_after before after \<union> snd ` (used \<union> {p \<in> set ps. pair_one_to_one before after p})"
  using assms(1-6) unfolding m'_def
proof (induction ps arbitrary: m used)
  case (Cons p ps)
  obtain b a where p: "p = (b, a)" by fastforce
  have rel: "related before after b a" using Cons.prems(2) p by simp
  let ?m = "classify_pair before after (b, a, overlap_at before after b a) m"
  show ?case
  proof (cases "one_to_one before after b a")
    case True
    have unused: "(b, a) \<notin> used" using Cons.prems(5) p by auto
    have "b \<notin> fst ` used"
    proof
      assume "b \<in> fst ` used"
      then obtain a' where a': "(b, a') \<in> used" by auto
      then have "related before after b a'" using Cons.prems(6) one_to_one_unique(3) by blast
      then show False using one_to_one_unique(1) [OF True] a' unused by blast
    qed
    moreover have "a \<notin> snd ` used"
    proof
      assume "a \<in> snd ` used"
      then obtain b' where b': "(b', a) \<in> used" by auto
      then have "related before after b' a" using Cons.prems(6) one_to_one_unique(3) by blast
      then show False using one_to_one_unique(2) [OF True] b' unused by blast
    qed
    ultimately have fresh: "b \<notin> set (ma_before m)" "a \<notin> set (ma_after m)"
      using Cons.prems(3,4) one_to_one_iff [OF rel] True by auto
    have m: "set (ma_before ?m) = structural_before before after \<union> fst ` (insert p used)"
        "set (ma_after ?m) = structural_after before after \<union> snd ` (insert p used)"
        "set (ma_changes ?m) = set (ma_changes m) \<union> (if unstable before after b a then {material_change before after b a} else {})"
      using fresh Cons.prems(3,4) p by (simp_all add: classify_pair_def unstable_def material_change_def)
    have "insert p used \<inter> set ps = {}" "\<forall>(b, a) \<in> insert p used. one_to_one before after b a"
      using Cons.prems(1,5,6) p True by auto
    note rest = Cons.IH [OF _ _ m(1,2) this]
    have here: "pair_one_to_one before after p" "pair_unstable before after p \<longleftrightarrow> unstable before after b a"
        "material_at before after p = material_change before after b a"
      using True p by (simp_all add: pair_one_to_one_def pair_unstable_def material_at_def)
    have go: "fold (\<lambda>(b, a). classify_pair before after (b, a, overlap_at before after b a)) (p # ps) m
        = fold (\<lambda>(b, a). classify_pair before after (b, a, overlap_at before after b a)) ps ?m" using p by simp
    show ?thesis
      unfolding go filtered_Cons using rest Cons.prems(1,2) m(3) here by simp
  next
    case False
    then have "?m = m"
      using one_to_one_iff(2,3) [OF rel] Cons.prems(3,4) by (simp add: classify_pair_def)
    then have go: "fold (\<lambda>(b, a). classify_pair before after (b, a, overlap_at before after b a)) (p # ps) m
        = fold (\<lambda>(b, a). classify_pair before after (b, a, overlap_at before after b a)) ps m" using p by simp
    have here: "\<not> pair_one_to_one before after p" "\<not> pair_unstable before after p"
      using False p by (simp_all add: pair_one_to_one_def pair_unstable_def)
    have apart: "used \<inter> set ps = {}" using Cons.prems(5) by auto
    show ?thesis
      unfolding go filtered_Cons using Cons.IH [OF _ _ Cons.prems(3,4) apart Cons.prems(6)] Cons.prems(1,2) here by simp
  qed
qed simp


lemma candidate_pairs:
  "\<exists>ps. distinct ps \<and> set ps = {(b, a). related before after b a}
     \<and> classify_pairwise_changes before after (overlap_matrix (sn_communities before) (sn_communities after)) m
       = fold (\<lambda>(b, a). classify_pair before after (b, a, overlap_at before after b a)) ps m"
proof -
  let ?overlaps = "overlap_matrix (sn_communities before) (sn_communities after)"
  let ?key = "\<lambda>(left, right, overlap). (fp_descending overlap, community_id_at before left, community_id_at after right)"
  let ?cs = "sort_key ?key (map (\<lambda>((left, right), overlap). (left, right, overlap)) (filter (\<lambda>(_, overlap). fp_le related_overlap overlap) ?overlaps))"
  note get = overlap_matrix_get [of before after]
  have mem: "((b, a), w) \<in> set ?overlaps \<longleftrightarrow> b < length (sn_communities before) \<and> a < length (sn_communities after) \<and> w = overlap_at before after b a" for b a w
    using bt_get_iff_mem [of ?overlaps "(b, a)" w] get by (auto split: if_splits)
  have cs: "(b, a, w) \<in> set ?cs \<longleftrightarrow> related before after b a \<and> w = overlap_at before after b a" for b a w
    using mem by (force simp: related_def overlap_at_def image_iff)
  have "distinct ?overlaps" using get bt_wf_distinct distinct_map by blast
  then have "distinct ?cs" by (simp add: distinct_map inj_on_def split_beta prod_eq_iff)
  moreover have "inj_on (\<lambda>(b, a, w). (b, a)) (set ?cs)" 
  proof (rule inj_onI)
    fix x y assume xy: "x \<in> set ?cs" "y \<in> set ?cs" "(\<lambda>(b, a, w). (b, a)) x = (\<lambda>(b, a, w). (b, a)) y"
    obtain b a w where x: "x = (b, a, w)" by (metis surj_pair)
    obtain b' a' w' where y: "y = (b', a', w')" by (metis surj_pair)
    show "x = y" using xy cs [of b a w] cs [of b' a' w'] unfolding x y by simp
  qed
  ultimately have "distinct (map (\<lambda>(b, a, w). (b, a)) ?cs)" by (simp only: distinct_map)
  moreover have "set (map (\<lambda>(b, a, w). (b, a)) ?cs) = {(b, a). related before after b a}"
    using cs by (force simp del: set_sort)
  moreover have "fold (\<lambda>(b, a). classify_pair before after (b, a, overlap_at before after b a)) (map (\<lambda>(b, a, w). (b, a)) ?cs) m
      = fold (classify_pair before after) ?cs m"
    unfolding fold_map comp_def
  proof (intro fold_cong refl)
    fix x assume x: "x \<in> set ?cs"
    obtain b a w where xs: "x = (b, a, w)" by (metis surj_pair)
    then have "w = overlap_at before after b a" using cs x by blast
    then show "(case case x of (b, a, w) \<Rightarrow> (b, a) of (b, a) \<Rightarrow> classify_pair before after (b, a, overlap_at before after b a))
        = classify_pair before after x" using xs by simp
  qed
  moreover have "classify_pairwise_changes before after ?overlaps m = fold (classify_pair before after) ?cs m"
    by (simp only: classify_pairwise_changes_def Let_def)
  ultimately show ?thesis
    by (intro exI [of _ "map (\<lambda>(b, a, w). (b, a)) ?cs"] conjI) simp_all
qed

lemma enumerate_filtered:
  "set (map (\<lambda>(_, c). f c) (filter (\<lambda>(i, _). P i) (List.enumerate 0 xs))) = (\<lambda>i. f (xs ! i)) ` {i. i < length xs \<and> P i}"
proof -
  have "filter (\<lambda>(i, _). P i) (List.enumerate 0 xs) = map (\<lambda>i. (i, xs ! i)) (filter P [0..<length xs])"
    unfolding enumerate_map filter_map by (simp add: comp_def)
  moreover have "set (filter P [0..<length xs]) = {i. i < length xs \<and> P i}" by auto
  ultimately show ?thesis by (simp only: list.map_comp comp_def split_conv list.set_map)
qed

definition expected_changes :: "community_snapshot \<Rightarrow> community_snapshot \<Rightarrow> community_change set" where
  "expected_changes before after =
     split_change before after ` {b. b < length (sn_communities before) \<and> 2 \<le> length (successors before after b)}
     \<union> merge_change before after ` {a. a < length (sn_communities after) \<and> 2 \<le> length (predecessors before after a)}
     \<union> material_at before after ` {p. pair_unstable before after p}
     \<union> removed_change before ` {b. b < length (sn_communities before) \<and> successors before after b = []}
     \<union> created_change after ` {a. a < length (sn_communities after) \<and> predecessors before after a = []}"

lemma compare_changes_exact:
  "set (cd_changes (compare_community_snapshots before after)) = expected_changes before after"
proof -
  let ?overlaps = "overlap_matrix (sn_communities before) (sn_communities after)"
  let ?m = "classify_structural_changes before after ?overlaps
     (map (successors before after) [0..<length (sn_communities before)]) (map (predecessors before after) [0..<length (sn_communities after)])"
  let ?m' = "classify_pairwise_changes before after ?overlaps ?m"
  note structural = classify_structural_result [of before after]
  obtain ps where ps: "distinct ps" "set ps = {(b, a). related before after b a}"
      "?m' = fold (\<lambda>(b, a). classify_pair before after (b, a, overlap_at before after b a)) ps ?m"
    using candidate_pairs by blast
  let ?pairs = "{p. pair_one_to_one before after p}"
  have inside: "{p \<in> set ps. pair_one_to_one before after p} = ?pairs" "{p \<in> set ps. pair_unstable before after p} = {p. pair_unstable before after p}"
    using ps(2) one_to_one_unique(3) by (auto simp: pair_one_to_one_def pair_unstable_def)
  have m': "set (ma_changes ?m') = set (ma_changes ?m) \<union> material_at before after ` {p. pair_unstable before after p}"
      "set (ma_before ?m') = structural_before before after \<union> fst ` ?pairs"
      "set (ma_after ?m') = structural_after before after \<union> snd ` ?pairs"
    using classify_pairs [OF ps(1), of before after ?m "{}"] ps(2) structural(2,3) unfolding ps(3) [symmetric] inside by auto
  have unmatched: "b \<notin> set (ma_before ?m') \<longleftrightarrow> successors before after b = []" if "b < length (sn_communities before)" for b
  proof (cases "successors before after b = []")
    case True
    then have none: "\<not> related before after b a" for a using successors_mem [of a before after b] by simp
    then have "b \<notin> structural_before before after" using True by (auto simp: structural_before_def)
    moreover have "b \<notin> fst ` ?pairs" using none one_to_one_unique(3) by (force simp: pair_one_to_one_def)
    ultimately show ?thesis using True m'(2) by blast
  next
    case False
    then obtain a where a: "related before after b a" using successors_mem by (meson list.set_sel(1))
    then have "b \<in> structural_before before after \<or> one_to_one before after b a" using one_to_one_iff(2) by blast
    then have "b \<in> structural_before before after \<or> (b, a) \<in> ?pairs" by (simp add: pair_one_to_one_def)
    then have "b \<in> structural_before before after \<union> fst ` ?pairs" by (metis UnCI fst_conv image_eqI)
    then show ?thesis using False m'(2) by blast
  qed
  have unmatched': "a \<notin> set (ma_after ?m') \<longleftrightarrow> predecessors before after a = []" if "a < length (sn_communities after)" for a
  proof (cases "predecessors before after a = []")
    case True
    then have none: "\<not> related before after b a" for b using predecessors_mem [of b before after a] by simp
    then have "a \<notin> structural_after before after" using True by (auto simp: structural_after_def)
    moreover have "a \<notin> snd ` ?pairs" using none one_to_one_unique(3) by (force simp: pair_one_to_one_def)
    ultimately show ?thesis using True m'(3) by blast
  next
    case False
    then obtain b where b: "related before after b a" using predecessors_mem by (meson list.set_sel(1))
    then have "a \<in> structural_after before after \<or> one_to_one before after b a" using one_to_one_iff(3) by blast
    then have "a \<in> structural_after before after \<or> (b, a) \<in> ?pairs" by (simp add: pair_one_to_one_def)
    then have "a \<in> structural_after before after \<union> snd ` ?pairs" by (metis UnCI snd_conv image_eqI)
    then show ?thesis using False m'(3) by blast
  qed
  have removed: "set (map (\<lambda>(_, community). \<lparr>ch_kind = Removed, ch_before = [co_id community], ch_after = [], ch_overlap = Fin 0,
           ch_explanation = ''No successor community reaches the related-overlap threshold 0.25.''\<rparr>)
         (filter (\<lambda>(index, _). index \<notin> set (ma_before ?m')) (List.enumerate 0 (sn_communities before))))
      = removed_change before ` {b. b < length (sn_communities before) \<and> successors before after b = []}"
    unfolding enumerate_filtered using unmatched
    by (intro image_cong Collect_cong) (auto simp: removed_change_def community_id_at_def)
  have created: "set (map (\<lambda>(_, community). \<lparr>ch_kind = Created, ch_before = [], ch_after = [co_id community], ch_overlap = Fin 0,
           ch_explanation = ''No prior community reaches the related-overlap threshold 0.25.''\<rparr>)
         (filter (\<lambda>(index, _). index \<notin> set (ma_after ?m')) (List.enumerate 0 (sn_communities after))))
      = created_change after ` {a. a < length (sn_communities after) \<and> predecessors before after a = []}"
    unfolding enumerate_filtered using unmatched'
    by (intro image_cong Collect_cong) (auto simp: created_change_def community_id_at_def)
  have "set (cd_changes (compare_community_snapshots before after)) = set (classify_unmatched before after ?m')"
    by (simp add: compare_community_snapshots_def Let_def related_lists)
  also have "\<dots> = expected_changes before after"
    unfolding classify_unmatched_def set_append removed created m'(1) structural(1) expected_changes_def by blast
  finally show ?thesis .
qed


end
