(* ===== verification/Impact.thy ===== *)
theory Impact
  imports Communities
begin

text \<open>
  \<open>crates/code-system-graph-core/src/impact.rs\<close>: which nodes a change of one node can affect, by a bounded
  breadth-first propagation over the graph, the aggregates over repositories, services, contracts and communities,
  recommended tests, the coverage of the inputs and the risk assessment. The analysis is a pure function of the
  request and the context. Confidences and weights are binary32 floats.
\<close>

subsection \<open>Vocabulary\<close>

datatype risk_level = Low | Medium | High | Critical | RiskUnknown

datatype impact_direction = Upstream | Downstream | BothDirections

datatype impact_classification = DirectlyDependent | TransitivelyAffected | PossiblyAffected | UnknownDueToCoverage

datatype impact_target = TargetNodeId node_id | TargetStableKey string

record resolved_target =
  rt_node :: node
  rt_resolved_by :: string

record impact_path_step =
  is_from :: node_id
  is_to :: node_id
  is_edge_id :: edge_id
  is_kind :: edge_kind
  is_reversed :: bool
  is_confidence :: f32
  is_status :: epistemic_status

record impact_item =
  it_node :: node
  it_classification :: impact_classification
  it_depth :: nat
  it_path :: "impact_path_step list"
  it_evidence :: "evidence_id list"

record risk_factor =
  rk_code :: string
  rk_weight :: f32
  rk_explanation :: string
  rk_evidence :: "string list"

record repository_impact =
  ri_repo_id :: repo_id
  ri_classification :: impact_classification
  ri_minimum_depth :: nat
  ri_affected_nodes :: nat

record service_impact =
  si_service :: node
  si_classification :: impact_classification
  si_minimum_depth :: nat
  si_affected_nodes :: nat

record contract_impact =
  ci_contract :: node
  ci_classification :: impact_classification
  ci_depth :: nat
  ci_public :: bool

record community_impact =
  mi_community_id :: community_id
  mi_label :: string
  mi_classification :: impact_classification
  mi_affected_members :: nat
  mi_coupling :: f64
  mi_limitations :: "string list"

datatype local_enrichment_status = Available | PartiallyAvailable | StaleIndex | NotAvailable

record local_impact_item =
  li_symbol :: string
  li_file_path :: string
  li_start_line :: "nat option"
  li_depth :: nat

record local_enrichment_input =
  le_repo_id :: repo_id
  le_anchor :: string
  le_status :: local_enrichment_status
  le_affected :: "local_impact_item list"
  le_affected_tests :: "string list"
  le_truncated :: bool
  le_degradations :: "string list"

record local_impact_summary =
  ls_repo_id :: repo_id
  ls_anchor :: string
  ls_status :: local_enrichment_status
  ls_affected_count :: nat
  ls_maximum_depth :: nat
  ls_truncated :: bool
  ls_degradations :: "string list"

datatype test_recommendation_source = GraphSource | LocalEnrichment

record test_recommendation =
  tr_test_node_id :: "node_id option"
  tr_test :: string
  tr_repo_id :: "repo_id option"
  tr_source :: test_recommendation_source
  tr_rank :: nat
  tr_reasons :: "string list"
  tr_owners :: "node list"
  tr_recommended_commands :: "string list"

record coverage_summary =
  cs_sufficient_for_score :: bool
  cs_relevant_repositories :: "repo_id list"
  cs_fresh_repositories :: "repo_id list"
  cs_stale_repositories :: "repo_id list"
  cs_partial_repositories :: "repo_id list"
  cs_unavailable_repositories :: "repo_id list"
  cs_missing_repositories :: "repo_id list"
  cs_possible_edges :: nat
  cs_unknown_edges :: nat
  cs_gaps :: "string list"
  cs_remediation :: "string list"
  cs_total_items :: nat

record truncation_info =
  ti_bound :: string
  ti_limit :: nat
  ti_observed :: nat
  ti_explanation :: string

record impact_depth_bucket =
  db_depth :: nat
  db_directly_dependent :: nat
  db_transitively_affected :: nat
  db_possibly_affected :: nat
  db_unknown_due_to_coverage :: nat

record impact_options =
  io_max_depth :: nat
  io_node_limit :: nat
  io_edge_limit :: nat
  io_confirmed_confidence :: f32
  io_offset :: nat
  io_limit :: nat
  io_summary_only :: bool
  io_include_depth_buckets :: bool

definition default_impact_options :: impact_options where
  "default_impact_options = \<lparr>io_max_depth = 8, io_node_limit = 10000, io_edge_limit = 50000,
     io_confirmed_confidence = f32_lit (8 / 10), io_offset = 0, io_limit = 100, io_summary_only = False,
     io_include_depth_buckets = True\<rparr>"

record impact_request =
  iq_target :: impact_target
  iq_direction :: impact_direction
  iq_options :: impact_options

text \<open>The fields of a request as they arrive; the decoder of the wire format fills the record.\<close>

record wire_impact_request =
  wr_target :: "impact_target option"
  wr_node_id :: "node_id option"
  wr_stable_key :: "string option"
  wr_direction :: "impact_direction option"
  wr_options :: impact_options

definition read_impact_request :: "wire_impact_request \<Rightarrow> (string, impact_request) outcome" where
  "read_impact_request wire =
     (let selector_count = of_bool (wr_target wire \<noteq> None) + of_bool (wr_node_id wire \<noteq> None)
            + of_bool (wr_stable_key wire \<noteq> None) :: nat in
      if selector_count \<noteq> 1 then Inl ''exactly one of target, node_id, stable_key, or key is required''
      else
        and_then (ok_or ''missing field `target, node_id, stable_key, or key`''
            (case wr_target wire of
               Some target \<Rightarrow> Some target
             | None \<Rightarrow>
                 (case wr_node_id wire of
                    Some node_id \<Rightarrow> Some (TargetNodeId node_id)
                  | None \<Rightarrow> map_option TargetStableKey (wr_stable_key wire))))
          (\<lambda>target. Inr \<lparr>iq_target = target,
             iq_direction = (case wr_direction wire of None \<Rightarrow> BothDirections | Some direction \<Rightarrow> direction),
             iq_options = wr_options wire\<rparr>))"

datatype impact_compatibility_status = Breaking | PotentiallyBreaking | Compatible | CompatibilityUnknown

record compatibility_input =
  cp_contract_node_id :: node_id
  cp_status :: impact_compatibility_status
  cp_evidence :: "string list"
  cp_recommended_validations :: "string list"

datatype criticality_tag = CriticalTag | Authentication | Security | Payment | DataBoundary

record criticality_assignment =
  ca_node_id :: node_id
  ca_tag :: criticality_tag
  ca_evidence :: "string list"

record environment_assignment =
  ea_node_id :: node_id
  ea_environment :: string

record recommended_command =
  rc_repo_id :: repo_id
  rc_command :: string
  rc_description :: string

record impact_context =
  ix_nodes :: "node list"
  ix_edges :: "edge list"
  ix_communities :: "community_snapshot option"
  ix_freshness :: "repo_freshness list"
  ix_compatibility :: "compatibility_input list"
  ix_local_enrichment :: "local_enrichment_input list"
  ix_public_contracts :: "node_id list"
  ix_criticality :: "criticality_assignment list"
  ix_centrality :: "(node_id, f32) btree_map"
  ix_service_memberships :: "(node_id, node_id list) btree_map"
  ix_environments :: "environment_assignment list"
  ix_recommended_commands :: "recommended_command list"
  ix_graph_complete :: bool
  ix_coverage_gaps :: "string list"

record impact_report =
  ip_risk_model_version :: string
  ip_target :: resolved_target
  ip_direction :: impact_direction
  ip_risk :: risk_level
  ip_risk_score :: "f32 option"
  ip_reasons :: "risk_factor list"
  ip_direct_consumers :: "impact_item list"
  ip_transitive_consumers :: "impact_item list"
  ip_possibly_affected :: "impact_item list"
  ip_unknown_due_to_coverage :: "impact_item list"
  ip_affected_repositories :: "repository_impact list"
  ip_affected_services :: "service_impact list"
  ip_affected_contracts :: "contract_impact list"
  ip_affected_communities :: "community_impact list"
  ip_local_impact_summaries :: "local_impact_summary list"
  ip_test_recommendations :: "test_recommendation list"
  ip_depth_buckets :: "impact_depth_bucket list"
  ip_coverage :: coverage_summary
  ip_truncation :: "truncation_info option"

datatype impact_error =
  DuplicateNode string
| DuplicateEdge string
| DuplicateFreshness string
| DanglingImpactEdge string string
| InvalidImpactEdgeConfidence string
| InvalidConfirmedConfidence
| InvalidBounds
| InvalidCentrality string
| CriticalityWithoutEvidence string
| UnknownContextNode string string
| UnknownTarget
| AmbiguousTarget string

datatype path_certainty = PathConfirmed | PathPossible | PathUnknown

fun certainty_rank :: "path_certainty \<Rightarrow> nat" where
  "certainty_rank PathConfirmed = 0"
| "certainty_rank PathPossible = 1"
| "certainty_rank PathUnknown = 2"

lemma certainty_rank_inject [simp]: "certainty_rank x = certainty_rank y \<longleftrightarrow> x = y"
  by (cases x; cases y) simp_all

text \<open>The derived order: a confirmed path before a possible one before an unknown one.\<close>

instantiation path_certainty :: linorder
begin

definition less_eq_path_certainty :: "path_certainty \<Rightarrow> path_certainty \<Rightarrow> bool" where
  "less_eq_path_certainty x y \<longleftrightarrow> certainty_rank x \<le> certainty_rank y"

definition less_path_certainty :: "path_certainty \<Rightarrow> path_certainty \<Rightarrow> bool" where
  "less_path_certainty x y \<longleftrightarrow> certainty_rank x < certainty_rank y"

instance
  by standard (auto simp: less_eq_path_certainty_def less_path_certainty_def)

end

record impact_state =
  ts_node_id :: node_id
  ts_certainty :: path_certainty
  ts_path :: "impact_path_step list"
  ts_evidence :: "evidence_id btree_set"

record adjacency =
  ay_neighbor :: node_id
  ay_edge :: edge
  ay_reversed :: bool

record aggregate =
  ag_classification :: impact_classification
  ag_minimum_depth :: nat
  ag_affected_nodes :: nat

subsection \<open>Validation\<close>

fun index_nodes :: "node list \<Rightarrow> (node_id, node) btree_map \<Rightarrow> (impact_error, (node_id, node) btree_map) outcome" where
  "index_nodes [] nodes = Inr nodes"
| "index_nodes (node # rest) nodes =
     (if bt_contains nodes (n_id node) then Inl (DuplicateNode (n_id node))
      else index_nodes rest (bt_insert (n_id node) node nodes))"

fun check_edges :: "(node_id, node) btree_map \<Rightarrow> edge list \<Rightarrow> edge_id btree_set \<Rightarrow> (impact_error, unit) outcome" where
  "check_edges nodes [] edge_ids = Inr ()"
| "check_edges nodes (edge # edges) edge_ids =
     (if e_id edge \<in> set edge_ids then Inl (DuplicateEdge (e_id edge))
      else if \<not> unit_interval (e_confidence edge) then Inl (InvalidImpactEdgeConfidence (e_id edge))
      else and_then (check_all (\<lambda>endpoint. if bt_contains nodes endpoint then Inr ()
            else Inl (DanglingImpactEdge (e_id edge) endpoint)) [e_source edge, e_target edge])
        (\<lambda>_. check_edges nodes edges (bs_insert (e_id edge) edge_ids)))"

fun check_freshness :: "repo_freshness list \<Rightarrow> repo_id btree_set \<Rightarrow> (impact_error, unit) outcome" where
  "check_freshness [] repositories = Inr ()"
| "check_freshness (entry # entries) repositories =
     (if rf_repo_id entry \<in> set repositories then Inl (DuplicateFreshness (rf_repo_id entry))
      else check_freshness entries (bs_insert (rf_repo_id entry) repositories))"

definition validate_node_reference :: "(node_id, node) btree_map \<Rightarrow> node_id \<Rightarrow> string \<Rightarrow> (impact_error, unit) outcome" where
  "validate_node_reference nodes node_id context =
     (if bt_contains nodes node_id then Inr () else Inl (UnknownContextNode context node_id))"

definition check_centrality :: "(node_id, node) btree_map \<Rightarrow> node_id \<times> f32 \<Rightarrow> (impact_error, unit) outcome" where
  "check_centrality nodes entry =
     and_then (validate_node_reference nodes (fst entry) ''centrality'') (\<lambda>_.
       if unit_interval (snd entry) then Inr () else Inl (InvalidCentrality (fst entry)))"

definition check_criticality :: "(node_id, node) btree_map \<Rightarrow> criticality_assignment \<Rightarrow> (impact_error, unit) outcome" where
  "check_criticality nodes assignment =
     and_then (validate_node_reference nodes (ca_node_id assignment) ''criticality'') (\<lambda>_.
       if ca_evidence assignment = [] \<or> (\<exists>v \<in> set (ca_evidence assignment). trim v = [])
       then Inl (CriticalityWithoutEvidence (ca_node_id assignment)) else Inr ())"

definition check_membership :: "(node_id, node) btree_map \<Rightarrow> node_id \<times> node_id list \<Rightarrow> (impact_error, unit) outcome" where
  "check_membership nodes entry =
     and_then (validate_node_reference nodes (fst entry) ''service_memberships'') (\<lambda>_.
       check_all (\<lambda>service. validate_node_reference nodes service ''service_memberships'') (snd entry))"

definition invalid_bounds :: "impact_options \<Rightarrow> bool" where
  "invalid_bounds options \<longleftrightarrow> io_max_depth options = 0 \<or> 128 < io_max_depth options
     \<or> io_node_limit options = 0 \<or> 100000 < io_node_limit options
     \<or> io_edge_limit options = 0 \<or> 1000000 < io_edge_limit options
     \<or> io_limit options = 0 \<or> 10000 < io_limit options \<or> 1000000 < io_offset options"

definition validate_context :: "impact_request \<Rightarrow> impact_context \<Rightarrow> (impact_error, (node_id, node) btree_map) outcome" where
  "validate_context request context =
     (if invalid_bounds (iq_options request) then Inl InvalidBounds
      else if \<not> unit_interval (io_confirmed_confidence (iq_options request)) then Inl InvalidConfirmedConfidence
      else
        and_then (index_nodes (ix_nodes context) []) (\<lambda>nodes.
        and_then (check_edges nodes (ix_edges context) []) (\<lambda>_.
        and_then (check_freshness (ix_freshness context) []) (\<lambda>_.
        and_then (check_all (check_centrality nodes) (ix_centrality context)) (\<lambda>_.
        and_then (check_all (check_criticality nodes) (ix_criticality context)) (\<lambda>_.
        and_then (check_all (\<lambda>input. validate_node_reference nodes (cp_contract_node_id input) ''compatibility'')
          (ix_compatibility context)) (\<lambda>_.
        and_then (check_all (\<lambda>node_id. validate_node_reference nodes node_id ''public_contracts'')
          (ix_public_contracts context)) (\<lambda>_.
        and_then (check_all (\<lambda>assignment. validate_node_reference nodes (ea_node_id assignment) ''environments'')
          (ix_environments context)) (\<lambda>_.
        and_then (check_all (check_membership nodes) (ix_service_memberships context)) (\<lambda>_.
          Inr nodes))))))))))"

fun resolve_target :: "impact_target \<Rightarrow> (node_id, node) btree_map \<Rightarrow> (impact_error, resolved_target) outcome" where
  "resolve_target (TargetNodeId node_id) nodes =
     ok_or UnknownTarget (map_option (\<lambda>node. \<lparr>rt_node = node, rt_resolved_by = ''node_id''\<rparr>) (bt_get nodes node_id))"
| "resolve_target (TargetStableKey stable_key) nodes =
     (case filter (\<lambda>node. n_stable_key node = stable_key) (bt_values nodes) of
        [] \<Rightarrow> Inl UnknownTarget
      | [node] \<Rightarrow> Inr \<lparr>rt_node = node, rt_resolved_by = ''stable_key''\<rparr>
      | _ \<Rightarrow> Inl (AmbiguousTarget stable_key))"

subsection \<open>Propagation\<close>

definition is_propagating :: "edge_kind \<Rightarrow> bool" where
  "is_propagating kind \<longleftrightarrow> kind \<notin> {Validates, OwnedBy, Documents, MemberOf, Precedes, Reverts, CompatibleWith}"

fun edge_certainty :: "edge \<Rightarrow> f32 \<Rightarrow> path_certainty" where
  "edge_certainty edge confirmed_confidence =
     (case e_status edge of
        Confirmed \<Rightarrow> if fp_le confirmed_confidence (e_confidence edge) then PathConfirmed else PathPossible
      | Inferred \<Rightarrow> PathPossible
      | Ambiguous \<Rightarrow> PathPossible
      | Stale \<Rightarrow> PathUnknown
      | Incomplete \<Rightarrow> PathUnknown)"

definition classify :: "path_certainty \<Rightarrow> nat \<Rightarrow> impact_classification" where
  "classify certainty depth =
     (case certainty of
        PathConfirmed \<Rightarrow> if depth = 1 then DirectlyDependent else TransitivelyAffected
      | PathPossible \<Rightarrow> PossiblyAffected
      | PathUnknown \<Rightarrow> UnknownDueToCoverage)"

fun classification_rank :: "impact_classification \<Rightarrow> nat" where
  "classification_rank DirectlyDependent = 0"
| "classification_rank TransitivelyAffected = 1"
| "classification_rank PossiblyAffected = 2"
| "classification_rank UnknownDueToCoverage = 3"

definition stronger :: "impact_classification \<Rightarrow> impact_classification \<Rightarrow> impact_classification" where
  "stronger left right = (if classification_rank left \<le> classification_rank right then left else right)"

definition is_structural_direction_pivot :: "impact_path_step list \<Rightarrow> adjacency \<Rightarrow> bool" where
  "is_structural_direction_pivot path entry \<longleftrightarrow>
     path \<noteq> [] \<and> is_kind (last path) = Contains \<and> e_kind (ay_edge entry) = Contains
     \<and> is_reversed (last path) \<noteq> ay_reversed entry"

definition edge_entries :: "impact_direction \<Rightarrow> edge \<Rightarrow> (node_id \<times> adjacency) list" where
  "edge_entries direction edge =
     (if direction = Downstream \<or> direction = BothDirections
      then [(e_source edge, \<lparr>ay_neighbor = e_target edge, ay_edge = edge, ay_reversed = False\<rparr>)] else [])
     @ (if direction = Upstream \<or> direction = BothDirections
        then [(e_target edge, \<lparr>ay_neighbor = e_source edge, ay_edge = edge, ay_reversed = True\<rparr>)] else [])"

definition build_adjacency :: "edge list \<Rightarrow> impact_direction \<Rightarrow> (node_id, adjacency list) btree_map" where
  "build_adjacency edges direction =
     bt_map_values (sort_key (\<lambda>entry. (ay_neighbor entry, e_id (ay_edge entry), ay_reversed entry)))
       (fold (\<lambda>edge adjacency. fold (\<lambda>(node_id, entry). bt_push node_id entry) (edge_entries direction edge) adjacency)
         edges [])"

text \<open>
  The state of the propagation. The counters are at most one past the edge limit, which is at most a million, so
  their saturating additions are exact.
\<close>

record impact_run =
  ir_queue :: "impact_state list"
  ir_best :: "(node_id, path_certainty \<times> nat) btree_map"
  ir_items :: "(node_id, impact_item) btree_map"
  ir_examined :: nat
  ir_possible :: nat
  ir_unknown :: nat
  ir_truncation :: "truncation_info option"

definition note_truncation :: "truncation_info \<Rightarrow> impact_run \<Rightarrow> impact_run" where
  "note_truncation info run =
     run\<lparr>ir_truncation := (case ir_truncation run of None \<Rightarrow> Some info | Some old \<Rightarrow> Some old)\<rparr>"

definition note_depth_bound :: "impact_options \<Rightarrow> adjacency list \<Rightarrow> impact_state \<Rightarrow> impact_run \<Rightarrow> impact_run" where
  "note_depth_bound options neighbors state run =
     (if \<exists>entry \<in> set neighbors. is_propagating (e_kind (ay_edge entry))
           \<and> \<not> is_structural_direction_pivot (ts_path state) entry
           \<and> ay_neighbor entry \<notin> is_from ` set (ts_path state)
      then note_truncation \<lparr>ti_bound = ''max_depth'', ti_limit = io_max_depth options, ti_observed = length (ts_path state),
        ti_explanation = ''additional graph relationships exist beyond maximum depth''\<rparr> run
      else run)"

definition count_certainty :: "path_certainty \<Rightarrow> impact_run \<Rightarrow> impact_run" where
  "count_certainty certainty run =
     (case certainty of
        PathConfirmed \<Rightarrow> run
      | PathPossible \<Rightarrow> run\<lparr>ir_possible := ir_possible run + 1\<rparr>
      | PathUnknown \<Rightarrow> run\<lparr>ir_unknown := ir_unknown run + 1\<rparr>)"

definition on_path :: "node_id \<Rightarrow> impact_state \<Rightarrow> node_id \<Rightarrow> bool" where
  "on_path target_id state node_id \<longleftrightarrow> node_id = target_id
     \<or> (\<exists>step \<in> set (ts_path state). is_from step = node_id \<or> is_to step = node_id)"

definition extend_state :: "impact_state \<Rightarrow> adjacency \<Rightarrow> path_certainty \<Rightarrow> impact_state" where
  "extend_state state entry certainty =
     \<lparr>ts_node_id = ay_neighbor entry, ts_certainty = certainty,
      ts_path = ts_path state @ [\<lparr>is_from = ts_node_id state, is_to = ay_neighbor entry, is_edge_id = e_id (ay_edge entry),
        is_kind = e_kind (ay_edge entry), is_reversed = ay_reversed entry, is_confidence = e_confidence (ay_edge entry),
        is_status = e_status (ay_edge entry)\<rparr>],
      ts_evidence = fold bs_insert (e_evidence (ay_edge entry)) (ts_evidence state)\<rparr>"

definition state_item :: "node \<Rightarrow> impact_state \<Rightarrow> impact_item" where
  "state_item node state = \<lparr>it_node = node, it_classification = classify (ts_certainty state) (length (ts_path state)),
     it_depth = length (ts_path state), it_path = ts_path state, it_evidence = ts_evidence state\<rparr>"

definition reach :: "node \<Rightarrow> impact_state \<Rightarrow> impact_run \<Rightarrow> impact_run" where
  "reach node state run =
     run\<lparr>ir_best := bt_insert (ts_node_id state) (ts_certainty state, length (ts_path state)) (ir_best run),
         ir_items := bt_insert (ts_node_id state) (state_item node state) (ir_items run),
         ir_queue := ir_queue run @ [state]\<rparr>"

text \<open>How the body of the loop over the neighbors ends: it goes on, leaves the loop, or returns an error.\<close>

datatype entry_flow = Continue impact_run | Break impact_run | Fail impact_error

definition visit_entry ::
  "impact_options \<Rightarrow> (node_id, node) btree_map \<Rightarrow> node_id \<Rightarrow> impact_state \<Rightarrow> adjacency \<Rightarrow> impact_run \<Rightarrow> entry_flow" where
  "visit_entry options nodes target_id state entry run =
     (if \<not> is_propagating (e_kind (ay_edge entry)) \<or> is_structural_direction_pivot (ts_path state) entry then Continue run
      else
        let run = run\<lparr>ir_examined := ir_examined run + 1\<rparr> in
        if io_edge_limit options < ir_examined run then
          Break (note_truncation \<lparr>ti_bound = ''edge_limit'', ti_limit = io_edge_limit options, ti_observed = ir_examined run,
            ti_explanation = ''edge examination limit stopped impact propagation''\<rparr> run)
        else if on_path target_id state (ay_neighbor entry) then Continue run
        else
          let certainty' = edge_certainty (ay_edge entry) (io_confirmed_confidence options);
              run = count_certainty certainty' run;
              certainty = max (ts_certainty state) certainty';
              next_depth = length (ts_path state) + 1 in
          if (case bt_get (ir_best run) (ay_neighbor entry) of None \<Rightarrow> False | Some existing \<Rightarrow> existing \<le> (certainty, next_depth))
          then Continue run
          else if \<not> bt_contains (ir_items run) (ay_neighbor entry) \<and> io_node_limit options \<le> length (ir_items run) then
            Break (note_truncation \<lparr>ti_bound = ''node_limit'', ti_limit = io_node_limit options,
              ti_observed = length (ir_items run) + 1,
              ti_explanation = ''distinct-node limit stopped impact propagation''\<rparr> run)
          else
            (case bt_get nodes (ay_neighbor entry) of
               None \<Rightarrow> Fail (DanglingImpactEdge (e_id (ay_edge entry)) (ay_neighbor entry))
             | Some node \<Rightarrow> Continue (reach node (extend_state state entry certainty) run)))"

fun visit_entries ::
  "impact_options \<Rightarrow> (node_id, node) btree_map \<Rightarrow> node_id \<Rightarrow> impact_state \<Rightarrow> adjacency list \<Rightarrow> impact_run
     \<Rightarrow> (impact_error, impact_run) outcome" where
  "visit_entries options nodes target_id state [] run = Inr run"
| "visit_entries options nodes target_id state (entry # entries) run =
     (case visit_entry options nodes target_id state entry run of
        Continue run \<Rightarrow> visit_entries options nodes target_id state entries run
      | Break run \<Rightarrow> Inr run
      | Fail error \<Rightarrow> Inl error)"

definition work_bound_stopped :: "impact_run \<Rightarrow> bool" where
  "work_bound_stopped run \<longleftrightarrow>
     (case ir_truncation run of None \<Rightarrow> False | Some info \<Rightarrow> ti_bound info = ''edge_limit'' \<or> ti_bound info = ''node_limit'')"

lemma note_truncation_work [simp]:
  "ir_queue (note_truncation info run) = ir_queue run" "ir_examined (note_truncation info run) = ir_examined run"
  by (simp_all add: note_truncation_def)

lemma count_certainty_work [simp]:
  "ir_queue (count_certainty c run) = ir_queue run" "ir_examined (count_certainty c run) = ir_examined run"
  by (simp_all add: count_certainty_def split: path_certainty.split)

lemma visit_entry_work:
  "visit_entry options nodes target_id state entry run \<in> {Continue run', Break run'} \<Longrightarrow>
     io_edge_limit options - ir_examined run' + length (ir_queue run') \<le> io_edge_limit options - ir_examined run + length (ir_queue run)"
  by (auto simp: visit_entry_def Let_def reach_def split: if_splits option.splits)

lemma visit_entries_work:
  "visit_entries options nodes target_id state entries run = Inr run' \<Longrightarrow>
     io_edge_limit options - ir_examined run' + length (ir_queue run') \<le> io_edge_limit options - ir_examined run + length (ir_queue run)"
proof (induction entries arbitrary: run)
  case (Cons entry entries)
  show ?case
  proof (cases "visit_entry options nodes target_id state entry run")
    case (Continue next_run)
    then show ?thesis
      using Cons.IH [of next_run] Cons.prems visit_entry_work [of options nodes target_id state entry run next_run] by simp
  next
    case (Break next_run)
    then show ?thesis using Cons.prems visit_entry_work [of options nodes target_id state entry run next_run] by simp
  next
    case (Fail error)
    then show ?thesis using Cons.prems by simp
  qed
qed simp

function impact_loop ::
  "impact_options \<Rightarrow> (node_id, adjacency list) btree_map \<Rightarrow> (node_id, node) btree_map \<Rightarrow> node_id \<Rightarrow> impact_run
     \<Rightarrow> (impact_error, impact_run) outcome" where
  "impact_loop options adjacency nodes target_id run =
     (case ir_queue run of
        [] \<Rightarrow> Inr run
      | state # queue \<Rightarrow>
          if length (ts_path state) = io_max_depth options then
            impact_loop options adjacency nodes target_id
              (note_depth_bound options (bt_group adjacency (ts_node_id state)) state (run\<lparr>ir_queue := queue\<rparr>))
          else
            and_then (visit_entries options nodes target_id state (bt_group adjacency (ts_node_id state)) (run\<lparr>ir_queue := queue\<rparr>))
              (\<lambda>run. if work_bound_stopped run then Inr run else impact_loop options adjacency nodes target_id run))"
  by pat_completeness auto
termination
proof (relation "measure (\<lambda>(options, adjacency, nodes, target_id, run). io_edge_limit options - ir_examined run + length (ir_queue run))", goal_cases)
  case (2 options adjacency nodes target_id run state queue)
  then show ?case by (simp add: note_depth_bound_def)
next
  case (3 options adjacency nodes target_id run state queue run')
  then show ?case using visit_entries_work [OF 3(3)] by simp
qed simp

declare impact_loop.simps [simp del]

definition impact_start :: "node_id \<Rightarrow> impact_run" where
  "impact_start target_id =
     \<lparr>ir_queue = [\<lparr>ts_node_id = target_id, ts_certainty = PathConfirmed, ts_path = [], ts_evidence = []\<rparr>],
      ir_best = [(target_id, (PathConfirmed, 0))], ir_items = [], ir_examined = 0, ir_possible = 0, ir_unknown = 0,
      ir_truncation = None\<rparr>"

definition propagate_impact ::
  "impact_request \<Rightarrow> impact_context \<Rightarrow> (node_id, node) btree_map \<Rightarrow> node
     \<Rightarrow> (impact_error, impact_item list \<times> truncation_info option \<times> nat \<times> nat) outcome" where
  "propagate_impact request context nodes target =
     and_then (impact_loop (iq_options request) (build_adjacency (ix_edges context) (iq_direction request)) nodes (n_id target)
         (impact_start (n_id target)))
       (\<lambda>run. Inr (bt_values (ir_items run), ir_truncation run, ir_possible run, ir_unknown run))"

definition path_key :: "impact_path_step list \<Rightarrow> (edge_id \<times> bool) list" where
  "path_key path = map (\<lambda>step. (is_edge_id step, is_reversed step)) path"

definition sort_items :: "impact_item list \<Rightarrow> impact_item list" where
  "sort_items items =
     sort_key (\<lambda>item. (classification_rank (it_classification item), it_depth item, n_repo_id (it_node item),
       n_stable_key (it_node item), n_id (it_node item), path_key (it_path item))) items"

subsection \<open>Aggregates\<close>

definition new_aggregate :: "impact_item \<Rightarrow> nat \<Rightarrow> aggregate" where
  "new_aggregate item affected =
     \<lparr>ag_classification = it_classification item, ag_minimum_depth = it_depth item, ag_affected_nodes = affected\<rparr>"

text \<open>The counters stay below the number of items and memberships, which are vectors, so no addition saturates.\<close>

definition join_aggregate :: "impact_item \<Rightarrow> aggregate \<Rightarrow> aggregate" where
  "join_aggregate item old =
     \<lparr>ag_classification = stronger (ag_classification old) (it_classification item),
      ag_minimum_depth = min (ag_minimum_depth old) (it_depth item), ag_affected_nodes = ag_affected_nodes old + 1\<rparr>"

definition update_aggregate :: "'k::linorder \<Rightarrow> impact_item \<Rightarrow> ('k, aggregate) btree_map \<Rightarrow> ('k, aggregate) btree_map" where
  "update_aggregate key item aggregates = bt_upsert key (join_aggregate item) (new_aggregate item 1) aggregates"

definition aggregate_repositories :: "impact_item list \<Rightarrow> repository_impact list" where
  "aggregate_repositories items =
     map (\<lambda>(repo_id, a). \<lparr>ri_repo_id = repo_id, ri_classification = ag_classification a,
         ri_minimum_depth = ag_minimum_depth a, ri_affected_nodes = ag_affected_nodes a\<rparr>)
       (fold (\<lambda>item aggregates. case n_repo_id (it_node item) of None \<Rightarrow> aggregates
          | Some repo_id \<Rightarrow> update_aggregate repo_id item aggregates) items [])"

definition item_services :: "impact_context \<Rightarrow> impact_item \<Rightarrow> node_id list" where
  "item_services context item =
     (if n_kind (it_node item) = Service then [n_id (it_node item)] else [])
     @ (case bt_get (ix_service_memberships context) (n_id (it_node item)) of None \<Rightarrow> [] | Some service_ids \<Rightarrow> service_ids)"

definition aggregate_services ::
  "impact_item list \<Rightarrow> impact_context \<Rightarrow> (node_id, node) btree_map \<Rightarrow> service_impact list" where
  "aggregate_services items context nodes =
     List.map_filter (\<lambda>(service_id, a). map_option (\<lambda>service. \<lparr>si_service = service, si_classification = ag_classification a,
         si_minimum_depth = ag_minimum_depth a, si_affected_nodes = ag_affected_nodes a\<rparr>) (bt_get nodes service_id))
       (fold (\<lambda>item aggregates. fold (\<lambda>service_id. update_aggregate service_id item) (item_services context item) aggregates)
         items [])"

definition is_contract :: "node_kind \<Rightarrow> bool" where
  "is_contract kind \<longleftrightarrow> kind \<in> {HttpOperation, GraphqlOperation, RpcMethod, EventChannel, EventSchema, DatabaseTable,
     DatabaseColumn, ConfigKey}"

definition aggregate_contracts :: "impact_item list \<Rightarrow> impact_context \<Rightarrow> contract_impact list" where
  "aggregate_contracts items context =
     map (\<lambda>item. \<lparr>ci_contract = it_node item, ci_classification = it_classification item, ci_depth = it_depth item,
         ci_public = (n_id (it_node item) \<in> set (ix_public_contracts context))\<rparr>)
       (filter (\<lambda>item. is_contract (n_kind (it_node item))) items)"

definition impacted_items :: "impact_item list \<Rightarrow> (node_id, impact_item) btree_map" where
  "impacted_items items = fold (\<lambda>item. bt_insert (n_id (it_node item)) item) items []"

definition community_aggregate :: "(node_id, impact_item) btree_map \<Rightarrow> community \<Rightarrow> aggregate option" where
  "community_aggregate impacted community =
     fold (\<lambda>member found. case bt_get impacted member of None \<Rightarrow> found
        | Some item \<Rightarrow> Some (join_aggregate item (case found of None \<Rightarrow> new_aggregate item 0 | Some a \<Rightarrow> a)))
       (co_members community) None"

definition aggregate_communities :: "impact_item list \<Rightarrow> impact_context \<Rightarrow> community_impact list" where
  "aggregate_communities items context =
     (case ix_communities context of
        None \<Rightarrow> []
      | Some snapshot \<Rightarrow>
          sort_key mi_community_id (List.map_filter (\<lambda>community.
            map_option (\<lambda>a. \<lparr>mi_community_id = co_id community, mi_label = co_label community,
                mi_classification = ag_classification a, mi_affected_members = ag_affected_nodes a,
                mi_coupling = cm_coupling (co_metrics community), mi_limitations = co_limitations community\<rparr>)
              (community_aggregate (impacted_items items) community)) (sn_communities snapshot)))"

definition summarize_local_enrichment :: "impact_context \<Rightarrow> local_impact_summary list" where
  "summarize_local_enrichment context =
     sort_key (\<lambda>summary. (ls_repo_id summary, ls_anchor summary))
       (map (\<lambda>input. \<lparr>ls_repo_id = le_repo_id input, ls_anchor = le_anchor input, ls_status = le_status input,
           ls_affected_count = length (le_affected input), ls_maximum_depth = fold max (map li_depth (le_affected input)) 0,
           ls_truncated = le_truncated input, ls_degradations = sorted_unique (le_degradations input)\<rparr>)
         (ix_local_enrichment context))"

subsection \<open>Tests\<close>

definition owners_for :: "node_id \<Rightarrow> node_id \<Rightarrow> impact_context \<Rightarrow> (node_id, node) btree_map \<Rightarrow> node list" where
  "owners_for test_id validated_id context nodes =
     List.map_filter (bt_get nodes)
       (bs_of_list (map e_target (filter (\<lambda>edge. e_kind edge = OwnedBy \<and> (e_source edge = test_id \<or> e_source edge = validated_id)
          \<and> (case bt_get nodes (e_target edge) of None \<Rightarrow> False | Some node \<Rightarrow> n_kind node = Owner)) (ix_edges context))))"

definition commands_for :: "repo_id option \<Rightarrow> impact_context \<Rightarrow> string list" where
  "commands_for repo_id context =
     sorted_unique (map rc_command (filter (\<lambda>command. repo_id = Some (rc_repo_id command)) (ix_recommended_commands context)))"

definition is_test_case :: "(node_id, node) btree_map \<Rightarrow> node_id \<Rightarrow> bool" where
  "is_test_case nodes node_id = (case bt_get nodes node_id of None \<Rightarrow> False | Some node \<Rightarrow> n_kind node = TestCase)"

definition test_ends :: "(node_id, node) btree_map \<Rightarrow> edge \<Rightarrow> (node_id \<times> node_id) option" where
  "test_ends nodes edge =
     (if is_test_case nodes (e_source edge) then Some (e_source edge, e_target edge)
      else if is_test_case nodes (e_target edge) then Some (e_target edge, e_source edge)
      else None)"

definition graph_recommendation ::
  "(node_id, impact_item) btree_map \<Rightarrow> impact_context \<Rightarrow> (node_id, node) btree_map \<Rightarrow> edge \<Rightarrow> test_recommendation option" where
  "graph_recommendation impacted context nodes edge =
     (if e_kind edge \<noteq> Validates then None
      else
        case test_ends nodes edge of
          None \<Rightarrow> None
        | Some (test_id, validated_id) \<Rightarrow>
            (case bt_get impacted validated_id of
               None \<Rightarrow> None
             | Some item \<Rightarrow>
                 map_option (\<lambda>test. \<lparr>tr_test_node_id = Some (n_id test), tr_test = n_label test, tr_repo_id = n_repo_id test,
                     tr_source = GraphSource, tr_rank = 0,
                     tr_reasons = [''validates impacted node `'' @ n_stable_key (it_node item) @ ''` at depth '' @ show_nat (it_depth item)],
                     tr_owners = owners_for (n_id test) validated_id context nodes,
                     tr_recommended_commands = commands_for (n_repo_id test) context\<rparr>)
                   (bt_get nodes test_id)))"

definition local_recommendations :: "impact_context \<Rightarrow> local_enrichment_input \<Rightarrow> test_recommendation list" where
  "local_recommendations context input =
     map (\<lambda>test. \<lparr>tr_test_node_id = None, tr_test = test, tr_repo_id = Some (le_repo_id input), tr_source = LocalEnrichment,
         tr_rank = 0,
         tr_reasons = [''optional local enrichment for anchor `'' @ le_anchor input @ ''` reported this test''],
         tr_owners = [], tr_recommended_commands = commands_for (Some (le_repo_id input)) context\<rparr>)
       (le_affected_tests input)"

fun test_source_rank :: "test_recommendation_source \<Rightarrow> nat" where
  "test_source_rank GraphSource = 0"
| "test_source_rank LocalEnrichment = 1"

definition same_test :: "test_recommendation \<Rightarrow> test_recommendation \<Rightarrow> bool" where
  "same_test left right \<longleftrightarrow> tr_test_node_id left = tr_test_node_id right \<and> tr_repo_id left = tr_repo_id right
     \<and> tr_test left = tr_test right"

definition recommend_tests ::
  "impact_item list \<Rightarrow> impact_context \<Rightarrow> (node_id, node) btree_map \<Rightarrow> test_recommendation list" where
  "recommend_tests items context nodes =
     (let recommendations = List.map_filter (graph_recommendation (impacted_items items) context nodes) (ix_edges context)
            @ concat (map (local_recommendations context) (ix_local_enrichment context));
          ordered = sort_key (\<lambda>r. (test_source_rank (tr_source r), tr_repo_id r, tr_test r, tr_test_node_id r)) recommendations in
      map (\<lambda>(index, r). r\<lparr>tr_rank := index + 1\<rparr>) (List.enumerate 0 (dedup_by same_test ordered)))"

subsection \<open>Depth buckets\<close>

definition count_in_bucket :: "impact_classification \<Rightarrow> impact_depth_bucket \<Rightarrow> impact_depth_bucket" where
  "count_in_bucket classification bucket =
     (case classification of
        DirectlyDependent \<Rightarrow> bucket\<lparr>db_directly_dependent := db_directly_dependent bucket + 1\<rparr>
      | TransitivelyAffected \<Rightarrow> bucket\<lparr>db_transitively_affected := db_transitively_affected bucket + 1\<rparr>
      | PossiblyAffected \<Rightarrow> bucket\<lparr>db_possibly_affected := db_possibly_affected bucket + 1\<rparr>
      | UnknownDueToCoverage \<Rightarrow> bucket\<lparr>db_unknown_due_to_coverage := db_unknown_due_to_coverage bucket + 1\<rparr>)"

definition empty_bucket :: "nat \<Rightarrow> impact_depth_bucket" where
  "empty_bucket depth = \<lparr>db_depth = depth, db_directly_dependent = 0, db_transitively_affected = 0, db_possibly_affected = 0,
     db_unknown_due_to_coverage = 0\<rparr>"

definition build_depth_buckets :: "impact_item list \<Rightarrow> impact_depth_bucket list" where
  "build_depth_buckets items =
     bt_values (fold (\<lambda>item. bt_upsert (it_depth item) (count_in_bucket (it_classification item))
       (count_in_bucket (it_classification item) (empty_bucket (it_depth item)))) items [])"

subsection \<open>Coverage\<close>

definition freshness_states :: "impact_context \<Rightarrow> (repo_id, repo_freshness_state) btree_map" where
  "freshness_states context = fold (\<lambda>entry. bt_insert (rf_repo_id entry) (rf_state entry)) (ix_freshness context) []"

datatype freshness_class = FreshClass | StaleClass | PartialClass | UnavailableClass | MissingClass

fun freshness_class_of :: "repo_freshness_state option \<Rightarrow> freshness_class" where
  "freshness_class_of (Some Fresh) = FreshClass"
| "freshness_class_of (Some WorkingTreeChanged) = StaleClass"
| "freshness_class_of (Some CommitsBehind) = StaleClass"
| "freshness_class_of (Some ConfigChanged) = StaleClass"
| "freshness_class_of (Some ExtractorChanged) = StaleClass"
| "freshness_class_of (Some CodegraphPending) = StaleClass"
| "freshness_class_of (Some Partial) = PartialClass"
| "freshness_class_of (Some Unavailable) = UnavailableClass"
| "freshness_class_of (Some Corrupt) = UnavailableClass"
| "freshness_class_of (Some Unknown) = MissingClass"
| "freshness_class_of None = MissingClass"

definition relevant_repositories :: "node \<Rightarrow> impact_item list \<Rightarrow> repo_id btree_set" where
  "relevant_repositories target items =
     fold bs_insert (case n_repo_id target of None \<Rightarrow> [] | Some repo_id \<Rightarrow> [repo_id])
       (bs_of_list (List.map_filter (\<lambda>item. n_repo_id (it_node item)) items))"

definition repositories_in :: "impact_context \<Rightarrow> repo_id btree_set \<Rightarrow> freshness_class \<Rightarrow> repo_id list" where
  "repositories_in context relevant class =
     filter (\<lambda>repo_id. freshness_class_of (bt_get (freshness_states context) repo_id) = class) relevant"

definition impacted_ids :: "node \<Rightarrow> impact_item list \<Rightarrow> node_id btree_set" where
  "impacted_ids target items = bs_of_list (map (\<lambda>item. n_id (it_node item)) items @ [n_id target])"

definition unknown_compatibility :: "node \<Rightarrow> impact_item list \<Rightarrow> impact_context \<Rightarrow> compatibility_input list" where
  "unknown_compatibility target items context =
     filter (\<lambda>input. cp_contract_node_id input \<in> set (impacted_ids target items) \<and> cp_status input = CompatibilityUnknown)
       (ix_compatibility context)"

fun show_enrichment_status :: "local_enrichment_status \<Rightarrow> string" where
  "show_enrichment_status Available = ''Available''"
| "show_enrichment_status PartiallyAvailable = ''Partial''"
| "show_enrichment_status StaleIndex = ''Stale''"
| "show_enrichment_status NotAvailable = ''Unavailable''"

definition degraded :: "local_enrichment_input \<Rightarrow> bool" where
  "degraded input \<longleftrightarrow> le_status input \<noteq> Available \<or> le_truncated input"

definition degraded_gap :: "local_enrichment_input \<Rightarrow> string" where
  "degraded_gap input = ''local enrichment for repository `'' @ le_repo_id input @ ''` is ''
     @ show_enrichment_status (le_status input) @ (if le_truncated input then '' and truncated'' else [])"

text \<open>A known limitation with the gap and the remediation it adds.\<close>

definition limitation :: "bool \<Rightarrow> string \<Rightarrow> string \<Rightarrow> string list \<times> string list" where
  "limitation applies gap remediation = (if applies then ([gap], [remediation]) else ([], []))"

definition coverage_limitations ::
  "node \<Rightarrow> impact_item list \<Rightarrow> impact_context \<Rightarrow> truncation_info option \<Rightarrow> nat \<Rightarrow> nat \<Rightarrow> (string list \<times> string list) list" where
  "coverage_limitations target items context truncation possible_edges unknown_edges =
     (let among = repositories_in context (relevant_repositories target items) in
      [(ix_coverage_gaps context,
          if ix_coverage_gaps context \<noteq> [] then [''resolve each caller-supplied coverage gap and rerun analysis''] else []),
       limitation (\<not> ix_graph_complete context) ''federated graph extraction or linking is incomplete''
         ''complete a fresh workspace scan and relink the graph'',
       limitation (among StaleClass \<noteq> []) ''one or more relevant repositories are stale''
         ''rescan stale repositories at their current revisions'',
       limitation (among PartialClass \<noteq> []) ''one or more relevant repositories have partial coverage''
         ''resolve extractor limitations and complete partial scans'',
       limitation (among UnavailableClass \<noteq> []) ''one or more relevant repositories are unavailable or corrupt''
         ''restore unavailable repositories or valid graph snapshots'',
       limitation (among MissingClass \<noteq> []) ''freshness is missing or unknown for relevant repositories''
         ''record current freshness for every relevant repository'',
       limitation (0 < possible_edges) ''candidate, inferred, ambiguous, or low-confidence relationships were used''
         ''corroborate candidate relationships with direct evidence'',
       limitation (0 < unknown_edges) ''stale or incomplete relationships were used''
         ''refresh or complete evidence for coverage-unknown relationships'']
      @ map (\<lambda>input. ([''compatibility is unknown for contract node `'' @ cp_contract_node_id input @ ''`''],
          cp_recommended_validations input)) (unknown_compatibility target items context)
      @ map (\<lambda>input. ([degraded_gap input], le_degradations input)) (filter degraded (ix_local_enrichment context))
      @ [limitation (truncation \<noteq> None) ''configured traversal bounds truncated impact analysis''
           ''increase impact bounds or narrow the target scope''])"

definition summarize_coverage ::
  "node \<Rightarrow> impact_item list \<Rightarrow> impact_context \<Rightarrow> truncation_info option \<Rightarrow> nat \<Rightarrow> nat \<Rightarrow> coverage_summary" where
  "summarize_coverage target items context truncation possible_edges unknown_edges =
     (let relevant = relevant_repositories target items;
          among = repositories_in context relevant;
          limitations = coverage_limitations target items context truncation possible_edges unknown_edges in
      \<lparr>cs_sufficient_for_score = (ix_graph_complete context \<and> among StaleClass = [] \<and> among PartialClass = []
         \<and> among UnavailableClass = [] \<and> among MissingClass = [] \<and> possible_edges = 0 \<and> unknown_edges = 0
         \<and> unknown_compatibility target items context = [] \<and> truncation = None
         \<and> (\<forall>input \<in> set (ix_local_enrichment context). \<not> degraded input) \<and> ix_coverage_gaps context = []),
       cs_relevant_repositories = relevant, cs_fresh_repositories = among FreshClass,
       cs_stale_repositories = among StaleClass, cs_partial_repositories = among PartialClass,
       cs_unavailable_repositories = among UnavailableClass, cs_missing_repositories = among MissingClass,
       cs_possible_edges = possible_edges, cs_unknown_edges = unknown_edges,
       cs_gaps = sorted_unique (concat (map fst limitations)), cs_remediation = sorted_unique (concat (map snd limitations)),
       cs_total_items = length items\<rparr>)"

subsection \<open>Risk\<close>

definition push_factor :: "string \<Rightarrow> f32 \<Rightarrow> string \<Rightarrow> string list \<Rightarrow> risk_factor" where
  "push_factor code weight explanation evidence =
     \<lparr>rk_code = code, rk_weight = weight, rk_explanation = explanation, rk_evidence = sorted_unique evidence\<rparr>"

definition usize_to_f32 :: "nat \<Rightarrow> f32" where
  "usize_to_f32 value = Fin (of_nat (min value 65535))"

text \<open>\<open>usize_to_f32(n).mul_add(w, 0.0).min(cap)\<close>: the product is rounded once; the added zero changes nothing.\<close>

definition scaled_weight :: "nat \<Rightarrow> rat \<Rightarrow> rat \<Rightarrow> f32" where
  "scaled_weight n w cap = fp_min (fp_mul binary32 (usize_to_f32 n) (Fin w)) (Fin cap)"

definition direct_evidence :: "impact_item list \<Rightarrow> string list" where
  "direct_evidence items =
     sorted_unique (concat (map it_evidence (filter (\<lambda>item. it_classification item = DirectlyDependent) items)))"

definition compatibility_factor :: "compatibility_input \<Rightarrow> risk_factor list" where
  "compatibility_factor input =
     (case cp_status input of
        Breaking \<Rightarrow> [push_factor ''breaking_compatibility'' (Fin 30)
          ''a compatibility engine reported a breaking contract change'' (cp_evidence input)]
      | PotentiallyBreaking \<Rightarrow> [push_factor ''potentially_breaking_compatibility'' (Fin 18)
          ''a compatibility engine reported a potentially breaking change'' (cp_evidence input)]
      | Compatible \<Rightarrow> []
      | CompatibilityUnknown \<Rightarrow> [push_factor ''compatibility_unknown'' (Fin 0) ''compatibility coverage is unknown''
          (cp_evidence input @ cp_recommended_validations input)])"

definition add_compatibility_factors :: "node_id btree_set \<Rightarrow> impact_context \<Rightarrow> risk_factor list" where
  "add_compatibility_factors impacted context =
     concat (map compatibility_factor
       (filter (\<lambda>input. cp_contract_node_id input \<in> set impacted) (ix_compatibility context)))"

fun tag_factor :: "criticality_tag \<Rightarrow> string \<times> rat" where
  "tag_factor CriticalTag = (''critical_tag'', 55)"
| "tag_factor Authentication = (''authentication_tag'', 35)"
| "tag_factor Security = (''security_tag'', 50)"
| "tag_factor Payment = (''payment_tag'', 50)"
| "tag_factor DataBoundary = (''data_boundary_tag'', 45)"

fun show_tag :: "criticality_tag \<Rightarrow> string" where
  "show_tag CriticalTag = ''Critical''"
| "show_tag Authentication = ''Authentication''"
| "show_tag Security = ''Security''"
| "show_tag Payment = ''Payment''"
| "show_tag DataBoundary = ''DataBoundary''"

definition add_criticality_factors :: "node_id btree_set \<Rightarrow> impact_context \<Rightarrow> risk_factor list" where
  "add_criticality_factors impacted context =
     map (\<lambda>assignment. push_factor (fst (tag_factor (ca_tag assignment))) (Fin (snd (tag_factor (ca_tag assignment))))
         (''explicit '' @ show_tag (ca_tag assignment) @ '' tag applies to impacted node `'' @ ca_node_id assignment @ ''`'')
         (ca_evidence assignment))
       (filter (\<lambda>assignment. ca_node_id assignment \<in> set impacted) (ix_criticality context))"

definition owner_count :: "node_id btree_set \<Rightarrow> impact_context \<Rightarrow> nat" where
  "owner_count impacted context =
     length (bs_of_list (map e_target
       (filter (\<lambda>edge. e_kind edge = OwnedBy \<and> e_source edge \<in> set impacted) (ix_edges context))))"

definition factor_if :: "bool \<Rightarrow> risk_factor \<Rightarrow> risk_factor list" where
  "factor_if applies factor = (if applies then [factor] else [])"

definition reach_factors ::
  "node \<Rightarrow> impact_item list \<Rightarrow> repository_impact list \<Rightarrow> service_impact list \<Rightarrow> contract_impact list
     \<Rightarrow> impact_context \<Rightarrow> risk_factor list" where
  "reach_factors target items repositories services contracts context =
     (let direct_count = length (filter (\<lambda>item. it_classification item = DirectlyDependent) items);
          transitive_count = length (filter (\<lambda>item. it_classification item = TransitivelyAffected) items);
          repository_ids = fold bs_insert (case n_repo_id target of None \<Rightarrow> [] | Some repo_id \<Rightarrow> [repo_id])
            (bs_of_list (map ri_repo_id repositories));
          public_contracts = length (filter ci_public contracts) + of_bool (n_id target \<in> set (ix_public_contracts context)) in
      factor_if (0 < direct_count) (push_factor ''direct_consumers'' (scaled_weight direct_count 4 24)
        (show_nat direct_count @ '' confirmed direct dependents'') (direct_evidence items))
      @ factor_if (0 < transitive_count) (push_factor ''transitive_fanout'' (scaled_weight transitive_count (3 / 2) 15)
        (show_nat transitive_count @ '' confirmed transitive impacts'') [])
      @ factor_if (1 < length repository_ids) (push_factor ''cross_repository_count'' (scaled_weight (length repository_ids - 1) 4 16)
        (''impact spans '' @ show_nat (length repository_ids) @ '' repositories'') repository_ids)
      @ factor_if (services \<noteq> []) (push_factor ''service_impact'' (scaled_weight (length services) 2 10)
        (''impact reaches '' @ show_nat (length services) @ '' services'') (map (\<lambda>s. n_stable_key (si_service s)) services))
      @ factor_if (0 < public_contracts) (push_factor ''public_contract'' (Fin 12)
        (show_nat public_contracts @ '' explicitly public contracts are involved'')
        (map (\<lambda>c. n_stable_key (ci_contract c)) (filter ci_public contracts))))"

definition centrality_factor :: "node \<Rightarrow> impact_context \<Rightarrow> risk_factor list" where
  "centrality_factor target context =
     (case bt_get (ix_centrality context) (n_id target) of
        None \<Rightarrow> []
      | Some centrality \<Rightarrow>
          factor_if (fp_le (Fin (3 / 4)) centrality) (push_factor ''centrality'' (fp_mul binary32 centrality (Fin 12))
            (''target centrality is '' @ three_decimals centrality) [n_id target]))"

definition community_factor :: "community_impact list \<Rightarrow> risk_factor list" where
  "community_factor communities =
     (let cross_edges = length (filter (\<lambda>community. fp_lt (Fin 0) (mi_coupling community)) communities) in
      factor_if (0 < cross_edges) (push_factor ''community_process_fanout'' (scaled_weight cross_edges 3 9)
        (show_nat cross_edges @ '' affected communities cross structural boundaries'') (map mi_community_id communities)))"

definition gap_factors ::
  "node_id btree_set \<Rightarrow> impact_item list \<Rightarrow> test_recommendation list \<Rightarrow> impact_context \<Rightarrow> coverage_summary
     \<Rightarrow> truncation_info option \<Rightarrow> risk_factor list" where
  "gap_factors impacted items tests context coverage truncation =
     (let environments = bs_of_list (map ea_environment
            (filter (\<lambda>assignment. ea_node_id assignment \<in> set impacted) (ix_environments context))) in
      factor_if (tests = [] \<and> items \<noteq> []) (push_factor ''missing_tests'' (Fin 10)
        ''no linked or locally supplied affected tests were found'' [])
      @ factor_if (owner_count impacted context = 0 \<and> items \<noteq> []) (push_factor ''missing_owners'' (Fin 8)
        ''no Owner node is linked by OwnedBy to an impacted node'' [])
      @ factor_if (1 < length environments) (push_factor ''cross_environment'' (Fin 10)
        (''impact spans '' @ show_nat (length environments) @ '' explicit environments'') environments)
      @ factor_if (\<not> cs_sufficient_for_score coverage) (push_factor ''coverage_unknown'' (Fin 0)
        ''coverage is insufficient for a numeric risk conclusion'' (cs_gaps coverage))
      @ (case truncation of
           None \<Rightarrow> []
         | Some info \<Rightarrow> [push_factor ''truncated'' (Fin 0) (ti_explanation info) [ti_bound info @ ''='' @ show_nat (ti_limit info)]]))"

text \<open>
  \<open>right.weight.partial_cmp(&left.weight)\<close>: weights are finite, so the comparison is that of their values, from the
  greatest to the least.
\<close>

definition weight_descending :: "f32 \<Rightarrow> nat \<times> rat" where
  "weight_descending w = (case fp_rank w of (a, q) \<Rightarrow> (2 - a, - q))"

definition sort_factors :: "risk_factor list \<Rightarrow> risk_factor list" where
  "sort_factors factors = sort_key (\<lambda>f. (weight_descending (rk_weight f), rk_code f, rk_explanation f)) factors"

definition clamp_score :: "f32 \<Rightarrow> f32" where
  "clamp_score s = (if fp_lt s (Fin 1) then Fin 1 else if fp_lt (Fin 100) s then Fin 100 else s)"

definition risk_score :: "risk_factor list \<Rightarrow> f32" where
  "risk_score factors = clamp_score (fold (\<lambda>factor total. fp_add binary32 total (rk_weight factor)) factors (Fin 0))"

definition explicit_critical :: "risk_factor list \<Rightarrow> bool" where
  "explicit_critical factors \<longleftrightarrow>
     (\<exists>factor \<in> set factors. rk_code factor \<in> {''critical_tag'', ''security_tag'', ''payment_tag'', ''data_boundary_tag''}
        \<and> rk_evidence factor \<noteq> [])"

definition score_level :: "f32 \<Rightarrow> bool \<Rightarrow> risk_level" where
  "score_level score critical =
     (if fp_le (Fin 85) score \<and> critical then Critical
      else if fp_le (Fin 50) score then High
      else if fp_le (Fin 25) score then Medium
      else Low)"

definition assess_risk ::
  "node \<Rightarrow> impact_item list \<Rightarrow> repository_impact list \<Rightarrow> service_impact list \<Rightarrow> contract_impact list \<Rightarrow> community_impact list
     \<Rightarrow> test_recommendation list \<Rightarrow> impact_context \<Rightarrow> coverage_summary \<Rightarrow> truncation_info option
     \<Rightarrow> risk_level \<times> f32 option \<times> risk_factor list" where
  "assess_risk target items repositories services contracts communities tests context coverage truncation =
     (let impacted = impacted_ids target items;
          factors = sort_factors (reach_factors target items repositories services contracts context
            @ add_compatibility_factors impacted context @ centrality_factor target context @ community_factor communities
            @ add_criticality_factors impacted context @ gap_factors impacted items tests context coverage truncation) in
      if \<not> cs_sufficient_for_score coverage then (RiskUnknown, None, factors)
      else (score_level (risk_score factors) (explicit_critical factors), Some (risk_score factors), factors))"

subsection \<open>The report\<close>

definition split_classifications ::
  "impact_item list \<Rightarrow> impact_item list \<times> impact_item list \<times> impact_item list \<times> impact_item list" where
  "split_classifications items =
     (filter (\<lambda>item. it_classification item = DirectlyDependent) items,
      filter (\<lambda>item. it_classification item = TransitivelyAffected) items,
      filter (\<lambda>item. it_classification item = PossiblyAffected) items,
      filter (\<lambda>item. it_classification item = UnknownDueToCoverage) items)"

definition impact_page :: "impact_options \<Rightarrow> impact_item list \<Rightarrow> impact_item list" where
  "impact_page options items =
     (if io_summary_only options then []
      else take (io_limit options) (drop (min (io_offset options) (length items)) items))"

definition impact_report_of ::
  "impact_request \<Rightarrow> impact_context \<Rightarrow> (node_id, node) btree_map \<Rightarrow> resolved_target \<Rightarrow> impact_item list
     \<Rightarrow> truncation_info option \<Rightarrow> nat \<Rightarrow> nat \<Rightarrow> impact_report" where
  "impact_report_of request context nodes target items truncation possible_edges unknown_edges =
     (let repositories = aggregate_repositories items;
          services = aggregate_services items context nodes;
          contracts = aggregate_contracts items context;
          communities = aggregate_communities items context;
          tests = recommend_tests items context nodes;
          coverage = summarize_coverage (rt_node target) items context truncation possible_edges unknown_edges;
          assessment = assess_risk (rt_node target) items repositories services contracts communities tests
            context coverage truncation;
          page = split_classifications (impact_page (iq_options request) items) in
      \<lparr>ip_risk_model_version = ''1.0.0'', ip_target = target, ip_direction = iq_direction request, ip_risk = fst assessment,
       ip_risk_score = fst (snd assessment), ip_reasons = snd (snd assessment), ip_direct_consumers = fst page,
       ip_transitive_consumers = fst (snd page), ip_possibly_affected = fst (snd (snd page)),
       ip_unknown_due_to_coverage = snd (snd (snd page)), ip_affected_repositories = repositories,
       ip_affected_services = services, ip_affected_contracts = contracts, ip_affected_communities = communities,
       ip_local_impact_summaries = summarize_local_enrichment context, ip_test_recommendations = tests,
       ip_depth_buckets = (if io_include_depth_buckets (iq_options request) then build_depth_buckets items else []),
       ip_coverage = coverage, ip_truncation = truncation\<rparr>)"

definition analyze_impact :: "impact_request \<Rightarrow> impact_context \<Rightarrow> (impact_error, impact_report) outcome" where
  "analyze_impact request context =
     and_then (validate_context request context) (\<lambda>nodes.
     and_then (resolve_target (iq_target request) nodes) (\<lambda>target.
     and_then (propagate_impact request context nodes (rt_node target)) (\<lambda>(items, truncation, possible_edges, unknown_edges).
       Inr (impact_report_of request context nodes target (sort_items items) truncation possible_edges unknown_edges))))"

end
