(* ===== verification/Impact_Search.thy ===== *)
theory Impact_Search
  imports Impact
begin

text \<open>
  The breadth-first propagation of \<open>impact.rs\<close>. Its states stand for routes from the target; the invariant says that
  the best label of every node is the label of a route that was found, that every route has been expanded or waits in
  the queue, and that the queue holds at most two layers of lengths. When nothing was truncated the routes found are
  closed under extension, so they dominate every walk of the graph.
\<close>

subsection \<open>The relationships that propagation may follow\<close>

text \<open>What a propagation is given: the bounds, the relationships, the direction, the validated nodes and the target.\<close>

record propagation =
  pg_options :: impact_options
  pg_edges :: "edge list"
  pg_direction :: impact_direction
  pg_nodes :: "(node_id, node) btree_map"
  pg_target :: node_id

definition available :: "propagation \<Rightarrow> node_id \<Rightarrow> adjacency \<Rightarrow> bool" where
  "available pg u entry \<longleftrightarrow> (\<exists>edge \<in> set (pg_edges pg). (u, entry) \<in> set (edge_entries (pg_direction pg) edge))
     \<and> is_propagating (e_kind (ay_edge entry))"

definition pg_certainty :: "propagation \<Rightarrow> adjacency \<Rightarrow> path_certainty" where
  "pg_certainty pg entry = edge_certainty (ay_edge entry) (io_confirmed_confidence (pg_options pg))"

definition pg_entries :: "propagation \<Rightarrow> node_id \<Rightarrow> adjacency list" where
  "pg_entries pg u = bt_group (build_adjacency (pg_edges pg) (pg_direction pg)) u"

lemma group_pushes: "set (bt_group (fold (\<lambda>(k, v). bt_push k v) ps m) u) = set (bt_group m u) \<union> {v. (u, v) \<in> set ps}"
proof (induction ps arbitrary: m)
  case (Cons p ps)
  obtain k v where p: "p = (k, v)" by fastforce
  show ?case using Cons.IH [of "bt_push k v m"] unfolding p by (auto simp: bt_group_push)
qed simp

lemma pg_entries_iff: "entry \<in> set (pg_entries pg u) \<longleftrightarrow> (\<exists>edge \<in> set (pg_edges pg). (u, entry) \<in> set (edge_entries (pg_direction pg) edge))"
proof -
  have "set (bt_group (fold (\<lambda>edge m. fold (\<lambda>(k, v). bt_push k v) (edge_entries d edge) m) edges m) u)
      = set (bt_group m u) \<union> {v. \<exists>edge \<in> set edges. (u, v) \<in> set (edge_entries d edge)}" for d edges m
    by (induction edges arbitrary: m) (auto simp: group_pushes)
  then show ?thesis
    by (simp add: pg_entries_def build_adjacency_def bt_group_map_values bt_group_def [of "[]"])
qed

lemma available_iff: "available pg u entry \<longleftrightarrow> entry \<in> set (pg_entries pg u) \<and> is_propagating (e_kind (ay_edge entry))"
  by (simp add: available_def pg_entries_iff)

definition pg_ok :: "propagation \<Rightarrow> bool" where
  "pg_ok pg \<longleftrightarrow> bt_contains (pg_nodes pg) (pg_target pg)
     \<and> (\<forall>edge \<in> set (pg_edges pg). bt_contains (pg_nodes pg) (e_source edge) \<and> bt_contains (pg_nodes pg) (e_target edge))
     \<and> (\<forall>u node. bt_get (pg_nodes pg) u = Some node \<longrightarrow> n_id node = u)"

lemma available_known: "pg_ok pg \<Longrightarrow> entry \<in> set (pg_entries pg u) \<Longrightarrow> bt_contains (pg_nodes pg) (ay_neighbor entry)"
  by (auto simp: pg_entries_iff pg_ok_def edge_entries_def split: if_splits)

subsection \<open>Walks\<close>

fun impact_walk :: "propagation \<Rightarrow> node_id \<Rightarrow> adjacency list \<Rightarrow> node_id \<Rightarrow> bool" where
  "impact_walk pg u [] v \<longleftrightarrow> u = v"
| "impact_walk pg u (entry # es) v \<longleftrightarrow> available pg u entry \<and> impact_walk pg (ay_neighbor entry) es v"

definition walk_certainty :: "propagation \<Rightarrow> adjacency list \<Rightarrow> path_certainty" where
  "walk_certainty pg es = fold (\<lambda>entry. max (pg_certainty pg entry)) es PathConfirmed"

fun steps_of :: "node_id \<Rightarrow> adjacency list \<Rightarrow> impact_path_step list" where
  "steps_of u [] = []"
| "steps_of u (entry # es) =
     \<lparr>is_from = u, is_to = ay_neighbor entry, is_edge_id = e_id (ay_edge entry), is_kind = e_kind (ay_edge entry),
      is_reversed = ay_reversed entry, is_confidence = e_confidence (ay_edge entry), is_status = e_status (ay_edge entry)\<rparr>
     # steps_of (ay_neighbor entry) es"

definition pivots :: "adjacency \<Rightarrow> adjacency \<Rightarrow> bool" where
  "pivots a b \<longleftrightarrow> e_kind (ay_edge a) = Contains \<and> e_kind (ay_edge b) = Contains \<and> ay_reversed a \<noteq> ay_reversed b"

lemma impact_walk_append:
  "impact_walk pg u (es @ fs) v \<longleftrightarrow> (\<exists>w. impact_walk pg u es w \<and> impact_walk pg w fs v)"
  by (induction es arbitrary: u) auto

lemma walk_certainty_append [simp]: "walk_certainty pg (es @ [entry]) = max (walk_certainty pg es) (pg_certainty pg entry)"
  by (simp add: walk_certainty_def max.commute)

lemma impact_walk_end: "impact_walk pg u es v \<Longrightarrow> v = last (u # map ay_neighbor es)"
  by (induction es arbitrary: u) auto

lemma steps_of_append:
  "steps_of u (es @ [entry]) = steps_of u es @ steps_of (last (u # map ay_neighbor es)) [entry]"
  by (induction es arbitrary: u) auto

lemma length_steps_of [simp]: "length (steps_of u es) = length es"
  by (induction es arbitrary: u) auto

lemma steps_nodes: "is_from ` set (steps_of u es) \<union> is_to ` set (steps_of u es) = (if es = [] then {} else insert u (ay_neighbor ` set es))"
  by (induction es arbitrary: u) auto

lemma steps_from: "is_from ` set (steps_of u es) \<subseteq> insert u (ay_neighbor ` set es)"
  using steps_nodes [of u es] by (auto split: if_splits)

lemma pivot_iff:
  "is_structural_direction_pivot (steps_of u es) entry \<longleftrightarrow> es \<noteq> [] \<and> pivots (last es) entry"
proof (cases es rule: rev_cases)
  case (snoc fs f)
  then show ?thesis by (simp add: steps_of_append is_structural_direction_pivot_def pivots_def)
qed (simp add: is_structural_direction_pivot_def)

subsection \<open>States of the search\<close>

definition route_end :: "propagation \<Rightarrow> adjacency list \<Rightarrow> node_id" where
  "route_end pg es = last (pg_target pg # map ay_neighbor es)"

definition route_label :: "propagation \<Rightarrow> adjacency list \<Rightarrow> path_certainty \<times> nat" where
  "route_label pg es = (walk_certainty pg es, length es)"

lemma route_end_simps [simp]: "route_end pg [] = pg_target pg" "route_end pg (es @ [entry]) = ay_neighbor entry"
  by (simp_all add: route_end_def)

lemma route_end_mem: "route_end pg es \<in> set (pg_target pg # map ay_neighbor es)"
  unfolding route_end_def by (rule last_in_set) simp

text \<open>A state stands for a walk from the target without a repeated node and without a structural pivot.\<close>

definition walk_state :: "propagation \<Rightarrow> adjacency list \<Rightarrow> impact_state" where
  "walk_state pg es = \<lparr>ts_node_id = route_end pg es, ts_certainty = walk_certainty pg es,
     ts_path = steps_of (pg_target pg) es, ts_evidence = bs_of_list (concat (map (\<lambda>entry. e_evidence (ay_edge entry)) es))\<rparr>"

definition impact_route :: "propagation \<Rightarrow> adjacency list \<Rightarrow> bool" where
  "impact_route pg es \<longleftrightarrow> impact_walk pg (pg_target pg) es (route_end pg es)
     \<and> distinct (pg_target pg # map ay_neighbor es) \<and> successively (\<lambda>a b. \<not> pivots a b) es
     \<and> length es \<le> io_max_depth (pg_options pg)"

lemma walk_state_Nil: "walk_state pg [] = \<lparr>ts_node_id = pg_target pg, ts_certainty = PathConfirmed, ts_path = [], ts_evidence = []\<rparr>"
  by (simp add: walk_state_def walk_certainty_def bs_of_list_def)

lemma walk_state_extend:
  "extend_state (walk_state pg es) entry (max (ts_certainty (walk_state pg es)) (pg_certainty pg entry)) = walk_state pg (es @ [entry])"
  by (simp add: extend_state_def walk_state_def steps_of_append bs_of_list_def route_end_def)

lemma on_path_iff: "on_path (pg_target pg) (walk_state pg es) w \<longleftrightarrow> w \<in> set (pg_target pg # map ay_neighbor es)"
proof -
  have "on_path (pg_target pg) (walk_state pg es) w
      \<longleftrightarrow> w = pg_target pg \<or> w \<in> is_from ` set (steps_of (pg_target pg) es) \<union> is_to ` set (steps_of (pg_target pg) es)"
    by (auto simp: on_path_def walk_state_def)
  then show ?thesis unfolding steps_nodes by auto
qed

lemma walk_state_depth [simp]: "length (ts_path (walk_state pg es)) = length es"
  by (simp add: walk_state_def)

lemma walk_state_node [simp]: "ts_node_id (walk_state pg es) = route_end pg es"
  by (simp add: walk_state_def)

lemma route_extend:
  assumes "impact_route pg es" and "length es < io_max_depth (pg_options pg)"
    and "entry \<in> set (pg_entries pg (ts_node_id (walk_state pg es)))" and "is_propagating (e_kind (ay_edge entry))"
    and "\<not> is_structural_direction_pivot (ts_path (walk_state pg es)) entry" and "\<not> on_path (pg_target pg) (walk_state pg es) (ay_neighbor entry)"
  shows "impact_route pg (es @ [entry])"
proof -
  have "available pg (route_end pg es) entry"
    using assms(3,4) by (simp add: available_iff walk_state_def)
  moreover have "es \<noteq> [] \<Longrightarrow> \<not> pivots (last es) entry" using assms(5) by (simp add: walk_state_def pivot_iff)
  ultimately show ?thesis
    using assms(1,2,6) unfolding on_path_iff impact_route_def
    by (auto simp: impact_walk_append successively_append_iff)
qed

subsection \<open>The invariant of the search\<close>

definition counted :: "propagation \<Rightarrow> impact_run \<Rightarrow> adjacency list \<Rightarrow> bool" where
  "counted pg run es \<longleftrightarrow> (\<forall>entry \<in> set es. (pg_certainty pg entry = PathPossible \<longrightarrow> 0 < ir_possible run)
     \<and> (pg_certainty pg entry = PathUnknown \<longrightarrow> 0 < ir_unknown run))"

text \<open>The best label of a node is the label of a route found for it, no other route found for it is better, and the item reports the route.\<close>

definition recorded :: "propagation \<Rightarrow> adjacency list set \<Rightarrow> impact_run \<Rightarrow> node_id \<Rightarrow> bool" where
  "recorded pg found run w \<longleftrightarrow>
     (case bt_get (ir_best run) w of
        None \<Rightarrow> bt_get (ir_items run) w = None \<and> (\<forall>es \<in> found. route_end pg es \<noteq> w)
      | Some label \<Rightarrow> (\<exists>es \<in> found. route_end pg es = w \<and> route_label pg es = label
            \<and> (if w = pg_target pg then bt_get (ir_items run) w = None
               else \<exists>node. bt_get (pg_nodes pg) w = Some node \<and> bt_get (ir_items run) w = Some (state_item node (walk_state pg es))))
          \<and> (\<forall>es \<in> found. route_end pg es = w \<longrightarrow> label \<le> route_label pg es))"

text \<open>Every node of a route has been found with a label at least as good.\<close>

definition ancestors_found :: "propagation \<Rightarrow> adjacency list set \<Rightarrow> bool" where
  "ancestors_found pg found \<longleftrightarrow> (\<forall>es \<in> found. \<forall>w \<in> set (pg_target pg # map ay_neighbor es).
     \<exists>fs \<in> found. route_end pg fs = w \<and> walk_certainty pg fs \<le> walk_certainty pg es \<and> length fs \<le> length es)"

definition run_ok :: "propagation \<Rightarrow> adjacency list set \<Rightarrow> adjacency list list \<Rightarrow> impact_run \<Rightarrow> bool" where
  "run_ok pg expanded queue run \<longleftrightarrow>
     ir_queue run = map (walk_state pg) queue
     \<and> (\<forall>es \<in> expanded \<union> set queue. impact_route pg es \<and> counted pg run es)
     \<and> bt_wf (ir_best run) \<and> bt_wf (ir_items run) \<and> length (ir_items run) \<le> io_node_limit (pg_options pg)
     \<and> (\<forall>w. recorded pg (expanded \<union> set queue) run w) \<and> ancestors_found pg (expanded \<union> set queue)"

lemma recorded_cong:
  "ir_best run' = ir_best run \<Longrightarrow> ir_items run' = ir_items run \<Longrightarrow> recorded pg found run' w \<longleftrightarrow> recorded pg found run w"
  by (simp only: recorded_def)

lemma run_ok_update:
  assumes "run_ok pg expanded queue run" and "ir_queue run' = ir_queue run" and "ir_best run' = ir_best run"
    and "ir_items run' = ir_items run" and "ir_possible run \<le> ir_possible run'" and "ir_unknown run \<le> ir_unknown run'"
  shows "run_ok pg expanded queue run'"
proof -
  have "counted pg run es \<Longrightarrow> counted pg run' es" for es
    using assms(5,6) by (auto simp: counted_def)
  moreover note recorded_cong [OF assms(3,4)]
  ultimately show ?thesis using assms(1-4) by (simp add: run_ok_def)
qed

lemma count_certainty_fields [simp]:
  "ir_best (count_certainty c run) = ir_best run" "ir_items (count_certainty c run) = ir_items run"
  "ir_truncation (count_certainty c run) = ir_truncation run"
  "ir_possible run \<le> ir_possible (count_certainty c run)" "ir_unknown run \<le> ir_unknown (count_certainty c run)"
  "c = PathPossible \<Longrightarrow> 0 < ir_possible (count_certainty c run)" "c = PathUnknown \<Longrightarrow> 0 < ir_unknown (count_certainty c run)"
  by (simp_all add: count_certainty_def split: path_certainty.split)

lemma note_truncation_fields [simp]:
  "ir_best (note_truncation info run) = ir_best run" "ir_items (note_truncation info run) = ir_items run"
  "ir_possible (note_truncation info run) = ir_possible run" "ir_unknown (note_truncation info run) = ir_unknown run"
  "ir_truncation (note_truncation info run) \<noteq> None"
  by (simp_all add: note_truncation_def split: option.split)

lemma ancestors_extend:
  assumes "ancestors_found pg found" and "es \<in> found"
  shows "ancestors_found pg (insert (es @ [entry]) found)"
  unfolding ancestors_found_def
proof (intro ballI)
  fix gs w assume gs: "gs \<in> insert (es @ [entry]) found" and w: "w \<in> set (pg_target pg # map ay_neighbor gs)"
  show "\<exists>fs \<in> insert (es @ [entry]) found. route_end pg fs = w \<and> walk_certainty pg fs \<le> walk_certainty pg gs \<and> length fs \<le> length gs"
  proof (cases "gs \<in> found")
    case True
    then show ?thesis using assms(1) w unfolding ancestors_found_def by blast
  next
    case False
    then have gs: "gs = es @ [entry]" using gs by simp
    show ?thesis
    proof (cases "w = ay_neighbor entry")
      case False
      then have "w \<in> set (pg_target pg # map ay_neighbor es)" using w gs by auto
      then obtain fs where fs: "fs \<in> found" "route_end pg fs = w" "walk_certainty pg fs \<le> walk_certainty pg es" "length fs \<le> length es"
        using assms unfolding ancestors_found_def by blast
      then have "walk_certainty pg fs \<le> walk_certainty pg gs" "length fs \<le> length gs" unfolding gs by (simp_all add: max.coboundedI1)
      then show ?thesis using fs(1,2) by blast
    next
      case True
      then show ?thesis by (intro bexI [of _ gs]) (simp_all add: gs)
    qed
  qed
qed

definition improves :: "impact_run \<Rightarrow> node_id \<Rightarrow> path_certainty \<times> nat \<Rightarrow> bool" where
  "improves run w label \<longleftrightarrow> (case bt_get (ir_best run) w of None \<Rightarrow> True | Some existing \<Rightarrow> \<not> existing \<le> label)"

lemma recorded_reach:
  assumes "recorded pg found run w" and "bt_wf (ir_best run)" and "bt_wf (ir_items run)"
    and "route_end pg es \<noteq> pg_target pg" and "bt_get (pg_nodes pg) (route_end pg es) = Some node"
    and "improves run (route_end pg es) (route_label pg es)"
  shows "recorded pg (insert es found) (reach node (walk_state pg es) run) w"
proof (cases "w = route_end pg es")
  case True
  have "route_label pg es \<le> route_label pg fs" if "fs \<in> found" "route_end pg fs = w" for fs
    using assms(1,6) that True by (auto simp: recorded_def improves_def split: option.splits)
  then show ?thesis using True assms(2-5)
    by (simp add: recorded_def reach_def walk_state_def route_label_def)
next
  case False
  then show ?thesis using assms(1,2,3)
    by (auto simp: recorded_def reach_def walk_state_def split: option.splits)
qed

lemma run_ok_reach:
  assumes ok: "run_ok pg expanded queue run" and "es \<in> expanded" and route: "impact_route pg (es @ [entry])"
    and known: "bt_get (pg_nodes pg) (ay_neighbor entry) = Some node"
    and "improves run (ay_neighbor entry) (route_label pg (es @ [entry]))"
    and room: "bt_contains (ir_items run) (ay_neighbor entry) \<or> length (ir_items run) < io_node_limit (pg_options pg)"
    and "counted pg run (es @ [entry])"
  shows "run_ok pg expanded (queue @ [es @ [entry]]) (reach node (walk_state pg (es @ [entry])) run)"
proof -
  let ?fs = "es @ [entry]"
  let ?run = "reach node (walk_state pg ?fs) run"
  have found: "expanded \<union> set (queue @ [?fs]) = insert ?fs (expanded \<union> set queue)" by auto
  have wf: "bt_wf (ir_best run)" "bt_wf (ir_items run)" using ok by (simp_all add: run_ok_def)
  have "route_end pg ?fs \<noteq> pg_target pg" using route by (auto simp: impact_route_def)
  then have "\<forall>w. recorded pg (insert ?fs (expanded \<union> set queue)) ?run w"
    using recorded_reach [of pg "expanded \<union> set queue" run _ ?fs node] assms wf by (simp add: run_ok_def)
  moreover have "ancestors_found pg (insert ?fs (expanded \<union> set queue))"
    using ancestors_extend [of pg "expanded \<union> set queue" es entry] ok assms(2) by (simp add: run_ok_def)
  moreover have "length (ir_items ?run) \<le> io_node_limit (pg_options pg)"
    using room ok wf(2) by (auto simp: reach_def walk_state_def length_bt_insert run_ok_def)
  moreover have "counted pg ?run gs \<longleftrightarrow> counted pg run gs" for gs by (simp add: counted_def reach_def)
  moreover have "bt_wf (ir_best ?run)" "bt_wf (ir_items ?run)" "ir_queue ?run = map (walk_state pg) (queue @ [?fs])"
    using wf ok by (simp_all add: reach_def run_ok_def)
  ultimately show ?thesis
    using ok route assms(7) unfolding run_ok_def found by auto
qed

definition covered :: "propagation \<Rightarrow> adjacency list set \<Rightarrow> adjacency list \<Rightarrow> adjacency \<Rightarrow> bool" where
  "covered pg found es entry \<longleftrightarrow> (\<exists>fs \<in> found. route_end pg fs = ay_neighbor entry
     \<and> walk_certainty pg fs \<le> max (walk_certainty pg es) (pg_certainty pg entry) \<and> length fs \<le> length es + 1)"

lemma covered_mono: "covered pg found es entry \<Longrightarrow> found \<subseteq> found' \<Longrightarrow> covered pg found' es entry"
  by (auto simp: covered_def)

lemma covered_on_path:
  assumes "ancestors_found pg found" and "es \<in> found" and "ay_neighbor entry \<in> set (pg_target pg # map ay_neighbor es)"
  shows "covered pg found es entry"
proof -
  obtain fs where "fs \<in> found" "route_end pg fs = ay_neighbor entry" "walk_certainty pg fs \<le> walk_certainty pg es" "length fs \<le> length es"
    using assms unfolding ancestors_found_def by blast
  then show ?thesis unfolding covered_def by (intro bexI [of _ fs]) (simp_all add: max.coboundedI1)
qed

lemma covered_best:
  assumes "recorded pg found run (ay_neighbor entry)" and "\<not> improves run (ay_neighbor entry) (route_label pg (es @ [entry]))"
    and "\<forall>fs \<in> found. length fs \<le> length es + 1"
  shows "covered pg found es entry"
proof -
  obtain label where label: "bt_get (ir_best run) (ay_neighbor entry) = Some label" "label \<le> route_label pg (es @ [entry])"
    using assms(2) by (auto simp: improves_def split: option.splits)
  then obtain fs where fs: "fs \<in> found" "route_end pg fs = ay_neighbor entry" "route_label pg fs = label"
    using assms(1) by (auto simp: recorded_def)
  then have "walk_certainty pg fs \<le> max (walk_certainty pg es) (pg_certainty pg entry)"
    using label(2) by (auto simp: route_label_def less_eq_prod_def)
  then show ?thesis using fs assms(3) unfolding covered_def by blast
qed

lemma flow_improves: "(case bt_get (ir_best run) w of None \<Rightarrow> False | Some existing \<Rightarrow> existing \<le> label) \<longleftrightarrow> \<not> improves run w label"
  by (simp add: improves_def split: option.split)

lemma visit_entry_ok:
  assumes ok: "pg_ok pg" "run_ok pg expanded queue run" and es: "es \<in> expanded" and entry: "entry \<in> set (pg_entries pg (route_end pg es))"
    and depth: "length es < io_max_depth (pg_options pg)" and layer: "\<forall>fs \<in> expanded \<union> set queue. length fs \<le> length es + 1"
  shows "case visit_entry (pg_options pg) (pg_nodes pg) (pg_target pg) (walk_state pg es) entry run of
       Continue run' \<Rightarrow> (\<exists>fresh. set fresh \<subseteq> {es @ [entry]} \<and> run_ok pg expanded (queue @ fresh) run' \<and> ir_truncation run' = ir_truncation run
         \<and> (is_propagating (e_kind (ay_edge entry)) \<and> \<not> is_structural_direction_pivot (ts_path (walk_state pg es)) entry
             \<longrightarrow> covered pg (expanded \<union> set (queue @ fresh)) es entry))
     | Break run' \<Rightarrow> run_ok pg expanded queue run' \<and> ir_truncation run' \<noteq> None
     | Fail e \<Rightarrow> False"
proof -
  let ?skip = "\<not> is_propagating (e_kind (ay_edge entry)) \<or> is_structural_direction_pivot (ts_path (walk_state pg es)) entry"
  let ?w = "ay_neighbor entry"
  let ?run1 = "run\<lparr>ir_examined := ir_examined run + 1\<rparr>"
  let ?run2 = "count_certainty (pg_certainty pg entry) ?run1"
  let ?label = "route_label pg (es @ [entry])"
  have label: "(max (ts_certainty (walk_state pg es)) (pg_certainty pg entry), length (ts_path (walk_state pg es)) + 1) = ?label"
    by (simp add: walk_state_def route_label_def)
  have anc: "ancestors_found pg (expanded \<union> set queue)" and recd: "recorded pg (expanded \<union> set queue) run ?w"
    using ok(2) by (simp_all add: run_ok_def)
  have ok1: "run_ok pg expanded queue ?run1" by (rule run_ok_update [OF ok(2)]) simp_all
  have ok2: "run_ok pg expanded queue ?run2"
    by (rule run_ok_update [OF ok1]) (simp_all only: count_certainty_fields count_certainty_work)
  have imp2: "improves (count_certainty c (run\<lparr>ir_examined := n\<rparr>)) w l \<longleftrightarrow> improves run w l" for c n w l by (simp add: improves_def)
  consider (skip) "?skip" | (limit) "\<not> ?skip" "io_edge_limit (pg_options pg) < ir_examined ?run1"
    | (visited) "\<not> ?skip" "\<not> io_edge_limit (pg_options pg) < ir_examined ?run1" "on_path (pg_target pg) (walk_state pg es) ?w"
    | (worse) "\<not> ?skip" "\<not> io_edge_limit (pg_options pg) < ir_examined ?run1" "\<not> on_path (pg_target pg) (walk_state pg es) ?w"
        "\<not> improves run ?w ?label"
    | (full) "\<not> ?skip" "\<not> io_edge_limit (pg_options pg) < ir_examined ?run1" "\<not> on_path (pg_target pg) (walk_state pg es) ?w"
        "improves run ?w ?label" "\<not> bt_contains (ir_items ?run2) ?w \<and> io_node_limit (pg_options pg) \<le> length (ir_items ?run2)"
    | (reach) "\<not> ?skip" "\<not> io_edge_limit (pg_options pg) < ir_examined ?run1" "\<not> on_path (pg_target pg) (walk_state pg es) ?w"
        "improves run ?w ?label" "\<not> (\<not> bt_contains (ir_items ?run2) ?w \<and> io_node_limit (pg_options pg) \<le> length (ir_items ?run2))"
    by blast
  then show ?thesis
  proof cases
    case skip
    then show ?thesis using ok(2) by (auto simp: visit_entry_def intro: exI [of _ "[]"])
  next
    case limit
    then have "visit_entry (pg_options pg) (pg_nodes pg) (pg_target pg) (walk_state pg es) entry run
        = Break (note_truncation \<lparr>ti_bound = ''edge_limit'', ti_limit = io_edge_limit (pg_options pg), ti_observed = ir_examined ?run1,
            ti_explanation = ''edge examination limit stopped impact propagation''\<rparr> ?run1)"
      by (simp add: visit_entry_def Let_def)
    then show ?thesis using run_ok_update [OF ok1, of "note_truncation _ ?run1"] by simp
  next
    case visited
    then have "visit_entry (pg_options pg) (pg_nodes pg) (pg_target pg) (walk_state pg es) entry run = Continue ?run1"
      by (simp add: visit_entry_def Let_def)
    moreover have "covered pg (expanded \<union> set queue) es entry"
      using covered_on_path [OF anc, of es entry] es visited(3) unfolding on_path_iff by blast
    ultimately show ?thesis using ok1 by (auto intro: exI [of _ "[]"])
  next
    case worse
    then have "visit_entry (pg_options pg) (pg_nodes pg) (pg_target pg) (walk_state pg es) entry run = Continue ?run2"
      unfolding visit_entry_def Let_def flow_improves pg_certainty_def [symmetric] label by (simp add: imp2)
    moreover have "covered pg (expanded \<union> set queue) es entry" using covered_best [OF recd worse(4) layer] .
    ultimately show ?thesis using ok2 by (auto intro: exI [of _ "[]"])
  next
    case full
    then have "visit_entry (pg_options pg) (pg_nodes pg) (pg_target pg) (walk_state pg es) entry run
        = Break (note_truncation \<lparr>ti_bound = ''node_limit'', ti_limit = io_node_limit (pg_options pg),
            ti_observed = length (ir_items ?run2) + 1, ti_explanation = ''distinct-node limit stopped impact propagation''\<rparr> ?run2)"
      unfolding visit_entry_def Let_def flow_improves pg_certainty_def [symmetric] label by (simp add: imp2)
    then show ?thesis using run_ok_update [OF ok2, of "note_truncation _ ?run2"] by simp
  next
    case reach
    obtain node where node: "bt_get (pg_nodes pg) ?w = Some node"
      using available_known [OF ok(1) entry] by (auto simp: bt_contains_def)
    let ?run3 = "Impact.reach node (walk_state pg (es @ [entry])) ?run2"
    have flow: "visit_entry (pg_options pg) (pg_nodes pg) (pg_target pg) (walk_state pg es) entry run = Continue ?run3"
      using reach node unfolding visit_entry_def Let_def flow_improves pg_certainty_def [symmetric] label walk_state_extend
      by (simp add: imp2)
    have route: "impact_route pg (es @ [entry])"
      using route_extend [of pg es entry] ok(2) es entry depth reach(1,3) by (simp add: run_ok_def)
    have "counted pg ?run1 es" using ok1 es by (auto simp: run_ok_def)
    then have "counted pg ?run2 (es @ [entry])"
      using count_certainty_fields(4-7) [where run = ?run1] by (auto simp: counted_def intro: less_le_trans)
    then have "run_ok pg expanded (queue @ [es @ [entry]]) ?run3"
      using run_ok_reach [OF ok2 es route node] reach(4,5) imp2 by auto
    moreover have "ir_truncation ?run3 = ir_truncation run" by (simp add: reach_def)
    moreover have "covered pg (expanded \<union> set (queue @ [es @ [entry]])) es entry"
      unfolding covered_def by (intro bexI [of _ "es @ [entry]"]) simp_all
    ultimately show ?thesis unfolding flow by (auto intro!: exI [of _ "[es @ [entry]]"])
  qed
qed

text \<open>The queue holds at most two layers: routes as long as the expanded one, then routes longer by one.\<close>

definition layered :: "adjacency list set \<Rightarrow> adjacency list \<Rightarrow> adjacency list list \<Rightarrow> bool" where
  "layered expanded es queue \<longleftrightarrow> (\<forall>fs \<in> expanded. length fs \<le> length es)
     \<and> (\<forall>fs \<in> set queue. length es \<le> length fs \<and> length fs \<le> length es + 1) \<and> sorted (map length queue)"

lemma layered_next: "layered expanded es queue \<Longrightarrow> queue \<noteq> [] \<Longrightarrow> layered (insert (hd queue) expanded) (hd queue) (tl queue)"
  by (cases queue) (fastforce simp: layered_def)+

lemma layered_push: "layered expanded es queue \<Longrightarrow> set fresh \<subseteq> {es @ [entry]} \<Longrightarrow> layered expanded es (queue @ fresh)"
proof -
  assume layer: "layered expanded es queue" and fresh: "set fresh \<subseteq> {es @ [entry]}"
  have "\<forall>x \<in> set (map length fresh). x = length es + 1" using fresh by auto
  moreover from this have "sorted (map length fresh)" by (induction fresh) auto
  ultimately show ?thesis using layer by (auto simp: layered_def sorted_append)
qed

definition closed_route :: "propagation \<Rightarrow> adjacency list set \<Rightarrow> adjacency list \<Rightarrow> bool" where
  "closed_route pg found es \<longleftrightarrow> (\<forall>entry \<in> set (pg_entries pg (route_end pg es)). is_propagating (e_kind (ay_edge entry))
     \<and> \<not> is_structural_direction_pivot (ts_path (walk_state pg es)) entry \<longrightarrow> covered pg found es entry)"

lemma closed_route_mono: "closed_route pg found es \<Longrightarrow> found \<subseteq> found' \<Longrightarrow> closed_route pg found' es"
  unfolding closed_route_def using covered_mono by blast

lemma visit_entries_ok:
  assumes "pg_ok pg" and "run_ok pg expanded queue run" and "es \<in> expanded" and "set entries \<subseteq> set (pg_entries pg (route_end pg es))"
    and "length es < io_max_depth (pg_options pg)" and "layered expanded es queue"
  shows "\<exists>run' fresh. visit_entries (pg_options pg) (pg_nodes pg) (pg_target pg) (walk_state pg es) entries run = Inr run'
     \<and> run_ok pg expanded (queue @ fresh) run' \<and> layered expanded es (queue @ fresh)
     \<and> (ir_truncation run' = None \<longrightarrow> ir_truncation run = None \<and> (\<forall>entry \<in> set entries. is_propagating (e_kind (ay_edge entry))
          \<and> \<not> is_structural_direction_pivot (ts_path (walk_state pg es)) entry
          \<longrightarrow> covered pg (expanded \<union> set (queue @ fresh)) es entry))"
  using assms(2,4,6)
proof (induction entries arbitrary: queue run)
  case Nil
  then show ?case by (auto intro: exI [of _ "[]"])
next
  case (Cons entry entries)
  have layer: "\<forall>fs \<in> expanded \<union> set queue. length fs \<le> length es + 1" using Cons.prems(3) by (auto simp: layered_def)
  have "entry \<in> set (pg_entries pg (route_end pg es))" using Cons.prems(2) by simp
  note step = visit_entry_ok [OF assms(1) Cons.prems(1) assms(3) this assms(5) layer]
  show ?case
  proof (cases "visit_entry (pg_options pg) (pg_nodes pg) (pg_target pg) (walk_state pg es) entry run")
    case (Continue run1)
    then obtain fresh1 where one: "set fresh1 \<subseteq> {es @ [entry]}" "run_ok pg expanded (queue @ fresh1) run1"
        "ir_truncation run1 = ir_truncation run"
        "is_propagating (e_kind (ay_edge entry)) \<and> \<not> is_structural_direction_pivot (ts_path (walk_state pg es)) entry
          \<longrightarrow> covered pg (expanded \<union> set (queue @ fresh1)) es entry"
      using step by auto
    obtain run' fresh where rest: "visit_entries (pg_options pg) (pg_nodes pg) (pg_target pg) (walk_state pg es) entries run1 = Inr run'"
        "run_ok pg expanded ((queue @ fresh1) @ fresh) run'" "layered expanded es ((queue @ fresh1) @ fresh)"
        "ir_truncation run' = None \<longrightarrow> ir_truncation run1 = None \<and> (\<forall>entry \<in> set entries. is_propagating (e_kind (ay_edge entry))
          \<and> \<not> is_structural_direction_pivot (ts_path (walk_state pg es)) entry
          \<longrightarrow> covered pg (expanded \<union> set ((queue @ fresh1) @ fresh)) es entry)"
      using Cons.IH [OF one(2) _ layered_push [OF Cons.prems(3) one(1)]] Cons.prems(2) by auto
    have "expanded \<union> set (queue @ fresh1) \<subseteq> expanded \<union> set ((queue @ fresh1) @ fresh)" by auto
    then have "is_propagating (e_kind (ay_edge entry)) \<and> \<not> is_structural_direction_pivot (ts_path (walk_state pg es)) entry
        \<longrightarrow> covered pg (expanded \<union> set ((queue @ fresh1) @ fresh)) es entry"
      using one(4) covered_mono by blast
    then show ?thesis
      using rest Continue one(3) by (intro exI [of _ run'] exI [of _ "fresh1 @ fresh"]) simp
  next
    case (Break run1)
    then show ?thesis using step Cons.prems(3) by (auto intro: exI [of _ "[]"])
  next
    case (Fail e)
    then show ?thesis using step by simp
  qed
qed

lemma run_ok_pop:
  assumes "run_ok pg expanded (es # queue) run"
  shows "run_ok pg (insert es expanded) queue (run\<lparr>ir_queue := map (walk_state pg) queue\<rparr>)"
proof -
  have found: "insert es expanded \<union> set queue = expanded \<union> set (es # queue)" by auto
  have "recorded pg found (run\<lparr>ir_queue := q\<rparr>) = recorded pg found run" "counted pg (run\<lparr>ir_queue := q\<rparr>) fs \<longleftrightarrow> counted pg run fs"
    for found q fs by (rule ext, rule recorded_cong; simp) (simp add: counted_def)
  then show ?thesis using assms unfolding run_ok_def found by (elim conjE) (intro conjI; simp)
qed

lemma depth_bound_ok:
  assumes "run_ok pg expanded queue run" and "es \<in> expanded"
  shows "run_ok pg expanded queue (note_depth_bound (pg_options pg) (pg_entries pg (route_end pg es)) (walk_state pg es) run)"
    and "ir_truncation (note_depth_bound (pg_options pg) (pg_entries pg (route_end pg es)) (walk_state pg es) run) = None \<Longrightarrow>
      ir_truncation run = None \<and> closed_route pg (expanded \<union> set queue) es"
proof -
  let ?run = "note_depth_bound (pg_options pg) (pg_entries pg (route_end pg es)) (walk_state pg es) run"
  show "run_ok pg expanded queue ?run"
    by (rule run_ok_update [OF assms(1)]) (simp_all add: note_depth_bound_def)
  show "ir_truncation run = None \<and> closed_route pg (expanded \<union> set queue) es" if none: "ir_truncation ?run = None"
  proof -
    have "ancestors_found pg (expanded \<union> set queue)" using assms(1) by (simp add: run_ok_def)
    then have "covered pg (expanded \<union> set queue) es entry" if "ay_neighbor entry \<in> is_from ` set (ts_path (walk_state pg es))" for entry
      using covered_on_path [of pg "expanded \<union> set queue" es entry] assms(2) that steps_from [of "pg_target pg" es]
      by (auto simp: walk_state_def)
    then show ?thesis
      using none unfolding note_depth_bound_def closed_route_def by (auto simp: note_truncation_fields split: if_splits)
  qed
qed

definition loop_ok :: "propagation \<Rightarrow> adjacency list set \<Rightarrow> adjacency list list \<Rightarrow> impact_run \<Rightarrow> bool" where
  "loop_ok pg expanded queue run \<longleftrightarrow> run_ok pg expanded queue run \<and> [] \<in> expanded \<union> set queue
     \<and> (queue \<noteq> [] \<longrightarrow> layered (insert (hd queue) expanded) (hd queue) (tl queue))
     \<and> (ir_truncation run = None \<longrightarrow> (\<forall>es \<in> expanded. closed_route pg (expanded \<union> set queue) es))"

lemma impact_loop_ok:
  assumes "pg_ok pg" and "loop_ok pg expanded queue run" and "options = pg_options pg"
    and "adjacency = build_adjacency (pg_edges pg) (pg_direction pg)" and "nodes = pg_nodes pg" and "target_id = pg_target pg"
  shows "\<exists>run' expanded' queue'. impact_loop options adjacency nodes target_id run = Inr run'
     \<and> run_ok pg expanded' queue' run' \<and> [] \<in> expanded' \<union> set queue'
     \<and> (ir_truncation run' = None \<longrightarrow> queue' = [] \<and> (\<forall>es \<in> expanded'. closed_route pg expanded' es))"
  using assms(2-6)
proof (induction options adjacency nodes target_id run arbitrary: expanded queue rule: impact_loop.induct)
  case (1 options adjacency nodes target_id run)
  note args = "1.prems"(2-5)
  have run: "run_ok pg expanded queue run" using "1.prems"(1) by (simp add: loop_ok_def)
  show ?case
  proof (cases queue)
    case Nil
    then have "impact_loop options adjacency nodes target_id run = Inr run"
      using run by (simp add: impact_loop.simps run_ok_def)
    then show ?thesis
      using "1.prems"(1) Nil by (intro exI [of _ run] exI [of _ expanded] exI [of _ "[]"]) (simp add: loop_ok_def)
  next
    case (Cons es rest)
    let ?run = "run\<lparr>ir_queue := map (walk_state pg) rest\<rparr>"
    have popped: "run_ok pg (insert es expanded) rest ?run" using run_ok_pop run unfolding Cons .
    have pop: "ir_queue run = walk_state pg es # map (walk_state pg) rest" using run Cons by (simp add: run_ok_def)
    have found: "insert es expanded \<union> set rest = expanded \<union> set queue" using Cons by auto
    have layer: "layered (insert es expanded) es rest" using "1.prems"(1) Cons by (simp add: loop_ok_def)
    have entries: "bt_group adjacency (ts_node_id (walk_state pg es)) = pg_entries pg (route_end pg es)"
      by (simp add: args pg_entries_def)
    show ?thesis
    proof (cases "length es = io_max_depth options")
      case True
      let ?next = "note_depth_bound options (pg_entries pg (route_end pg es)) (walk_state pg es) ?run"
      note bound = depth_bound_ok [OF popped, of es, folded args(1)]
      have "loop_ok pg (insert es expanded) rest ?next"
        using bound "1.prems"(1) layered_next [OF layer] unfolding loop_ok_def found by auto
      moreover have "impact_loop options adjacency nodes target_id run = impact_loop options adjacency nodes target_id ?next"
        using True pop entries by (subst impact_loop.simps) simp
      ultimately show ?thesis
        using "1.IH"(1) [OF pop, of "insert es expanded" rest] True args entries by simp
    next
      case False
      have "impact_route pg es" using run Cons by (simp add: run_ok_def)
      then have "length es < io_max_depth (pg_options pg)" using False args(1) by (simp add: impact_route_def)
      then obtain run' fresh where visit: "visit_entries options nodes target_id (walk_state pg es) (pg_entries pg (route_end pg es)) ?run = Inr run'"
          "run_ok pg (insert es expanded) (rest @ fresh) run'" "layered (insert es expanded) es (rest @ fresh)"
          "ir_truncation run' = None \<longrightarrow> ir_truncation ?run = None \<and> closed_route pg (insert es expanded \<union> set (rest @ fresh)) es"
        using visit_entries_ok [OF assms(1) popped, of es "pg_entries pg (route_end pg es)"] layer
        unfolding args closed_route_def by auto
      have start: "[] \<in> insert es expanded \<union> set (rest @ fresh)" using "1.prems"(1) Cons by (auto simp: loop_ok_def)
      have loop: "impact_loop options adjacency nodes target_id run
          = (if work_bound_stopped run' then Inr run' else impact_loop options adjacency nodes target_id run')"
        using False pop entries visit(1) by (subst impact_loop.simps) simp
      show ?thesis
      proof (cases "work_bound_stopped run'")
        case True
        then have "ir_truncation run' \<noteq> None" by (auto simp: work_bound_stopped_def split: option.splits)
        then show ?thesis
          using loop True visit(2) start by (intro exI [of _ run'] exI [of _ "insert es expanded"] exI [of _ "rest @ fresh"]) auto
      next
        case go: False
        have "expanded \<union> set queue \<subseteq> insert es expanded \<union> set (rest @ fresh)" using Cons by auto
        then have "loop_ok pg (insert es expanded) (rest @ fresh) run'"
          using "1.prems"(1) visit(2,4) start layered_next [OF visit(3)] closed_route_mono unfolding loop_ok_def by auto
        then show ?thesis
          using "1.IH"(2) [OF pop, of run' "insert es expanded" "rest @ fresh"] False go args entries visit(1) loop by simp
      qed
    qed
  qed
qed

subsection \<open>The result of a propagation\<close>

lemma loop_ok_start:
  assumes "pg_ok pg"
  shows "loop_ok pg {} [[]] (impact_start (pg_target pg))"
proof -
  have "recorded pg {[]} (impact_start (pg_target pg)) w" for w
    by (simp add: recorded_def impact_start_def route_label_def walk_certainty_def)
  then show ?thesis
    by (auto simp: loop_ok_def run_ok_def impact_start_def walk_state_Nil impact_route_def counted_def ancestors_found_def
        layered_def bt_wf_def)
qed

lemma propagation_result:
  assumes "pg_ok pg"
  shows "\<exists>run expanded queue. impact_loop (pg_options pg) (build_adjacency (pg_edges pg) (pg_direction pg)) (pg_nodes pg) (pg_target pg)
        (impact_start (pg_target pg)) = Inr run
     \<and> run_ok pg expanded queue run \<and> [] \<in> expanded \<union> set queue
     \<and> (ir_truncation run = None \<longrightarrow> queue = [] \<and> (\<forall>es \<in> expanded. closed_route pg expanded es))"
  using impact_loop_ok [OF assms loop_ok_start [OF assms] refl refl refl refl] .

text \<open>No structural pivot can occur when relationships are followed in one direction only, or when none is structural.\<close>

definition pivot_free :: "propagation \<Rightarrow> bool" where
  "pivot_free pg \<longleftrightarrow> pg_direction pg \<noteq> BothDirections \<or> (\<forall>edge \<in> set (pg_edges pg). e_kind edge \<noteq> Contains)"

lemma available_reversed:
  "available pg u a \<Longrightarrow> pg_direction pg \<noteq> BothDirections \<Longrightarrow> ay_reversed a \<longleftrightarrow> pg_direction pg = Upstream"
  by (cases "pg_direction pg") (auto simp: available_def edge_entries_def)

lemma available_edge: "available pg u a \<Longrightarrow> ay_edge a \<in> set (pg_edges pg)"
  by (auto simp: available_def edge_entries_def split: if_splits)

lemma no_pivot:
  assumes "pivot_free pg" and "available pg u a" and "available pg v b"
  shows "\<not> pivots a b"
  using assms available_reversed [OF assms(2)] available_reversed [OF assms(3)] available_edge [OF assms(3)]
  by (auto simp: pivot_free_def pivots_def)

lemma walk_last_available: "impact_walk pg u es v \<Longrightarrow> es \<noteq> [] \<Longrightarrow> \<exists>w. available pg w (last es)"
  by (induction es arbitrary: u) auto

lemma closed_walks:
  assumes "pivot_free pg" and closed: "\<forall>es \<in> found. closed_route pg found es" and "[] \<in> found"
    and routes: "\<forall>es \<in> found. impact_route pg es" and "impact_walk pg (pg_target pg) ws v"
  shows "\<exists>es \<in> found. route_end pg es = v \<and> walk_certainty pg es \<le> walk_certainty pg ws \<and> length es \<le> length ws"
  using assms(5)
proof (induction ws arbitrary: v rule: rev_induct)
  case Nil
  then show ?case using assms(3) by (intro bexI [of _ "[]"]) auto
next
  case (snoc entry ws)
  then obtain u where u: "impact_walk pg (pg_target pg) ws u" "available pg u entry" "v = ay_neighbor entry"
    by (auto simp: impact_walk_append)
  obtain es where es: "es \<in> found" "route_end pg es = u" "walk_certainty pg es \<le> walk_certainty pg ws" "length es \<le> length ws"
    using snoc.IH [OF u(1)] by blast
  have "\<not> is_structural_direction_pivot (ts_path (walk_state pg es)) entry"
  proof (cases "es = []")
    case False
    have "impact_walk pg (pg_target pg) es (route_end pg es)" using routes es(1) by (simp add: impact_route_def)
    then obtain w where "available pg w (last es)" using walk_last_available False by blast
    then show ?thesis using no_pivot [OF assms(1) _ u(2)] by (simp add: walk_state_def pivot_iff)
  qed (simp add: walk_state_def is_structural_direction_pivot_def)
  then have "covered pg found es entry"
    using closed es(1,2) u(2) unfolding closed_route_def available_iff by blast
  then obtain fs where fs: "fs \<in> found" "route_end pg fs = v" "walk_certainty pg fs \<le> max (walk_certainty pg es) (pg_certainty pg entry)"
      "length fs \<le> length es + 1"
    using u(3) by (auto simp: covered_def)
  have "walk_certainty pg fs \<le> walk_certainty pg (ws @ [entry])" using fs(3) es(3) by (auto intro: order_trans max.mono)
  then show ?case using fs es(4) by (intro bexI [of _ fs]) auto
qed

text \<open>A node with the best label it can be reached with.\<close>

definition best_label :: "propagation \<Rightarrow> node_id \<Rightarrow> path_certainty \<times> nat \<Rightarrow> bool" where
  "best_label pg v label \<longleftrightarrow> (\<exists>es. impact_route pg es \<and> route_end pg es = v \<and> route_label pg es = label)
     \<and> (\<forall>es. impact_walk pg (pg_target pg) es v \<longrightarrow> label \<le> route_label pg es)"

lemma recorded_item:
  assumes "recorded pg found run w" and "bt_get (ir_items run) w = Some item"
  shows "\<exists>es node. es \<in> found \<and> route_end pg es = w \<and> w \<noteq> pg_target pg \<and> bt_get (pg_nodes pg) w = Some node
     \<and> item = state_item node (walk_state pg es) \<and> (\<forall>fs \<in> found. route_end pg fs = w \<longrightarrow> route_label pg es \<le> route_label pg fs)"
  using assms by (auto simp: recorded_def split: option.splits if_splits)

lemma item_of_found:
  assumes "recorded pg found run w" and "es \<in> found" and "route_end pg es = w" and "w \<noteq> pg_target pg"
  shows "\<exists>item. bt_get (ir_items run) w = Some item"
  using assms by (auto simp: recorded_def split: option.splits)

lemma item_best:
  assumes run: "run_ok pg expanded [] run" "[] \<in> expanded" "\<forall>es \<in> expanded. closed_route pg expanded es" and "pivot_free pg"
    and "bt_get (ir_items run) w = Some item"
  shows "\<exists>label. best_label pg w label \<and> it_classification item = classify (fst label) (snd label) \<and> it_depth item = snd label"
proof -
  have routes: "\<forall>es \<in> expanded. impact_route pg es" and "recorded pg expanded run w" using run(1) by (simp_all add: run_ok_def)
  then obtain es node where es: "es \<in> expanded" "route_end pg es = w" "item = state_item node (walk_state pg es)"
      "\<forall>fs \<in> expanded. route_end pg fs = w \<longrightarrow> route_label pg es \<le> route_label pg fs"
    using recorded_item [OF _ assms(5)] by blast
  have "route_label pg es \<le> route_label pg ws" if walk: "impact_walk pg (pg_target pg) ws w" for ws
  proof -
    obtain fs where fs: "fs \<in> expanded" "route_end pg fs = w" "walk_certainty pg fs \<le> walk_certainty pg ws" "length fs \<le> length ws"
      using closed_walks [OF assms(4) run(3,2) routes walk] by blast
    then have "route_label pg fs \<le> route_label pg ws" by (auto simp: route_label_def less_eq_prod_def le_less)
    then show ?thesis using es(4) fs(1,2) by (blast intro: order_trans)
  qed
  then have "best_label pg w (route_label pg es)" using routes es(1,2) unfolding best_label_def by blast
  then show ?thesis using es(3) by (intro exI [of _ "route_label pg es"]) (simp add: state_item_def route_label_def walk_state_def)
qed

lemma item_reached:
  assumes run: "run_ok pg expanded [] run" "[] \<in> expanded" "\<forall>es \<in> expanded. closed_route pg expanded es" and "pivot_free pg"
  shows "bt_get (ir_items run) v \<noteq> None \<longleftrightarrow> v \<noteq> pg_target pg \<and> (\<exists>es. impact_walk pg (pg_target pg) es v)"
proof -
  have routes: "\<forall>es \<in> expanded. impact_route pg es" and rec: "recorded pg expanded run v" using run(1) by (simp_all add: run_ok_def)
  show ?thesis
  proof
    assume "bt_get (ir_items run) v \<noteq> None"
    then obtain item where "bt_get (ir_items run) v = Some item" by blast
    from recorded_item [OF rec this] routes show "v \<noteq> pg_target pg \<and> (\<exists>es. impact_walk pg (pg_target pg) es v)"
      by (auto simp: impact_route_def)
  next
    assume v: "v \<noteq> pg_target pg \<and> (\<exists>es. impact_walk pg (pg_target pg) es v)"
    then obtain es where "es \<in> expanded" "route_end pg es = v" using closed_walks [OF assms(4) run(3,2) routes] by blast
    then show "bt_get (ir_items run) v \<noteq> None" using item_of_found [OF rec] v by blast
  qed
qed

end
