(* ===== verification/Impact_Correct.thy ===== *)
theory Impact_Correct
  imports Impact_Search
begin

text \<open>
  What an impact report promises: the items are routes of the validated graph, they are all of them when nothing was
  truncated and no structural pivot can occur, the aggregates summarize them exactly, and a numeric risk is given only
  when the coverage of the inputs has no gap.
\<close>

subsection \<open>Validated contexts\<close>

definition context_index :: "impact_context \<Rightarrow> (node_id, node) btree_map" where
  "context_index context = fold (\<lambda>node. bt_insert (n_id node) node) (ix_nodes context) []"

definition request_propagation :: "impact_request \<Rightarrow> impact_context \<Rightarrow> node_id \<Rightarrow> propagation" where
  "request_propagation request context target_id = \<lparr>pg_options = iq_options request, pg_edges = ix_edges context,
     pg_direction = iq_direction request, pg_nodes = context_index context, pg_target = target_id\<rparr>"

lemma index_nodes_result:
  "index_nodes nodes m = Inr m' \<Longrightarrow> m' = fold (\<lambda>node. bt_insert (n_id node) node) nodes m
     \<and> distinct (map n_id nodes) \<and> (\<forall>node \<in> set nodes. \<not> bt_contains m (n_id node))"
proof (induction nodes m rule: index_nodes.induct)
  case (2 node rest nodes)
  then show ?case by (auto split: if_splits)
qed simp

lemma index_fold:
  assumes "bt_wf m"
  shows "bt_wf (fold (\<lambda>node. bt_insert (n_id node) node) nodes m)
     \<and> (\<forall>u node. bt_get (fold (\<lambda>node. bt_insert (n_id node) node) nodes m) u = Some node \<longrightarrow>
          (node \<in> set nodes \<and> n_id node = u) \<or> bt_get m u = Some node)"
  using assms
proof (induction nodes arbitrary: m)
  case (Cons x nodes)
  from Cons.IH [OF bt_wf_insert [OF Cons.prems, of "n_id x" x]] show ?case using Cons.prems by (auto split: if_splits)
qed simp

lemma context_index_get: "bt_get (context_index context) u = Some node \<Longrightarrow> node \<in> set (ix_nodes context) \<and> n_id node = u"
proof -
  assume "bt_get (context_index context) u = Some node"
  then have "(node \<in> set (ix_nodes context) \<and> n_id node = u) \<or> bt_get [] u = Some node"
    using conjunct2 [OF index_fold [OF bt_wf_Nil, of "ix_nodes context"]] unfolding context_index_def by blast
  then show ?thesis by simp
qed

lemma check_edges_known:
  "check_edges nodes edges seen = Inr u \<Longrightarrow> edge \<in> set edges \<Longrightarrow> bt_contains nodes (e_source edge) \<and> bt_contains nodes (e_target edge)"
  by (induction nodes edges seen rule: check_edges.induct) (auto split: if_splits)

lemma validated_context:
  assumes "validate_context request context = Inr nodes"
  shows "nodes = context_index context" and "distinct (map n_id (ix_nodes context))"
    and "\<forall>edge \<in> set (ix_edges context). bt_contains nodes (e_source edge) \<and> bt_contains nodes (e_target edge)"
    and "\<not> invalid_bounds (iq_options request)"
  using assms index_nodes_result [of "ix_nodes context" "[]" nodes] check_edges_known [of nodes "ix_edges context" "[]"]
  by (auto simp: validate_context_def context_index_def split: if_splits)

lemma resolved_target:
  assumes "resolve_target selector (context_index context) = Inr target"
  shows "bt_get (context_index context) (n_id (rt_node target)) = Some (rt_node target)"
proof (cases selector)
  case (TargetNodeId node_id)
  then obtain node where node: "bt_get (context_index context) node_id = Some node" "target = \<lparr>rt_node = node, rt_resolved_by = ''node_id''\<rparr>"
    using assms by auto
  then show ?thesis using context_index_get [OF node(1)] by simp
next
  case (TargetStableKey key)
  then have "filter (\<lambda>node. n_stable_key node = key) (bt_values (context_index context)) = [rt_node target]"
    using assms by (auto split: list.splits)
  then have "rt_node target \<in> set (filter (\<lambda>node. n_stable_key node = key) (bt_values (context_index context)))" by simp
  then have "rt_node target \<in> set (bt_values (context_index context))" by simp
  then obtain u where "(u, rt_node target) \<in> set (context_index context)" by auto
  then have "bt_get (context_index context) u = Some (rt_node target)"
    using bt_get_iff_mem index_fold [of "[]" "ix_nodes context"] by (metis bt_wf_Nil context_index_def)
  then show ?thesis using context_index_get by fastforce
qed

lemma request_pg_ok:
  assumes "validate_context request context = Inr nodes" and "bt_get nodes target_id \<noteq> None"
  shows "pg_ok (request_propagation request context target_id)"
  using validated_context [OF assms(1)] assms(2) context_index_get
  by (auto simp: pg_ok_def request_propagation_def bt_contains_def)

lemma propagate_impact_result:
  assumes "validate_context request context = Inr nodes" and "bt_get nodes (n_id target) \<noteq> None"
  defines "pg \<equiv> request_propagation request context (n_id target)"
  shows "\<exists>run expanded queue. propagate_impact request context nodes target
        = Inr (bt_values (ir_items run), ir_truncation run, ir_possible run, ir_unknown run)
     \<and> run_ok pg expanded queue run \<and> [] \<in> expanded \<union> set queue
     \<and> (ir_truncation run = None \<longrightarrow> queue = [] \<and> (\<forall>es \<in> expanded. closed_route pg expanded es))"
proof -
  have "pg_ok pg" unfolding pg_def using request_pg_ok [OF assms(1,2)] .
  from propagation_result [OF this] obtain run expanded queue where run:
      "impact_loop (pg_options pg) (build_adjacency (pg_edges pg) (pg_direction pg)) (pg_nodes pg) (pg_target pg) (impact_start (pg_target pg)) = Inr run"
      "run_ok pg expanded queue run" "[] \<in> expanded \<union> set queue"
      "ir_truncation run = None \<longrightarrow> queue = [] \<and> (\<forall>es \<in> expanded. closed_route pg expanded es)"
    by (elim exE conjE) (rule that)
  then show ?thesis
    using validated_context(1) [OF assms(1)]
    by (intro exI [of _ run] exI [of _ expanded] exI [of _ queue])
      (simp add: pg_def request_propagation_def propagate_impact_def)
qed

text \<open>What an item reports: a loopless route from the target, its certainty, its length and the evidence of its relationships.\<close>

definition item_of_route :: "propagation \<Rightarrow> adjacency list \<Rightarrow> node list \<Rightarrow> impact_item \<Rightarrow> bool" where
  "item_of_route pg es nodes item \<longleftrightarrow> impact_route pg es \<and> es \<noteq> []
     \<and> it_node item \<in> set nodes \<and> n_id (it_node item) = route_end pg es
     \<and> it_path item = steps_of (pg_target pg) es \<and> it_depth item = length es
     \<and> it_classification item = classify (walk_certainty pg es) (length es)
     \<and> set (it_evidence item) = (\<Union>entry \<in> set es. set (e_evidence (ay_edge entry)))"

lemma run_items:
  assumes "run_ok pg expanded queue run" and "pg_nodes pg = context_index context"
  shows "item \<in> set (bt_values (ir_items run)) \<Longrightarrow> \<exists>es. es \<in> expanded \<union> set queue \<and> item_of_route pg es (ix_nodes context) item \<and> counted pg run es"
    and "\<exists>item \<in> set (bt_values (ir_items run)). n_id (it_node item) = v \<Longrightarrow> bt_get (ir_items run) v \<noteq> None"
    and "item \<in> set (bt_values (ir_items run)) \<Longrightarrow> bt_get (ir_items run) (n_id (it_node item)) = Some item"
    and "bt_get (ir_items run) v = Some item \<Longrightarrow> item \<in> set (bt_values (ir_items run)) \<and> n_id (it_node item) = v"
proof -
  have wf: "bt_wf (ir_items run)" and rec: "\<And>w. recorded pg (expanded \<union> set queue) run w"
    and routes: "\<And>es. es \<in> expanded \<union> set queue \<Longrightarrow> impact_route pg es \<and> counted pg run es"
    using assms(1) by (simp_all add: run_ok_def)
  have get: "\<exists>es. es \<in> expanded \<union> set queue \<and> item_of_route pg es (ix_nodes context) item \<and> counted pg run es \<and> n_id (it_node item) = w"
    if item: "bt_get (ir_items run) w = Some item" for w item
  proof -
    obtain es node where es: "es \<in> expanded \<union> set queue" "route_end pg es = w" "w \<noteq> pg_target pg" "bt_get (pg_nodes pg) w = Some node"
        "item = state_item node (walk_state pg es)"
      using recorded_item [OF rec item] by blast
    have "node \<in> set (ix_nodes context) \<and> n_id node = w" using context_index_get es(4) assms(2) by simp
    then have "item_of_route pg es (ix_nodes context) item"
      using es routes [OF es(1)] by (auto simp: item_of_route_def state_item_def walk_state_def)
    then show ?thesis using es routes [OF es(1)] by (auto simp: item_of_route_def)
  qed
  have mem: "item \<in> set (bt_values (ir_items run)) \<longleftrightarrow> (\<exists>w. bt_get (ir_items run) w = Some item)" for item
    using bt_get_iff_mem [OF wf] by force
  show "item \<in> set (bt_values (ir_items run)) \<Longrightarrow> \<exists>es. es \<in> expanded \<union> set queue \<and> item_of_route pg es (ix_nodes context) item \<and> counted pg run es"
    and "\<exists>item \<in> set (bt_values (ir_items run)). n_id (it_node item) = v \<Longrightarrow> bt_get (ir_items run) v \<noteq> None"
    and "item \<in> set (bt_values (ir_items run)) \<Longrightarrow> bt_get (ir_items run) (n_id (it_node item)) = Some item"
    and "bt_get (ir_items run) v = Some item \<Longrightarrow> item \<in> set (bt_values (ir_items run)) \<and> n_id (it_node item) = v"
    using get mem by blast+
qed

subsection \<open>The report\<close>

text \<open>The stages of a successful analysis.\<close>

lemma analyze_impact_stages:
  assumes "analyze_impact request context = Inr report"
  obtains nodes target items truncation possible unknown where
    "validate_context request context = Inr nodes" "resolve_target (iq_target request) nodes = Inr target"
    "propagate_impact request context nodes (rt_node target) = Inr (items, truncation, possible, unknown)"
    "report = impact_report_of request context nodes target (sort_items items) truncation possible unknown"
  using assms by (auto simp: analyze_impact_def)

lemma report_fields:
  "ip_target (impact_report_of request context nodes target items truncation possible unknown) = target"
  "ip_truncation (impact_report_of request context nodes target items truncation possible unknown) = truncation"
  "ip_coverage (impact_report_of request context nodes target items truncation possible unknown)
     = summarize_coverage (rt_node target) items context truncation possible unknown"
  by (simp_all add: impact_report_of_def Let_def)

definition reported_items :: "impact_report \<Rightarrow> impact_item set" where
  "reported_items report = set (ip_direct_consumers report) \<union> set (ip_transitive_consumers report)
     \<union> set (ip_possibly_affected report) \<union> set (ip_unknown_due_to_coverage report)"

lemma reported_page:
  "reported_items (impact_report_of request context nodes target items truncation possible unknown) = set (impact_page (iq_options request) items)"
  using impact_classification.exhaust by (auto simp: impact_report_of_def Let_def reported_items_def split_classifications_def)

lemma page_subset: "set (impact_page options items) \<subseteq> set items"
  by (auto simp: impact_page_def dest: in_set_takeD in_set_dropD)

lemma stage_run:
  assumes "validate_context request context = Inr nodes" and "resolve_target selector nodes = Inr target"
    and "propagate_impact request context nodes (rt_node target) = Inr (items, truncation, possible, unknown)"
    and pg: "pg = request_propagation request context (n_id (rt_node target))"
  obtains run expanded queue where "run_ok pg expanded queue run" "[] \<in> expanded \<union> set queue"
    "truncation = None \<longrightarrow> queue = [] \<and> (\<forall>es \<in> expanded. closed_route pg expanded es)"
    "items = bt_values (ir_items run)" "possible = ir_possible run" "unknown = ir_unknown run"
proof -
  have "bt_get nodes (n_id (rt_node target)) \<noteq> None"
    using resolved_target assms(2) validated_context(1) [OF assms(1)] by fastforce
  from propagate_impact_result [OF assms(1) this] show ?thesis
    using assms(3) that unfolding pg by (elim exE conjE) simp
qed

lemma set_sort_items [simp]: "set (sort_items items) = set items"
  by (simp add: sort_items_def)

lemma request_propagation_fields [simp]:
  "pg_nodes (request_propagation request context t) = context_index context" "pg_target (request_propagation request context t) = t"
  "pg_options (request_propagation request context t) = iq_options request"
  "pg_edges (request_propagation request context t) = ix_edges context"
  "pg_direction (request_propagation request context t) = iq_direction request"
  by (simp_all add: request_propagation_def)

text \<open>
  C10: Every item of a report stands for a route of the validated graph from the target: each step follows a
  propagating relationship in the requested direction, no node repeats, no step turns around within a structural
  containment, the length is at most the maximum depth, and the item's node, depth, path, classification and evidence are those of the route.\<close>
theorem impact_sound:
  assumes "analyze_impact request context = Inr report" and "item \<in> reported_items report"
  shows "\<exists>es. item_of_route (request_propagation request context (n_id (rt_node (ip_target report)))) es (ix_nodes context) item"
  using assms(1)
proof (rule analyze_impact_stages)
  fix nodes target items truncation possible unknown
  assume st: "validate_context request context = Inr nodes" "resolve_target (iq_target request) nodes = Inr target"
    "propagate_impact request context nodes (rt_node target) = Inr (items, truncation, possible, unknown)"
    and report: "report = impact_report_of request context nodes target (sort_items items) truncation possible unknown"
  show ?thesis
  proof (rule stage_run [OF st refl])
    fix run expanded queue
    assume run: "run_ok (request_propagation request context (n_id (rt_node target))) expanded queue run" and items: "items = bt_values (ir_items run)"
    have "item \<in> set (bt_values (ir_items run))"
      using assms(2) page_subset [of "iq_options request" "sort_items items"] unfolding report reported_page items by auto
    then show ?thesis using run_items(1) [OF run, of "context" item] unfolding report report_fields by auto
  qed
qed

text \<open>
  C2: Unless the propagation was truncated, and where no structural turn can occur (one direction, or no containment),
  the affected nodes are exactly the nodes other than the target that some walk of propagating relationships reaches, and each is
  reported with the best certainty any walk gives it and, for that certainty, the least depth.\<close>
theorem impact_complete:
  assumes "validate_context request context = Inr nodes" and "resolve_target (iq_target request) nodes = Inr target"
    and "propagate_impact request context nodes (rt_node target) = Inr (items, None, possible, unknown)"
    and pg: "pg = request_propagation request context (n_id (rt_node target))" and "pivot_free pg"
  shows "(\<forall>v. (\<exists>item \<in> set items. n_id (it_node item) = v) \<longleftrightarrow>
        v \<noteq> n_id (rt_node target) \<and> (\<exists>es. impact_walk pg (n_id (rt_node target)) es v))
     \<and> (\<forall>item \<in> set items. \<exists>label. best_label pg (n_id (it_node item)) label
          \<and> it_classification item = classify (fst label) (snd label) \<and> it_depth item = snd label)"
proof -
  obtain run expanded where run: "run_ok pg expanded [] run" "[] \<in> expanded"
      "\<forall>es \<in> expanded. closed_route pg expanded es" "items = bt_values (ir_items run)"
    by (rule stage_run [OF assms(1-3) pg]) simp
  have nodes: "pg_nodes pg = context_index context" "pg_target pg = n_id (rt_node target)" using pg by simp_all
  note items = run_items [OF run(1) nodes(1)]
  have "(\<exists>item \<in> set items. n_id (it_node item) = v) \<longleftrightarrow> v \<noteq> n_id (rt_node target) \<and> (\<exists>es. impact_walk pg (n_id (rt_node target)) es v)" for v
  proof -
    have "(\<exists>item \<in> set items. n_id (it_node item) = v) \<longleftrightarrow> bt_get (ir_items run) v \<noteq> None"
      using items(2,4) unfolding run(4) by blast
    then show ?thesis using item_reached [OF run(1-3) assms(5), of v] nodes(2) by simp
  qed
  moreover have "\<exists>label. best_label pg (n_id (it_node item)) label
       \<and> it_classification item = classify (fst label) (snd label) \<and> it_depth item = snd label" if "item \<in> set items" for item
    using item_best [OF run(1-3) assms(5)] items(3) that run(4) by blast
  ultimately show ?thesis by blast
qed

text \<open>
  C38: The analysis fails exactly when the validation of the context or the resolution of the target fails, and with
  the same error; on valid inputs the bounded propagation always ends with a report.\<close>
theorem impact_errors:
  "analyze_impact request context = Inl e \<longleftrightarrow> validate_context request context = Inl e
     \<or> (\<exists>nodes. validate_context request context = Inr nodes \<and> resolve_target (iq_target request) nodes = Inl e)"
proof -
  have "\<exists>r. propagate_impact request context nodes (rt_node target) = Inr r"
    if "validate_context request context = Inr nodes" "resolve_target (iq_target request) nodes = Inr target" for nodes target
  proof -
    have "bt_get nodes (n_id (rt_node target)) \<noteq> None"
      using resolved_target that(2) validated_context(1) [OF that(1)] by fastforce
    from propagate_impact_result [OF that(1) this] show ?thesis by (elim exE conjE) blast
  qed
  note total = this
  show ?thesis
  proof (cases "validate_context request context")
    case (Inr nodes)
    show ?thesis
    proof (cases "resolve_target (iq_target request) nodes")
      case target: (Inr target)
      obtain r where "propagate_impact request context nodes (rt_node target) = Inr r" using total [OF Inr target] by blast
      then show ?thesis using Inr target by (simp add: analyze_impact_def split_beta)
    qed (simp add: analyze_impact_def Inr)
  qed (simp add: analyze_impact_def)
qed

subsection \<open>Coverage and risk\<close>

lemma sorted_unique_Nil [simp]: "sorted_unique xs = [] \<longleftrightarrow> xs = []"
  using set_sorted_unique [of xs] by (metis set_empty)

lemma sufficient_iff:
  "cs_sufficient_for_score (summarize_coverage target items context truncation possible unknown)
     \<longleftrightarrow> cs_gaps (summarize_coverage target items context truncation possible unknown) = []"
  by (auto simp: summarize_coverage_def coverage_limitations_def limitation_def Let_def filter_empty_conv)

lemma sufficient_fresh:
  assumes "cs_sufficient_for_score (summarize_coverage target items context truncation possible unknown)"
  shows "cs_fresh_repositories (summarize_coverage target items context truncation possible unknown)
     = cs_relevant_repositories (summarize_coverage target items context truncation possible unknown)"
proof -
  let ?freshness = "\<lambda>repo_id. freshness_class_of (bt_get (freshness_states context) repo_id)"
  have "?freshness repo_id = FreshClass" if "repo_id \<in> set (relevant_repositories target items)" for repo_id
    using assms that by (cases "?freshness repo_id") (auto simp: summarize_coverage_def Let_def repositories_in_def filter_empty_conv)
  then show ?thesis by (simp add: summarize_coverage_def Let_def repositories_in_def)
qed

definition score_weight :: "f32 \<Rightarrow> bool" where
  "score_weight w \<longleftrightarrow> (case w of Fin q \<Rightarrow> 0 \<le> q | PosInf \<Rightarrow> True | _ \<Rightarrow> False)"

lemma round_score: "0 \<le> x \<Longrightarrow> score_weight (fp_round binary32 x)"
  using fp_weight_round [of binary32 x] by (cases "fp_round binary32 x") (simp_all add: score_weight_def binary32_def)

lemma add_score: "score_weight a \<Longrightarrow> score_weight b \<Longrightarrow> score_weight (fp_add binary32 a b)"
  by (cases a; cases b) (simp_all add: score_weight_def [of "Fin _"] round_score, simp_all add: score_weight_def)

lemma mul_score: "0 \<le> a \<Longrightarrow> 0 \<le> b \<Longrightarrow> score_weight (fp_mul binary32 (Fin a) (Fin b))"
  using round_score [of "a * b"] by (auto simp: fp_mul_def fp_signed_def score_weight_def Let_def)

lemma scaled_score: "0 \<le> w \<Longrightarrow> 0 \<le> cap \<Longrightarrow> score_weight (scaled_weight n w cap)"
  using mul_score [of "of_nat (min n 65535)" w]
  by (auto simp: scaled_weight_def usize_to_f32_def fp_min_def min_def score_weight_def split: fp.splits)

lemma fold_score:
  "score_weight t \<Longrightarrow> \<forall>f \<in> set factors. score_weight (rk_weight f) \<Longrightarrow>
     score_weight (fold (\<lambda>factor total. fp_add binary32 total (rk_weight factor)) factors t)"
  by (induction factors arbitrary: t) (simp_all add: add_score)

lemma risk_score_bounds:
  assumes "\<forall>f \<in> set factors. score_weight (rk_weight f)"
  shows "fp_le (Fin 1) (risk_score factors) \<and> fp_le (risk_score factors) (Fin 100)"
proof -
  let ?total = "fold (\<lambda>factor total. fp_add binary32 total (rk_weight factor)) factors (Fin 0)"
  have "score_weight ?total" by (rule fold_score) (use assms in \<open>simp_all add: score_weight_def [of "Fin 0"]\<close>)
  then show ?thesis
    by (cases ?total) (auto simp: risk_score_def clamp_score_def fp_le_def fp_lt_def score_weight_def)
qed

lemma factor_if_mem [simp]: "f \<in> set (factor_if applies factor) \<longleftrightarrow> applies \<and> f = factor"
  by (auto simp: factor_if_def)

lemma push_factor_fields [simp]:
  "rk_weight (push_factor code weight explanation evidence) = weight" "rk_code (push_factor code weight explanation evidence) = code"
  "rk_evidence (push_factor code weight explanation evidence) = sorted_unique evidence"
  by (simp_all add: push_factor_def)

lemma const_score: "0 \<le> q \<Longrightarrow> score_weight (Fin q)"
  by (simp add: score_weight_def)

lemma reach_factors_score: "f \<in> set (reach_factors target items repositories services contracts context) \<Longrightarrow> score_weight (rk_weight f)"
  by (auto simp: reach_factors_def Let_def scaled_score const_score)

lemma centrality_factor_score: "f \<in> set (centrality_factor target context) \<Longrightarrow> \<forall>(u, c) \<in> set (ix_centrality context). unit_interval c \<Longrightarrow> score_weight (rk_weight f)"
proof -
  assume f: "f \<in> set (centrality_factor target context)" and units: "\<forall>(u, c) \<in> set (ix_centrality context). unit_interval c"
  obtain c where c: "bt_get (ix_centrality context) (n_id target) = Some c" "fp_le (Fin (3 / 4)) c" "rk_weight f = fp_mul binary32 c (Fin 12)"
    using f by (cases "bt_get (ix_centrality context) (n_id target)") (auto simp: centrality_factor_def)
  then have "unit_interval c" using units by (auto dest: map_of_SomeD)
  then obtain q where "c = Fin q" "3 / 4 \<le> q"
    using c(2) by (cases c) (auto simp: fp_le_def unit_interval_def fp_is_finite_def)
  then show ?thesis using c(3) mul_score [of q 12] by simp
qed

lemma gap_factors_score: "f \<in> set (gap_factors impacted items tests context coverage truncation) \<Longrightarrow> score_weight (rk_weight f)"
  by (auto simp: gap_factors_def Let_def const_score split: option.splits)

lemma compatibility_score: "f \<in> set (add_compatibility_factors impacted context) \<Longrightarrow> score_weight (rk_weight f)"
proof -
  have "f \<in> set (compatibility_factor input) \<Longrightarrow> score_weight (rk_weight f)" for input
    by (cases "cp_status input") (simp_all add: compatibility_factor_def const_score)
  then show "f \<in> set (add_compatibility_factors impacted context) \<Longrightarrow> score_weight (rk_weight f)"
    by (auto simp: add_compatibility_factors_def)
qed

lemma criticality_score: "f \<in> set (add_criticality_factors impacted context) \<Longrightarrow> score_weight (rk_weight f)"
proof -
  have "0 \<le> snd (tag_factor tag)" for tag by (cases tag) simp_all
  then show "f \<in> set (add_criticality_factors impacted context) \<Longrightarrow> score_weight (rk_weight f)"
    by (auto simp: add_criticality_factors_def const_score)
qed

lemma community_score: "f \<in> set (community_factor communities) \<Longrightarrow> score_weight (rk_weight f)"
  by (auto simp: community_factor_def Let_def scaled_score)

lemma sort_factors_set [simp]: "set (sort_factors factors) = set factors"
  by (simp add: sort_factors_def)

text \<open>The three parts of an assessment.\<close>

lemma assess_risk_result:
  fixes target items repositories services contracts communities tests coverage truncation
  assumes "\<forall>(u, c) \<in> set (ix_centrality context). unit_interval c"
  defines "a \<equiv> assess_risk target items repositories services contracts communities tests context coverage truncation"
  shows "fst a = RiskUnknown \<longleftrightarrow> \<not> cs_sufficient_for_score coverage"
    and "fst (snd a) = None \<longleftrightarrow> \<not> cs_sufficient_for_score coverage"
    and "fst (snd a) = Some s \<Longrightarrow> fp_le (Fin 1) s \<and> fp_le s (Fin 100)"
    and "fst a = Critical \<Longrightarrow> explicit_critical (snd (snd a))"
proof -
  let ?f = "reach_factors target items repositories services contracts context
            @ add_compatibility_factors (impacted_ids target items) context @ centrality_factor target context @ community_factor communities
            @ add_criticality_factors (impacted_ids target items) context
            @ gap_factors (impacted_ids target items) items tests context coverage truncation"
  have scores: "\<forall>f \<in> set (sort_factors ?f). score_weight (rk_weight f)"
    unfolding sort_factors_set set_append
    by (auto intro: reach_factors_score compatibility_score centrality_factor_score [OF _ assms(1)] community_score
        criticality_score gap_factors_score)
  show "fst a = RiskUnknown \<longleftrightarrow> \<not> cs_sufficient_for_score coverage" "fst (snd a) = None \<longleftrightarrow> \<not> cs_sufficient_for_score coverage"
    and "fst a = Critical \<Longrightarrow> explicit_critical (snd (snd a))"
    unfolding a_def by (auto simp: assess_risk_def Let_def score_level_def split: if_splits)
  show "fst (snd a) = Some s \<Longrightarrow> fp_le (Fin 1) s \<and> fp_le s (Fin 100)"
    using risk_score_bounds [OF scores] unfolding a_def by (auto simp: assess_risk_def Let_def split: if_splits)
qed

lemma walk_confirmed: "\<forall>entry \<in> set es. pg_certainty pg entry = PathConfirmed \<Longrightarrow> walk_certainty pg es = PathConfirmed"
  by (induction es rule: rev_induct) (simp_all add: walk_certainty_def)

lemma certain_items:
  assumes "counted pg run es" and "ir_possible run = 0" and "ir_unknown run = 0" and "item_of_route pg es nodes item"
  shows "it_classification item \<in> {DirectlyDependent, TransitivelyAffected}"
proof -
  have "pg_certainty pg entry = PathConfirmed" if "entry \<in> set es" for entry
    using assms(1-3) that by (cases "pg_certainty pg entry") (auto simp: counted_def)
  then have "walk_certainty pg es = PathConfirmed" using walk_confirmed by blast
  then show ?thesis using assms(4) by (simp add: item_of_route_def classify_def)
qed

lemma validated_centrality:
  "validate_context request context = Inr nodes \<Longrightarrow> \<forall>(u, c) \<in> set (ix_centrality context). unit_interval c"
  by (auto simp: validate_context_def check_centrality_def split: if_splits)

text \<open>
  C11: A numeric risk is given exactly when the coverage has no gap. It then lies between 1 and 100, nothing was truncated,
  every reported item is confirmed and every relevant repository is fresh; otherwise the risk is unknown, never low.\<close>
theorem impact_risk_known:
  assumes "analyze_impact request context = Inr report"
  shows "(ip_risk report = RiskUnknown \<longleftrightarrow> cs_gaps (ip_coverage report) \<noteq> [])
     \<and> (ip_risk_score report = None \<longleftrightarrow> cs_gaps (ip_coverage report) \<noteq> [])
     \<and> (\<forall>s. ip_risk_score report = Some s \<longrightarrow> fp_le (Fin 1) s \<and> fp_le s (Fin 100) \<and> ip_truncation report = None
          \<and> ip_possibly_affected report = [] \<and> ip_unknown_due_to_coverage report = []
          \<and> cs_fresh_repositories (ip_coverage report) = cs_relevant_repositories (ip_coverage report))"
  using assms
proof (rule analyze_impact_stages)
  fix nodes target items truncation possible unknown
  assume st: "validate_context request context = Inr nodes" "resolve_target (iq_target request) nodes = Inr target"
    "propagate_impact request context nodes (rt_node target) = Inr (items, truncation, possible, unknown)"
    and report: "report = impact_report_of request context nodes target (sort_items items) truncation possible unknown"
  let ?coverage = "summarize_coverage (rt_node target) (sort_items items) context truncation possible unknown"
  let ?a = "assess_risk (rt_node target) (sort_items items)
       (aggregate_repositories (sort_items items)) (aggregate_services (sort_items items) context nodes)
       (aggregate_contracts (sort_items items) context) (aggregate_communities (sort_items items) context)
       (recommend_tests (sort_items items) context nodes) context ?coverage truncation"
  have risk: "ip_risk report = fst ?a" "ip_risk_score report = fst (snd ?a)"
    and coverage: "ip_coverage report = ?coverage" "ip_truncation report = truncation"
    unfolding report by (simp_all add: impact_report_of_def Let_def)
  note assessed = assess_risk_result [OF validated_centrality [OF st(1)]]
  have clean: "ip_possibly_affected report = [] \<and> ip_unknown_due_to_coverage report = []" if "cs_sufficient_for_score ?coverage"
  proof (rule stage_run [OF st refl])
    fix run expanded queue
    assume run: "run_ok (request_propagation request context (n_id (rt_node target))) expanded queue run" and items: "items = bt_values (ir_items run)"
      and counts: "possible = ir_possible run" "unknown = ir_unknown run"
    have zero: "ir_possible run = 0" "ir_unknown run = 0" using that counts by (simp_all add: summarize_coverage_def Let_def)
    have "it_classification item \<in> {DirectlyDependent, TransitivelyAffected}" if "item \<in> set (sort_items items)" for item
      using run_items(1) [OF run, of "context" item] certain_items [OF _ zero] that items by (metis request_propagation_fields(1) set_sort_items)
    then have "it_classification item \<in> {DirectlyDependent, TransitivelyAffected}"
      if "item \<in> set (impact_page (iq_options request) (sort_items items))" for item using page_subset that by blast
    then show ?thesis
      unfolding report by (fastforce simp: impact_report_of_def Let_def split_classifications_def filter_empty_conv)
  qed
  have none: "truncation = None" if "cs_sufficient_for_score ?coverage" using that by (simp add: summarize_coverage_def Let_def)
  have unknown: "fst ?a = RiskUnknown \<longleftrightarrow> cs_gaps ?coverage \<noteq> []" "fst (snd ?a) = None \<longleftrightarrow> cs_gaps ?coverage \<noteq> []"
    unfolding sufficient_iff [symmetric] by (rule assessed(1), rule assessed(2))
  have known: "fp_le (Fin 1) s \<and> fp_le s (Fin 100) \<and> truncation = None \<and> ip_possibly_affected report = []
      \<and> ip_unknown_due_to_coverage report = [] \<and> cs_fresh_repositories ?coverage = cs_relevant_repositories ?coverage"
    if score: "fst (snd ?a) = Some s" for s
  proof -
    have sufficient: "cs_sufficient_for_score ?coverage" using unknown(2) score unfolding sufficient_iff by auto
    show ?thesis using assessed(3) [OF score] clean [OF sufficient] none [OF sufficient] sufficient_fresh [OF sufficient] by blast
  qed
  show ?thesis unfolding risk coverage by (intro conjI allI impI) (use unknown known in blast)+
qed

definition critical_codes :: "string set" where
  "critical_codes = {''critical_tag'', ''security_tag'', ''payment_tag'', ''data_boundary_tag''}"

lemma other_codes:
  "f \<in> set (reach_factors target items repositories services contracts context) \<Longrightarrow> rk_code f \<notin> critical_codes"
  "f \<in> set (centrality_factor target context) \<Longrightarrow> rk_code f \<notin> critical_codes"
  "f \<in> set (community_factor communities) \<Longrightarrow> rk_code f \<notin> critical_codes"
  "f \<in> set (gap_factors impacted items tests context coverage truncation) \<Longrightarrow> rk_code f \<notin> critical_codes"
  by (auto simp: reach_factors_def centrality_factor_def community_factor_def gap_factors_def Let_def critical_codes_def split: option.splits)

lemma compatibility_codes: "f \<in> set (add_compatibility_factors impacted context) \<Longrightarrow> rk_code f \<notin> critical_codes"
proof -
  have "f \<in> set (compatibility_factor input) \<Longrightarrow> rk_code f \<notin> critical_codes" for input
    by (cases "cp_status input") (simp_all add: compatibility_factor_def critical_codes_def)
  then show "f \<in> set (add_compatibility_factors impacted context) \<Longrightarrow> rk_code f \<notin> critical_codes"
    by (auto simp: add_compatibility_factors_def)
qed

lemma criticality_codes:
  assumes "f \<in> set (add_criticality_factors impacted context)" and "rk_code f \<in> critical_codes" and "rk_evidence f \<noteq> []"
  shows "\<exists>a \<in> set (ix_criticality context). ca_node_id a \<in> set impacted \<and> ca_tag a \<noteq> Authentication \<and> ca_evidence a \<noteq> []"
  using assms by (fastforce simp: add_criticality_factors_def critical_codes_def)

lemma explicit_critical_assignment:
  assumes "explicit_critical (snd (snd (assess_risk target items repositories services contracts communities tests context coverage truncation)))"
  shows "\<exists>a \<in> set (ix_criticality context). ca_node_id a \<in> set (impacted_ids target items) \<and> ca_tag a \<noteq> Authentication \<and> ca_evidence a \<noteq> []"
proof -
  obtain f where f: "f \<in> set (reach_factors target items repositories services contracts context)
      \<union> set (add_compatibility_factors (impacted_ids target items) context) \<union> set (centrality_factor target context)
      \<union> set (community_factor communities) \<union> set (add_criticality_factors (impacted_ids target items) context)
      \<union> set (gap_factors (impacted_ids target items) items tests context coverage truncation)"
      "rk_code f \<in> critical_codes" "rk_evidence f \<noteq> []"
    using assms by (auto simp: assess_risk_def Let_def explicit_critical_def critical_codes_def split: if_splits)
  then have "f \<in> set (add_criticality_factors (impacted_ids target items) context)" by (auto dest: other_codes compatibility_codes)
  then show ?thesis using criticality_codes f(2,3) by blast
qed

text \<open>A critical risk needs an explicit criticality assignment, other than authentication alone, with evidence, on the
  target or on a node that a route reaches; labels never lead to it.\<close>
lemma impact_critical_explicit:
  assumes "analyze_impact request context = Inr report" and "ip_risk report = Critical"
  shows "\<exists>a \<in> set (ix_criticality context). ca_tag a \<noteq> Authentication \<and> ca_evidence a \<noteq> []
     \<and> (ca_node_id a = n_id (rt_node (ip_target report))
        \<or> (\<exists>es. impact_route (request_propagation request context (n_id (rt_node (ip_target report)))) es
              \<and> route_end (request_propagation request context (n_id (rt_node (ip_target report)))) es = ca_node_id a))"
  using assms(1)
proof (rule analyze_impact_stages)
  fix nodes target items truncation possible unknown
  assume st: "validate_context request context = Inr nodes" "resolve_target (iq_target request) nodes = Inr target"
    "propagate_impact request context nodes (rt_node target) = Inr (items, truncation, possible, unknown)"
    and report: "report = impact_report_of request context nodes target (sort_items items) truncation possible unknown"
  let ?pg = "request_propagation request context (n_id (rt_node target))"
  have "ip_risk report = Critical" using assms(2) .
  then have "\<exists>a \<in> set (ix_criticality context). ca_node_id a \<in> set (impacted_ids (rt_node target) (sort_items items))
      \<and> ca_tag a \<noteq> Authentication \<and> ca_evidence a \<noteq> []"
    using assess_risk_result(4) [OF validated_centrality [OF st(1)]] explicit_critical_assignment
    unfolding report by (simp add: impact_report_of_def Let_def) blast
  then obtain a where a: "a \<in> set (ix_criticality context)" "ca_node_id a \<in> set (impacted_ids (rt_node target) (sort_items items))"
      "ca_tag a \<noteq> Authentication" "ca_evidence a \<noteq> []" by blast
  have "ca_node_id a = n_id (rt_node target) \<or> (\<exists>es. impact_route ?pg es \<and> route_end ?pg es = ca_node_id a)"
  proof (rule stage_run [OF st refl])
    fix run expanded queue
    assume run: "run_ok ?pg expanded queue run" and items: "items = bt_values (ir_items run)"
    have "\<exists>es. impact_route ?pg es \<and> route_end ?pg es = n_id (it_node item)" if "item \<in> set items" for item
      using run_items(1) [OF run, of "context" item] that items by (auto simp: item_of_route_def)
    then show ?thesis using a(2) by (auto simp: impacted_ids_def)
  qed
  then show ?thesis using a unfolding report report_fields by blast
qed

subsection \<open>Aggregates\<close>

text \<open>The aggregate of a non-empty list of items.\<close>

fun group_aggregate :: "impact_item list \<Rightarrow> aggregate option" where
  "group_aggregate [] = None"
| "group_aggregate (item # items) = Some (fold join_aggregate items (new_aggregate item 1))"

lemma group_aggregate_snoc:
  "group_aggregate (items @ [item]) = Some (case group_aggregate items of None \<Rightarrow> new_aggregate item 1 | Some a \<Rightarrow> join_aggregate item a)"
  by (cases items) simp_all

lemma grouped_aggregates:
  "bt_wf (fold (\<lambda>(k, item). update_aggregate k item) ps [])
     \<and> (\<forall>k. bt_get (fold (\<lambda>(k, item). update_aggregate k item) ps []) k = group_aggregate (map snd (filter (\<lambda>p. fst p = k) ps)))"
proof (induction ps rule: rev_induct)
  case (snoc p ps)
  obtain k item where p: "p = (k, item)" by fastforce
  show ?case using snoc.IH unfolding p by (auto simp: update_aggregate_def bt_upsert_def group_aggregate_snoc split: option.split)
qed simp

lemma classification_rank_inject [simp]: "classification_rank a = classification_rank b \<longleftrightarrow> a = b"
  by (cases a; cases b) simp_all

lemma rank_stronger: "classification_rank (stronger a b) = min (classification_rank a) (classification_rank b)"
  by (simp add: stronger_def min_def)

lemma group_aggregate_None [simp]: "group_aggregate items = None \<longleftrightarrow> items = []"
  by (cases items) simp_all

lemma group_aggregate_fields:
  assumes "group_aggregate items = Some a"
  shows "ag_affected_nodes a = length items \<and> ag_minimum_depth a = Min (it_depth ` set items)
     \<and> classification_rank (ag_classification a) = Min ((\<lambda>item. classification_rank (it_classification item)) ` set items)"
  using assms
proof (induction items arbitrary: a rule: rev_induct)
  case (snoc item items)
  show ?case
  proof (cases items)
    case Nil
    then show ?thesis using snoc.prems by (auto simp: group_aggregate_snoc new_aggregate_def)
  next
    case (Cons x xs)
    then obtain b where b: "group_aggregate items = Some b" by simp
    then have a: "a = join_aggregate item b" using snoc.prems by (simp add: group_aggregate_snoc)
    have "items \<noteq> []" using Cons by simp
    then show ?thesis using snoc.IH [OF b] unfolding a
      by (simp add: join_aggregate_def rank_stronger min.commute)
  qed
qed simp

lemma repository_pairs:
  "fold (\<lambda>item aggregates. case n_repo_id (it_node item) of None \<Rightarrow> aggregates | Some repo_id \<Rightarrow> update_aggregate repo_id item aggregates) items m
     = fold (\<lambda>(k, item). update_aggregate k item) (List.map_filter (\<lambda>item. map_option (\<lambda>r. (r, item)) (n_repo_id (it_node item))) items) m"
  by (induction items arbitrary: m) (auto simp: map_filter_simps split: option.split)

lemma repository_members:
  "map snd (filter (\<lambda>p. fst p = r) (List.map_filter (\<lambda>item. map_option (\<lambda>r. (r, item)) (n_repo_id (it_node item))) items))
     = filter (\<lambda>item. n_repo_id (it_node item) = Some r) items"
  by (induction items) (auto simp: map_filter_simps split: option.split)

definition repository_items :: "repo_id \<Rightarrow> impact_item list \<Rightarrow> impact_item list" where
  "repository_items r items = filter (\<lambda>item. n_repo_id (it_node item) = Some r) items"

text \<open>The repository aggregates name every repository of an affected node once, in order, with the number of its affected
  nodes, their least depth and their strongest classification.\<close>
lemma repository_aggregates_exact:
  "sorted_wrt (<) (map ri_repo_id (aggregate_repositories items))
   \<and> set (map ri_repo_id (aggregate_repositories items)) = {r. repository_items r items \<noteq> []}
   \<and> (\<forall>impact \<in> set (aggregate_repositories items).
        ri_affected_nodes impact = length (repository_items (ri_repo_id impact) items)
        \<and> ri_minimum_depth impact = Min (it_depth ` set (repository_items (ri_repo_id impact) items))
        \<and> classification_rank (ri_classification impact)
            = Min ((\<lambda>item. classification_rank (it_classification item)) ` set (repository_items (ri_repo_id impact) items)))"
proof -
  define m where "m = fold (\<lambda>item aggregates. case n_repo_id (it_node item) of None \<Rightarrow> aggregates
     | Some repo_id \<Rightarrow> update_aggregate repo_id item aggregates) items []"
  let ?impact = "\<lambda>(repo_id, a). \<lparr>ri_repo_id = repo_id, ri_classification = ag_classification a,
         ri_minimum_depth = ag_minimum_depth a, ri_affected_nodes = ag_affected_nodes a\<rparr>"
  have agg: "aggregate_repositories items = map ?impact m" by (simp add: aggregate_repositories_def m_def)
  note grouped = grouped_aggregates [of "List.map_filter (\<lambda>item. map_option (\<lambda>r. (r, item)) (n_repo_id (it_node item))) items",
      folded repository_pairs, unfolded repository_members, folded m_def repository_items_def]
  have wf: "bt_wf m" and get: "\<And>r. bt_get m r = group_aggregate (repository_items r items)" using grouped by blast+
  have keys: "map ri_repo_id (aggregate_repositories items) = bt_keys m" by (auto simp: agg)
  have "r \<in> set (bt_keys m) \<longleftrightarrow> repository_items r items \<noteq> []" for r
    using get [of r] group_aggregate_None [of "repository_items r items"] map_of_eq_None_iff [of m r] by simp
  moreover have "ri_affected_nodes impact = length (repository_items (ri_repo_id impact) items)
        \<and> ri_minimum_depth impact = Min (it_depth ` set (repository_items (ri_repo_id impact) items))
        \<and> classification_rank (ri_classification impact)
            = Min ((\<lambda>item. classification_rank (it_classification item)) ` set (repository_items (ri_repo_id impact) items))"
    if impact: "impact \<in> set (aggregate_repositories items)" for impact
  proof -
    obtain r a where "(r, a) \<in> set m" "impact = ?impact (r, a)" using impact agg by auto
    then show ?thesis using group_aggregate_fields [of "repository_items r items" a] bt_get_iff_mem [OF wf] get by auto
  qed
  ultimately show ?thesis using wf unfolding keys bt_wf_def by blast
qed

subsection \<open>A relationship can hide an impact\<close>

definition quiet_context :: "node list \<Rightarrow> edge list \<Rightarrow> impact_context" where
  "quiet_context nodes edges = \<lparr>ix_nodes = nodes, ix_edges = edges, ix_communities = None, ix_freshness = [], ix_compatibility = [],
     ix_local_enrichment = [], ix_public_contracts = [], ix_criticality = [], ix_centrality = [], ix_service_memberships = [],
     ix_environments = [], ix_recommended_commands = [], ix_graph_complete = True, ix_coverage_gaps = []\<rparr>"

definition small_request :: "impact_direction \<Rightarrow> impact_request" where
  "small_request direction = \<lparr>iq_target = TargetNodeId ''t'', iq_direction = direction, iq_options =
     \<lparr>io_max_depth = 5, io_node_limit = 9, io_edge_limit = 20, io_confirmed_confidence = Fin 1, io_offset = 0, io_limit = 9,
      io_summary_only = False, io_include_depth_buckets = True\<rparr>\<rparr>"

definition contains_edge :: "string \<Rightarrow> node_id \<Rightarrow> node_id \<Rightarrow> edge" where
  "contains_edge i s t = (sample_edge i s t)\<lparr>e_kind := Contains\<rparr>"

text \<open>The target calls \<open>x\<close>, which calls \<open>v\<close>, a part of \<open>w\<close>; with the additional relationship the target contains \<open>v\<close>.\<close>

definition shadow_nodes :: "node list" where
  "shadow_nodes = map sample_node [''t'', ''v'', ''w'', ''x'']"

definition shadow_edges :: "edge list" where
  "shadow_edges = [sample_edge ''e2'' ''t'' ''x'', sample_edge ''e3'' ''x'' ''v'', contains_edge ''e4'' ''w'' ''v'']"

subsection \<open>Sample analyses\<close>

lemmas impact_eval = impact_loop.simps small_request_def shadow_edges_def build_adjacency_def edge_entries_def contains_edge_def
  sample_edge_def impact_start_def bt_push_def bt_upsert_def bt_map_values_def bt_group_def shadow_nodes_def sample_node_def
  visit_entry_def is_propagating_def is_structural_direction_pivot_def on_path_def Let_def extend_state_def reach_def
  count_certainty_def state_item_def bt_contains_def less_eq_path_certainty_def less_path_certainty_def max_def fp_le_def
  work_bound_stopped_def classify_def note_depth_bound_def propagate_impact_def quiet_context_def

definition shadow_index :: "(node_id, node) btree_map" where
  "shadow_index = map (\<lambda>n. (n_id n, n)) shadow_nodes"

abbreviation shadow_context :: impact_context where
  "shadow_context \<equiv> quiet_context shadow_nodes shadow_edges"

lemma shadow_valid:
  "validate_context (small_request direction) shadow_context = Inr shadow_index"
  "validate_context (small_request direction) (quiet_context shadow_nodes (contains_edge ''e1'' ''t'' ''v'' # shadow_edges)) = Inr shadow_index"
  "resolve_target (iq_target (small_request direction)) shadow_index = Inr \<lparr>rt_node = sample_node ''t'', rt_resolved_by = ''node_id''\<rparr>"
  by (simp_all add: validate_context_def small_request_def quiet_context_def shadow_nodes_def shadow_edges_def shadow_index_def sample_node_def
    sample_edge_def contains_edge_def invalid_bounds_def unit_interval_def fp_le_def fp_is_finite_def bt_contains_def)

lemma shadow_downstream:
  "\<exists>items. propagate_impact (small_request Downstream) shadow_context shadow_index (sample_node ''t'') = Inr (items, None, 0, 0)
     \<and> map (\<lambda>item. n_id (it_node item)) items = [''v'', ''x'']"
  by (simp add: impact_eval shadow_index_def)

theorem impact_sound_witness:
  "\<exists>report item. analyze_impact (small_request Downstream) shadow_context = Inr report \<and> item \<in> reported_items report
     \<and> n_id (it_node item) = ''x''
     \<and> (\<exists>es. item_of_route (request_propagation (small_request Downstream) shadow_context ''t'') es shadow_nodes item)"
proof -
  obtain items where items: "propagate_impact (small_request Downstream) shadow_context shadow_index (sample_node ''t'') = Inr (items, None, 0, 0)"
      "map (\<lambda>item. n_id (it_node item)) items = [''v'', ''x'']"
    using shadow_downstream by (elim exE conjE) (rule that)
  define report where "report = impact_report_of (small_request Downstream) shadow_context shadow_index
     \<lparr>rt_node = sample_node ''t'', rt_resolved_by = ''node_id''\<rparr> (sort_items items) None 0 0"
  have report: "analyze_impact (small_request Downstream) shadow_context = Inr report"
    using items(1) by (simp add: analyze_impact_def shadow_valid report_def)
  have "length (sort_items items) = 2" using arg_cong [OF items(2), of length] by (simp add: sort_items_def)
  then have "reported_items report = set items" unfolding report_def reported_page by (simp add: impact_page_def small_request_def)
  moreover have "''x'' \<in> set (map (\<lambda>item. n_id (it_node item)) items)" unfolding items(2) by simp
  ultimately obtain item where item: "item \<in> reported_items report" "n_id (it_node item) = ''x''" by auto
  have "n_id (rt_node (ip_target report)) = ''t''" by (simp add: report_def report_fields sample_node_def)
  then show ?thesis using impact_sound [OF report item(1)] report item by (auto simp: quiet_context_def)
qed

theorem impact_risk_known_witness:
  "\<exists>report. analyze_impact (small_request Downstream) shadow_context = Inr report
     \<and> (ip_risk report = RiskUnknown \<longleftrightarrow> cs_gaps (ip_coverage report) \<noteq> [])"
proof -
  obtain report where "analyze_impact (small_request Downstream) shadow_context = Inr report"
    using shadow_downstream by (auto simp: analyze_impact_def shadow_valid)
  then show ?thesis using impact_risk_known [of "small_request Downstream" shadow_context report] by blast
qed

text \<open>A relationship can hide an impact. The target calls x, which calls v, a part of w, and w is reported as affected.
  When the target also contains v, the shorter route to v replaces the longer one, w can no longer be reached without a structural turn, and it
  is not reported, although no bound truncated the propagation.\<close>
lemma hidden_impact:
  "(\<exists>items. propagate_impact (small_request BothDirections) shadow_context shadow_index (sample_node ''t'') = Inr (items, None, 0, 0)
      \<and> map (\<lambda>item. n_id (it_node item)) items = [''v'', ''w'', ''x''])
   \<and> (\<exists>items. propagate_impact (small_request BothDirections)
         (quiet_context shadow_nodes (contains_edge ''e1'' ''t'' ''v'' # shadow_edges)) shadow_index (sample_node ''t'') = Inr (items, None, 0, 0)
      \<and> map (\<lambda>item. n_id (it_node item)) items = [''v'', ''x''])"
  by (simp add: impact_eval shadow_index_def)

theorem impact_complete_witness:
  "\<exists>es. impact_walk (request_propagation (small_request Downstream) shadow_context ''t'') ''t'' es ''v''"
proof -
  let ?pg = "request_propagation (small_request Downstream) shadow_context ''t''"
  obtain items where items: "propagate_impact (small_request Downstream) shadow_context shadow_index (sample_node ''t'') = Inr (items, None, 0, 0)"
      "map (\<lambda>item. n_id (it_node item)) items = [''v'', ''x'']"
    using shadow_downstream by (elim exE conjE) (rule that)
  have t: "n_id (sample_node ''t'') = ''t''" by (simp add: sample_node_def)
  have "pivot_free ?pg" by (simp add: pivot_free_def small_request_def)
  with impact_complete [OF shadow_valid(1) shadow_valid(3), of Downstream items 0 0 ?pg] items(1) t
  have "(\<exists>item \<in> set items. n_id (it_node item) = ''v'') \<longrightarrow> (\<exists>es. impact_walk ?pg ''t'' es ''v'')" by simp
  moreover have "''v'' \<in> set (map (\<lambda>item. n_id (it_node item)) items)" unfolding items(2) by simp
  ultimately show ?thesis by auto
qed

end
