(* ===== verification/Contract_Documents.thy ===== *)
theory Contract_Documents
  imports Model
begin

text \<open>
  The extracted contract documents that the compatibility rules compare: the GraphQL schema
  (\<open>graphql_contracts.rs\<close>), the event observations (\<open>events.rs\<close>), the protobuf file
  (\<open>protobuf_contracts.rs\<close>), the package manifest (\<open>packages.rs\<close>) and the database
  declarations (\<open>data_contracts.rs\<close>). The documents carry the fields of the source; line numbers
  and the other unsigned integers are \<^typ>\<open>nat\<close>, the signed protobuf numbers \<^typ>\<open>int\<close>.
  The extractors that fill them are not part of this theory.
\<close>

datatype source_language = JavaScript | TypeScript | Rust | Python | GoLanguage | Java

subsection \<open>GraphQL\<close>

record graphql_line_range =
  glr_start :: nat
  glr_end :: nat

datatype graphql_operation_kind = QueryOperation | MutationOperation | SubscriptionOperation

datatype graphql_type_kind = ScalarType | ObjectType | InterfaceType | InputObjectType | EnumType | UnionType

datatype graphql_literal_kind =
  NullLiteral | BooleanLiteral | IntegerLiteral | FloatLiteral | StringLiteral | EnumLiteral | ListLiteral
| ObjectLiteral | VariableLiteral

datatype graphql_type_ref = Named string bool | ListOf graphql_type_ref bool

fun as_graphql :: "graphql_type_ref \<Rightarrow> string" where
  "as_graphql (Named name non_null) = name @ (if non_null then ''!'' else [])"
| "as_graphql (ListOf element non_null) = ''['' @ as_graphql element @ '']'' @ (if non_null then ''!'' else [])"

record graphql_argument_definition =
  ga_name :: string
  ga_type_ref :: graphql_type_ref
  ga_default_value_kind :: "graphql_literal_kind option"
  ga_directives :: "string list"
  ga_lines :: graphql_line_range

record graphql_field_definition =
  gf_coordinate :: string
  gf_name :: string
  gf_arguments :: "graphql_argument_definition list"
  gf_type_ref :: graphql_type_ref
  gf_directives :: "string list"
  gf_extension :: bool
  gf_lines :: graphql_line_range

record graphql_type_definition =
  gt_kind :: graphql_type_kind
  gt_name :: string
  gt_fields :: "graphql_field_definition list"
  gt_implements :: "string list"
  gt_enum_values :: "string list"
  gt_union_members :: "string list"
  gt_directives :: "string list"
  gt_extension :: bool
  gt_lines :: graphql_line_range

datatype graphql_selection =
  FieldSelection string string "string option" graphql_line_range
| FragmentSpread string "string option" graphql_line_range
| InlineFragment "string option" "string option" graphql_line_range

record graphql_operation =
  go_kind :: graphql_operation_kind
  go_name :: "string option"
  go_variables :: "graphql_argument_definition list"
  go_selections :: "graphql_selection list"
  go_consumed_field_paths :: "string list"
  go_fragment_spreads :: "string list"
  go_complete :: bool
  go_warnings :: "string list"
  go_lines :: graphql_line_range

record graphql_fragment =
  gg_name :: string
  gg_type_condition :: string
  gg_selections :: "graphql_selection list"
  gg_consumed_field_paths :: "string list"
  gg_fragment_spreads :: "string list"
  gg_lines :: graphql_line_range

record graphql_persisted_operation =
  gp_id :: string
  gp_operation_name :: "string option"
  gp_kind :: "graphql_operation_kind option"
  gp_consumed_field_paths :: "string list"
  gp_complete :: bool
  gp_warnings :: "string list"
  gp_source_path :: string
  gp_lines :: graphql_line_range

record graphql_resolver =
  gv_type_name :: string
  gv_field_name :: string
  gv_coordinate :: string
  gv_symbol :: string
  gv_language :: source_language
  gv_lines :: graphql_line_range

record graphql_federation_metadata =
  gm_directive :: string
  gm_target :: string
  gm_arguments :: "(string, graphql_literal_kind) btree_map"
  gm_lines :: graphql_line_range

record graphql_document =
  gd_source_path :: string
  gd_types :: "graphql_type_definition list"
  gd_operations :: "graphql_operation list"
  gd_fragments :: "graphql_fragment list"
  gd_persisted_operations :: "graphql_persisted_operation list"
  gd_resolvers :: "graphql_resolver list"
  gd_federation :: "graphql_federation_metadata list"
  gd_complete :: bool
  gd_warnings :: "string list"

definition empty_graphql_document :: "string \<Rightarrow> graphql_document" where
  "empty_graphql_document source_path =
     \<lparr>gd_source_path = source_path, gd_types = [], gd_operations = [], gd_fragments = [],
      gd_persisted_operations = [], gd_resolvers = [], gd_federation = [], gd_complete = True, gd_warnings = []\<rparr>"

subsection \<open>Events\<close>

datatype event_broker = Kafka | RabbitMq | AwsSns | AwsSqs | Nats | GooglePubSub | GenericBroker

datatype event_role = Publisher | Subscriber | Declaration

datatype delivery_semantics = AtMostOnce | AtLeastOnce | ExactlyOnce | BestEffort

record event_evidence_line =
  el_line :: nat
  el_text :: string

record event_schema_field =
  ef_name :: string
  ef_field_type :: "string option"
  ef_required :: bool

record event_schema_definition =
  es_name :: "string option"
  es_version :: "string option"
  es_schema_format :: "string option"
  es_fields :: "event_schema_field list"

record event_observation =
  eo_broker :: event_broker
  eo_role :: event_role
  eo_channel :: "string option"
  eo_namespace :: "string option"
  eo_protocol :: "string option"
  eo_event_type :: "string option"
  eo_schema :: "event_schema_definition option"
  eo_partition_key :: "string option"
  eo_routing_key :: "string option"
  eo_delivery_semantics :: "delivery_semantics option"
  eo_dead_letter_channel :: "string option"
  eo_language :: "source_language option"
  eo_evidence :: "event_evidence_line list"
  eo_confidence :: f32
  eo_incomplete :: bool
  eo_warnings :: "string list"

record event_document =
  ed_source_path :: "string option"
  ed_specification :: "string option"
  ed_specification_version :: "string option"
  ed_observations :: "event_observation list"
  ed_warnings :: "string list"
  ed_incomplete :: bool

subsection \<open>Protobuf\<close>

datatype proto_syntax = Proto2 | Proto3 | Edition string

datatype proto_field_cardinality = Singular | OptionalField | RequiredField | Repeated

datatype proto_wire_type = Varint | Fixed64 | LengthDelimited | StartGroup | Fixed32 | UnknownWire

record proto_field =
  pf_name :: string
  pf_number :: int
  pf_type_name :: string
  pf_wire_type :: proto_wire_type
  pf_cardinality :: proto_field_cardinality
  pf_oneof :: "string option"
  pf_map_key_type :: "string option"
  pf_map_value_type :: "string option"
  pf_options :: "(string, string) btree_map"
  pf_line :: nat

record proto_enum_value =
  pv_name :: string
  pv_number :: int
  pv_options :: "(string, string) btree_map"
  pv_line :: nat

record proto_enum =
  pe_name :: string
  pe_full_name :: string
  pe_values :: "proto_enum_value list"
  pe_reserved_numbers :: "string list"
  pe_reserved_names :: "string list"
  pe_options :: "(string, string) btree_map"
  pe_line :: nat

datatype proto_message = ProtoMessage
  (pm_name: string) (pm_full_name: string) (pm_fields: "proto_field list") (pm_messages: "proto_message list")
  (pm_enums: "proto_enum list") (pm_reserved_numbers: "string list") (pm_reserved_names: "string list")
  (pm_options: "(string, string) btree_map") (pm_is_extension: bool) (pm_line: nat)

record proto_rpc_method =
  pr_name :: string
  pr_request_type :: string
  pr_response_type :: string
  pr_client_streaming :: bool
  pr_server_streaming :: bool
  pr_options :: "(string, string) btree_map"
  pr_line :: nat

record proto_service =
  ps_name :: string
  ps_full_name :: string
  ps_methods :: "proto_rpc_method list"
  ps_options :: "(string, string) btree_map"
  ps_line :: nat

record proto_file =
  pp_source_path :: string
  pp_syntax :: proto_syntax
  pp_syntax_line :: "nat option"
  pp_package :: "string option"
  pp_package_line :: "nat option"
  pp_imports :: "string list"
  pp_public_imports :: "string list"
  pp_weak_imports :: "string list"
  pp_import_lines :: "(string, nat) btree_map"
  pp_options :: "(string, string) btree_map"
  pp_messages :: "proto_message list"
  pp_enums :: "proto_enum list"
  pp_services :: "proto_service list"

subsection \<open>Packages\<close>

datatype package_ecosystem = Npm | PythonPackage | Cargo | GoModule | Maven | Gradle | NuGet

datatype dependency_scope = RuntimeScope | DevScope | TestScope | BuildScope | PeerScope | OptionalScope

record package_evidence_line =
  pl_line :: nat
  pl_text :: string

record package_coordinate =
  pc_ecosystem :: package_ecosystem
  pc_name :: string
  pc_version :: "string option"
  pc_source_path :: string
  pc_evidence :: package_evidence_line
  pc_confidence :: f32

record package_dependency =
  pd_ecosystem :: package_ecosystem
  pd_name :: string
  pd_version_or_range :: "string option"
  pd_scope :: dependency_scope
  pd_optional :: bool
  pd_condition :: "string option"
  pd_source_path :: string
  pd_evidence :: package_evidence_line
  pd_confidence :: f32

record package_manifest_value =
  mv_value :: string
  mv_source_path :: string
  mv_evidence :: package_evidence_line
  mv_confidence :: f32

record lockfile_metadata =
  lf_ecosystem :: package_ecosystem
  lf_package_manager :: string
  lf_format_version :: "string option"
  lf_source_path :: string
  lf_evidence :: package_evidence_line
  lf_confidence :: f32

record package_manifest =
  pk_packages :: "package_coordinate list"
  pk_dependencies :: "package_dependency list"
  pk_workspace_members :: "package_manifest_value list"
  pk_exports :: "package_manifest_value list"
  pk_features :: "package_manifest_value list"
  pk_lockfiles :: "lockfile_metadata list"

subsection \<open>Database declarations\<close>

datatype data_artifact_kind =
  SqlMigration | DeclarativeSqlSchema | Prisma | Alembic | SqlAlchemyModel | Diesel | SqlQueryFile
| SqlxConfiguration | LiteralQuerySource

datatype data_framework = Sqlx | MysqlAsync | PyMysql | Psycopg | SqlAlchemyFramework

datatype data_artifact_reference_kind = QueryFile | MigrationDirectory | SqlxDefaultMigrationDirectory

datatype data_access_role = Reader | Writer | ModelBinding | DeclarationAccess

datatype data_operation = SelectRows | InsertRows | UpdateRows | DeleteRows

datatype data_warning = DynamicQuery | UnsupportedConstruct | UnresolvedReference | LimitExceededWarning | SqlParseRecovery

definition max_data_source_lines :: nat where
  "max_data_source_lines = 100000"

text \<open>An evidence line is a one-based line within the extraction budget; the constructor is private.\<close>

datatype data_evidence_line = DataEvidenceLine (line_get: nat)

definition new_evidence_line :: "nat \<Rightarrow> (nat, data_evidence_line) outcome" where
  "new_evidence_line line =
     (if line = 0 \<or> line > max_data_source_lines then Inl line else Inr (DataEvidenceLine line))"

record database_column =
  dc_name :: string
  dc_data_type :: "string option"
  dc_nullable :: "bool option"
  dc_primary_key :: bool
  dc_unique :: bool
  dc_default_present :: bool
  dc_evidence :: data_evidence_line

record database_index =
  di_name :: "string option"
  di_columns :: "string list"
  di_unique :: bool
  di_evidence :: data_evidence_line

record database_foreign_key =
  fk_name :: "string option"
  fk_columns :: "string list"
  fk_referenced_table :: string
  fk_referenced_columns :: "string list"
  fk_evidence :: data_evidence_line

record database_table =
  dt_database :: "string option"
  dt_schema :: "string option"
  dt_name :: string
  dt_columns :: "database_column list"
  dt_indexes :: "database_index list"
  dt_foreign_keys :: "database_foreign_key list"
  dt_evidence :: data_evidence_line

record migration_metadata =
  mg_revision :: "string option"
  mg_down_revision :: "string option"
  mg_order_hint :: "nat option"
  mg_reversible :: bool
  mg_evidence :: data_evidence_line

record data_access_observation =
  da_role :: data_access_role
  da_table :: string
  da_model :: "string option"
  da_owner :: "string option"
  da_operation :: "data_operation option"
  da_evidence :: data_evidence_line

record data_artifact_reference =
  dr_framework :: data_framework
  dr_kind :: data_artifact_reference_kind
  dr_path :: string
  dr_owner :: "string option"
  dr_evidence :: data_evidence_line

record data_document =
  dd_source_path :: string
  dd_artifact_kind :: data_artifact_kind
  dd_database_name :: "string option"
  dd_schema_name :: "string option"
  dd_tables :: "database_table list"
  dd_migration :: "migration_metadata option"
  dd_accesses :: "data_access_observation list"
  dd_frameworks :: "data_framework list"
  dd_references :: "data_artifact_reference list"
  dd_owners :: "string list"
  dd_warnings :: "data_warning list"
  dd_incomplete :: bool

end
