(* ===== verification/Contract_Compat.thy ===== *)
theory Contract_Compat
  imports Contract_Documents Route_Index
begin

text \<open>
  The contract compatibility rules of \<open>contract_compat.rs\<close>: one comparator per contract family,
  each of which collects findings and hands them to \<open>finish_report\<close> for the aggregate status. A
  source function that pushes onto \<open>findings\<close> is a function that returns the findings it pushes, in
  push order. The structured fingerprint (\<open>serde_json\<close> and \<open>blake3\<close>) is a parameter.
\<close>

subsection \<open>Findings and reports\<close>

definition max_finding_values :: nat where
  "max_finding_values = 8"

definition max_finding_value_chars :: nat where
  "max_finding_value_chars = 512"

datatype compatibility_status = Breaking | PotentiallyBreaking | Compatible | Unknown | Incomparable

record compatibility_finding =
  cf_code :: string
  cf_path :: string
  cf_status :: compatibility_status
  cf_factors :: "string list"
  cf_evidence :: "string list"
  cf_recommended_validations :: "string list"

record compatibility_report =
  cr_status :: compatibility_status
  cr_before_fingerprint :: string
  cr_after_fingerprint :: string
  cr_findings :: "compatibility_finding list"

definition bounded_values :: "string list \<Rightarrow> string list" where
  "bounded_values vs = map (\<lambda>v. concat (take max_finding_value_chars (utf8_chars v))) (take max_finding_values vs)"

definition finding ::
    "string \<Rightarrow> string \<Rightarrow> compatibility_status \<Rightarrow> string list \<Rightarrow> string list \<Rightarrow> string list \<Rightarrow> compatibility_finding" where
  "finding code path status factors evidence recommended_validations =
     \<lparr>cf_code = code, cf_path = path, cf_status = status, cf_factors = bounded_values factors,
      cf_evidence = bounded_values evidence, cf_recommended_validations = bounded_values recommended_validations\<rparr>"

definition fingerprints ::
    "('a \<Rightarrow> string option) \<Rightarrow> 'a \<Rightarrow> 'a \<Rightarrow> string \<Rightarrow> (string \<times> string) \<times> compatibility_finding list" where
  "fingerprints structured_fingerprint before after family =
     (let before' = structured_fingerprint before; after' = structured_fingerprint after in
      ((case before' of None \<Rightarrow> ''unavailable'' | Some b \<Rightarrow> b, case after' of None \<Rightarrow> ''unavailable'' | Some a \<Rightarrow> a),
       if before' = None \<or> after' = None
       then [finding (family @ ''.fingerprint_unavailable'') family Unknown
               [''structured contract serialization failed''] []
               [''report the serialization failure and rerun extraction'']]
       else []))"

definition has_status :: "compatibility_status \<Rightarrow> compatibility_finding list \<Rightarrow> bool" where
  "has_status status findings \<longleftrightarrow> list_ex (\<lambda>f. cf_status f = status) findings"

definition aggregate_status :: "compatibility_finding list \<Rightarrow> compatibility_status" where
  "aggregate_status findings =
     (if has_status Breaking findings then Breaking
      else if has_status PotentiallyBreaking findings then PotentiallyBreaking
      else if has_status Incomparable findings then Incomparable
      else if has_status Unknown findings then Unknown
      else Compatible)"

definition finding_key :: "compatibility_finding \<Rightarrow> string \<times> string" where
  "finding_key f = (cf_path f, cf_code f)"

definition ordered_findings :: "compatibility_finding list \<Rightarrow> compatibility_finding list" where
  "ordered_findings findings =
     dedup_by (\<lambda>left right. finding_key left = finding_key right) (sort_key finding_key findings)"

definition finish_report :: "string \<times> string \<Rightarrow> compatibility_finding list \<Rightarrow> compatibility_report" where
  "finish_report prints findings =
     \<lparr>cr_status = aggregate_status (ordered_findings findings), cr_before_fingerprint = fst prints,
      cr_after_fingerprint = snd prints, cr_findings = ordered_findings findings\<rparr>"

text \<open>\<open>collect::<BTreeMap<_, _>>()\<close>: the last pair with a key wins.\<close>

definition bt_collect :: "('k::linorder \<times> 'v) list \<Rightarrow> ('k, 'v) btree_map" where
  "bt_collect pairs = fold (\<lambda>(k, v). bt_insert k v) pairs []"

definition bt_index :: "('a \<Rightarrow> 'k::linorder) \<Rightarrow> 'a list \<Rightarrow> ('k, 'a) btree_map" where
  "bt_index key xs = bt_collect (map (\<lambda>x. (key x, x)) xs)"

subsection \<open>GraphQL\<close>

definition graphql_breaking :: "string \<Rightarrow> string \<Rightarrow> nat \<Rightarrow> string \<Rightarrow> compatibility_finding" where
  "graphql_breaking code path line factor =
     finding code path Breaking [factor] [''line:'' @ show_nat line]
       [''run affected GraphQL consumer operations against the candidate schema'']"

fun type_narrowed :: "graphql_type_ref \<Rightarrow> graphql_type_ref \<Rightarrow> bool" where
  "type_narrowed (Named before_name before_non_null) (Named after_name after_non_null) =
     (Named before_name before_non_null \<noteq> Named after_name after_non_null
      \<and> (before_name \<noteq> after_name \<or> \<not> before_non_null \<and> after_non_null))"
| "type_narrowed (ListOf before_element before_non_null) (ListOf after_element after_non_null) =
     (ListOf before_element before_non_null \<noteq> ListOf after_element after_non_null
      \<and> (\<not> before_non_null \<and> after_non_null \<or> type_narrowed before_element after_element))"
| "type_narrowed before after = (before \<noteq> after)"

fun type_is_non_null :: "graphql_type_ref \<Rightarrow> bool" where
  "type_is_non_null (Named _ non_null) = non_null"
| "type_is_non_null (ListOf _ non_null) = non_null"

definition compare_graphql_field ::
    "graphql_field_definition \<Rightarrow> graphql_field_definition \<Rightarrow> compatibility_finding list" where
  "compare_graphql_field before after =
     (if type_narrowed (gf_type_ref before) (gf_type_ref after)
      then [graphql_breaking ''graphql.return_type_narrowed'' (gf_coordinate before) (glr_start (gf_lines after))
              (''return type changed from '' @ as_graphql (gf_type_ref before) @ '' to '' @ as_graphql (gf_type_ref after))]
      else [])
     @ (let before_arguments = bs_of_list (map ga_name (gf_arguments before)) in
        map (\<lambda>argument. graphql_breaking ''graphql.required_argument_added''
              (gf_coordinate before @ ''('' @ ga_name argument @ '')'') (glr_start (ga_lines argument))
              ''new argument is non-null and has no default'')
          (filter (\<lambda>argument. ga_name argument \<notin> set before_arguments \<and> type_is_non_null (ga_type_ref argument)
                     \<and> ga_default_value_kind argument = None) (gf_arguments after)))"

definition compare_graphql_type ::
    "graphql_type_definition \<Rightarrow> graphql_type_definition \<Rightarrow> compatibility_finding list" where
  "compare_graphql_type before after =
     (let after_fields = bt_index gf_name (gt_fields after) in
      concat (map (\<lambda>previous_field.
        case bt_get after_fields (gf_name previous_field) of
          None \<Rightarrow> [graphql_breaking ''graphql.field_removed'' (gf_coordinate previous_field)
                    (glr_start (gf_lines previous_field)) ''field is absent from the candidate schema'']
        | Some current_field \<Rightarrow> compare_graphql_field previous_field current_field) (gt_fields before)))
     @ (let after_enum_values = bs_of_list (gt_enum_values after) in
        map (\<lambda>v. graphql_breaking ''graphql.enum_value_removed'' (gt_name before @ ''.'' @ v)
              (glr_start (gt_lines before)) ''enum value is absent from the candidate schema'')
          (filter (\<lambda>v. v \<notin> set after_enum_values) (gt_enum_values before)))"

definition compare_persisted_operations :: "graphql_document \<Rightarrow> graphql_document \<Rightarrow> compatibility_finding list" where
  "compare_persisted_operations before after =
     (let current = bs_of_list (map gp_id (gd_persisted_operations after)) in
      map (\<lambda>operation. graphql_breaking ''graphql.persisted_operation_invalidated'' (gp_id operation)
            (glr_start (gp_lines operation)) ''persisted operation identifier is absent from the candidate manifest'')
        (filter (\<lambda>operation. gp_id operation \<notin> set current) (gd_persisted_operations before)))"

definition graphql_incomplete :: "graphql_document \<Rightarrow> graphql_document \<Rightarrow> compatibility_finding list" where
  "graphql_incomplete before after =
     (if \<not> gd_complete before \<or> \<not> gd_complete after
      then [finding ''graphql.extraction_incomplete'' ''graphql'' Unknown
              [''one or both GraphQL documents are incomplete''] [gd_source_path before, gd_source_path after]
              [''resolve extraction warnings before compatibility analysis'']]
      else [])"

definition compare_graphql_types :: "graphql_document \<Rightarrow> graphql_document \<Rightarrow> compatibility_finding list" where
  "compare_graphql_types before after =
     (let after_types = bt_index gt_name (gd_types after) in
      concat (map (\<lambda>previous_type.
        case bt_get after_types (gt_name previous_type) of
          None \<Rightarrow> [graphql_breaking ''graphql.type_removed'' (gt_name previous_type)
                    (glr_start (gt_lines previous_type)) ''type is absent from the candidate schema'']
        | Some current_type \<Rightarrow> compare_graphql_type previous_type current_type) (gd_types before)))"

definition compare_graphql_contracts ::
    "(graphql_document \<Rightarrow> string option) \<Rightarrow> graphql_document \<Rightarrow> graphql_document \<Rightarrow> compatibility_report" where
  "compare_graphql_contracts structured_fingerprint before after =
     (let (prints, unavailable) = fingerprints structured_fingerprint before after ''graphql'' in
      finish_report prints
        (unavailable @ graphql_incomplete before after @ compare_graphql_types before after
         @ compare_persisted_operations before after))"

subsection \<open>Events\<close>

text \<open>The names that \<open>{:?}\<close> prints.\<close>

fun debug_broker :: "event_broker \<Rightarrow> string" where
  "debug_broker Kafka = ''Kafka''"
| "debug_broker RabbitMq = ''RabbitMq''"
| "debug_broker AwsSns = ''AwsSns''"
| "debug_broker AwsSqs = ''AwsSqs''"
| "debug_broker Nats = ''Nats''"
| "debug_broker GooglePubSub = ''GooglePubSub''"
| "debug_broker GenericBroker = ''Generic''"

fun debug_role :: "event_role \<Rightarrow> string" where
  "debug_role Publisher = ''Publisher''"
| "debug_role Subscriber = ''Subscriber''"
| "debug_role Declaration = ''Declaration''"

definition unwrap_or :: "'a \<Rightarrow> 'a option \<Rightarrow> 'a" where
  "unwrap_or d x = (case x of None \<Rightarrow> d | Some v \<Rightarrow> v)"

definition event_key :: "event_observation \<Rightarrow> string option" where
  "event_key observation =
     map_option (\<lambda>channel. debug_broker (eo_broker observation) @ '':'' @ unwrap_or [] (eo_namespace observation)
       @ '':'' @ channel @ '':'' @ debug_role (eo_role observation)) (eo_channel observation)"

definition event_evidence :: "event_observation \<Rightarrow> string list" where
  "event_evidence observation =
     map (\<lambda>evidence. ''line:'' @ show_nat (el_line evidence) @ '':'' @ el_text evidence) (eo_evidence observation)"

definition event_breaking :: "string \<Rightarrow> string \<Rightarrow> event_observation \<Rightarrow> string \<Rightarrow> compatibility_finding" where
  "event_breaking code path observation factor =
     finding code path Breaking [factor] (event_evidence observation)
       [''validate all event producers and consumers against the candidate schema'']"

definition compare_event_fields ::
    "event_schema_definition \<Rightarrow> event_schema_definition \<Rightarrow> event_observation \<Rightarrow> string \<Rightarrow> compatibility_finding list" where
  "compare_event_fields before_schema after_schema after path =
     (let before_fields = bt_index ef_name (es_fields before_schema);
          after_fields = bt_index ef_name (es_fields after_schema) in
      concat (map (\<lambda>(name, previous).
        case bt_get after_fields name of
          None \<Rightarrow> [event_breaking ''event.field_removed'' (path @ ''.'' @ name) after
                    ''payload field is absent from the candidate schema'']
        | Some current_one \<Rightarrow>
            (if ef_field_type previous \<noteq> ef_field_type current_one
             then [event_breaking ''event.field_type_changed'' (path @ ''.'' @ name) after ''payload field type changed'']
             else [])) before_fields)
      @ map (\<lambda>(name, current_one). event_breaking ''event.required_field_added'' (path @ ''.'' @ name) after
              ''new payload field is required'')
          (filter (\<lambda>(name, current_one). ef_required current_one \<and> \<not> bt_contains before_fields name) after_fields))"

definition compare_event_observation ::
    "event_observation \<Rightarrow> event_observation \<Rightarrow> string \<Rightarrow> compatibility_finding list" where
  "compare_event_observation before after path =
     (if eo_routing_key before \<noteq> eo_routing_key after \<or> eo_partition_key before \<noteq> eo_partition_key after
      then [event_breaking ''event.routing_key_changed'' path after ''routing or partition key declaration changed'']
      else [])
     @ (case (eo_schema before, eo_schema after) of
          (Some before_schema, Some after_schema) \<Rightarrow>
            (if es_version before_schema \<noteq> es_version after_schema \<and> es_version before_schema \<noteq> None
                \<and> es_version after_schema \<noteq> None
             then [event_breaking ''event.schema_version_changed'' path after ''explicit schema version changed'']
             else [])
            @ compare_event_fields before_schema after_schema after path
        | _ \<Rightarrow>
            (if (eo_schema before \<noteq> None) \<noteq> (eo_schema after \<noteq> None)
             then [finding ''event.schema_coverage_changed'' path Unknown
                     [''payload schema is absent from one side of the comparison''] (event_evidence after)
                     [''validate producer and consumer payloads at runtime'']]
             else []))"

definition keyed_observations :: "event_observation list \<Rightarrow> (string \<times> event_observation) list" where
  "keyed_observations observations =
     List.map_filter (\<lambda>observation. map_option (\<lambda>key. (key, observation)) (event_key observation)) observations"

definition event_incomplete :: "event_document \<Rightarrow> event_document \<Rightarrow> compatibility_finding list" where
  "event_incomplete before after =
     (if ed_incomplete before \<or> ed_incomplete after
      then [finding ''event.extraction_incomplete'' ''event'' Unknown
              [''one or both event documents are incomplete'']
              [unwrap_or [] (ed_source_path before), unwrap_or [] (ed_source_path after)]
              [''resolve event extraction warnings before compatibility analysis'']]
      else [])"

definition compare_event_channels :: "event_document \<Rightarrow> event_document \<Rightarrow> compatibility_finding list" where
  "compare_event_channels before after =
     (let current = bt_collect (keyed_observations (ed_observations after)) in
      concat (map (\<lambda>(key, previous).
        case bt_get current key of
          None \<Rightarrow> [event_breaking ''event.channel_removed'' key previous
                    ''channel role is absent from the candidate contract'']
        | Some current_one \<Rightarrow> compare_event_observation previous current_one key)
        (keyed_observations (ed_observations before))))"

definition compare_event_contracts ::
    "(event_document \<Rightarrow> string option) \<Rightarrow> event_document \<Rightarrow> event_document \<Rightarrow> compatibility_report" where
  "compare_event_contracts structured_fingerprint before after =
     (let (prints, unavailable) = fingerprints structured_fingerprint before after ''event'' in
      finish_report prints (unavailable @ event_incomplete before after @ compare_event_channels before after))"

subsection \<open>Protobuf\<close>

definition proto_breaking :: "string \<Rightarrow> string \<Rightarrow> nat \<Rightarrow> string \<Rightarrow> compatibility_finding" where
  "proto_breaking code path line factor =
     finding code path Breaking [factor] [''line:'' @ show_nat line]
       [''regenerate clients and run protobuf wire-compatibility tests before release'']"

lemma nested_messages_smaller: "size_list size (pm_messages m) \<le> size m + k"
  by (cases m) simp

function append_messages ::
    "proto_message list \<Rightarrow> (string, proto_message) btree_map \<Rightarrow> (string, proto_message) btree_map" where
  "append_messages [] output = output"
| "append_messages (message # messages) output =
     append_messages messages (append_messages (pm_messages message) (bt_insert (pm_full_name message) message output))"
  by pat_completeness auto
termination
  by (relation "measure (\<lambda>(messages, _). size_list size messages)")
    (auto simp: nested_messages_smaller less_Suc_eq_le)

definition flatten_messages :: "proto_message list \<Rightarrow> (string, proto_message) btree_map" where
  "flatten_messages messages = append_messages messages []"

function append_enums ::
    "proto_message list \<Rightarrow> (string, proto_enum) btree_map \<Rightarrow> (string, proto_enum) btree_map" where
  "append_enums [] output = output"
| "append_enums (message # messages) output =
     append_enums messages (append_enums (pm_messages message)
       (fold (\<lambda>enumeration. bt_insert (pe_full_name enumeration) enumeration) (pm_enums message) output))"
  by pat_completeness auto
termination
  by (relation "measure (\<lambda>(messages, _). size_list size messages)")
    (auto simp: nested_messages_smaller less_Suc_eq_le)

definition flatten_enums :: "proto_message list \<Rightarrow> proto_enum list \<Rightarrow> (string, proto_enum) btree_map" where
  "flatten_enums messages enums = append_enums messages (bt_index pe_full_name enums)"

definition compare_proto_field ::
    "string \<Rightarrow> (int, proto_field) btree_map \<Rightarrow> (string, proto_field) btree_map \<Rightarrow> proto_field
       \<Rightarrow> compatibility_finding list" where
  "compare_proto_field name fields_by_number fields_by_name field =
     (case bt_get fields_by_number (pf_number field) of
        None \<Rightarrow> [proto_breaking ''protobuf.field_removed'' (name @ ''.'' @ pf_name field) (pf_line field)
                  ''field number is absent from the candidate message'']
      | Some number_match \<Rightarrow>
          (if pf_name number_match \<noteq> pf_name field
           then [proto_breaking ''protobuf.field_number_reused'' (name @ ''.'' @ show_int (pf_number field))
                   (pf_line number_match) ''field number is assigned to a different name'']
           else [])
          @ (if pf_wire_type number_match \<noteq> pf_wire_type field \<or> pf_type_name number_match \<noteq> pf_type_name field
                \<or> pf_cardinality number_match \<noteq> pf_cardinality field
             then [proto_breaking ''protobuf.field_wire_incompatible'' (name @ ''.'' @ show_int (pf_number field))
                     (pf_line number_match) ''field type, wire encoding, or cardinality changed'']
             else [])
          @ (case bt_get fields_by_name (pf_name field) of
               None \<Rightarrow> []
             | Some name_match \<Rightarrow>
                 (if pf_number name_match \<noteq> pf_number field
                  then [proto_breaking ''protobuf.field_number_changed'' (name @ ''.'' @ pf_name field)
                          (pf_line name_match) ''field name moved to a different number'']
                  else [])))"

definition compare_proto_message :: "string \<Rightarrow> proto_message \<Rightarrow> proto_message \<Rightarrow> compatibility_finding list" where
  "compare_proto_message name previous current_one =
     concat (map (compare_proto_field name (bt_index pf_number (pm_fields current_one))
       (bt_index pf_name (pm_fields current_one))) (pm_fields previous))
     @ map (\<lambda>field. proto_breaking ''protobuf.required_field_added'' (name @ ''.'' @ pf_name field) (pf_line field)
             ''required proto2 field was added'')
         (filter (\<lambda>field. pf_cardinality field = RequiredField
                    \<and> \<not> list_ex (\<lambda>previous_field. pf_name previous_field = pf_name field) (pm_fields previous))
           (pm_fields current_one))"

definition compare_proto_messages :: "proto_file \<Rightarrow> proto_file \<Rightarrow> compatibility_finding list" where
  "compare_proto_messages before after =
     (let before_messages = flatten_messages (pp_messages before); after_messages = flatten_messages (pp_messages after) in
      concat (map (\<lambda>(name, previous).
        case bt_get after_messages name of
          None \<Rightarrow> [proto_breaking ''protobuf.message_removed'' name (pm_line previous)
                    ''message is absent from the candidate schema'']
        | Some current_one \<Rightarrow> compare_proto_message name previous current_one) before_messages))"

definition compare_proto_enum :: "string \<Rightarrow> proto_enum \<Rightarrow> proto_enum \<Rightarrow> compatibility_finding list" where
  "compare_proto_enum name previous current_one =
     (let current_numbers = bt_index pv_number (pe_values current_one) in
      map (\<lambda>v. proto_breaking ''protobuf.enum_numeric_changed'' (name @ ''.'' @ pv_name v) (pv_line v)
            ''enum numeric value was removed or reassigned'')
        (filter (\<lambda>v. map_option pv_name (bt_get current_numbers (pv_number v)) \<noteq> Some (pv_name v)) (pe_values previous)))"

definition compare_proto_enums :: "proto_file \<Rightarrow> proto_file \<Rightarrow> compatibility_finding list" where
  "compare_proto_enums before after =
     (let before_enums = flatten_enums (pp_messages before) (pp_enums before);
          after_enums = flatten_enums (pp_messages after) (pp_enums after) in
      concat (map (\<lambda>(name, previous).
        case bt_get after_enums name of
          None \<Rightarrow> [proto_breaking ''protobuf.enum_removed'' name (pe_line previous)
                    ''enum is absent from the candidate schema'']
        | Some current_one \<Rightarrow> compare_proto_enum name previous current_one) before_enums))"

definition compare_proto_method ::
    "proto_service \<Rightarrow> (string, proto_rpc_method) btree_map \<Rightarrow> proto_rpc_method \<Rightarrow> compatibility_finding list" where
  "compare_proto_method service methods rpc =
     (let path = ps_full_name service @ ''/'' @ pr_name rpc in
      case bt_get methods (pr_name rpc) of
        None \<Rightarrow> [proto_breaking ''protobuf.method_removed'' path (pr_line rpc)
                  ''RPC method is absent from the candidate service'']
      | Some current_method \<Rightarrow>
          (if pr_request_type rpc \<noteq> pr_request_type current_method
              \<or> pr_response_type rpc \<noteq> pr_response_type current_method
              \<or> pr_client_streaming rpc \<noteq> pr_client_streaming current_method
              \<or> pr_server_streaming rpc \<noteq> pr_server_streaming current_method
           then [proto_breaking ''protobuf.method_signature_changed'' path (pr_line current_method)
                   ''RPC request, response, or streaming mode changed'']
           else []))"

definition compare_proto_services :: "proto_file \<Rightarrow> proto_file \<Rightarrow> compatibility_finding list" where
  "compare_proto_services before after =
     (let current = bt_index ps_full_name (pp_services after) in
      concat (map (\<lambda>service.
        case bt_get current (ps_full_name service) of
          None \<Rightarrow> [proto_breaking ''protobuf.service_removed'' (ps_full_name service) (ps_line service)
                    ''service is absent from the candidate schema'']
        | Some current_one \<Rightarrow>
            concat (map (compare_proto_method service (bt_index pr_name (ps_methods current_one))) (ps_methods service)))
        (pp_services before)))"

definition compare_proto_package :: "proto_file \<Rightarrow> proto_file \<Rightarrow> compatibility_finding list" where
  "compare_proto_package before after =
     (if pp_package before \<noteq> pp_package after
      then [proto_breaking ''protobuf.package_renamed'' (unwrap_or ''<root>'' (pp_package before))
              (unwrap_or 1 (pp_package_line before)) ''protobuf package changed'']
      else [])"

definition compare_protobuf_contracts ::
    "(proto_file \<Rightarrow> string option) \<Rightarrow> proto_file \<Rightarrow> proto_file \<Rightarrow> compatibility_report" where
  "compare_protobuf_contracts structured_fingerprint before after =
     (let (prints, unavailable) = fingerprints structured_fingerprint before after ''protobuf'' in
      finish_report prints
        (unavailable @ compare_proto_package before after @ compare_proto_messages before after
         @ compare_proto_enums before after @ compare_proto_services before after))"

subsection \<open>HTTP\<close>

type_synonym http_key = "string \<times> string \<times> string"

fun http_role :: "boundary_role \<Rightarrow> string" where
  "http_role Provider = ''provider''"
| "http_role Consumer = ''consumer''"

text \<open>
  The fingerprinted projection of a boundary. The source stores the bits of the confidence; the model
  stores the float, which those bits encode.
\<close>

definition http_fingerprint_contract ::
    "http_boundary list \<Rightarrow> (string \<times> string \<times> string \<times> string \<times> nat \<times> nat \<times> f32) list" where
  "http_fingerprint_contract boundaries =
     map (\<lambda>boundary. (http_role (hb_role boundary), hb_method boundary, hb_path boundary,
       unwrap_or [] (ev_file_path (hb_evidence boundary)), unwrap_or 0 (ev_start_line (hb_evidence boundary)),
       unwrap_or 0 (ev_end_line (hb_evidence boundary)), ev_confidence (hb_evidence boundary))) boundaries"

fun http_key_path :: "http_key \<Rightarrow> string" where
  "http_key_path (role, method_name, path) = role @ '':'' @ method_name @ '' '' @ path"

definition http_evidence :: "http_boundary \<Rightarrow> string list" where
  "http_evidence boundary =
     (let source = unwrap_or ''<unknown>'' (ev_file_path (hb_evidence boundary));
          locator = (case (ev_start_line (hb_evidence boundary), ev_end_line (hb_evidence boundary)) of
              (Some start, Some stop) \<Rightarrow> source @ '':'' @ show_nat start @ ''-'' @ show_nat stop
            | (Some start, None) \<Rightarrow> source @ '':'' @ show_nat start
            | _ \<Rightarrow> source)
      in [locator, n_stable_key (hb_node boundary)])"

definition combined_http_evidence :: "http_boundary \<Rightarrow> http_boundary \<Rightarrow> string list" where
  "combined_http_evidence before after = http_evidence before @ http_evidence after"

definition http_inventory_evidence :: "http_boundary list \<Rightarrow> http_boundary list \<Rightarrow> string list" where
  "http_inventory_evidence before after = concat (map http_evidence (before @ after))"

definition http_key :: "http_boundary \<Rightarrow> http_key" where
  "http_key boundary =
     (http_role (hb_role boundary), to_ascii_uppercase (trim (hb_method boundary)), trim (hb_path boundary))"

definition http_key_incomplete :: "http_key \<Rightarrow> http_boundary \<Rightarrow> bool" where
  "http_key_incomplete key boundary \<longleftrightarrow>
     fst (snd key) = [] \<or> snd (snd key) = [] \<or> \<not> starts_with ''/'' (snd (snd key))
     \<or> \<not> fp_is_finite (ev_confidence (hb_evidence boundary)) \<or> fp_lt (ev_confidence (hb_evidence boundary)) (Fin 1)"

text \<open>
  The inventories of the HTTP, package and database comparators have one shape: every record is
  inserted under its key, and a key that was taken is reported with the record it replaces.
\<close>

definition inventory_step ::
    "('a \<Rightarrow> 'k::linorder) \<Rightarrow> ('k \<Rightarrow> 'a \<Rightarrow> compatibility_finding list) \<Rightarrow> ('k \<Rightarrow> 'a \<Rightarrow> 'a \<Rightarrow> compatibility_finding)
       \<Rightarrow> 'a \<Rightarrow> ('k, 'a) btree_map \<times> compatibility_finding list \<Rightarrow> ('k, 'a) btree_map \<times> compatibility_finding list" where
  "inventory_step key check duplicate x acc =
     (bt_insert (key x) x (fst acc),
      snd acc @ check (key x) x
        @ (case bt_get (fst acc) (key x) of None \<Rightarrow> [] | Some previous \<Rightarrow> [duplicate (key x) previous x]))"

definition inventory ::
    "('a \<Rightarrow> 'k::linorder) \<Rightarrow> ('k \<Rightarrow> 'a \<Rightarrow> compatibility_finding list) \<Rightarrow> ('k \<Rightarrow> 'a \<Rightarrow> 'a \<Rightarrow> compatibility_finding)
       \<Rightarrow> 'a list \<Rightarrow> ('k, 'a) btree_map \<times> compatibility_finding list" where
  "inventory key check duplicate xs = fold (inventory_step key check duplicate) xs ([], [])"

definition http_inventory ::
    "http_boundary list \<Rightarrow> string \<Rightarrow> (http_key, http_boundary) btree_map \<times> compatibility_finding list" where
  "http_inventory boundaries side =
     inventory http_key
       (\<lambda>key boundary.
          if http_key_incomplete key boundary
          then [finding ''http.operation_incomplete'' (http_key_path key) Unknown
                  [side @ '' operation lacks an exact method, canonical path, or full-confidence evidence'']
                  (http_evidence boundary) [''rerun bounded HTTP extraction and resolve dynamic operation evidence'']]
          else [])
       (\<lambda>key previous boundary.
          finding ''http.operation_duplicate'' (http_key_path key) Incomparable
            [side @ '' inventory contains duplicate operation coordinates''] (combined_http_evidence previous boundary)
            [''deduplicate providers or disambiguate the operation declarations''])
       boundaries"

definition http_candidates ::
    "(http_key, http_boundary) btree_map \<Rightarrow> (http_key, http_boundary) btree_map \<Rightarrow> http_key btree_set \<Rightarrow> http_key
       \<Rightarrow> (http_key \<times> http_boundary) list" where
  "http_candidates before_inventory after_inventory consumed key =
     filter (\<lambda>(candidate_key, _). candidate_key \<notin> set consumed \<and> \<not> bt_contains before_inventory candidate_key
       \<and> fst key = fst candidate_key
       \<and> ((fst (snd key) = fst (snd candidate_key)) \<noteq> (snd (snd key) = snd (snd candidate_key)))) after_inventory"

definition http_previous ::
    "(http_key, http_boundary) btree_map \<Rightarrow> (http_key, http_boundary) btree_map \<Rightarrow> http_key \<times> http_boundary
       \<Rightarrow> http_key btree_set \<times> compatibility_finding list \<Rightarrow> http_key btree_set \<times> compatibility_finding list" where
  "http_previous before_inventory after_inventory entry acc =
     (let key = fst entry; previous = snd entry in
      if bt_contains after_inventory key then acc
      else case http_candidates before_inventory after_inventory (fst acc) key of
        [(candidate_key, current_one)] \<Rightarrow>
          (bs_insert candidate_key (fst acc),
           snd acc @ [finding ''http.operation_changed'' (http_key_path key) PotentiallyBreaking
             [''operation changed from '' @ fst (snd key) @ '' '' @ snd (snd key) @ '' to ''
                @ fst (snd candidate_key) @ '' '' @ snd (snd candidate_key)]
             (combined_http_evidence previous current_one)
             [''confirm the path or method migration with every HTTP consumer'',
              ''run request and response contract tests against the candidate operation'']])
      | _ \<Rightarrow>
          (fst acc,
           snd acc @ [finding ''http.operation_removed'' (http_key_path key) Breaking
             [''endpoint and method pair is absent from the candidate inventory''] (http_evidence previous)
             [''run affected HTTP consumers against the candidate provider'']]))"

definition http_added ::
    "(http_key, http_boundary) btree_map \<Rightarrow> (http_key, http_boundary) btree_map \<Rightarrow> http_key btree_set
       \<Rightarrow> compatibility_finding list" where
  "http_added before_inventory after_inventory consumed =
     map (\<lambda>(key, current_one). finding ''http.operation_added'' (http_key_path key) Compatible
            [''an exact endpoint and method pair was added''] (http_evidence current_one)
            [''validate routing and authorization before exposing the operation''])
       (filter (\<lambda>(key, _). \<not> bt_contains before_inventory key \<and> key \<notin> set consumed) after_inventory)"

definition compare_http_contracts ::
    "((string \<times> string \<times> string \<times> string \<times> nat \<times> nat \<times> f32) list \<Rightarrow> string option) \<Rightarrow> http_boundary list
       \<Rightarrow> http_boundary list \<Rightarrow> compatibility_report" where
  "compare_http_contracts structured_fingerprint before after =
     (let (prints, unavailable) = fingerprints structured_fingerprint (http_fingerprint_contract before)
            (http_fingerprint_contract after) ''http'';
          (before_inventory, before_findings) = http_inventory before ''before'';
          (after_inventory, after_findings) = http_inventory after ''after'';
          (consumed, removed) = fold (http_previous before_inventory after_inventory) before_inventory ([], [])
      in finish_report prints
        (unavailable @ before_findings @ after_findings @ removed
         @ http_added before_inventory after_inventory consumed
         @ [finding ''http.schema_semantics_unmodeled'' ''http'' Incomparable
              [''HTTP boundaries model endpoint, method, and role but not parameters or schemas'']
              (http_inventory_evidence before after)
              [''compare complete OpenAPI request, response, media-type, status, and security schemas'']]))"

subsection \<open>Packages\<close>

type_synonym package_key = "string \<times> string"

fun debug_ecosystem :: "package_ecosystem \<Rightarrow> string" where
  "debug_ecosystem Npm = ''Npm''"
| "debug_ecosystem PythonPackage = ''Python''"
| "debug_ecosystem Cargo = ''Cargo''"
| "debug_ecosystem GoModule = ''Go''"
| "debug_ecosystem Maven = ''Maven''"
| "debug_ecosystem Gradle = ''Gradle''"
| "debug_ecosystem NuGet = ''NuGet''"

definition package_locator :: "package_coordinate \<Rightarrow> string" where
  "package_locator package = pc_source_path package @ '':'' @ show_nat (pl_line (pc_evidence package))"

definition package_coordinate_evidence :: "package_coordinate \<Rightarrow> package_coordinate \<Rightarrow> string list" where
  "package_coordinate_evidence before after = [package_locator before, package_locator after]"

definition package_dependency_locator :: "package_dependency \<Rightarrow> string" where
  "package_dependency_locator dependency =
     pd_source_path dependency @ '':'' @ show_nat (pl_line (pd_evidence dependency))"

definition manifest_value_locator :: "package_manifest_value \<Rightarrow> string" where
  "manifest_value_locator v = mv_source_path v @ '':'' @ show_nat (pl_line (mv_evidence v))"

text \<open>The derived \<open>PartialEq\<close>: the confidence is compared as a float.\<close>

definition manifest_value_eq :: "package_manifest_value \<Rightarrow> package_manifest_value \<Rightarrow> bool" where
  "manifest_value_eq a b \<longleftrightarrow>
     mv_value a = mv_value b \<and> mv_source_path a = mv_source_path b \<and> mv_evidence a = mv_evidence b
     \<and> fp_le (mv_confidence a) (mv_confidence b) \<and> fp_le (mv_confidence b) (mv_confidence a)"

definition manifest_value_evidence :: "package_manifest_value list \<Rightarrow> package_manifest_value list \<Rightarrow> string list" where
  "manifest_value_evidence before after = map manifest_value_locator (before @ after)"

definition package_manifest_evidence :: "package_manifest \<Rightarrow> package_manifest \<Rightarrow> string list" where
  "package_manifest_evidence before after =
     map package_locator (pk_packages before @ pk_packages after)
     @ map manifest_value_locator (pk_exports before @ pk_exports after)"

definition package_key :: "package_coordinate \<Rightarrow> package_key" where
  "package_key package = (debug_ecosystem (pc_ecosystem package), pc_name package)"

definition key_path :: "package_key \<Rightarrow> string" where
  "key_path key = fst key @ '':'' @ snd key"

definition package_inventory ::
    "package_coordinate list \<Rightarrow> string \<Rightarrow> (package_key, package_coordinate) btree_map \<times> compatibility_finding list" where
  "package_inventory packages side =
     inventory package_key (\<lambda>_ _. [])
       (\<lambda>key previous package. finding ''package.coordinate_duplicate'' (key_path key) Incomparable
          [side @ '' manifest contains duplicate package coordinates''] (package_coordinate_evidence previous package)
          [''deduplicate package declarations before comparison''])
       packages"

definition is_ascii_digit :: "char \<Rightarrow> bool" where
  "is_ascii_digit c \<longleftrightarrow> CHR ''0'' \<le> c \<and> c \<le> CHR ''9''"

definition leading_version_major :: "string \<Rightarrow> nat option" where
  "leading_version_major v =
     (let rest = dropWhile (\<lambda>c. \<not> is_ascii_digit c) v in
      if rest = [] then None else parse_uint usize_max (takeWhile is_ascii_digit rest))"

definition version_change_status :: "string option \<Rightarrow> string option \<Rightarrow> compatibility_status" where
  "version_change_status before after =
     (case (before, after) of
        (Some previous, Some current_one) \<Rightarrow>
          (if leading_version_major previous \<noteq> leading_version_major current_one then Breaking else PotentiallyBreaking)
      | _ \<Rightarrow> Unknown)"

definition compare_package_version :: "package_coordinate \<Rightarrow> package_coordinate \<Rightarrow> compatibility_finding list" where
  "compare_package_version before after =
     (if pc_version before = pc_version after then []
      else [finding ''package.declared_version_changed'' (debug_ecosystem (pc_ecosystem before) @ '':'' @ pc_name before)
              (version_change_status (pc_version before) (pc_version after))
              [''declared package version changed from '' @ unwrap_or ''<unspecified>'' (pc_version before) @ '' to ''
                 @ unwrap_or ''<unspecified>'' (pc_version after)]
              (package_coordinate_evidence before after)
              [''resolve the published versions and run downstream package compatibility tests'']])"

definition rename_candidates ::
    "(package_key, package_coordinate) btree_map \<Rightarrow> package_key btree_set \<Rightarrow> package_key \<Rightarrow> package_coordinate
       \<Rightarrow> (package_key \<times> package_coordinate) list" where
  "rename_candidates after_packages consumed key previous =
     filter (\<lambda>(candidate_key, current_one). candidate_key \<notin> set consumed \<and> fst key = fst candidate_key
       \<and> pc_source_path previous = pc_source_path current_one) after_packages"

definition package_previous ::
    "(package_key, package_coordinate) btree_map \<Rightarrow> package_key \<times> package_coordinate
       \<Rightarrow> package_key btree_set \<times> compatibility_finding list \<Rightarrow> package_key btree_set \<times> compatibility_finding list" where
  "package_previous after_packages entry acc =
     (let key = fst entry; previous = snd entry in
      case bt_get after_packages key of
        Some current_one \<Rightarrow> (fst acc, snd acc @ compare_package_version previous current_one)
      | None \<Rightarrow>
          (case rename_candidates after_packages (fst acc) key previous of
             [(candidate_key, current_one)] \<Rightarrow>
               (bs_insert candidate_key (fst acc),
                snd acc @ [finding ''package.coordinate_renamed'' (key_path key) Breaking
                  [''package coordinate changed from '' @ pc_name previous @ '' to '' @ pc_name current_one]
                  (package_coordinate_evidence previous current_one)
                  [''publish a compatibility package or migrate every downstream dependency'']])
           | _ \<Rightarrow>
               (fst acc,
                snd acc @ [finding ''package.coordinate_removed'' (key_path key) Breaking
                  [''package coordinate is absent from the candidate manifest''] [package_locator previous]
                  [''verify all registry and workspace consumers before removing the package'']])))"

definition compare_package_coordinates :: "package_manifest \<Rightarrow> package_manifest \<Rightarrow> compatibility_finding list" where
  "compare_package_coordinates before after =
     (let (before_packages, before_findings) = package_inventory (pk_packages before) ''before'';
          (after_packages, after_findings) = package_inventory (pk_packages after) ''after'';
          (consumed, findings) = fold (package_previous after_packages) before_packages ([], [])
      in before_findings @ after_findings @ findings
         @ map (\<lambda>(key, current_one). finding ''package.coordinate_added'' (key_path key) Compatible
                 [''a distinct package coordinate was added''] [package_locator current_one]
                 [''validate publication metadata before release''])
             (filter (\<lambda>(key, _). \<not> bt_contains before_packages key \<and> key \<notin> set consumed) after_packages))"

definition manifest_value_inventory ::
    "string \<Rightarrow> string \<Rightarrow> package_manifest_value list \<Rightarrow> (string, package_manifest_value) btree_map \<times> compatibility_finding list" where
  "manifest_value_inventory pre side vs =
     inventory mv_value (\<lambda>_ _. [])
       (\<lambda>key previous v. finding (pre @ ''_duplicate'') key Incomparable
          [side @ '' manifest contains duplicate declarations''] [manifest_value_locator previous, manifest_value_locator v]
          [''deduplicate declarations before comparison''])
       vs"

definition compare_manifest_values ::
    "string \<Rightarrow> package_manifest_value list \<Rightarrow> package_manifest_value list \<Rightarrow> compatibility_status \<Rightarrow> compatibility_status
       \<Rightarrow> compatibility_finding list" where
  "compare_manifest_values pre before after removed_status added_status =
     (let (before_values, before_findings) = manifest_value_inventory pre ''before'' before;
          (after_values, after_findings) = manifest_value_inventory pre ''after'' after
      in before_findings @ after_findings
         @ map (\<lambda>(v, previous). finding (pre @ ''_removed'') v removed_status
                 [pre @ '' declaration is absent from the candidate manifest''] [manifest_value_locator previous]
                 [''validate downstream consumers of `'' @ v @ ''` before release''])
             (filter (\<lambda>(v, _). \<not> bt_contains after_values v) before_values)
         @ map (\<lambda>(v, current_one). finding (pre @ ''_added'') v added_status
                 [pre @ '' declaration was added''] [manifest_value_locator current_one]
                 [''validate the new `'' @ v @ ''` declaration with the package manager''])
             (filter (\<lambda>(v, _). \<not> bt_contains before_values v) after_values))"

definition dependency_key :: "package_dependency \<Rightarrow> package_key" where
  "dependency_key dependency = (debug_ecosystem (pd_ecosystem dependency), pd_name dependency)"

definition dependency_inventory ::
    "package_dependency list \<Rightarrow> string \<Rightarrow> (package_key, package_dependency) btree_map \<times> compatibility_finding list" where
  "dependency_inventory dependencies side =
     inventory dependency_key (\<lambda>_ _. [])
       (\<lambda>key previous dependency. finding ''package.dependency_duplicate'' (key_path key) Incomparable
          [side @ '' manifest contains duplicate dependency coordinates'']
          [package_dependency_locator previous, package_dependency_locator dependency]
          [''deduplicate dependency declarations before comparison''])
       dependencies"

fun dependency_drift_status :: "dependency_scope \<Rightarrow> compatibility_status" where
  "dependency_drift_status DevScope = Unknown"
| "dependency_drift_status TestScope = Unknown"
| "dependency_drift_status RuntimeScope = PotentiallyBreaking"
| "dependency_drift_status BuildScope = PotentiallyBreaking"
| "dependency_drift_status PeerScope = PotentiallyBreaking"
| "dependency_drift_status OptionalScope = PotentiallyBreaking"

definition package_dependency_finding ::
    "string \<Rightarrow> package_key \<Rightarrow> compatibility_status \<Rightarrow> package_dependency \<Rightarrow> package_dependency option \<Rightarrow> string
       \<Rightarrow> compatibility_finding" where
  "package_dependency_finding code key status before after factor =
     finding code (key_path key) status [factor]
       (package_dependency_locator before # (case after of None \<Rightarrow> [] | Some a \<Rightarrow> [package_dependency_locator a]))
       [''resolve dependency ranges and run package-manager peer validation'']"

definition compare_dependency ::
    "(package_key, package_dependency) btree_map \<Rightarrow> package_key \<times> package_dependency \<Rightarrow> compatibility_finding list" where
  "compare_dependency after_dependencies entry =
     (let key = fst entry; previous = snd entry in
      case bt_get after_dependencies key of
        None \<Rightarrow> [package_dependency_finding ''package.dependency_removed'' key
                  (dependency_drift_status (pd_scope previous)) previous None
                  ''dependency declaration is absent from the candidate manifest'']
      | Some current_one \<Rightarrow>
          (if pd_version_or_range previous \<noteq> pd_version_or_range current_one \<or> pd_scope previous \<noteq> pd_scope current_one
              \<or> pd_optional previous \<noteq> pd_optional current_one \<or> pd_condition previous \<noteq> pd_condition current_one
           then [package_dependency_finding ''package.dependency_drift'' key
                   (if pd_version_or_range previous = None \<or> pd_version_or_range current_one = None then Unknown
                    else dependency_drift_status (pd_scope previous))
                   previous (Some current_one) ''version range, scope, optionality, or condition changed'']
           else []))"

definition compare_package_dependencies ::
    "package_dependency list \<Rightarrow> package_dependency list \<Rightarrow> compatibility_finding list" where
  "compare_package_dependencies before after =
     (let (before_dependencies, before_findings) = dependency_inventory before ''before'';
          (after_dependencies, after_findings) = dependency_inventory after ''after''
      in before_findings @ after_findings
         @ concat (map (compare_dependency after_dependencies) before_dependencies)
         @ map (\<lambda>(key, current_one). package_dependency_finding ''package.dependency_added'' key
                 (if pd_scope current_one = PeerScope then PotentiallyBreaking else Unknown) current_one None
                 ''dependency declaration was added'')
             (filter (\<lambda>(key, _). \<not> bt_contains before_dependencies key) after_dependencies))"

definition compare_package_contracts ::
    "(package_manifest \<Rightarrow> string option) \<Rightarrow> package_manifest \<Rightarrow> package_manifest \<Rightarrow> compatibility_report" where
  "compare_package_contracts structured_fingerprint before after =
     (let (prints, unavailable) = fingerprints structured_fingerprint before after ''package'' in
      finish_report prints
        (unavailable
         @ compare_package_coordinates before after
         @ compare_manifest_values ''package.export'' (pk_exports before) (pk_exports after) Breaking Compatible
         @ compare_package_dependencies (pk_dependencies before) (pk_dependencies after)
         @ compare_manifest_values ''package.feature'' (pk_features before) (pk_features after) PotentiallyBreaking Compatible
         @ compare_manifest_values ''package.workspace'' (pk_workspace_members before) (pk_workspace_members after)
             Unknown Unknown
         @ (if \<not> list_all2 manifest_value_eq (pk_workspace_members before) (pk_workspace_members after)
            then [finding ''package.workspace_cycle_unmodeled'' ''package.workspace'' Unknown
                    [''workspace membership changed but dependency cycles are not modeled'']
                    (manifest_value_evidence (pk_workspace_members before) (pk_workspace_members after))
                    [''resolve the candidate workspace graph and reject newly introduced cycles'']]
            else [])
         @ [finding ''package.type_declarations_unmodeled'' ''package.types'' Unknown
              [''package manifests do not model public type declaration compatibility'']
              (package_manifest_evidence before after)
              [''run the ecosystem type checker against representative downstream consumers'']]))"

subsection \<open>Database declarations\<close>

definition database_finding :: "string \<Rightarrow> string \<Rightarrow> compatibility_status \<Rightarrow> nat \<Rightarrow> string \<Rightarrow> compatibility_finding" where
  "database_finding code path status line factor =
     finding code path status [factor] [''line:'' @ show_nat line]
       [''run database migration and affected reader/writer integration tests'']"

definition data_locator :: "data_document \<Rightarrow> nat \<Rightarrow> string" where
  "data_locator document line = dd_source_path document @ '':'' @ show_nat line"

definition database_table_key :: "database_table \<Rightarrow> string" where
  "database_table_key table =
     join ''.'' (List.map_filter id [dt_database table, dt_schema table, Some (dt_name table)])"

definition database_inventory ::
    "data_document \<Rightarrow> string \<Rightarrow> (string, database_table) btree_map \<times> compatibility_finding list" where
  "database_inventory document side =
     inventory database_table_key (\<lambda>_ _. [])
       (\<lambda>key previous table. finding ''database.table_duplicate'' key Incomparable
          [side @ '' document contains duplicate table coordinates'']
          [data_locator document (line_get (dt_evidence previous)), data_locator document (line_get (dt_evidence table))]
          [''deduplicate or qualify table declarations before comparison''])
       (dd_tables document)"

definition database_column_inventory ::
    "string \<Rightarrow> string \<Rightarrow> database_table \<Rightarrow> (string, database_column) btree_map \<times> compatibility_finding list" where
  "database_column_inventory path side table =
     inventory dc_name (\<lambda>_ _. [])
       (\<lambda>key previous column. finding ''database.column_duplicate'' (path @ ''.'' @ key) Incomparable
          [side @ '' table contains duplicate column declarations'']
          [''line:'' @ show_nat (line_get (dc_evidence previous)), ''line:'' @ show_nat (line_get (dc_evidence column))]
          [''deduplicate column declarations before comparison''])
       (dt_columns table)"

definition type_width :: "string \<Rightarrow> string \<Rightarrow> nat option" where
  "type_width v pre =
     Option.bind (strip_prefix pre v) (\<lambda>opened.
     Option.bind (strip_prefix ''('' opened) (\<lambda>closed.
     Option.bind (strip_suffix '')'' closed) (parse_uint usize_max)))"

definition integer_rank :: "string \<Rightarrow> nat option" where
  "integer_rank v =
     (if v = ''tinyint'' then Some 0 else if v = ''smallint'' then Some 1
      else if v = ''int'' \<or> v = ''integer'' then Some 2 else if v = ''bigint'' then Some 3 else None)"

fun width_narrowed :: "string list \<Rightarrow> string \<Rightarrow> string \<Rightarrow> bool" where
  "width_narrowed [] before after = False"
| "width_narrowed (pre # prefixes) before after =
     (case (type_width before pre, type_width after pre) of
        (Some previous, Some current_one) \<Rightarrow> current_one < previous
      | _ \<Rightarrow> width_narrowed prefixes before after)"

definition normalized_type :: "string \<Rightarrow> string" where
  "normalized_type v = filter (\<lambda>c. c \<noteq> CHR '' '') (to_ascii_lowercase v)"

definition database_type_narrowed :: "string \<Rightarrow> string \<Rightarrow> bool" where
  "database_type_narrowed before after =
     (case (integer_rank (normalized_type before), integer_rank (normalized_type after)) of
        (Some previous, Some current_one) \<Rightarrow> current_one < previous
      | _ \<Rightarrow> width_narrowed [''char'', ''varchar'', ''binary'', ''varbinary''] (normalized_type before) (normalized_type after))"

definition type_change_status :: "string option \<Rightarrow> string option \<Rightarrow> compatibility_status" where
  "type_change_status before after =
     (case (before, after) of
        (Some previous, Some current_one) \<Rightarrow>
          (if database_type_narrowed previous current_one then Breaking else PotentiallyBreaking)
      | _ \<Rightarrow> Unknown)"

definition nullability_status :: "bool option \<Rightarrow> bool option \<Rightarrow> bool \<Rightarrow> compatibility_status" where
  "nullability_status before after default_present =
     (case (before, after) of
        (Some True, Some False) \<Rightarrow> (if default_present then PotentiallyBreaking else Breaking)
      | (Some _, Some _) \<Rightarrow> Compatible
      | _ \<Rightarrow> Unknown)"

definition compare_database_column :: "string \<Rightarrow> database_column \<Rightarrow> database_column \<Rightarrow> compatibility_finding list" where
  "compare_database_column path before after =
     (if dc_data_type before \<noteq> dc_data_type after
      then [database_finding ''database.column_type_changed'' path
              (type_change_status (dc_data_type before) (dc_data_type after)) (line_get (dc_evidence after))
              ''declared column type changed'']
      else [])
     @ (if dc_nullable before \<noteq> dc_nullable after
        then [database_finding ''database.column_nullability_changed'' path
                (nullability_status (dc_nullable before) (dc_nullable after) (dc_default_present after))
                (line_get (dc_evidence after)) ''declared column nullability changed'']
        else [])
     @ (if dc_primary_key before \<and> \<not> dc_primary_key after
        then [database_finding ''database.primary_key_removed'' path Breaking (line_get (dc_evidence after))
                ''primary-key constraint was removed'']
        else [])
     @ (if dc_unique before \<and> \<not> dc_unique after
        then [database_finding ''database.unique_constraint_removed'' path PotentiallyBreaking
                (line_get (dc_evidence after)) ''unique constraint was removed'']
        else [])"

definition display_bool :: "bool \<Rightarrow> string" where
  "display_bool b = (if b then ''true'' else ''false'')"

definition database_index_key :: "database_index \<Rightarrow> string" where
  "database_index_key index = display_bool (di_unique index) @ '':'' @ join '','' (di_columns index)"

definition compare_database_indexes ::
    "string \<Rightarrow> database_index list \<Rightarrow> database_index list \<Rightarrow> compatibility_finding list" where
  "compare_database_indexes path before after =
     (let current = bs_of_list (map database_index_key after) in
      map (\<lambda>index. database_finding ''database.index_removed'' (path @ ''.index:'' @ database_index_key index)
            PotentiallyBreaking (line_get (di_evidence index)) ''index or unique-index constraint was removed'')
        (filter (\<lambda>index. database_index_key index \<notin> set current) before))"

definition database_foreign_key_text :: "database_foreign_key \<Rightarrow> string" where
  "database_foreign_key_text foreign_key =
     join '','' (fk_columns foreign_key) @ ''->'' @ fk_referenced_table foreign_key @ '':''
     @ join '','' (fk_referenced_columns foreign_key)"

definition compare_database_foreign_keys ::
    "string \<Rightarrow> database_foreign_key list \<Rightarrow> database_foreign_key list \<Rightarrow> compatibility_finding list" where
  "compare_database_foreign_keys path before after =
     (let current = bs_of_list (map database_foreign_key_text after) in
      map (\<lambda>foreign_key. database_finding ''database.foreign_key_removed''
            (path @ ''.foreign_key:'' @ database_foreign_key_text foreign_key) PotentiallyBreaking
            (line_get (fk_evidence foreign_key)) ''foreign-key constraint was removed'')
        (filter (\<lambda>foreign_key. database_foreign_key_text foreign_key \<notin> set current) before))"

definition compare_database_table :: "string \<Rightarrow> database_table \<Rightarrow> database_table \<Rightarrow> compatibility_finding list" where
  "compare_database_table path before after =
     (let (before_columns, before_findings) = database_column_inventory path ''before'' before;
          (after_columns, after_findings) = database_column_inventory path ''after'' after
      in before_findings @ after_findings
         @ concat (map (\<lambda>(name, previous).
             case bt_get after_columns name of
               None \<Rightarrow> [database_finding ''database.column_removed'' (path @ ''.'' @ name) Breaking
                         (line_get (dc_evidence previous)) ''column is absent from the candidate table'']
             | Some current_one \<Rightarrow> compare_database_column (path @ ''.'' @ name) previous current_one) before_columns)
         @ compare_database_indexes path (dt_indexes before) (dt_indexes after)
         @ compare_database_foreign_keys path (dt_foreign_keys before) (dt_foreign_keys after))"

definition migration_ancestry ::
    "data_document \<Rightarrow> data_document \<Rightarrow> migration_metadata \<Rightarrow> migration_metadata \<Rightarrow> compatibility_finding list" where
  "migration_ancestry before after previous current_one =
     (let locators = [data_locator before (line_get (mg_evidence previous)), data_locator after (line_get (mg_evidence current_one))]
      in (if mg_revision previous = mg_revision current_one \<and> mg_down_revision previous \<noteq> mg_down_revision current_one
          then [finding ''database.migration_predecessor_changed'' ''database.migration'' Breaking
                  [''the predecessor of an existing migration revision changed''] locators
                  [''validate the full migration DAG on a production-like snapshot'']]
          else if mg_revision previous \<noteq> mg_revision current_one \<and> mg_down_revision current_one \<noteq> mg_revision previous
          then [finding ''database.migration_predecessor_conflict'' ''database.migration'' PotentiallyBreaking
                  [''candidate migration does not directly follow the previous revision''] locators
                  [''resolve migration branches and validate the complete predecessor graph'']]
          else [])
         @ (case (mg_order_hint previous, mg_order_hint current_one) of
              (Some previous_order, Some candidate_order) \<Rightarrow>
                (if candidate_order < previous_order
                 then [finding ''database.migration_order_regressed'' ''database.migration'' Breaking
                         [''candidate migration order precedes the previous order hint''] locators
                         [''apply the complete migration sequence to an empty and upgraded database'']]
                 else [])
            | _ \<Rightarrow> []))"

definition compare_migrations :: "data_document \<Rightarrow> data_document \<Rightarrow> compatibility_finding list" where
  "compare_migrations before after =
     (case (dd_migration before, dd_migration after) of
        (Some previous, Some current_one) \<Rightarrow> migration_ancestry before after previous current_one
      | (Some previous, None) \<Rightarrow>
          [finding ''database.migration_metadata_removed'' ''database.migration'' Unknown
             [''candidate document lacks previously modeled migration metadata'']
             [data_locator before (line_get (mg_evidence previous))]
             [''restore migration ancestry metadata before release'']]
      | (None, Some current_one) \<Rightarrow>
          [finding ''database.migration_metadata_added'' ''database.migration'' Unknown
             [''migration ancestry was added without a comparable predecessor document'']
             [data_locator after (line_get (mg_evidence current_one))]
             [''validate the candidate against the deployed migration head'']]
      | (None, None) \<Rightarrow> [])"

definition database_incomplete :: "data_document \<Rightarrow> data_document \<Rightarrow> compatibility_finding list" where
  "database_incomplete before after =
     (if dd_incomplete before \<or> dd_incomplete after \<or> dd_warnings before \<noteq> [] \<or> dd_warnings after \<noteq> []
      then [finding ''database.extraction_incomplete'' ''database'' Unknown
              [''one or both database documents contain extraction limitations'']
              [dd_source_path before, dd_source_path after]
              [''resolve database extraction warnings before compatibility analysis'']]
      else [])"

definition compare_database_contracts ::
    "(data_document \<Rightarrow> string option) \<Rightarrow> data_document \<Rightarrow> data_document \<Rightarrow> compatibility_report" where
  "compare_database_contracts structured_fingerprint before after =
     (let (prints, unavailable) = fingerprints structured_fingerprint before after ''database'';
          (before_tables, before_findings) = database_inventory before ''before'';
          (after_tables, after_findings) = database_inventory after ''after''
      in finish_report prints
        (unavailable @ database_incomplete before after @ before_findings @ after_findings
         @ concat (map (\<lambda>(key, previous).
             case bt_get after_tables key of
               None \<Rightarrow> [database_finding ''database.table_removed'' key Breaking (line_get (dt_evidence previous))
                         ''table is absent from the candidate schema'']
             | Some current_one \<Rightarrow> compare_database_table key previous current_one) before_tables)
         @ compare_migrations before after
         @ [finding ''database.shared_consumer_impact_unmodeled'' ''database.consumers'' Unknown
              [''one artifact cannot establish the impact on every shared-table consumer'']
              [dd_source_path before, dd_source_path after]
              [''query the repository graph for all readers and writers, then run their integration tests'']]))"

end
