(* ===== verification/Contract_Verdicts.thy ===== *)
theory Contract_Verdicts
  imports Contract_Compat
begin

text \<open>
  What the compatibility verdicts of the schema families mean. The comparators index a document by name, so a
  lookup finds the last record with a name (\<open>latest\<close>). The locale \<open>consistent_findings\<close> is the contract
  under which \<open>finish_report\<close> loses no verdict when it merges findings; it is interpreted for every family.
  For GraphQL, event and protobuf contracts the aggregate status is characterised exactly by what the candidate
  retains of the previous document, and a document with unique names is compatible with itself.
\<close>

subsection \<open>Indexes: the last record with a key\<close>

definition latest :: "('a \<Rightarrow> 'k) \<Rightarrow> 'k \<Rightarrow> 'a list \<Rightarrow> 'a option" where
  "latest key k xs = find (\<lambda>x. key x = k) (rev xs)"

lemma latest_simps [simp]:
  "latest key k [] = None"
  "latest key k (xs @ [x]) = (if key x = k then Some x else latest key k xs)"
  by (simp_all add: latest_def)

lemma latest_Some: "latest key k xs = Some x \<Longrightarrow> x \<in> set xs \<and> key x = k"
  by (auto simp: latest_def find_Some_iff) (metis length_rev nth_mem set_rev)

lemma latest_None: "latest key k xs = None \<longleftrightarrow> k \<notin> key ` set xs"
  by (auto simp: latest_def find_None_iff)

lemma latest_distinct: "distinct (map key xs) \<Longrightarrow> x \<in> set xs \<Longrightarrow> latest key (key x) xs = Some x"
  by (induction xs rule: rev_induct) auto

lemma collect_snoc: "bt_collect (ps @ [(k, v)]) = bt_insert k v (bt_collect ps)"
  by (simp add: bt_collect_def)

lemma bt_wf_collect: "bt_wf (bt_collect ps)"
  by (induction ps rule: rev_induct) (simp add: bt_collect_def, simp add: collect_snoc split_paired_all)

lemma bt_collect_get: "bt_get (bt_collect ps) k = map_option snd (latest fst k ps)"
proof (induction ps rule: rev_induct)
  case (snoc p ps)
  then show ?case by (cases p) (auto simp: collect_snoc)
qed (simp add: bt_collect_def)

lemma latest_map: "latest key k (map f xs) = map_option f (latest (\<lambda>x. key (f x)) k xs)"
  by (induction xs rule: rev_induct) auto

lemma bt_index_get [simp]: "bt_get (bt_index key xs) k = latest key k xs"
  by (simp add: bt_index_def bt_collect_get latest_map option.map_comp comp_def option.map_ident)

lemma bt_wf_index: "bt_wf (bt_index key xs)"
  by (simp add: bt_index_def bt_wf_collect)

lemma bt_index_mem: "(k, x) \<in> set (bt_index key xs) \<longleftrightarrow> latest key k xs = Some x"
  by (metis bt_get_iff_mem bt_index_get bt_wf_index)

lemma bt_index_contains: "bt_contains (bt_index key xs) k \<longleftrightarrow> k \<in> key ` set xs"
  by (simp add: bt_contains_def latest_None)

subsection \<open>The aggregate status\<close>

lemma has_status_iff: "has_status s fs \<longleftrightarrow> s \<in> cf_status ` set fs"
  by (auto simp: has_status_def list_ex_iff)

lemma aggregate_cong: "cf_status ` set fs = cf_status ` set gs \<Longrightarrow> aggregate_status fs = aggregate_status gs"
  by (simp add: aggregate_status_def has_status_iff)

lemma ordered_findings:
  "sorted_wrt (<) (map finding_key (ordered_findings fs))"
  "finding_key ` set (ordered_findings fs) = finding_key ` set fs"
  "set (ordered_findings fs) \<subseteq> set fs"
  using dedup_sorted [of finding_key "sort_key finding_key fs"] by (simp_all add: ordered_findings_def)

text \<open>
  The contract between a comparator and \<open>finish_report\<close>: on the documents it is given, two findings that
  share their path and code share their status. Then dropping the second of them loses no verdict.
\<close>

locale consistent_findings =
  fixes comparable :: "'d \<Rightarrow> 'd \<Rightarrow> bool" and collected :: "'d \<Rightarrow> 'd \<Rightarrow> compatibility_finding list"
  assumes consistent: "comparable before after \<Longrightarrow> f \<in> set (collected before after) \<Longrightarrow>
    g \<in> set (collected before after) \<Longrightarrow> finding_key f = finding_key g \<Longrightarrow> cf_status f = cf_status g"
begin

lemma statuses_kept:
  assumes "comparable before after"
  shows "cf_status ` set (ordered_findings (collected before after)) = cf_status ` set (collected before after)"
proof
  show "cf_status ` set (ordered_findings (collected before after)) \<subseteq> cf_status ` set (collected before after)"
    using ordered_findings(3) by blast
  show "cf_status ` set (collected before after) \<subseteq> cf_status ` set (ordered_findings (collected before after))"
  proof
    fix s assume "s \<in> cf_status ` set (collected before after)"
    then obtain f where f: "f \<in> set (collected before after)" "s = cf_status f" by blast
    have "finding_key f \<in> finding_key ` set (ordered_findings (collected before after))"
      unfolding ordered_findings(2) using f(1) by (rule imageI)
    then obtain g where g: "g \<in> set (ordered_findings (collected before after))" "finding_key g = finding_key f"
      by (elim imageE) simp
    then have "cf_status g = s"
      using consistent [OF assms, of g f] f subsetD [OF ordered_findings(3)] by simp
    with g(1) show "s \<in> cf_status ` set (ordered_findings (collected before after))" by blast
  qed
qed

lemma report_status:
  assumes "comparable before after"
  shows "cr_status (finish_report prints (collected before after)) = aggregate_status (collected before after)"
proof -
  have "aggregate_status (ordered_findings (collected before after)) = aggregate_status (collected before after)"
    by (rule aggregate_cong) (rule statuses_kept [OF assms])
  then show ?thesis by (simp add: finish_report_def)
qed

end

lemma aggregate_two:
  assumes "\<forall>f \<in> set fs. cf_status f = Breaking \<or> cf_status f = Unknown"
  shows "aggregate_status fs = (if has_status Breaking fs then Breaking else if fs \<noteq> [] then Unknown else Compatible)"
proof -
  have "fs \<noteq> [] \<Longrightarrow> has_status Breaking fs \<or> has_status Unknown fs"
    using assms by (cases fs) (auto simp: has_status_iff)
  moreover have "\<not> has_status PotentiallyBreaking fs" "\<not> has_status Incomparable fs"
    using assms by (auto simp: has_status_iff)
  ultimately show ?thesis by (auto simp: aggregate_status_def has_status_iff)
qed

lemma finding_fields [simp]:
  "cf_code (finding code path status factors evidence recommended) = code"
  "cf_path (finding code path status factors evidence recommended) = path"
  "cf_status (finding code path status factors evidence recommended) = status"
  by (simp_all add: finding_def)

lemma breaking_fields [simp]:
  "cf_code (graphql_breaking code path line factor) = code" "cf_status (graphql_breaking code path line factor) = Breaking"
  "cf_code (event_breaking code path observation factor) = code" "cf_status (event_breaking code path observation factor) = Breaking"
  "cf_code (proto_breaking code path line factor) = code" "cf_status (proto_breaking code path line factor) = Breaking"
  "cf_code (database_finding code path status line factor) = code" "cf_status (database_finding code path status line factor) = status"
  by (simp_all add: graphql_breaking_def event_breaking_def proto_breaking_def database_finding_def)

definition unfingerprinted :: "('a \<Rightarrow> string option) \<Rightarrow> 'a \<Rightarrow> 'a \<Rightarrow> bool" where
  "unfingerprinted fp before after \<longleftrightarrow> fp before = None \<or> fp after = None"

lemma fingerprints_findings:
  "snd (fingerprints fp before after family) = [] \<longleftrightarrow> \<not> unfingerprinted fp before after"
  "f \<in> set (snd (fingerprints fp before after family)) \<Longrightarrow>
     cf_status f = Unknown \<and> cf_code f = family @ ''.fingerprint_unavailable''"
  by (auto simp: fingerprints_def unfingerprinted_def Let_def split: if_splits)

subsection \<open>GraphQL\<close>

text \<open>
  The meaning of a type reference: the values that a position of the type admits. A named type admits its
  own values, a list type the lists of admitted elements, and both the null value unless they are non-null.
\<close>

datatype graphql_value = NullValue | ValueOf string | ListValue "graphql_value list"

fun admits :: "graphql_type_ref \<Rightarrow> graphql_value \<Rightarrow> bool" where
  "admits (Named name non_null) v \<longleftrightarrow> v = ValueOf name \<or> v = NullValue \<and> \<not> non_null"
| "admits (ListOf element non_null) v \<longleftrightarrow>
     (case v of ListValue vs \<Rightarrow> (\<forall>x \<in> set vs. admits element x) | NullValue \<Rightarrow> \<not> non_null | ValueOf _ \<Rightarrow> False)"

lemma shapes_differ:
  "\<exists>v. admits (ListOf element non_null) v \<and> \<not> admits (Named name nullable) v"
  "\<exists>v. admits (Named name nullable) v \<and> \<not> admits (ListOf element non_null) v"
  by (intro exI [of _ "ListValue []"], simp) (intro exI [of _ "ValueOf name"], simp)

lemma type_narrowed_iff: "type_narrowed before after \<longleftrightarrow> (\<exists>v. admits before v \<and> \<not> admits after v)"
proof (induction before after rule: type_narrowed.induct)
  case (1 bn bo an ao)
  have "type_narrowed (Named bn bo) (Named an ao) \<longleftrightarrow> bn \<noteq> an \<or> \<not> bo \<and> ao" by auto
  then show ?case by auto
next
  case (2 be bo ae ao)
  have shape: "type_narrowed (ListOf be bo) (ListOf ae ao) \<longleftrightarrow> \<not> bo \<and> ao \<or> type_narrowed be ae \<and> (be \<noteq> ae \<or> bo \<noteq> ao)"
    by auto
  have self: "\<not> type_narrowed t t" for t by (cases t) auto
  show ?case
  proof
    assume "type_narrowed (ListOf be bo) (ListOf ae ao)"
    then consider "\<not> bo" "ao" | "type_narrowed be ae" using shape by blast
    then show "\<exists>v. admits (ListOf be bo) v \<and> \<not> admits (ListOf ae ao) v"
    proof cases
      case 1
      then show ?thesis by (intro exI [of _ NullValue]) simp
    next
      case narrowed: 2
      then have "be \<noteq> ae" using self by blast
      then obtain v where "admits be v" "\<not> admits ae v" using 2 narrowed by auto
      then show ?thesis by (intro exI [of _ "ListValue [v]"]) simp
    qed
  next
    assume "\<exists>v. admits (ListOf be bo) v \<and> \<not> admits (ListOf ae ao) v"
    then obtain v where v: "admits (ListOf be bo) v" "\<not> admits (ListOf ae ao) v" by blast
    show "type_narrowed (ListOf be bo) (ListOf ae ao)"
    proof (cases v)
      case (ListValue vs)
      then obtain x where x: "admits be x" "\<not> admits ae x" using v by auto
      then have "be \<noteq> ae" by blast
      moreover have "type_narrowed be ae" using 2 x \<open>be \<noteq> ae\<close> by auto
      ultimately show ?thesis using shape by blast
    qed (use v shape in auto)
  qed
qed (simp_all add: shapes_differ del: admits.simps)

text \<open>What a schema promises its consumers, stated on the documents.\<close>

definition graphql_field_kept :: "graphql_field_definition \<Rightarrow> graphql_field_definition \<Rightarrow> bool" where
  "graphql_field_kept f g \<longleftrightarrow>
     (\<forall>v. admits (gf_type_ref f) v \<longrightarrow> admits (gf_type_ref g) v)
     \<and> (\<forall>arg \<in> set (gf_arguments g). type_is_non_null (ga_type_ref arg) \<longrightarrow> ga_default_value_kind arg = None
          \<longrightarrow> ga_name arg \<in> ga_name ` set (gf_arguments f))"

definition graphql_type_kept :: "graphql_type_definition \<Rightarrow> graphql_type_definition \<Rightarrow> bool" where
  "graphql_type_kept t u \<longleftrightarrow>
     (\<forall>f \<in> set (gt_fields t). \<exists>g. latest gf_name (gf_name f) (gt_fields u) = Some g \<and> graphql_field_kept f g)
     \<and> set (gt_enum_values t) \<subseteq> set (gt_enum_values u)"

definition graphql_retained :: "graphql_document \<Rightarrow> graphql_document \<Rightarrow> bool" where
  "graphql_retained before after \<longleftrightarrow>
     (\<forall>t \<in> set (gd_types before). \<exists>u. latest gt_name (gt_name t) (gd_types after) = Some u \<and> graphql_type_kept t u)
     \<and> gp_id ` set (gd_persisted_operations before) \<subseteq> gp_id ` set (gd_persisted_operations after)"

lemma compare_graphql_field_Nil: "compare_graphql_field f g = [] \<longleftrightarrow> graphql_field_kept f g"
  by (auto simp: compare_graphql_field_def graphql_field_kept_def type_narrowed_iff filter_empty_conv)

lemma compare_graphql_type_Nil: "compare_graphql_type t u = [] \<longleftrightarrow> graphql_type_kept t u"
  by (auto simp: compare_graphql_type_def graphql_type_kept_def filter_empty_conv compare_graphql_field_Nil
      split: option.split)

lemma graphql_findings_Nil:
  "compare_graphql_types before after @ compare_persisted_operations before after = [] \<longleftrightarrow> graphql_retained before after"
  by (auto simp: compare_graphql_types_def compare_persisted_operations_def graphql_retained_def filter_empty_conv
      compare_graphql_type_Nil Let_def split: option.split)

definition graphql_codes :: "string set" where
  "graphql_codes = {''graphql.return_type_narrowed'', ''graphql.required_argument_added'', ''graphql.field_removed'',
     ''graphql.enum_value_removed'', ''graphql.type_removed'', ''graphql.persisted_operation_invalidated''}"

lemma compare_graphql_field_coded: "f \<in> set (compare_graphql_field b a) \<Longrightarrow> cf_status f = Breaking \<and> cf_code f \<in> graphql_codes"
  by (auto simp: compare_graphql_field_def graphql_codes_def split: if_splits)

lemma compare_graphql_type_coded: "f \<in> set (compare_graphql_type b a) \<Longrightarrow> cf_status f = Breaking \<and> cf_code f \<in> graphql_codes"
  by (auto simp: compare_graphql_type_def graphql_codes_def split: option.splits dest: compare_graphql_field_coded [unfolded graphql_codes_def])

lemma compare_graphql_coded:
  "f \<in> set (compare_graphql_types b a) \<union> set (compare_persisted_operations b a) \<Longrightarrow> cf_status f = Breaking \<and> cf_code f \<in> graphql_codes"
  by (auto simp: compare_graphql_types_def compare_persisted_operations_def graphql_codes_def Let_def split: option.splits
      dest: compare_graphql_type_coded [unfolded graphql_codes_def])

definition graphql_findings :: "(graphql_document \<Rightarrow> string option) \<Rightarrow> graphql_document \<Rightarrow> graphql_document \<Rightarrow> compatibility_finding list" where
  "graphql_findings fp before after =
     snd (fingerprints fp before after ''graphql'') @ graphql_incomplete before after
     @ compare_graphql_types before after @ compare_persisted_operations before after"

lemma graphql_incomplete_coded:
  "f \<in> set (graphql_incomplete b a) \<Longrightarrow> cf_status f = Unknown \<and> cf_code f = ''graphql.extraction_incomplete''"
  by (auto simp: graphql_incomplete_def split: if_splits)

lemma graphql_findings_coded:
  "f \<in> set (graphql_findings fp b a) \<Longrightarrow> cf_status f = (if cf_code f \<in> graphql_codes then Breaking else Unknown)"
  using fingerprints_findings(2) [of f fp b a "''graphql''"] graphql_incomplete_coded [of f b a] compare_graphql_coded [of f b a]
  by (auto simp: graphql_findings_def) (auto simp: graphql_codes_def)

interpretation graphql: consistent_findings "\<lambda>_ _. True" "graphql_findings fp" for fp
  by unfold_locales (metis graphql_findings_coded finding_key_def prod.inject)

lemma compare_graphql_contracts_eq:
  "compare_graphql_contracts fp before after
     = finish_report (fst (fingerprints fp before after ''graphql'')) (graphql_findings fp before after)"
  by (simp add: compare_graphql_contracts_def graphql_findings_def split: prod.split)

lemma has_status_append [simp]: "has_status s (xs @ ys) \<longleftrightarrow> has_status s xs \<or> has_status s ys"
  by (auto simp: has_status_def)

lemma has_status_all: "\<forall>f \<in> set fs. cf_status f = s' \<Longrightarrow> has_status s fs \<longleftrightarrow> s = s' \<and> fs \<noteq> []"
  by (cases fs) (auto simp: has_status_iff)

lemma graphql_verdict:
  "cr_status (compare_graphql_contracts fp before after) =
     (if \<not> graphql_retained before after then Breaking
      else if unfingerprinted fp before after \<or> \<not> gd_complete before \<or> \<not> gd_complete after then Unknown
      else Compatible)"
proof -
  let ?kept = "compare_graphql_types before after @ compare_persisted_operations before after"
  have "\<forall>f \<in> set (graphql_findings fp before after). cf_status f = Breaking \<or> cf_status f = Unknown"
    using graphql_findings_coded by (metis (full_types))
  then have status: "cr_status (compare_graphql_contracts fp before after) =
      (if has_status Breaking (graphql_findings fp before after) then Breaking
       else if graphql_findings fp before after \<noteq> [] then Unknown else Compatible)"
    by (simp only: compare_graphql_contracts_eq graphql.report_status [OF TrueI] aggregate_two)
  have "has_status Breaking ?kept \<longleftrightarrow> ?kept \<noteq> []"
    using has_status_all [of ?kept Breaking Breaking] compare_graphql_coded by auto
  moreover have "\<not> has_status Breaking (snd (fingerprints fp before after ''graphql''))" "\<not> has_status Breaking (graphql_incomplete before after)"
    using fingerprints_findings(2) graphql_incomplete_coded by (fastforce simp: has_status_iff)+
  ultimately have "has_status Breaking (graphql_findings fp before after) \<longleftrightarrow> \<not> graphql_retained before after"
    unfolding graphql_findings_Nil [symmetric] by (simp add: graphql_findings_def)
  moreover have "graphql_findings fp before after = [] \<longleftrightarrow>
      graphql_retained before after \<and> \<not> unfingerprinted fp before after \<and> gd_complete before \<and> gd_complete after"
    unfolding graphql_findings_Nil [symmetric] by (auto simp: graphql_findings_def fingerprints_findings(1) graphql_incomplete_def)
  ultimately show ?thesis using status by auto
qed

lemma bt_index_ball: "(\<forall>x \<in> set (bt_index key xs). P x) \<longleftrightarrow> (\<forall>k v. latest key k xs = Some v \<longrightarrow> P (k, v))"
  by (auto simp flip: bt_index_mem)

lemma bt_index_bex: "(\<exists>x \<in> set (bt_index key xs). P x) \<longleftrightarrow> (\<exists>k v. latest key k xs = Some v \<and> P (k, v))"
  using bt_index_ball [of key xs "\<lambda>x. \<not> P x"] by blast

lemma has_status_single [simp]: "has_status s [f] \<longleftrightarrow> cf_status f = s"
  by (simp add: has_status_def)

lemma has_status_Nil [simp]: "\<not> has_status s []"
  by (simp add: has_status_def)

subsection \<open>Events\<close>

definition event_schema_kept :: "event_schema_definition \<Rightarrow> event_schema_definition \<Rightarrow> bool" where
  "event_schema_kept s t \<longleftrightarrow>
     (es_version s = es_version t \<or> es_version s = None \<or> es_version t = None)
     \<and> (\<forall>name f. latest ef_name name (es_fields s) = Some f \<longrightarrow>
          (\<exists>g. latest ef_name name (es_fields t) = Some g \<and> ef_field_type g = ef_field_type f))
     \<and> (\<forall>name g. latest ef_name name (es_fields t) = Some g \<and> ef_required g \<longrightarrow> name \<in> ef_name ` set (es_fields s))"

definition event_observation_kept :: "event_observation \<Rightarrow> event_observation \<Rightarrow> bool" where
  "event_observation_kept p q \<longleftrightarrow>
     eo_routing_key p = eo_routing_key q \<and> eo_partition_key p = eo_partition_key q
     \<and> (\<forall>s t. eo_schema p = Some s \<and> eo_schema q = Some t \<longrightarrow> event_schema_kept s t)"

definition event_retained :: "event_document \<Rightarrow> event_document \<Rightarrow> bool" where
  "event_retained before after \<longleftrightarrow>
     (\<forall>p \<in> set (ed_observations before). event_key p \<noteq> None \<longrightarrow>
        (\<exists>q. latest event_key (event_key p) (ed_observations after) = Some q \<and> event_observation_kept p q))"

definition event_coverage_changed :: "event_document \<Rightarrow> event_document \<Rightarrow> bool" where
  "event_coverage_changed before after \<longleftrightarrow>
     (\<exists>p \<in> set (ed_observations before). event_key p \<noteq> None \<and>
        (\<exists>q. latest event_key (event_key p) (ed_observations after) = Some q
           \<and> (eo_schema p = None) \<noteq> (eo_schema q = None)))"

lemma keyed_simps [simp]:
  "keyed_observations [] = []"
  "keyed_observations (xs @ ys) = keyed_observations xs @ keyed_observations ys"
  "keyed_observations (x # xs) = (case event_key x of None \<Rightarrow> [] | Some k \<Rightarrow> [(k, x)]) @ keyed_observations xs"
  by (simp_all add: keyed_observations_def List.map_filter_def split: option.split)

lemma keyed_mem: "(k, x) \<in> set (keyed_observations xs) \<longleftrightarrow> x \<in> set xs \<and> event_key x = Some k"
  by (induction xs) (auto split: option.split)

lemma keyed_ex: "(\<exists>x \<in> set (keyed_observations xs). P x) \<longleftrightarrow> (\<exists>p \<in> set xs. \<exists>k. event_key p = Some k \<and> P (k, p))"
  using keyed_mem by fastforce

lemma keyed_get: "bt_get (bt_collect (keyed_observations xs)) k = latest event_key (Some k) xs"
proof (induction xs rule: rev_induct)
  case (snoc x xs)
  then show ?case by (cases "event_key x") (auto simp: collect_snoc)
qed (simp add: bt_collect_def)

lemma compare_event_fields_Nil:
  "compare_event_fields s t after path = [] \<longleftrightarrow>
     (\<forall>name f. latest ef_name name (es_fields s) = Some f \<longrightarrow>
          (\<exists>g. latest ef_name name (es_fields t) = Some g \<and> ef_field_type g = ef_field_type f))
     \<and> (\<forall>name g. latest ef_name name (es_fields t) = Some g \<and> ef_required g \<longrightarrow> name \<in> ef_name ` set (es_fields s))"
proof -
  have kept: "(case latest ef_name name (es_fields t) of None \<Rightarrow> [x] | Some g \<Rightarrow> if ef_field_type f \<noteq> ef_field_type g then [y] else []) = []
      \<longleftrightarrow> (\<exists>g. latest ef_name name (es_fields t) = Some g \<and> ef_field_type g = ef_field_type f)"
    for name f and x y :: compatibility_finding
    by (auto split: option.split)
  show ?thesis
    by (simp add: compare_event_fields_def Let_def bt_index_ball kept filter_empty_conv bt_index_contains) blast
qed

definition event_codes :: "string set" where
  "event_codes = {''event.routing_key_changed'', ''event.schema_version_changed'', ''event.field_removed'',
     ''event.field_type_changed'', ''event.required_field_added'', ''event.channel_removed''}"

lemma compare_event_fields_coded:
  "f \<in> set (compare_event_fields s t after path) \<Longrightarrow> cf_status f = Breaking \<and> cf_code f \<in> event_codes"
  by (auto simp: compare_event_fields_def event_codes_def Let_def split: option.splits if_splits)

lemma compare_event_observation_coded:
  "f \<in> set (compare_event_observation p q path) \<Longrightarrow>
     cf_status f = Breaking \<and> cf_code f \<in> event_codes
     \<or> cf_status f = Unknown \<and> cf_code f = ''event.schema_coverage_changed'' \<and> (eo_schema p = None) \<noteq> (eo_schema q = None)"
  by (auto simp: compare_event_observation_def event_codes_def split: option.splits if_splits
      dest: compare_event_fields_coded [unfolded event_codes_def])

lemma breaking_observation: "has_status Breaking (compare_event_observation p q path) \<longleftrightarrow> \<not> event_observation_kept p q"
proof -
  have fields: "has_status Breaking (compare_event_fields s t q path) \<longleftrightarrow> compare_event_fields s t q path \<noteq> []" for s t
    using has_status_all [of "compare_event_fields s t q path" Breaking Breaking] compare_event_fields_coded by auto
  show ?thesis
    unfolding compare_event_observation_def event_observation_kept_def event_schema_kept_def compare_event_fields_Nil [symmetric, of _ _ q path]
    by (auto simp: has_status_append fields split: option.split)
qed

lemma coverage_observation:
  "(eo_schema p = None) \<noteq> (eo_schema q = None) \<Longrightarrow> has_status Unknown (compare_event_observation p q path)"
  by (auto simp: compare_event_observation_def has_status_def split: option.splits)

lemma has_status_concat: "has_status s (concat xss) \<longleftrightarrow> (\<exists>xs \<in> set xss. has_status s xs)"
  by (induction xss) (auto simp: has_status_def)

lemma compare_channels_status:
  "has_status s (compare_event_channels before after) \<longleftrightarrow>
     (\<exists>p \<in> set (ed_observations before). \<exists>k. event_key p = Some k \<and>
        (case latest event_key (Some k) (ed_observations after) of
           None \<Rightarrow> s = Breaking | Some q \<Rightarrow> has_status s (compare_event_observation p q k)))"
  by (simp add: compare_event_channels_def has_status_concat Let_def keyed_ex keyed_get eq_commute [of s Breaking] option.case_distrib [of "has_status s"] cong: option.case_cong)

lemma unknown_channels:
  assumes "event_coverage_changed before after"
  shows "has_status Unknown (compare_event_channels before after)"
proof -
  obtain p q k where "p \<in> set (ed_observations before)" "event_key p = Some k"
      "latest event_key (Some k) (ed_observations after) = Some q" "(eo_schema p = None) \<noteq> (eo_schema q = None)"
    using assms by (auto simp: event_coverage_changed_def)
  then show ?thesis
    unfolding compare_channels_status by (intro bexI [of _ p] exI [of _ k]) (simp_all add: coverage_observation)
qed

lemma breaking_channels: "has_status Breaking (compare_event_channels before after) \<longleftrightarrow> \<not> event_retained before after"
  unfolding compare_channels_status event_retained_def breaking_observation by (fastforce split: option.splits)

lemma compare_channels_coded:
  "f \<in> set (compare_event_channels b a) \<Longrightarrow>
     cf_status f = Breaking \<and> cf_code f \<in> event_codes
     \<or> cf_status f = Unknown \<and> cf_code f = ''event.schema_coverage_changed'' \<and> event_coverage_changed b a"
  unfolding compare_event_channels_def event_coverage_changed_def Let_def
  by (auto simp: keyed_mem keyed_get event_codes_def split: option.splits dest!: compare_event_observation_coded [unfolded event_codes_def])
    fastforce+

definition event_findings :: "(event_document \<Rightarrow> string option) \<Rightarrow> event_document \<Rightarrow> event_document \<Rightarrow> compatibility_finding list" where
  "event_findings fp before after =
     snd (fingerprints fp before after ''event'') @ event_incomplete before after @ compare_event_channels before after"

lemma event_incomplete_coded:
  "f \<in> set (event_incomplete b a) \<Longrightarrow> cf_status f = Unknown \<and> cf_code f = ''event.extraction_incomplete''"
  by (auto simp: event_incomplete_def split: if_splits)

lemma event_findings_coded:
  "f \<in> set (event_findings fp b a) \<Longrightarrow> cf_status f = (if cf_code f \<in> event_codes then Breaking else Unknown)"
  using fingerprints_findings(2) [of f fp b a "''event''"] event_incomplete_coded [of f b a] compare_channels_coded [of f b a]
  by (auto simp: event_findings_def) (auto simp: event_codes_def)

interpretation event: consistent_findings "\<lambda>_ _. True" "event_findings fp" for fp
  by unfold_locales (metis event_findings_coded finding_key_def prod.inject)

lemma compare_event_contracts_eq:
  "compare_event_contracts fp before after
     = finish_report (fst (fingerprints fp before after ''event'')) (event_findings fp before after)"
  by (simp add: compare_event_contracts_def event_findings_def split: prod.split)

lemma event_verdict:
  "cr_status (compare_event_contracts fp before after) =
     (if \<not> event_retained before after then Breaking
      else if unfingerprinted fp before after \<or> ed_incomplete before \<or> ed_incomplete after
              \<or> event_coverage_changed before after then Unknown
      else Compatible)"
proof -
  have "\<forall>f \<in> set (event_findings fp before after). cf_status f = Breaking \<or> cf_status f = Unknown"
    using event_findings_coded by (metis (full_types))
  then have status: "cr_status (compare_event_contracts fp before after) =
      (if has_status Breaking (event_findings fp before after) then Breaking
       else if event_findings fp before after \<noteq> [] then Unknown else Compatible)"
    by (simp only: compare_event_contracts_eq event.report_status [OF TrueI] aggregate_two)
  have "\<not> has_status Breaking (snd (fingerprints fp before after ''event''))" "\<not> has_status Breaking (event_incomplete before after)"
    using fingerprints_findings(2) event_incomplete_coded by (fastforce simp: has_status_iff)+
  then have breaking: "has_status Breaking (event_findings fp before after) \<longleftrightarrow> \<not> event_retained before after"
    by (simp add: event_findings_def breaking_channels)
  have "compare_event_channels before after = [] \<longleftrightarrow> \<not> event_coverage_changed before after" if "event_retained before after"
  proof
    assume "compare_event_channels before after = []"
    then have "\<not> has_status Unknown (compare_event_channels before after)" by (simp add: has_status_def)
    then show "\<not> event_coverage_changed before after" using unknown_channels by blast
  next
    assume "\<not> event_coverage_changed before after"
    then have "\<forall>f \<in> set (compare_event_channels before after). cf_status f = Breaking" using compare_channels_coded by blast
    then show "compare_event_channels before after = []"
      using that breaking_channels [of before after]
        has_status_all [of "compare_event_channels before after" Breaking Breaking] by simp
  qed
  then show ?thesis
    using status breaking by (auto simp: event_findings_def fingerprints_findings(1) event_incomplete_def)
qed

subsection \<open>Protobuf\<close>

text \<open>All messages of a file, a message before those nested in it.\<close>

function all_messages :: "proto_message list \<Rightarrow> proto_message list" where
  "all_messages [] = []"
| "all_messages (message # messages) = message # all_messages (pm_messages message) @ all_messages messages"
  by pat_completeness auto
termination
  by (relation "measure (size_list size)") (auto simp: nested_messages_smaller less_Suc_eq_le)

definition all_enums :: "proto_message list \<Rightarrow> proto_enum list \<Rightarrow> proto_enum list" where
  "all_enums messages enums = enums @ concat (map pm_enums (all_messages messages))"

lemma bt_index_fold: "bt_index key xs = fold (\<lambda>x. bt_insert (key x) x) xs []"
  by (simp add: bt_index_def bt_collect_def fold_map comp_def)

lemma append_messages_fold:
  "append_messages messages out = fold (\<lambda>m. bt_insert (pm_full_name m) m) (all_messages messages) out"
  by (induction messages out rule: append_messages.induct) simp_all

lemma flatten_messages_eq: "flatten_messages messages = bt_index pm_full_name (all_messages messages)"
  by (simp add: flatten_messages_def append_messages_fold bt_index_fold)

lemma append_enums_fold:
  "append_enums messages out =
     fold (\<lambda>e. bt_insert (pe_full_name e) e) (concat (map pm_enums (all_messages messages))) out"
  by (induction messages out rule: append_enums.induct) simp_all

lemma flatten_enums_eq: "flatten_enums messages enums = bt_index pe_full_name (all_enums messages enums)"
  by (simp add: flatten_enums_def append_enums_fold bt_index_fold all_enums_def)

definition proto_field_kept :: "proto_field list \<Rightarrow> proto_field \<Rightarrow> bool" where
  "proto_field_kept fs f \<longleftrightarrow>
     (\<exists>g. latest pf_number (pf_number f) fs = Some g \<and> pf_name g = pf_name f \<and> pf_wire_type g = pf_wire_type f
        \<and> pf_type_name g = pf_type_name f \<and> pf_cardinality g = pf_cardinality f)
     \<and> (\<forall>h. latest pf_name (pf_name f) fs = Some h \<longrightarrow> pf_number h = pf_number f)"

definition proto_message_kept :: "proto_message \<Rightarrow> proto_message \<Rightarrow> bool" where
  "proto_message_kept m n \<longleftrightarrow>
     (\<forall>f \<in> set (pm_fields m). proto_field_kept (pm_fields n) f)
     \<and> (\<forall>g \<in> set (pm_fields n). pf_cardinality g = RequiredField \<longrightarrow> pf_name g \<in> pf_name ` set (pm_fields m))"

definition proto_enum_kept :: "proto_enum \<Rightarrow> proto_enum \<Rightarrow> bool" where
  "proto_enum_kept e d \<longleftrightarrow>
     (\<forall>v \<in> set (pe_values e). \<exists>w. latest pv_number (pv_number v) (pe_values d) = Some w \<and> pv_name w = pv_name v)"

definition proto_method_kept :: "proto_rpc_method list \<Rightarrow> proto_rpc_method \<Rightarrow> bool" where
  "proto_method_kept methods r \<longleftrightarrow>
     (\<exists>q. latest pr_name (pr_name r) methods = Some q \<and> pr_request_type q = pr_request_type r
        \<and> pr_response_type q = pr_response_type r \<and> pr_client_streaming q = pr_client_streaming r
        \<and> pr_server_streaming q = pr_server_streaming r)"

definition proto_retained :: "proto_file \<Rightarrow> proto_file \<Rightarrow> bool" where
  "proto_retained before after \<longleftrightarrow>
     pp_package before = pp_package after
     \<and> (\<forall>name m. latest pm_full_name name (all_messages (pp_messages before)) = Some m \<longrightarrow>
          (\<exists>n. latest pm_full_name name (all_messages (pp_messages after)) = Some n \<and> proto_message_kept m n))
     \<and> (\<forall>name e. latest pe_full_name name (all_enums (pp_messages before) (pp_enums before)) = Some e \<longrightarrow>
          (\<exists>d. latest pe_full_name name (all_enums (pp_messages after) (pp_enums after)) = Some d \<and> proto_enum_kept e d))
     \<and> (\<forall>s \<in> set (pp_services before). \<exists>u. latest ps_full_name (ps_full_name s) (pp_services after) = Some u
          \<and> (\<forall>r \<in> set (ps_methods s). proto_method_kept (ps_methods u) r))"

lemma case_option_Nil:
  "(case x of None \<Rightarrow> [f] | Some y \<Rightarrow> g y) = [] \<longleftrightarrow> (\<exists>y. x = Some y \<and> g y = [])"
  by (simp split: option.split)

lemma compare_proto_field_Nil:
  "compare_proto_field name (bt_index pf_number fs) (bt_index pf_name fs) f = [] \<longleftrightarrow> proto_field_kept fs f"
  by (auto simp: compare_proto_field_def proto_field_kept_def split: option.split)

lemma compare_proto_message_Nil: "compare_proto_message name m n = [] \<longleftrightarrow> proto_message_kept m n"
proof -
  have "list_ex (\<lambda>f. pf_name f = x) fs \<longleftrightarrow> x \<in> pf_name ` set fs" for x and fs :: "proto_field list"
    by (auto simp: list_ex_iff)
  then show ?thesis
    by (simp add: compare_proto_message_def proto_message_kept_def compare_proto_field_Nil filter_empty_conv)
qed

lemma compare_proto_messages_Nil:
  "compare_proto_messages before after = [] \<longleftrightarrow>
     (\<forall>name m. latest pm_full_name name (all_messages (pp_messages before)) = Some m \<longrightarrow>
        (\<exists>n. latest pm_full_name name (all_messages (pp_messages after)) = Some n \<and> proto_message_kept m n))"
  by (simp add: compare_proto_messages_def flatten_messages_eq bt_index_ball case_option_Nil compare_proto_message_Nil)

lemma compare_proto_enum_Nil: "compare_proto_enum name e d = [] \<longleftrightarrow> proto_enum_kept e d"
  by (auto simp: compare_proto_enum_def proto_enum_kept_def filter_empty_conv Let_def)

lemma compare_proto_enums_Nil:
  "compare_proto_enums before after = [] \<longleftrightarrow>
     (\<forall>name e. latest pe_full_name name (all_enums (pp_messages before) (pp_enums before)) = Some e \<longrightarrow>
        (\<exists>d. latest pe_full_name name (all_enums (pp_messages after) (pp_enums after)) = Some d \<and> proto_enum_kept e d))"
  by (simp add: compare_proto_enums_def flatten_enums_eq bt_index_ball case_option_Nil compare_proto_enum_Nil)

lemma compare_proto_method_Nil:
  "compare_proto_method s (bt_index pr_name methods) r = [] \<longleftrightarrow> proto_method_kept methods r"
  by (auto simp: compare_proto_method_def proto_method_kept_def Let_def split: option.split)

lemma compare_proto_services_Nil:
  "compare_proto_services before after = [] \<longleftrightarrow>
     (\<forall>s \<in> set (pp_services before). \<exists>u. latest ps_full_name (ps_full_name s) (pp_services after) = Some u
        \<and> (\<forall>r \<in> set (ps_methods s). proto_method_kept (ps_methods u) r))"
  by (simp add: compare_proto_services_def case_option_Nil compare_proto_method_Nil)

definition proto_rules :: "proto_file \<Rightarrow> proto_file \<Rightarrow> compatibility_finding list" where
  "proto_rules before after =
     compare_proto_package before after @ compare_proto_messages before after @ compare_proto_enums before after
     @ compare_proto_services before after"

lemma proto_rules_Nil: "proto_rules before after = [] \<longleftrightarrow> proto_retained before after"
  unfolding proto_rules_def append_is_Nil_conv compare_proto_messages_Nil compare_proto_enums_Nil
    compare_proto_services_Nil proto_retained_def
  by (simp add: compare_proto_package_def)

text \<open>Every finding of the rules is breaking, and its code differs from the one of a missing fingerprint.\<close>

definition proto_coded :: "compatibility_finding \<Rightarrow> bool" where
  "proto_coded f \<longleftrightarrow> cf_status f = Breaking \<and> cf_code f \<noteq> ''protobuf.fingerprint_unavailable''"

lemma proto_rules_coded: "f \<in> set (proto_rules before after) \<Longrightarrow> proto_coded f"
proof -
  have field: "list_all proto_coded (compare_proto_field name x y g)" for name x y g
    by (simp add: compare_proto_field_def proto_coded_def split: option.split)
  have message: "list_all proto_coded (compare_proto_message name m n)" for name m n
    using field by (auto simp: compare_proto_message_def list_all_iff) (simp add: proto_coded_def)
  have rpc: "list_all proto_coded (compare_proto_method s ms r)" for s ms r
    by (simp add: compare_proto_method_def proto_coded_def Let_def split: option.split)
  have package: "list_all proto_coded (compare_proto_package before after)"
    by (simp add: compare_proto_package_def proto_coded_def)
  have messages: "list_all proto_coded (compare_proto_messages before after)"
    using message by (auto simp: compare_proto_messages_def list_all_iff Let_def split: option.splits) (simp add: proto_coded_def)
  have enums: "list_all proto_coded (compare_proto_enums before after)"
    by (auto simp: compare_proto_enums_def compare_proto_enum_def list_all_iff Let_def proto_coded_def split: option.splits)
  have services: "list_all proto_coded (compare_proto_services before after)"
    using rpc by (auto simp: compare_proto_services_def list_all_iff Let_def split: option.splits) (simp add: proto_coded_def)
  show "f \<in> set (proto_rules before after) \<Longrightarrow> proto_coded f"
    using package messages enums services unfolding proto_rules_def list_all_iff by auto
qed

definition proto_findings :: "(proto_file \<Rightarrow> string option) \<Rightarrow> proto_file \<Rightarrow> proto_file \<Rightarrow> compatibility_finding list" where
  "proto_findings fp before after = snd (fingerprints fp before after ''protobuf'') @ proto_rules before after"

lemma proto_findings_coded:
  "f \<in> set (proto_findings fp b a) \<Longrightarrow>
     cf_status f = (if cf_code f = ''protobuf.fingerprint_unavailable'' then Unknown else Breaking)"
  using fingerprints_findings(2) [of f fp b a "''protobuf''"] proto_rules_coded [of f b a]
  by (auto simp: proto_findings_def proto_coded_def)

interpretation protobuf: consistent_findings "\<lambda>_ _. True" "proto_findings fp" for fp
  by unfold_locales (metis proto_findings_coded finding_key_def prod.inject)

lemma compare_protobuf_contracts_eq:
  "compare_protobuf_contracts fp before after
     = finish_report (fst (fingerprints fp before after ''protobuf'')) (proto_findings fp before after)"
  by (simp add: compare_protobuf_contracts_def proto_findings_def proto_rules_def split: prod.split)

lemma protobuf_verdict:
  "cr_status (compare_protobuf_contracts fp before after) =
     (if \<not> proto_retained before after then Breaking
      else if unfingerprinted fp before after then Unknown else Compatible)"
proof -
  have "\<forall>f \<in> set (proto_findings fp before after). cf_status f = Breaking \<or> cf_status f = Unknown"
    using proto_findings_coded by (metis (full_types))
  then have "cr_status (compare_protobuf_contracts fp before after) =
      (if has_status Breaking (proto_findings fp before after) then Breaking
       else if proto_findings fp before after \<noteq> [] then Unknown else Compatible)"
    by (simp only: compare_protobuf_contracts_eq protobuf.report_status [OF TrueI] aggregate_two)
  moreover have "has_status Breaking (proto_rules before after) \<longleftrightarrow> \<not> proto_retained before after"
    using has_status_all [of "proto_rules before after" Breaking Breaking] proto_rules_coded
    by (auto simp: proto_coded_def proto_rules_Nil)
  moreover have "\<not> has_status Breaking (snd (fingerprints fp before after ''protobuf''))"
    using fingerprints_findings(2) by (fastforce simp: has_status_iff)
  ultimately show ?thesis
    by (auto simp: proto_findings_def fingerprints_findings(1) proto_rules_Nil)
qed

subsection \<open>Comparing a contract with itself\<close>

definition graphql_keyed :: "graphql_document \<Rightarrow> bool" where
  "graphql_keyed d \<longleftrightarrow> distinct (map gt_name (gd_types d)) \<and> (\<forall>t \<in> set (gd_types d). distinct (map gf_name (gt_fields t)))"

definition event_keyed :: "event_document \<Rightarrow> bool" where
  "event_keyed d \<longleftrightarrow> distinct (map event_key (filter (\<lambda>p. event_key p \<noteq> None) (ed_observations d)))"

definition proto_keyed :: "proto_file \<Rightarrow> bool" where
  "proto_keyed d \<longleftrightarrow>
     (\<forall>m \<in> set (all_messages (pp_messages d)). distinct (map pf_number (pm_fields m)) \<and> distinct (map pf_name (pm_fields m)))
     \<and> (\<forall>e \<in> set (all_enums (pp_messages d) (pp_enums d)). distinct (map pv_number (pe_values e)))
     \<and> distinct (map ps_full_name (pp_services d)) \<and> (\<forall>s \<in> set (pp_services d). distinct (map pr_name (ps_methods s)))"

lemma graphql_retained_self: "graphql_keyed d \<Longrightarrow> graphql_retained d d"
  by (auto simp: graphql_retained_def graphql_type_kept_def graphql_field_kept_def graphql_keyed_def latest_distinct)

lemma latest_filtered:
  assumes "distinct (map key (filter P xs))" "x \<in> set xs" "P x" "\<And>y. key y = key x \<Longrightarrow> P y"
  shows "latest key (key x) xs = Some x"
  using assms
proof (induction xs rule: rev_induct)
  case (snoc y xs)
  then show ?case by (cases "key y = key x") (auto split: if_splits)
qed simp

lemma event_schema_kept_self: "event_schema_kept s s"
  using latest_Some [of ef_name _ "es_fields s"] by (auto simp: event_schema_kept_def)

lemma event_retained_self:
  assumes "event_keyed d"
  shows "event_retained d d"
  unfolding event_retained_def
proof (intro ballI impI)
  fix p assume p: "p \<in> set (ed_observations d)" "event_key p \<noteq> None"
  have "latest event_key (event_key p) (ed_observations d) = Some p"
    by (rule latest_filtered [OF assms [unfolded event_keyed_def] p]) (use p in auto)
  moreover have "event_observation_kept p p"
    using event_schema_kept_self by (auto simp: event_observation_kept_def)
  ultimately show "\<exists>q. latest event_key (event_key p) (ed_observations d) = Some q \<and> event_observation_kept p q" by blast
qed

lemma event_coverage_self:
  assumes "event_keyed d"
  shows "\<not> event_coverage_changed d d"
proof
  assume "event_coverage_changed d d"
  then obtain p q where p: "p \<in> set (ed_observations d)" "event_key p \<noteq> None"
      "latest event_key (event_key p) (ed_observations d) = Some q" "(eo_schema p = None) \<noteq> (eo_schema q = None)"
    unfolding event_coverage_changed_def by blast
  moreover have "latest event_key (event_key p) (ed_observations d) = Some p"
    by (rule latest_filtered [OF assms [unfolded event_keyed_def] p(1,2)]) (use p in auto)
  ultimately show False by simp
qed

lemma proto_message_kept_self:
  assumes "distinct (map pf_number (pm_fields m))" "distinct (map pf_name (pm_fields m))"
  shows "proto_message_kept m m"
  by (auto simp: proto_message_kept_def proto_field_kept_def latest_distinct assms)

lemma proto_retained_self:
  assumes "proto_keyed d"
  shows "proto_retained d d"
proof -
  have "proto_message_kept m m" if "latest pm_full_name name (all_messages (pp_messages d)) = Some m" for name m
    using latest_Some [OF that] assms by (auto simp: proto_keyed_def intro!: proto_message_kept_self)
  moreover have "proto_enum_kept e e" if "latest pe_full_name name (all_enums (pp_messages d) (pp_enums d)) = Some e" for name e
    using latest_Some [OF that] assms by (auto simp: proto_keyed_def proto_enum_kept_def latest_distinct)
  ultimately show ?thesis
    using assms by (auto simp: proto_retained_def proto_keyed_def proto_method_kept_def latest_distinct)
qed

end
