(* ===== verification/Contract_Inventories.thy ===== *)
theory Contract_Inventories
  imports Contract_Verdicts
begin

text \<open>
  The families that are compared as inventories: HTTP operations with their replacements, package
  coordinates, exports and dependencies, and database tables, columns and migrations. The status of every finding
  is determined by its code and its coordinate, which makes the verdicts exact.
\<close>

subsection \<open>Inventories\<close>

lemma inventory_fold:
  "fst (fold (inventory_step key check duplicate) xs acc) = fold (\<lambda>x. bt_insert (key x) x) xs (fst acc)"
  by (induction xs arbitrary: acc) (simp_all add: inventory_step_def)

lemma inventory_index [simp]: "fst (inventory key check duplicate xs) = bt_index key xs"
  by (simp add: inventory_def inventory_fold bt_index_fold)

lemma inventory_findings_fold:
  assumes "\<And>k x. list_all P (check k x)" "\<And>k x y. P (duplicate k x y)" "list_all P (snd acc)"
  shows "list_all P (snd (fold (inventory_step key check duplicate) xs acc))"
  using assms(3)
proof (induction xs arbitrary: acc)
  case (Cons x xs)
  have "list_all P (snd (inventory_step key check duplicate x acc))"
    using Cons.prems assms(1,2) by (auto simp: inventory_step_def split: option.split)
  then show ?case by (simp add: Cons.IH)
qed simp

lemma inventory_findings:
  assumes "\<And>k x. list_all P (check k x)" "\<And>k x y. P (duplicate k x y)"
  shows "list_all P (snd (inventory key check duplicate xs))"
  unfolding inventory_def by (rule inventory_findings_fold [OF assms]) simp_all

lemma bt_index_keys: "set (bt_keys (bt_index key xs)) = key ` set xs"
  using bt_index_contains [of key xs] by (simp add: bt_contains_iff set_eq_iff)

subsection \<open>HTTP\<close>

text \<open>A candidate replaces an operation when it keeps the role and exactly one of method and path.\<close>

definition replaces :: "http_key \<Rightarrow> http_key \<Rightarrow> bool" where
  "replaces k c \<longleftrightarrow> fst k = fst c \<and> (fst (snd k) = fst (snd c)) \<noteq> (snd (snd k) = snd (snd c))"

lemma http_candidates_mem:
  "(c, x) \<in> set (http_candidates b a consumed k) \<longleftrightarrow>
     (c, x) \<in> set a \<and> c \<notin> set consumed \<and> \<not> bt_contains b c \<and> replaces k c"
  by (auto simp: http_candidates_def replaces_def)

text \<open>
  The state of the pass over the previous operations: an injective partial replacement of the operations
  that are gone, whose range is the consumed additions, and the findings pushed for both kinds.
\<close>

definition http_pass_ok ::
    "(http_key, http_boundary) btree_map \<Rightarrow> (http_key, http_boundary) btree_map \<Rightarrow> http_key set
       \<Rightarrow> http_key btree_set \<times> compatibility_finding list \<Rightarrow> (http_key \<rightharpoonup> http_key) \<Rightarrow> bool" where
  "http_pass_ok b a gone acc \<rho> \<longleftrightarrow>
     dom \<rho> \<subseteq> gone \<and> inj_on \<rho> (dom \<rho>) \<and> ran \<rho> = set (fst acc)
     \<and> (\<forall>k c. \<rho> k = Some c \<longrightarrow> replaces k c \<and> bt_contains a c \<and> \<not> bt_contains b c)
     \<and> (\<forall>f \<in> set (snd acc). cf_code f = ''http.operation_changed'' \<and> cf_status f = PotentiallyBreaking
          \<or> cf_code f = ''http.operation_removed'' \<and> cf_status f = Breaking)
     \<and> (has_status PotentiallyBreaking (snd acc) \<longleftrightarrow> dom \<rho> \<noteq> {})
     \<and> (has_status Breaking (snd acc) \<longleftrightarrow> \<not> gone \<subseteq> dom \<rho>)"

lemma http_pass_start: "http_pass_ok b a {} ([], []) Map.empty"
  by (simp add: http_pass_ok_def)

lemma http_pass_changed:
  assumes ok: "http_pass_ok b a gone acc \<rho>" and k: "k \<notin> gone"
    and c: "(c, x) \<in> set (http_candidates b a (fst acc) k)"
    and f: "cf_code f = ''http.operation_changed''" "cf_status f = PotentiallyBreaking"
  shows "http_pass_ok b a (insert k gone) (bs_insert c (fst acc), snd acc @ [f]) (\<rho>(k \<mapsto> c))"
proof -
  note old = ok [unfolded http_pass_ok_def]
  have fresh: "c \<notin> ran \<rho>" "replaces k c" "bt_contains a c" "\<not> bt_contains b c"
    using c old by (auto simp: http_candidates_mem bt_contains_iff rev_image_eqI)
  have "\<rho> k = None" using old k by auto
  then have "ran (\<rho>(k \<mapsto> c)) = insert c (set (fst acc))" using old by (simp add: ran_map_upd)
  moreover have "inj_on (\<rho>(k \<mapsto> c)) (dom (\<rho>(k \<mapsto> c)))"
  proof -
    have "Some c \<notin> \<rho> ` dom \<rho>" using fresh(1) by (metis imageE ranI)
    moreover have "inj_on (\<rho>(k \<mapsto> c)) (dom \<rho>)" by (rule inj_on_fun_updI) (use old calculation in auto)
    moreover have "(\<rho>(k \<mapsto> c)) ` (dom \<rho> - {k}) = \<rho> ` dom \<rho>" using \<open>\<rho> k = None\<close> by (auto simp: image_def dom_def) force
    ultimately show ?thesis by (simp add: inj_on_insert)
  qed
  moreover have "insert k gone \<subseteq> dom (\<rho>(k \<mapsto> c)) \<longleftrightarrow> gone \<subseteq> dom \<rho>" using k by auto
  moreover have "dom (\<rho>(k \<mapsto> c)) \<subseteq> insert k gone" using old by auto
  ultimately show ?thesis
    using old fresh f unfolding http_pass_ok_def by (simp del: split_paired_All)
qed

lemma http_pass_removed:
  assumes ok: "http_pass_ok b a gone acc \<rho>" and k: "k \<notin> gone"
    and f: "cf_code f = ''http.operation_removed''" "cf_status f = Breaking"
  shows "http_pass_ok b a (insert k gone) (fst acc, snd acc @ [f]) \<rho>"
proof -
  note old = ok [unfolded http_pass_ok_def]
  have "k \<notin> dom \<rho>" using old k by auto
  then show ?thesis using old f unfolding http_pass_ok_def by auto
qed

lemma http_previous_ok:
  assumes ok: "http_pass_ok b a gone acc \<rho>" and k: "fst entry \<notin> gone"
  shows "\<exists>\<rho>'. http_pass_ok b a (if bt_contains a (fst entry) then gone else insert (fst entry) gone) (http_previous b a entry acc) \<rho>'"
proof (cases "bt_contains a (fst entry)")
  case True
  then show ?thesis using ok by (auto simp: http_previous_def Let_def)
next
  case False
  show ?thesis
  proof (cases "\<exists>c x. http_candidates b a (fst acc) (fst entry) = [(c, x)]")
    case True
    then obtain c x where "http_candidates b a (fst acc) (fst entry) = [(c, x)]" by blast
    with False show ?thesis
      by (intro exI [of _ "\<rho>(fst entry \<mapsto> c)"]) (simp add: http_previous_def Let_def http_pass_changed [OF ok k])
  next
    case other: False
    have "http_previous b a entry acc = (fst acc, snd acc @ [finding ''http.operation_removed'' (http_key_path (fst entry)) Breaking
        [''endpoint and method pair is absent from the candidate inventory''] (http_evidence (snd entry))
        [''run affected HTTP consumers against the candidate provider'']])"
      using False other by (simp add: http_previous_def Let_def split: list.split prod.split)
    with False show ?thesis
      by (intro exI [of _ \<rho>]) (simp add: http_pass_removed [OF ok k])
  qed
qed

lemma http_pass_fold:
  assumes "http_pass_ok b a gone acc \<rho>" "distinct (bt_keys entries)" "set (bt_keys entries) \<inter> gone = {}"
  shows "\<exists>\<rho>'. http_pass_ok b a (gone \<union> {k \<in> set (bt_keys entries). \<not> bt_contains a k}) (fold (http_previous b a) entries acc) \<rho>'"
  using assms
proof (induction entries arbitrary: gone acc \<rho>)
  case (Cons entry entries)
  let ?gone = "if bt_contains a (fst entry) then gone else insert (fst entry) gone"
  obtain \<rho>' where step: "http_pass_ok b a ?gone (http_previous b a entry acc) \<rho>'"
    using http_previous_ok [OF Cons.prems(1), of entry] Cons.prems(3) by auto
  have "?gone \<union> {k \<in> set (bt_keys entries). \<not> bt_contains a k} = gone \<union> {k \<in> set (bt_keys (entry # entries)). \<not> bt_contains a k}"
    by auto
  then show ?case
    using Cons.IH [OF step] Cons.prems(2,3) by (simp split: if_splits)
qed auto

definition http_findings ::
    "((string \<times> string \<times> string \<times> string \<times> nat \<times> nat \<times> f32) list \<Rightarrow> string option) \<Rightarrow> http_boundary list
       \<Rightarrow> http_boundary list \<Rightarrow> compatibility_finding list" where
  "http_findings fp before after =
     (let b = bt_index http_key before; a = bt_index http_key after; pass = fold (http_previous b a) b ([], []) in
      snd (fingerprints fp (http_fingerprint_contract before) (http_fingerprint_contract after) ''http'')
      @ snd (http_inventory before ''before'') @ snd (http_inventory after ''after'') @ snd pass
      @ http_added b a (fst pass)
      @ [finding ''http.schema_semantics_unmodeled'' ''http'' Incomparable
           [''HTTP boundaries model endpoint, method, and role but not parameters or schemas'']
           (http_inventory_evidence before after)
           [''compare complete OpenAPI request, response, media-type, status, and security schemas'']])"

lemma compare_http_contracts_eq:
  "compare_http_contracts fp before after = finish_report
     (fst (fingerprints fp (http_fingerprint_contract before) (http_fingerprint_contract after) ''http''))
     (http_findings fp before after)"
proof -
  have "fst (http_inventory bs side) = bt_index http_key bs" for bs side by (simp add: http_inventory_def)
  then show ?thesis
    unfolding compare_http_contracts_def http_findings_def Let_def by (simp add: case_prod_beta)
qed

definition http_status :: "string \<Rightarrow> compatibility_status" where
  "http_status code =
     (if code = ''http.operation_changed'' then PotentiallyBreaking
      else if code = ''http.operation_removed'' then Breaking
      else if code = ''http.operation_added'' then Compatible
      else if code = ''http.operation_duplicate'' \<or> code = ''http.schema_semantics_unmodeled'' then Incomparable
      else Unknown)"

definition http_quiet :: "compatibility_finding \<Rightarrow> bool" where
  "http_quiet f \<longleftrightarrow> cf_status f = http_status (cf_code f) \<and> cf_status f \<noteq> Breaking \<and> cf_status f \<noteq> PotentiallyBreaking"

text \<open>The operations of an inventory that the other one lacks.\<close>

definition gone_operations :: "http_boundary list \<Rightarrow> http_boundary list \<Rightarrow> http_key set" where
  "gone_operations before after = http_key ` set before - http_key ` set after"

lemma http_pass_result:
  "\<exists>\<rho>. http_pass_ok (bt_index http_key before) (bt_index http_key after) (gone_operations before after)
     (fold (http_previous (bt_index http_key before) (bt_index http_key after)) (bt_index http_key before) ([], [])) \<rho>"
proof -
  have "gone_operations before after = {} \<union> {k \<in> set (bt_keys (bt_index http_key before)). \<not> bt_contains (bt_index http_key after) k}"
    unfolding bt_index_keys bt_index_contains gone_operations_def by auto
  then show ?thesis
    using http_pass_fold [OF http_pass_start bt_wf_distinct [OF bt_wf_index [of http_key before]],
        of "bt_index http_key before" "bt_index http_key after"] by simp
qed

lemma http_inventory_coded:
  "list_all http_quiet
     (snd (http_inventory bs side))"
  unfolding http_inventory_def by (rule inventory_findings) (simp_all add: http_quiet_def http_status_def)

lemma http_added_coded: "list_all http_quiet (http_added b a consumed)"
  by (auto simp: http_added_def list_all_iff http_quiet_def http_status_def)


lemma fingerprints_coded:
  "family = ''http'' \<Longrightarrow> list_all http_quiet
     (snd (fingerprints fp b a family))"
  by (simp add: fingerprints_def Let_def http_quiet_def http_status_def)

lemma http_findings_status:
  obtains \<rho> where "http_pass_ok (bt_index http_key before) (bt_index http_key after) (gone_operations before after)
      (fold (http_previous (bt_index http_key before) (bt_index http_key after)) (bt_index http_key before) ([], [])) \<rho>"
    and "list_all (\<lambda>f. cf_status f = http_status (cf_code f)) (http_findings fp before after)"
    and "has_status Breaking (http_findings fp before after) \<longleftrightarrow> \<not> gone_operations before after \<subseteq> dom \<rho>"
    and "has_status PotentiallyBreaking (http_findings fp before after) \<longleftrightarrow> dom \<rho> \<noteq> {}"
    and "has_status Incomparable (http_findings fp before after)"
proof -
  let ?b = "bt_index http_key before" and ?a = "bt_index http_key after"
  let ?pass = "fold (http_previous ?b ?a) ?b ([], [])"
  obtain \<rho> where \<rho>: "http_pass_ok ?b ?a (gone_operations before after) ?pass \<rho>" using http_pass_result by blast
  have quiet: "\<not> has_status Breaking fs \<and> \<not> has_status PotentiallyBreaking fs"
    if "list_all http_quiet fs" for fs
    using that by (auto simp: has_status_def list_ex_iff list_all_iff http_quiet_def)
  have coded: "list_all (\<lambda>f. cf_status f = http_status (cf_code f)) fs" if "list_all http_quiet fs" for fs
    using that by (simp add: list_all_iff http_quiet_def)
  note quiets = fingerprints_coded [OF refl] http_inventory_coded http_added_coded
  have pass: "list_all (\<lambda>f. cf_status f = http_status (cf_code f)) (snd ?pass)"
    using \<rho> unfolding http_pass_ok_def list_all_iff by (auto simp: http_status_def)
  have statuses: "has_status Breaking (snd ?pass) \<longleftrightarrow> \<not> gone_operations before after \<subseteq> dom \<rho>"
      "has_status PotentiallyBreaking (snd ?pass) \<longleftrightarrow> dom \<rho> \<noteq> {}"
    using \<rho> unfolding http_pass_ok_def by blast+
  show thesis
  proof (rule that [OF \<rho>])
    show "list_all (\<lambda>f. cf_status f = http_status (cf_code f)) (http_findings fp before after)"
      unfolding http_findings_def Let_def list_all_append
      by (simp add: coded [OF quiets(1)] coded [OF quiets(2)] coded [OF quiets(3)] pass) (simp add: http_status_def)
    show "has_status Breaking (http_findings fp before after) \<longleftrightarrow> \<not> gone_operations before after \<subseteq> dom \<rho>"
      "has_status PotentiallyBreaking (http_findings fp before after) \<longleftrightarrow> dom \<rho> \<noteq> {}"
      "has_status Incomparable (http_findings fp before after)"
      unfolding http_findings_def Let_def has_status_append statuses by (simp_all add: quiet [OF quiets(1)] quiet [OF quiets(2)] quiet [OF quiets(3)])
  qed
qed

interpretation http: consistent_findings "\<lambda>_ _. True" "http_findings fp" for fp
proof
  fix f g before after
  assume "f \<in> set (http_findings fp before after)" "g \<in> set (http_findings fp before after)" "finding_key f = finding_key g"
  moreover have "list_all (\<lambda>f. cf_status f = http_status (cf_code f)) (http_findings fp before after)"
    by (rule http_findings_status)
  ultimately show "cf_status f = cf_status g" by (simp add: list_all_iff finding_key_def)
qed

lemma http_verdict:
  "cr_status (compare_http_contracts fp before after) \<in> {Breaking, PotentiallyBreaking, Incomparable}"
  "cr_status (compare_http_contracts fp before after) = Incomparable \<longleftrightarrow> http_key ` set before \<subseteq> http_key ` set after"
  "cr_status (compare_http_contracts fp before after) = PotentiallyBreaking \<Longrightarrow>
     \<exists>\<rho>. inj_on \<rho> (gone_operations before after)
       \<and> (\<forall>k \<in> gone_operations before after. \<rho> k \<in> gone_operations after before \<and> replaces k (\<rho> k))"
proof -
  obtain \<rho> where \<rho>: "http_pass_ok (bt_index http_key before) (bt_index http_key after) (gone_operations before after)
      (fold (http_previous (bt_index http_key before) (bt_index http_key after)) (bt_index http_key before) ([], [])) \<rho>"
    and breaking: "has_status Breaking (http_findings fp before after) \<longleftrightarrow> \<not> gone_operations before after \<subseteq> dom \<rho>"
    and changed: "has_status PotentiallyBreaking (http_findings fp before after) \<longleftrightarrow> dom \<rho> \<noteq> {}"
    and always: "has_status Incomparable (http_findings fp before after)"
    by (rule http_findings_status)
  have dom: "dom \<rho> \<subseteq> gone_operations before after" and inj: "inj_on \<rho> (dom \<rho>)"
    and repl: "\<forall>k c. \<rho> k = Some c \<longrightarrow> replaces k c \<and> c \<in> gone_operations after before"
    using \<rho> unfolding http_pass_ok_def bt_index_contains gone_operations_def Diff_iff by - (elim conjE, assumption)+
  have status: "cr_status (compare_http_contracts fp before after) =
      (if \<not> gone_operations before after \<subseteq> dom \<rho> then Breaking else if dom \<rho> \<noteq> {} then PotentiallyBreaking else Incomparable)"
    unfolding compare_http_contracts_eq http.report_status [OF TrueI] aggregate_status_def breaking changed using always by simp
  then show "cr_status (compare_http_contracts fp before after) \<in> {Breaking, PotentiallyBreaking, Incomparable}" by auto
  have "gone_operations before after = {} \<longleftrightarrow> http_key ` set before \<subseteq> http_key ` set after"
    by (auto simp: gone_operations_def simp del: split_paired_All)
  then show "cr_status (compare_http_contracts fp before after) = Incomparable \<longleftrightarrow> http_key ` set before \<subseteq> http_key ` set after"
    using status dom by auto
  assume "cr_status (compare_http_contracts fp before after) = PotentiallyBreaking"
  then have all: "dom \<rho> = gone_operations before after" using status dom by (auto split: if_splits)
  show "\<exists>\<rho>. inj_on \<rho> (gone_operations before after)
       \<and> (\<forall>k \<in> gone_operations before after. \<rho> k \<in> gone_operations after before \<and> replaces k (\<rho> k))"
  proof (intro exI conjI)
    show "inj_on (the \<circ> \<rho>) (gone_operations before after)"
      using inj unfolding all inj_on_def comp_def by (metis all domIff option.collapse)
    show "\<forall>k \<in> gone_operations before after. (the \<circ> \<rho>) k \<in> gone_operations after before \<and> replaces k ((the \<circ> \<rho>) k)"
      using repl unfolding all [symmetric] by (metis comp_apply domD option.sel)
  qed
qed

subsection \<open>Packages\<close>

definition package_versions :: "package_manifest \<Rightarrow> package_manifest \<Rightarrow> package_key \<Rightarrow> compatibility_status" where
  "package_versions before after k =
     version_change_status (pc_version (the (latest package_key k (pk_packages before))))
       (pc_version (the (latest package_key k (pk_packages after))))"

definition dependency_drift :: "package_manifest \<Rightarrow> package_manifest \<Rightarrow> package_key \<Rightarrow> compatibility_status" where
  "dependency_drift before after k =
     (let previous = the (latest dependency_key k (pk_dependencies before));
          current_one = the (latest dependency_key k (pk_dependencies after)) in
      if pd_version_or_range previous = None \<or> pd_version_or_range current_one = None then Unknown
      else dependency_drift_status (pd_scope previous))"

text \<open>The status that the rules give a code at a coordinate.\<close>

definition package_status :: "package_manifest \<Rightarrow> package_manifest \<Rightarrow> string \<Rightarrow> package_key \<Rightarrow> compatibility_status" where
  "package_status before after code k =
     (if code = ''package.declared_version_changed'' then package_versions before after k
      else if code = ''package.dependency_removed''
      then dependency_drift_status (pd_scope (the (latest dependency_key k (pk_dependencies before))))
      else if code = ''package.dependency_drift'' then dependency_drift before after k
      else if code = ''package.dependency_added''
      then (if pd_scope (the (latest dependency_key k (pk_dependencies after))) = PeerScope then PotentiallyBreaking else Unknown)
      else if code \<in> {''package.coordinate_renamed'', ''package.coordinate_removed'', ''package.export_removed''} then Breaking
      else if code = ''package.feature_removed'' then PotentiallyBreaking
      else if code \<in> {''package.coordinate_added'', ''package.export_added'', ''package.feature_added''} then Compatible
      else if code \<in> {''package.coordinate_duplicate'', ''package.dependency_duplicate'', ''package.export_duplicate'',
        ''package.feature_duplicate'', ''package.workspace_duplicate''} then Incomparable
      else Unknown)"

definition package_codes :: "string set" where
  "package_codes = {''package.declared_version_changed'', ''package.dependency_removed'', ''package.dependency_drift'',
     ''package.dependency_added''}"

definition ecosystem_key :: "package_key \<Rightarrow> bool" where
  "ecosystem_key k \<longleftrightarrow> (\<exists>e. fst k = debug_ecosystem e)"

lemma key_path_inject:
  assumes "ecosystem_key k" "ecosystem_key l" "key_path k = key_path l"
  shows "k = l"
proof -
  obtain e m where k: "k = (debug_ecosystem e, m)" using assms(1) unfolding ecosystem_key_def by (metis prod.collapse)
  obtain d n where l: "l = (debug_ecosystem d, n)" using assms(2) unfolding ecosystem_key_def by (metis prod.collapse)
  show ?thesis using assms(3) unfolding k l key_path_def by (cases e; cases d; simp)
qed

lemma ecosystem_keys [simp]: "ecosystem_key (package_key p)" "ecosystem_key (dependency_key d)"
  by (auto simp: ecosystem_key_def package_key_def dependency_key_def)

text \<open>A finding carries the status of its code, at its coordinate where the status depends on it.\<close>

definition package_ruled :: "package_manifest \<Rightarrow> package_manifest \<Rightarrow> compatibility_finding \<Rightarrow> bool" where
  "package_ruled before after f \<longleftrightarrow>
     (if cf_code f \<in> package_codes
      then \<exists>k. ecosystem_key k \<and> cf_path f = key_path k \<and> cf_status f = package_status before after (cf_code f) k
      else cf_status f = package_status before after (cf_code f) ([], []))"

lemma package_ruled_consistent:
  assumes "package_ruled b a f" "package_ruled b a g" "finding_key f = finding_key g"
  shows "cf_status f = cf_status g"
proof -
  have same: "cf_path f = cf_path g" "cf_code f = cf_code g" using assms(3) by (simp_all add: finding_key_def)
  show ?thesis
  proof (cases "cf_code f \<in> package_codes")
    case True
    obtain k where k: "ecosystem_key k" "cf_path f = key_path k" "cf_status f = package_status b a (cf_code f) k"
      using assms(1) True unfolding package_ruled_def by (simp del: split_paired_Ex) (elim exE conjE, rule that)
    obtain l where l: "ecosystem_key l" "cf_path g = key_path l" "cf_status g = package_status b a (cf_code g) l"
      using assms(2) True same unfolding package_ruled_def by (simp del: split_paired_Ex) (elim exE conjE, rule that)
    have "k = l" using k l same key_path_inject by metis
    then show ?thesis using k l same by simp
  next
    case False
    then show ?thesis using assms same unfolding package_ruled_def by simp
  qed
qed

lemma ruled_fixed:
  assumes "cf_code f \<notin> package_codes" "cf_status f = package_status b a (cf_code f) ([], [])"
  shows "package_ruled b a f"
  using assms by (simp add: package_ruled_def)

lemma ruled_at:
  assumes "ecosystem_key k" "cf_path f = key_path k" "cf_code f \<in> package_codes" "cf_status f = package_status b a (cf_code f) k"
  shows "package_ruled b a f"
  unfolding package_ruled_def using assms by (simp del: split_paired_Ex) (rule exI [of _ k], simp)

lemma package_inventory_index [simp]:
  "fst (package_inventory ps side) = bt_index package_key ps"
  "fst (dependency_inventory ds side) = bt_index dependency_key ds"
  "fst (manifest_value_inventory pre side vs) = bt_index mv_value vs"
  by (simp_all add: package_inventory_def dependency_inventory_def manifest_value_inventory_def)

lemma package_inventory_ruled: "list_all (package_ruled b a) (snd (package_inventory ps side))"
  unfolding package_inventory_def
  by (rule inventory_findings) (simp, rule ruled_fixed, simp_all add: package_codes_def package_status_def)

lemma dependency_inventory_ruled: "list_all (package_ruled b a) (snd (dependency_inventory ds side))"
  unfolding dependency_inventory_def
  by (rule inventory_findings) (simp, rule ruled_fixed, simp_all add: package_codes_def package_status_def)

lemma package_version_ruled:
  assumes "latest package_key k (pk_packages b) = Some p" "latest package_key k (pk_packages a) = Some q"
  shows "list_all (package_ruled b a) (compare_package_version p q)"
proof -
  have k: "k = package_key p" using latest_Some [OF assms(1)] by simp
  show ?thesis
    unfolding compare_package_version_def
    using assms by (auto intro!: ruled_at [of k] simp: k package_codes_def package_status_def package_versions_def key_path_def
        package_key_def ecosystem_key_def)
qed

lemma package_previous_fold_ruled:
  assumes "\<And>k p. (k, p) \<in> set entries \<Longrightarrow> latest package_key k (pk_packages b) = Some p"
    and "list_all (package_ruled b a) (snd acc)"
  shows "list_all (package_ruled b a) (snd (fold (package_previous (bt_index package_key (pk_packages a))) entries acc))"
  using assms
proof (induction entries arbitrary: acc)
  case (Cons entry entries)
  obtain k p where entry: "entry = (k, p)" by fastforce
  have "list_all (package_ruled b a) (snd (package_previous (bt_index package_key (pk_packages a)) entry acc))"
  proof (cases "latest package_key k (pk_packages a)")
    case None
    then show ?thesis
      using Cons.prems(2)
      by (auto simp: package_previous_def entry Let_def split: list.split intro!: ruled_fixed)
        (simp_all add: package_codes_def package_status_def)
  next
    case (Some q)
    have "latest package_key k (pk_packages b) = Some p" using Cons.prems(1) entry by simp
    then show ?thesis
      using Cons.prems(2) Some package_version_ruled [of k b p a q] by (simp add: package_previous_def entry)
  qed
  then show ?case using Cons.IH Cons.prems(1) by simp
qed simp


lemma package_previous_breaking:
  "has_status Breaking (snd (fold (package_previous a) entries acc)) \<longleftrightarrow>
     has_status Breaking (snd acc)
     \<or> (\<exists>(k, p) \<in> set entries. case bt_get a k of None \<Rightarrow> True | Some q \<Rightarrow> has_status Breaking (compare_package_version p q))"
proof (induction entries arbitrary: acc)
  case (Cons entry entries)
  have "has_status Breaking (snd (package_previous a entry acc)) \<longleftrightarrow>
      has_status Breaking (snd acc)
      \<or> (case bt_get a (fst entry) of None \<Rightarrow> True | Some q \<Rightarrow> has_status Breaking (compare_package_version (snd entry) q))"
    by (simp add: package_previous_def Let_def split: option.split list.split)
  then show ?case by (simp add: Cons.IH case_prod_beta disj_assoc)
qed simp

lemma version_breaking:
  "has_status Breaking (compare_package_version p q) \<longleftrightarrow>
     (\<exists>v w. pc_version p = Some v \<and> pc_version q = Some w \<and> leading_version_major v \<noteq> leading_version_major w)"
  by (auto simp: compare_package_version_def version_change_status_def split: option.splits if_splits)

lemma coordinates_ruled: "list_all (package_ruled b a) (compare_package_coordinates b a)"
proof -
  have "list_all (package_ruled b a)
      (snd (fold (package_previous (bt_index package_key (pk_packages a))) (bt_index package_key (pk_packages b)) ([], [])))"
    by (rule package_previous_fold_ruled) (simp_all add: bt_index_mem)
  moreover have "list_all (package_ruled b a) (map (\<lambda>(key, current_one). finding ''package.coordinate_added'' (key_path key) Compatible
      [''a distinct package coordinate was added''] [package_locator current_one] [''validate publication metadata before release'']) xs)"
    for xs :: "(package_key \<times> package_coordinate) list"
    by (auto simp: list_all_iff intro!: ruled_fixed) (simp_all add: package_codes_def package_status_def)
  ultimately show ?thesis
    using package_inventory_ruled by (simp add: compare_package_coordinates_def Let_def case_prod_beta)
qed

definition major_changed :: "package_manifest \<Rightarrow> package_manifest \<Rightarrow> bool" where
  "major_changed before after \<longleftrightarrow>
     (\<exists>k p q v w. latest package_key k (pk_packages before) = Some p \<and> latest package_key k (pk_packages after) = Some q
        \<and> pc_version p = Some v \<and> pc_version q = Some w \<and> leading_version_major v \<noteq> leading_version_major w)"

lemma inventory_quiet:
  "\<not> has_status Breaking (snd (package_inventory ps side))" "\<not> has_status Breaking (snd (dependency_inventory ds side))"
  "\<not> has_status Breaking (snd (manifest_value_inventory pre side vs))"
proof -
  have quiet: "\<not> has_status Breaking fs" if "list_all (\<lambda>f. cf_status f \<noteq> Breaking) fs" for fs
    using that by (auto simp: has_status_def list_ex_iff list_all_iff)
  show "\<not> has_status Breaking (snd (package_inventory ps side))" "\<not> has_status Breaking (snd (dependency_inventory ds side))"
      "\<not> has_status Breaking (snd (manifest_value_inventory pre side vs))"
    unfolding package_inventory_def dependency_inventory_def manifest_value_inventory_def
    by (rule quiet, rule inventory_findings; simp)+
qed

lemma coordinates_breaking:
  "has_status Breaking (compare_package_coordinates b a) \<longleftrightarrow>
     \<not> package_key ` set (pk_packages b) \<subseteq> package_key ` set (pk_packages a) \<or> major_changed b a"
proof -
  have added: "\<not> has_status Breaking (map (\<lambda>(key, current_one). finding ''package.coordinate_added'' (key_path key) Compatible
      [''a distinct package coordinate was added''] [package_locator current_one] [''validate publication metadata before release'']) xs)"
    for xs :: "(package_key \<times> package_coordinate) list"
    by (auto simp: has_status_def list_ex_iff)
  have "has_status Breaking (compare_package_coordinates b a) \<longleftrightarrow>
      (\<exists>k p. latest package_key k (pk_packages b) = Some p \<and>
         (case latest package_key k (pk_packages a) of None \<Rightarrow> True | Some q \<Rightarrow> has_status Breaking (compare_package_version p q)))"
    by (simp add: compare_package_coordinates_def Let_def case_prod_beta inventory_quiet added
        package_previous_breaking bt_index_bex del: split_paired_Ex cong: option.case_cong)
  also have "\<dots> \<longleftrightarrow> (\<exists>k p. latest package_key k (pk_packages b) = Some p \<and> latest package_key k (pk_packages a) = None) \<or> major_changed b a"
  proof -
    have cases: "(case x of None \<Rightarrow> True | Some q \<Rightarrow> P q) \<longleftrightarrow> x = None \<or> (\<exists>q. x = Some q \<and> P q)" for x :: "package_coordinate option" and P
      by (simp split: option.split)
    show ?thesis unfolding cases version_breaking major_changed_def by blast
  qed
  also have "(\<exists>k p. latest package_key k (pk_packages b) = Some p \<and> latest package_key k (pk_packages a) = None)
      \<longleftrightarrow> \<not> package_key ` set (pk_packages b) \<subseteq> package_key ` set (pk_packages a)"
  proof -
    have "(\<exists>p. latest package_key k (pk_packages b) = Some p) \<longleftrightarrow> k \<in> package_key ` set (pk_packages b)" for k
      using latest_None [of package_key k "pk_packages b"] by (cases "latest package_key k (pk_packages b)") auto
    then show ?thesis by (simp add: latest_None subset_iff del: split_paired_Ex split_paired_All)
  qed
  finally show ?thesis .
qed


lemma manifest_values_ruled:
  assumes pre: "pre = ''package.export'' \<and> removed = Breaking \<and> added = Compatible
      \<or> pre = ''package.feature'' \<and> removed = PotentiallyBreaking \<and> added = Compatible
      \<or> pre = ''package.workspace'' \<and> removed = Unknown \<and> added = Unknown"
  shows "list_all (package_ruled b a) (compare_manifest_values pre xs ys removed added)"
proof -
  have codes: "package_ruled b a (finding (pre @ ''_duplicate'') p Incomparable fs es rs)"
      "package_ruled b a (finding (pre @ ''_removed'') p removed fs es rs)"
      "package_ruled b a (finding (pre @ ''_added'') p added fs es rs)" for p fs es rs
    using pre by (elim disjE conjE; simp add: package_ruled_def package_codes_def package_status_def)+
  have "list_all (package_ruled b a) (snd (manifest_value_inventory pre side vs))" for side vs
    unfolding manifest_value_inventory_def by (rule inventory_findings) (simp_all add: codes)
  then show ?thesis
    unfolding compare_manifest_values_def Let_def case_prod_beta list_all_append
    by (intro conjI) (simp_all add: list.pred_map comp_def codes case_prod_beta' list.pred_True)
qed

lemma dependencies_ruled: "list_all (package_ruled b a) (compare_package_dependencies (pk_dependencies b) (pk_dependencies a))"
proof -
  let ?a = "bt_index dependency_key (pk_dependencies a)"
  have key: "ecosystem_key k" if "latest dependency_key k ds = Some d" for k ds d
    using latest_Some [OF that] ecosystem_keys(2) by auto
  have previous: "list_all (package_ruled b a) (compare_dependency ?a (k, p))"
    if p: "latest dependency_key k (pk_dependencies b) = Some p" for k p
    unfolding compare_dependency_def Let_def fst_conv snd_conv bt_index_get
    by (simp add: package_dependency_finding_def p split: option.split, intro conjI impI allI)
      (rule ruled_at [OF key [OF p]]; auto simp: package_codes_def package_status_def dependency_drift_def p Let_def)+
  have added: "package_ruled b a (package_dependency_finding ''package.dependency_added'' k
      (if pd_scope p = PeerScope then PotentiallyBreaking else Unknown) p None factor)"
    if p: "latest dependency_key k (pk_dependencies a) = Some p" for k p factor
    unfolding package_dependency_finding_def
    by (rule ruled_at [OF key [OF p]]) (simp_all add: package_codes_def package_status_def p)
  have "list_all (package_ruled b a) (concat (map (compare_dependency ?a) (bt_index dependency_key (pk_dependencies b))))"
    using previous by (auto simp: list_all_iff bt_index_mem)
  moreover have "\<forall>e \<in> set ?a. package_ruled b a (package_dependency_finding ''package.dependency_added'' (fst e)
      (if pd_scope (snd e) = PeerScope then PotentiallyBreaking else Unknown) (snd e) None ''dependency declaration was added'')"
    using added by (simp add: bt_index_ball del: split_paired_All)
  ultimately show ?thesis
    unfolding compare_package_dependencies_def Let_def case_prod_beta list_all_append package_inventory_index
    by (intro conjI) (simp_all add: dependency_inventory_ruled [unfolded list_all_iff] list_all_iff case_prod_beta')
qed

lemma manifest_values_breaking:
  "has_status Breaking (compare_manifest_values pre xs ys removed added) \<longleftrightarrow>
     removed = Breaking \<and> \<not> mv_value ` set xs \<subseteq> mv_value ` set ys
     \<or> added = Breaking \<and> \<not> mv_value ` set ys \<subseteq> mv_value ` set xs"
proof -
  have lost: "has_status Breaking (map F (filter (\<lambda>e. \<not> bt_contains (bt_index mv_value us) (fst e)) (bt_index mv_value vs))) \<longleftrightarrow>
      s = Breaking \<and> \<not> mv_value ` set vs \<subseteq> mv_value ` set us"
    if "\<And>e. cf_status (F e) = s" for F us vs s
  proof -
    have "has_status Breaking (map F fs) \<longleftrightarrow> s = Breaking \<and> fs \<noteq> []" for fs
      using that by (induction fs) (auto simp: has_status_def)
    moreover have "filter (\<lambda>e. \<not> bt_contains (bt_index mv_value us) (fst e)) (bt_index mv_value vs) = []
        \<longleftrightarrow> mv_value ` set vs \<subseteq> mv_value ` set us"
      unfolding filter_empty_conv bt_index_contains bt_index_keys [symmetric, of mv_value vs] by auto
    ultimately show ?thesis by simp
  qed
  show ?thesis
    unfolding compare_manifest_values_def Let_def case_prod_beta has_status_append package_inventory_index
    by (simp add: inventory_quiet lost)
qed

lemma dependencies_quiet: "\<not> has_status Breaking (compare_package_dependencies xs ys)"
proof -
  have "dependency_drift_status s \<noteq> Breaking" for s by (cases s) simp_all
  then have "\<not> has_status Breaking (compare_dependency m e)" for m e
    by (simp add: compare_dependency_def Let_def package_dependency_finding_def split: option.split)
  moreover have "\<not> has_status Breaking (map (\<lambda>e. package_dependency_finding code (fst e)
      (if pd_scope (snd e) = PeerScope then PotentiallyBreaking else Unknown) (snd e) None factor) es)" for code factor es
    by (auto simp: has_status_def list_ex_iff package_dependency_finding_def)
  ultimately show ?thesis
    by (simp add: compare_package_dependencies_def Let_def case_prod_beta has_status_concat inventory_quiet
        case_prod_beta')
qed


definition package_findings :: "(package_manifest \<Rightarrow> string option) \<Rightarrow> package_manifest \<Rightarrow> package_manifest \<Rightarrow> compatibility_finding list" where
  "package_findings fp before after =
     snd (fingerprints fp before after ''package'')
     @ compare_package_coordinates before after
     @ compare_manifest_values ''package.export'' (pk_exports before) (pk_exports after) Breaking Compatible
     @ compare_package_dependencies (pk_dependencies before) (pk_dependencies after)
     @ compare_manifest_values ''package.feature'' (pk_features before) (pk_features after) PotentiallyBreaking Compatible
     @ compare_manifest_values ''package.workspace'' (pk_workspace_members before) (pk_workspace_members after) Unknown Unknown
     @ (if \<not> list_all2 manifest_value_eq (pk_workspace_members before) (pk_workspace_members after)
        then [finding ''package.workspace_cycle_unmodeled'' ''package.workspace'' Unknown
                [''workspace membership changed but dependency cycles are not modeled'']
                (manifest_value_evidence (pk_workspace_members before) (pk_workspace_members after))
                [''resolve the candidate workspace graph and reject newly introduced cycles'']]
        else [])
     @ [finding ''package.type_declarations_unmodeled'' ''package.types'' Unknown
          [''package manifests do not model public type declaration compatibility'']
          (package_manifest_evidence before after)
          [''run the ecosystem type checker against representative downstream consumers'']]"

lemma compare_package_contracts_eq:
  "compare_package_contracts fp before after
     = finish_report (fst (fingerprints fp before after ''package'')) (package_findings fp before after)"
  by (simp only: compare_package_contracts_def package_findings_def case_prod_beta Let_def)

lemma package_findings_ruled: "list_all (package_ruled b a) (package_findings fp b a)"
proof -
  have unknown: "package_ruled b a (finding code path Unknown fs es rs)"
    if "code \<in> {''package.fingerprint_unavailable'', ''package.workspace_cycle_unmodeled'', ''package.type_declarations_unmodeled''}"
    for code path fs es rs
    using that by (elim insertE) (simp_all add: package_ruled_def package_codes_def package_status_def)
  have "list_all (package_ruled b a) (snd (fingerprints fp b a ''package''))"
    by (simp add: fingerprints_def Let_def unknown)
  then show ?thesis
    unfolding package_findings_def list_all_append
    by (intro conjI) (simp_all add: coordinates_ruled dependencies_ruled manifest_values_ruled unknown)
qed

interpretation package: consistent_findings "\<lambda>_ _. True" "package_findings fp" for fp
proof
  fix f g before after
  assume "f \<in> set (package_findings fp before after)" "g \<in> set (package_findings fp before after)" "finding_key f = finding_key g"
  then show "cf_status f = cf_status g"
    using package_findings_ruled [of before after fp] package_ruled_consistent unfolding list_all_iff by blast
qed

lemma package_verdict:
  "cr_status (compare_package_contracts fp before after) \<noteq> Compatible"
  "cr_status (compare_package_contracts fp before after) = Breaking \<longleftrightarrow>
     \<not> package_key ` set (pk_packages before) \<subseteq> package_key ` set (pk_packages after)
     \<or> \<not> mv_value ` set (pk_exports before) \<subseteq> mv_value ` set (pk_exports after) \<or> major_changed before after"
proof -
  have "has_status Unknown (package_findings fp before after)" by (simp add: package_findings_def)
  then show "cr_status (compare_package_contracts fp before after) \<noteq> Compatible"
    unfolding compare_package_contracts_eq package.report_status [OF TrueI] by (simp add: aggregate_status_def)
  have "\<not> has_status Breaking (snd (fingerprints fp before after ''package''))"
    by (simp add: fingerprints_def Let_def)
  then have "has_status Breaking (package_findings fp before after) \<longleftrightarrow>
      \<not> package_key ` set (pk_packages before) \<subseteq> package_key ` set (pk_packages after)
      \<or> \<not> mv_value ` set (pk_exports before) \<subseteq> mv_value ` set (pk_exports after) \<or> major_changed before after"
    unfolding package_findings_def has_status_append coordinates_breaking manifest_values_breaking
    by (auto simp: dependencies_quiet)
  then show "cr_status (compare_package_contracts fp before after) = Breaking \<longleftrightarrow>
     \<not> package_key ` set (pk_packages before) \<subseteq> package_key ` set (pk_packages after)
     \<or> \<not> mv_value ` set (pk_exports before) \<subseteq> mv_value ` set (pk_exports after) \<or> major_changed before after"
    unfolding compare_package_contracts_eq package.report_status [OF TrueI] by (simp add: aggregate_status_def)
qed

subsection \<open>Database declarations\<close>

definition column_broken :: "database_column \<Rightarrow> database_column \<Rightarrow> bool" where
  "column_broken x y \<longleftrightarrow>
     (\<exists>v w. dc_data_type x = Some v \<and> dc_data_type y = Some w \<and> database_type_narrowed v w)
     \<or> dc_nullable x = Some True \<and> dc_nullable y = Some False \<and> \<not> dc_default_present y
     \<or> dc_primary_key x \<and> \<not> dc_primary_key y"

definition table_broken :: "database_table \<Rightarrow> database_table \<Rightarrow> bool" where
  "table_broken t u \<longleftrightarrow>
     (\<exists>c x. latest dc_name c (dt_columns t) = Some x
        \<and> (\<forall>y. latest dc_name c (dt_columns u) = Some y \<longrightarrow> column_broken x y))"

definition migration_broken :: "migration_metadata option \<Rightarrow> migration_metadata option \<Rightarrow> bool" where
  "migration_broken p q \<longleftrightarrow>
     (\<exists>m n. p = Some m \<and> q = Some n \<and>
        (mg_revision m = mg_revision n \<and> mg_down_revision m \<noteq> mg_down_revision n
         \<or> (\<exists>i j. mg_order_hint m = Some i \<and> mg_order_hint n = Some j \<and> j < i)))"

definition database_broken :: "data_document \<Rightarrow> data_document \<Rightarrow> bool" where
  "database_broken before after \<longleftrightarrow>
     (\<exists>k t. latest database_table_key k (dd_tables before) = Some t
        \<and> (\<forall>u. latest database_table_key k (dd_tables after) = Some u \<longrightarrow> table_broken t u))
     \<or> migration_broken (dd_migration before) (dd_migration after)"

lemma width_narrowed_self: "\<not> width_narrowed ps v v"
  by (induction ps) (simp_all split: option.split)

lemma type_narrowed_self: "\<not> database_type_narrowed v v"
  by (simp add: database_type_narrowed_def width_narrowed_self split: option.split)

lemma column_breaking: "has_status Breaking (compare_database_column path x y) \<longleftrightarrow> column_broken x y"
proof -
  have "dc_data_type x \<noteq> dc_data_type y \<and> type_change_status (dc_data_type x) (dc_data_type y) = Breaking \<longleftrightarrow>
      (\<exists>v w. dc_data_type x = Some v \<and> dc_data_type y = Some w \<and> database_type_narrowed v w)"
    by (auto simp: type_change_status_def type_narrowed_self split: option.split)
  moreover have "dc_nullable x \<noteq> dc_nullable y \<and> nullability_status (dc_nullable x) (dc_nullable y) (dc_default_present y) = Breaking \<longleftrightarrow>
      dc_nullable x = Some True \<and> dc_nullable y = Some False \<and> \<not> dc_default_present y"
    by (auto simp: nullability_status_def split: option.split bool.split)
  ultimately show ?thesis
    unfolding compare_database_column_def column_broken_def by (simp only: has_status_append) auto
qed

lemma indexes_quiet: "\<not> has_status Breaking (compare_database_indexes path xs ys)"
    "\<not> has_status Breaking (compare_database_foreign_keys path fs gs)"
  by (auto simp: compare_database_indexes_def compare_database_foreign_keys_def has_status_def list_ex_iff Let_def)

lemma column_inventory [simp]: "fst (database_column_inventory path side t) = bt_index dc_name (dt_columns t)"
    "fst (database_inventory d side) = bt_index database_table_key (dd_tables d)"
  by (simp_all add: database_column_inventory_def database_inventory_def)

lemma database_inventory_quiet: "\<not> has_status Breaking (snd (database_column_inventory path side t))"
    "\<not> has_status Breaking (snd (database_inventory d side))"
proof -
  have quiet: "\<not> has_status Breaking fs" if "list_all (\<lambda>f. cf_status f \<noteq> Breaking) fs" for fs
    using that by (auto simp: has_status_def list_ex_iff list_all_iff)
  show "\<not> has_status Breaking (snd (database_column_inventory path side t))" "\<not> has_status Breaking (snd (database_inventory d side))"
    unfolding database_column_inventory_def database_inventory_def by (rule quiet, rule inventory_findings; simp)+
qed

lemma case_breaking:
  "has_status Breaking (case x of None \<Rightarrow> [database_finding code path Breaking line factor] | Some y \<Rightarrow> g y)
     \<longleftrightarrow> (\<forall>y. x = Some y \<longrightarrow> has_status Breaking (g y))"
  by (simp split: option.split)

lemma table_breaking: "has_status Breaking (compare_database_table path t u) \<longleftrightarrow> table_broken t u"
  unfolding compare_database_table_def Let_def case_prod_beta has_status_append table_broken_def
  by (simp add: database_inventory_quiet indexes_quiet has_status_concat bt_index_bex case_breaking column_breaking)

lemma migrations_breaking:
  "has_status Breaking (compare_migrations before after) \<longleftrightarrow> migration_broken (dd_migration before) (dd_migration after)"
proof -
  have "has_status Breaking (migration_ancestry before after m n) \<longleftrightarrow>
      mg_revision m = mg_revision n \<and> mg_down_revision m \<noteq> mg_down_revision n
      \<or> (\<exists>i j. mg_order_hint m = Some i \<and> mg_order_hint n = Some j \<and> j < i)" for m n
    by (auto simp: migration_ancestry_def Let_def split: option.split)
  then show ?thesis
    by (simp add: compare_migrations_def migration_broken_def split: option.split)
qed

definition database_findings :: "(data_document \<Rightarrow> string option) \<Rightarrow> data_document \<Rightarrow> data_document \<Rightarrow> compatibility_finding list" where
  "database_findings fp before after =
     (let before_tables = bt_index database_table_key (dd_tables before);
          after_tables = bt_index database_table_key (dd_tables after) in
      snd (fingerprints fp before after ''database'') @ database_incomplete before after
      @ snd (database_inventory before ''before'') @ snd (database_inventory after ''after'')
      @ concat (map (\<lambda>(key, previous).
          case bt_get after_tables key of
            None \<Rightarrow> [database_finding ''database.table_removed'' key Breaking (line_get (dt_evidence previous))
                      ''table is absent from the candidate schema'']
          | Some current_one \<Rightarrow> compare_database_table key previous current_one) before_tables)
      @ compare_migrations before after
      @ [finding ''database.shared_consumer_impact_unmodeled'' ''database.consumers'' Unknown
           [''one artifact cannot establish the impact on every shared-table consumer'']
           [dd_source_path before, dd_source_path after]
           [''query the repository graph for all readers and writers, then run their integration tests'']])"

lemma compare_database_contracts_eq:
  "compare_database_contracts fp before after
     = finish_report (fst (fingerprints fp before after ''database'')) (database_findings fp before after)"
  by (simp only: compare_database_contracts_def database_findings_def case_prod_beta Let_def column_inventory)

lemma database_findings_breaking: "has_status Breaking (database_findings fp before after) \<longleftrightarrow> database_broken before after"
proof -
  have "\<not> has_status Breaking (snd (fingerprints fp before after ''database''))" "\<not> has_status Breaking (database_incomplete before after)"
    by (simp_all add: fingerprints_def database_incomplete_def Let_def)
  then show ?thesis
    unfolding database_findings_def Let_def has_status_append migrations_breaking database_broken_def
    by (simp add: database_inventory_quiet has_status_concat bt_index_bex case_breaking table_breaking)
qed

text \<open>The path of a column is its table key, a dot and its name; a name without a dot can be read back.\<close>

definition plain_columns :: "data_document \<Rightarrow> bool" where
  "plain_columns d \<longleftrightarrow> (\<forall>t \<in> set (dd_tables d). \<forall>c \<in> set (dt_columns t). CHR ''.'' \<notin> set (dc_name c))"

lemma dotted_inject:
  assumes "k @ ''.'' @ c = l @ ''.'' @ d" "CHR ''.'' \<notin> set c" "CHR ''.'' \<notin> set d"
  shows "k = l \<and> c = d"
proof -
  have "rev c @ ''.'' @ rev k = rev d @ ''.'' @ rev l" using arg_cong [OF assms(1), of rev] by simp
  then have "takeWhile (\<lambda>x. x \<noteq> CHR ''.'') (rev c @ ''.'' @ rev k) = takeWhile (\<lambda>x. x \<noteq> CHR ''.'') (rev d @ ''.'' @ rev l)" by simp
  moreover have "takeWhile (\<lambda>x. x \<noteq> CHR ''.'') (rev x @ ''.'' @ y) = rev x" if "CHR ''.'' \<notin> set x" for x y
    using that by (subst takeWhile_append2) auto
  ultimately have "c = d" using assms(2,3) by simp
  then show ?thesis using assms(1) by simp
qed

definition column_status :: "data_document \<Rightarrow> data_document \<Rightarrow> string \<Rightarrow> string \<times> string \<Rightarrow> compatibility_status" where
  "column_status before after code p =
     (let x = the (latest dc_name (snd p) (dt_columns (the (latest database_table_key (fst p) (dd_tables before)))));
          y = the (latest dc_name (snd p) (dt_columns (the (latest database_table_key (fst p) (dd_tables after))))) in
      if code = ''database.column_type_changed'' then type_change_status (dc_data_type x) (dc_data_type y)
      else nullability_status (dc_nullable x) (dc_nullable y) (dc_default_present y))"

definition database_status :: "string \<Rightarrow> compatibility_status" where
  "database_status code =
     (if code \<in> {''database.table_removed'', ''database.column_removed'', ''database.primary_key_removed'',
        ''database.migration_predecessor_changed'', ''database.migration_order_regressed''} then Breaking
      else if code \<in> {''database.unique_constraint_removed'', ''database.index_removed'', ''database.foreign_key_removed'',
        ''database.migration_predecessor_conflict''} then PotentiallyBreaking
      else if code \<in> {''database.table_duplicate'', ''database.column_duplicate''} then Incomparable
      else Unknown)"

definition column_codes :: "string set" where
  "column_codes = {''database.column_type_changed'', ''database.column_nullability_changed''}"

definition database_ruled :: "data_document \<Rightarrow> data_document \<Rightarrow> compatibility_finding \<Rightarrow> bool" where
  "database_ruled before after f \<longleftrightarrow>
     (if cf_code f \<in> column_codes
      then \<exists>k c. CHR ''.'' \<notin> set c \<and> cf_path f = k @ ''.'' @ c \<and> cf_status f = column_status before after (cf_code f) (k, c)
      else cf_status f = database_status (cf_code f))"

lemma database_ruled_consistent:
  assumes "database_ruled b a f" "database_ruled b a g" "finding_key f = finding_key g"
  shows "cf_status f = cf_status g"
proof -
  have same: "cf_path f = cf_path g" "cf_code f = cf_code g" using assms(3) by (simp_all add: finding_key_def)
  show ?thesis
  proof (cases "cf_code f \<in> column_codes")
    case True
    obtain k c where k: "CHR ''.'' \<notin> set c" "cf_path f = k @ ''.'' @ c" "cf_status f = column_status b a (cf_code f) (k, c)"
      using assms(1) True unfolding database_ruled_def by (simp only: if_True) (elim exE conjE, rule that)
    obtain l d where l: "CHR ''.'' \<notin> set d" "cf_path g = l @ ''.'' @ d" "cf_status g = column_status b a (cf_code g) (l, d)"
      using assms(2) True same unfolding database_ruled_def by (simp only: if_True) (elim exE conjE, rule that)
    have "k = l \<and> c = d" by (rule dotted_inject) (use k l same in simp_all)
    then show ?thesis using k l same by simp
  next
    case False
    then show ?thesis using assms same unfolding database_ruled_def by simp
  qed
qed


lemma column_ruled:
  assumes "latest database_table_key k (dd_tables b) = Some t" "latest database_table_key k (dd_tables a) = Some u"
    and "latest dc_name c (dt_columns t) = Some x" "latest dc_name c (dt_columns u) = Some y" "CHR ''.'' \<notin> set c"
  shows "list_all (database_ruled b a) (compare_database_column (k @ ''.'' @ c) x y)"
proof -
  have variable: "database_ruled b a (database_finding code (k @ ''.'' @ c) status line factor)"
    if "code \<in> column_codes" "status = column_status b a code (k, c)" for code status line factor
    using that assms(5) by (auto simp: database_ruled_def database_finding_def)
  have status: "column_status b a code (k, c) =
      (if code = ''database.column_type_changed'' then type_change_status (dc_data_type x) (dc_data_type y)
       else nullability_status (dc_nullable x) (dc_nullable y) (dc_default_present y))" for code
    using assms by (simp add: column_status_def)
  have fixed: "database_ruled b a (database_finding code p (database_status code) line factor)" if "code \<notin> column_codes" for code p line factor
    using that by (simp add: database_ruled_def)
  have ruled: "database_ruled b a (database_finding ''database.column_type_changed'' (k @ ''.'' @ c)
        (type_change_status (dc_data_type x) (dc_data_type y)) line factor)"
      "database_ruled b a (database_finding ''database.column_nullability_changed'' (k @ ''.'' @ c)
        (nullability_status (dc_nullable x) (dc_nullable y) (dc_default_present y)) line factor)" for line factor
    by (rule variable; simp add: column_codes_def status)+
  have constraints: "database_ruled b a (database_finding ''database.primary_key_removed'' (k @ ''.'' @ c) Breaking line factor)"
      "database_ruled b a (database_finding ''database.unique_constraint_removed'' (k @ ''.'' @ c) PotentiallyBreaking line factor)"
    for line factor
    by (simp_all add: database_ruled_def column_codes_def database_status_def)
  show ?thesis
    unfolding compare_database_column_def list_all_append
    by (intro conjI; simp only: ruled constraints list.pred_inject simp_thms split: if_split)
qed

lemma list_all_concat_map: "list_all P (concat (map f xs)) \<longleftrightarrow> (\<forall>x \<in> set xs. list_all P (f x))"
  by (induction xs) auto

lemma fixed_ruled:
  assumes "cf_code f \<notin> column_codes" "cf_status f = database_status (cf_code f)"
  shows "database_ruled b a f"
  using assms by (simp add: database_ruled_def)

lemma inventories_ruled: "list_all (database_ruled b a) (snd (database_column_inventory path side t))"
    "list_all (database_ruled b a) (snd (database_inventory d side))"
  unfolding database_column_inventory_def database_inventory_def
  by (rule inventory_findings, simp, rule fixed_ruled; simp add: column_codes_def database_status_def)+

lemma indexes_ruled: "list_all (database_ruled b a) (compare_database_indexes path xs ys)"
    "list_all (database_ruled b a) (compare_database_foreign_keys path fs gs)"
  by (auto simp: compare_database_indexes_def compare_database_foreign_keys_def list_all_iff Let_def intro!: fixed_ruled)
    (simp_all add: column_codes_def database_status_def)

lemma table_ruled:
  assumes "latest database_table_key k (dd_tables b) = Some t" "latest database_table_key k (dd_tables a) = Some u"
    and "plain_columns b"
  shows "list_all (database_ruled b a) (compare_database_table k t u)"
proof -
  have plain: "CHR ''.'' \<notin> set c" if "latest dc_name c (dt_columns t) = Some x" for c x
    using latest_Some [OF that] latest_Some [OF assms(1)] assms(3) by (auto simp: plain_columns_def)
  have removed: "database_ruled b a (database_finding ''database.column_removed'' path Breaking line factor)" for path line factor
    by (rule fixed_ruled) (simp_all add: column_codes_def database_status_def)
  have "list_all (database_ruled b a) (case latest dc_name c (dt_columns u) of
        None \<Rightarrow> [database_finding ''database.column_removed'' (k @ ''.'' @ c) Breaking (line_get (dc_evidence x)) ''column is absent from the candidate table'']
      | Some y \<Rightarrow> compare_database_column (k @ ''.'' @ c) x y)" if "latest dc_name c (dt_columns t) = Some x" for c x
    using column_ruled [OF assms(1,2) that] plain [OF that] by (simp add: removed split: option.split)
  then show ?thesis
    unfolding compare_database_table_def Let_def case_prod_beta list_all_append column_inventory bt_index_get
    by (intro conjI) (simp_all add: inventories_ruled indexes_ruled list_all_concat_map bt_index_ball cong: option.case_cong)
qed


lemma database_findings_ruled:
  assumes "plain_columns b"
  shows "list_all (database_ruled b a) (database_findings fp b a)"
proof -
  have fixed: "database_ruled b a (finding code path (database_status code) fs es rs)" if "code \<notin> column_codes" for code path fs es rs
    using that by (simp add: database_ruled_def)
  have unknown: "database_ruled b a (finding code path Unknown fs es rs)"
    if "code \<in> {''database.fingerprint_unavailable'', ''database.extraction_incomplete'', ''database.migration_metadata_removed'',
      ''database.migration_metadata_added'', ''database.shared_consumer_impact_unmodeled''}" for code path fs es rs
    using that by (elim insertE) (simp_all add: database_ruled_def column_codes_def database_status_def)
  have removed: "database_ruled b a (database_finding ''database.table_removed'' path Breaking line factor)" for path line factor
    by (rule fixed_ruled) (simp_all add: column_codes_def database_status_def)
  have start: "list_all (database_ruled b a) (snd (fingerprints fp b a ''database''))" "list_all (database_ruled b a) (database_incomplete b a)"
    by (simp_all add: fingerprints_def database_incomplete_def Let_def unknown)
  have "list_all (database_ruled b a) (migration_ancestry b a m n)" for m n
    by (auto simp: migration_ancestry_def Let_def split: option.split intro!: fixed_ruled)
      (simp_all add: column_codes_def database_status_def)
  then have migrations: "list_all (database_ruled b a) (compare_migrations b a)"
    by (simp add: compare_migrations_def unknown split: option.split)
  have "list_all (database_ruled b a) (case latest database_table_key k (dd_tables a) of
        None \<Rightarrow> [database_finding ''database.table_removed'' k Breaking (line_get (dt_evidence t)) ''table is absent from the candidate schema'']
      | Some u \<Rightarrow> compare_database_table k t u)" if "latest database_table_key k (dd_tables b) = Some t" for k t
    using table_ruled [OF that _ assms] by (simp add: removed split: option.split)
  then show ?thesis
    unfolding database_findings_def Let_def list_all_append
    by (intro conjI) (simp_all add: start inventories_ruled migrations unknown list_all_concat_map bt_index_ball cong: option.case_cong)
qed

interpretation database: consistent_findings "\<lambda>before after. plain_columns before" "database_findings fp" for fp
proof
  fix before after f g
  assume plain: "plain_columns before" and mem: "f \<in> set (database_findings fp before after)"
    "g \<in> set (database_findings fp before after)" and key: "finding_key f = finding_key g"
  have "database_ruled before after f" "database_ruled before after g"
    using database_findings_ruled [OF plain, of after fp] mem by (simp_all add: list_all_iff)
  then show "cf_status f = cf_status g" using key by (rule database_ruled_consistent)
qed

lemma database_verdict:
  assumes "plain_columns before"
  shows "cr_status (compare_database_contracts fp before after) = Breaking \<longleftrightarrow> database_broken before after"
    "cr_status (compare_database_contracts fp before after) \<noteq> Compatible"
proof -
  have "has_status Unknown (database_findings fp before after)" by (simp add: database_findings_def Let_def)
  then show "cr_status (compare_database_contracts fp before after) = Breaking \<longleftrightarrow> database_broken before after"
      "cr_status (compare_database_contracts fp before after) \<noteq> Compatible"
    unfolding compare_database_contracts_eq database.report_status [OF assms]
    by (simp_all add: aggregate_status_def database_findings_breaking)
qed

end
