(* ===== verification/Contract_Correct.thy ===== *)
theory Contract_Correct
  imports Contract_Inventories
begin

text \<open>
  The properties of the contract compatibility rules: the exact verdict of each family, the shape and
  the bounds of every report, and the comparison of a document with itself, with sample documents that show where
  the rules depart from their intent.
\<close>

subsection \<open>Bounds of a report\<close>

definition bounded_finding :: "compatibility_finding \<Rightarrow> bool" where
  "bounded_finding f \<longleftrightarrow>
     (\<forall>vs \<in> {cf_factors f, cf_evidence f, cf_recommended_validations f}.
        length vs \<le> max_finding_values \<and> (\<forall>v \<in> set vs. length (utf8_chars v) \<le> max_finding_value_chars))"

lemma utf8_len_pos: "0 < utf8_len c"
  by (simp add: utf8_len_def)

lemma utf8_chars_take: "utf8_chars (concat (take n (utf8_chars v))) = take n (utf8_chars v)"
proof (induction v arbitrary: n rule: utf8_chars.induct)
  case (1 s)
  show ?case
  proof (cases "s = [] \<or> n = 0")
    case True
    then show ?thesis by (auto simp: utf8_chars.simps [of "[]"])
  next
    case False
    then obtain m where n: "n = Suc m" by (cases n) auto
    let ?l = "utf8_len (hd s)"
    have s: "utf8_chars s = take ?l s # utf8_chars (drop ?l s)" using False by (simp add: utf8_chars.simps [of s])
    let ?rest = "concat (take m (utf8_chars (drop ?l s)))"
    have whole: "concat (take n (utf8_chars s)) = take ?l s @ ?rest" by (simp add: s n)
    have hd: "take ?l s @ ?rest \<noteq> []" "hd (take ?l s @ ?rest) = hd s"
      using False utf8_len_pos [of "hd s"] by (cases s; simp)+
    have "take ?l (take ?l s @ ?rest) = take ?l s \<and> drop ?l (take ?l s @ ?rest) = ?rest"
    proof (cases "?l \<le> length s")
      case False
      then have rest: "?rest = []" by (simp add: utf8_chars.simps [of "[]"])
      show ?thesis unfolding rest using False by simp
    qed simp
    then have "utf8_chars (take ?l s @ ?rest) = take ?l s # utf8_chars ?rest"
      using hd by (simp add: utf8_chars.simps [of "take ?l s @ ?rest"])
    moreover have "utf8_chars ?rest = take m (utf8_chars (drop ?l s))" using 1 False by simp
    ultimately show ?thesis by (simp add: whole s n)
  qed
qed

lemma bounded_values_bounds:
  "length (bounded_values vs) \<le> max_finding_values"
  "v \<in> set (bounded_values vs) \<Longrightarrow> length (utf8_chars v) \<le> max_finding_value_chars"
  by (auto simp: bounded_values_def utf8_chars_take)

lemma bounded_finding [simp]: "bounded_finding (finding code path status factors evidence recommended)"
  by (simp add: bounded_finding_def finding_def bounded_values_bounds)

lemma bounded_constructors [simp]:
  "bounded_finding (graphql_breaking code path line factor)" "bounded_finding (event_breaking code path observation factor)"
  "bounded_finding (proto_breaking code path line factor)" "bounded_finding (database_finding code path status line factor)"
  "bounded_finding (package_dependency_finding code key status x y factor)"
  by (simp_all add: graphql_breaking_def event_breaking_def proto_breaking_def database_finding_def package_dependency_finding_def)

lemma bounded_fingerprints [simp]: "list_all bounded_finding (snd (fingerprints fp b a family))"
  by (simp add: fingerprints_def Let_def)

lemma list_all_map_bounded: "(\<And>x. P (f x)) \<Longrightarrow> list_all P (map f xs)"
  by (induction xs) simp_all

lemma bounded_graphql: "list_all bounded_finding (graphql_findings fp b a)"
proof -
  have "list_all bounded_finding (compare_graphql_field f g)" for f g
    by (simp add: compare_graphql_field_def list_all_map_bounded Let_def)
  then have "list_all bounded_finding (compare_graphql_type t u)" for t u
    by (simp add: compare_graphql_type_def list_all_map_bounded list_all_concat_map Let_def split: option.split)
  then show ?thesis
    by (simp add: graphql_findings_def graphql_incomplete_def compare_graphql_types_def compare_persisted_operations_def
        list_all_map_bounded list_all_concat_map Let_def split: option.split)
qed

lemma bounded_event: "list_all bounded_finding (event_findings fp b a)"
proof -
  have "list_all bounded_finding (compare_event_fields s t q path)" for s t q path
    by (auto simp: compare_event_fields_def list_all_map_bounded list_all_concat_map Let_def case_prod_beta' split: option.split)
  then have "list_all bounded_finding (compare_event_observation p q path)" for p q path
    by (simp add: compare_event_observation_def split: option.split)
  then show ?thesis
    by (auto simp: event_findings_def event_incomplete_def compare_event_channels_def list_all_concat_map Let_def split: option.split)
qed

lemma bounded_protobuf: "list_all bounded_finding (proto_findings fp b a)"
proof -
  have "list_all bounded_finding (compare_proto_field name x y f)" for name x y f
    by (simp add: compare_proto_field_def split: option.split)
  then have messages: "list_all bounded_finding (compare_proto_message name m n)" for name m n
    by (simp add: compare_proto_message_def list_all_map_bounded list_all_concat_map)
  have methods: "list_all bounded_finding (compare_proto_method s ms r)" for s ms r
    by (simp add: compare_proto_method_def Let_def split: option.split)
  have enums: "list_all bounded_finding (compare_proto_enum name e d)" for name e d
    by (simp add: compare_proto_enum_def list_all_map_bounded Let_def)
  show ?thesis
    by (auto simp: proto_findings_def proto_rules_def compare_proto_package_def compare_proto_messages_def compare_proto_enums_def
        compare_proto_services_def list_all_concat_map messages methods enums Let_def split: option.split)
qed

lemma bounded_inventory:
  assumes "\<And>k x. list_all bounded_finding (check k x)" "\<And>k x y. bounded_finding (duplicate k x y)"
  shows "list_all bounded_finding (snd (inventory key check duplicate xs))"
  using assms by (rule inventory_findings)

lemma bounded_http: "list_all bounded_finding (http_findings fp before after)"
proof -
  let ?b = "bt_index http_key before" and ?a = "bt_index http_key after"
  have step: "list_all bounded_finding (snd (http_previous b a e acc))" if "list_all bounded_finding (snd acc)" for b a e acc
    using that by (simp add: http_previous_def Let_def split: list.split)
  have "list_all bounded_finding (snd (fold (http_previous ?b ?a) ?b ([], [])))"
    by (rule fold_invariant [where I = "\<lambda>acc. list_all bounded_finding (snd acc)"]) (simp_all add: step)
  moreover have "list_all bounded_finding (snd (http_inventory bs side))" for bs side
    unfolding http_inventory_def by (rule bounded_inventory) simp_all
  ultimately show ?thesis
    by (simp add: http_findings_def Let_def http_added_def list_all_map_bounded case_prod_beta')
qed

lemma bounded_package: "list_all bounded_finding (package_findings fp b a)"
proof -
  have inventories: "list_all bounded_finding (snd (package_inventory ps side))" "list_all bounded_finding (snd (dependency_inventory ds side))"
      "list_all bounded_finding (snd (manifest_value_inventory pre side vs))" for ps ds vs side pre
    unfolding package_inventory_def dependency_inventory_def manifest_value_inventory_def by (rule bounded_inventory; simp)+
  have step: "list_all bounded_finding (snd (package_previous m e acc))" if "list_all bounded_finding (snd acc)" for m e acc
    using that by (simp add: package_previous_def compare_package_version_def Let_def split: list.split option.split)
  have pass: "list_all bounded_finding (snd (fold (package_previous m) es ([], [])))" for m es
    by (rule fold_invariant [where I = "\<lambda>acc. list_all bounded_finding (snd acc)"]) (simp_all add: step)
  have manifest_values: "list_all bounded_finding (compare_manifest_values pre xs ys removed added)" for pre xs ys removed added
    by (simp add: compare_manifest_values_def Let_def case_prod_beta inventories list_all_map_bounded case_prod_beta')
  have "list_all bounded_finding (compare_dependency m e)" for m e
    by (simp add: compare_dependency_def Let_def split: option.split)
  then have "list_all bounded_finding (compare_package_dependencies xs ys)" for xs ys
    by (simp add: compare_package_dependencies_def Let_def case_prod_beta inventories list_all_map_bounded list_all_concat_map case_prod_beta')
  then show ?thesis
    by (simp add: package_findings_def compare_package_coordinates_def Let_def case_prod_beta inventories pass manifest_values
        list_all_map_bounded case_prod_beta')
qed

lemma bounded_database: "list_all bounded_finding (database_findings fp b a)"
proof -
  have inventories: "list_all bounded_finding (snd (database_inventory d side))"
      "list_all bounded_finding (snd (database_column_inventory path side t))" for d side path t
    unfolding database_inventory_def database_column_inventory_def by (rule bounded_inventory; simp)+
  have columns: "list_all bounded_finding (compare_database_column path x y)" for path x y
    by (simp add: compare_database_column_def)
  have "list_all bounded_finding (compare_database_indexes path xs ys)" "list_all bounded_finding (compare_database_foreign_keys path fs gs)"
    for path xs ys fs gs
    by (simp_all add: compare_database_indexes_def compare_database_foreign_keys_def list_all_map_bounded Let_def)
  then have tables: "list_all bounded_finding (compare_database_table path t u)" for path t u
    by (auto simp: compare_database_table_def Let_def case_prod_beta inventories columns list_all_concat_map split: option.split)
  have "list_all bounded_finding (compare_migrations b a)"
    by (simp add: compare_migrations_def migration_ancestry_def Let_def split: option.split)
  then show ?thesis
    by (auto simp: database_findings_def database_incomplete_def Let_def inventories tables list_all_concat_map split: option.split)
qed

definition report_ok :: "compatibility_report \<Rightarrow> bool" where
  "report_ok r \<longleftrightarrow> sorted_wrt (<) (map finding_key (cr_findings r)) \<and> list_all bounded_finding (cr_findings r)
     \<and> cr_status r = aggregate_status (cr_findings r)"

lemma finish_report_ok: "list_all bounded_finding fs \<Longrightarrow> report_ok (finish_report prints fs)"
  using ordered_findings [of fs] by (auto simp: report_ok_def finish_report_def list_all_iff)

subsection \<open>Sample contracts\<close>

definition line_range :: "nat \<Rightarrow> graphql_line_range" where
  "line_range n = \<lparr>glr_start = n, glr_end = n\<rparr>"

definition sample_field :: "string \<Rightarrow> string \<Rightarrow> graphql_type_ref \<Rightarrow> graphql_field_definition" where
  "sample_field owner name type_ref =
     \<lparr>gf_coordinate = owner @ ''.'' @ name, gf_name = name, gf_arguments = [], gf_type_ref = type_ref,
      gf_directives = [], gf_extension = False, gf_lines = line_range 2\<rparr>"

definition sample_type :: "string \<Rightarrow> graphql_field_definition list \<Rightarrow> bool \<Rightarrow> graphql_type_definition" where
  "sample_type name members extension =
     \<lparr>gt_kind = ObjectType, gt_name = name, gt_fields = members, gt_implements = [], gt_enum_values = [],
      gt_union_members = [], gt_directives = [], gt_extension = extension, gt_lines = line_range 1\<rparr>"

definition sample_schema :: "graphql_type_definition list \<Rightarrow> graphql_document" where
  "sample_schema types = (empty_graphql_document ''schema.graphql'')\<lparr>gd_types := types\<rparr>"

definition sample_observation :: "string \<Rightarrow> event_observation" where
  "sample_observation routing_key =
     \<lparr>eo_broker = RabbitMq, eo_role = Publisher, eo_channel = Some ''orders'', eo_namespace = None, eo_protocol = Some ''amqp'',
      eo_event_type = None, eo_schema = None, eo_partition_key = None, eo_routing_key = Some routing_key,
      eo_delivery_semantics = None, eo_dead_letter_channel = None, eo_language = None,
      eo_evidence = [\<lparr>el_line = 4, el_text = ''publish''\<rparr>], eo_confidence = Fin 1, eo_incomplete = False, eo_warnings = []\<rparr>"

definition sample_events :: "event_observation list \<Rightarrow> event_document" where
  "sample_events observations =
     \<lparr>ed_source_path = Some ''orders.py'', ed_specification = None, ed_specification_version = None,
      ed_observations = observations, ed_warnings = [], ed_incomplete = False\<rparr>"

definition sample_proto_field :: "int \<Rightarrow> string \<Rightarrow> proto_field" where
  "sample_proto_field number name =
     \<lparr>pf_name = name, pf_number = number, pf_type_name = ''string'', pf_wire_type = LengthDelimited, pf_cardinality = Singular,
      pf_oneof = None, pf_map_key_type = None, pf_map_value_type = None, pf_options = [], pf_line = 4\<rparr>"

definition sample_enum :: "(int \<times> string) list \<Rightarrow> proto_enum" where
  "sample_enum members =
     \<lparr>pe_name = ''State'', pe_full_name = ''State'',
      pe_values = map (\<lambda>(number, name). \<lparr>pv_name = name, pv_number = number, pv_options = [], pv_line = 2\<rparr>) members,
      pe_reserved_numbers = [], pe_reserved_names = [], pe_options = [], pe_line = 1\<rparr>"

definition sample_proto :: "proto_field list \<Rightarrow> (int \<times> string) list \<Rightarrow> proto_file" where
  "sample_proto members enum_members =
     \<lparr>pp_source_path = ''state.proto'', pp_syntax = Proto3, pp_syntax_line = Some 1, pp_package = None, pp_package_line = None,
      pp_imports = [], pp_public_imports = [], pp_weak_imports = [], pp_import_lines = [], pp_options = [],
      pp_messages = [ProtoMessage ''Order'' ''Order'' members [] [] [] [] [] False 3],
      pp_enums = [sample_enum enum_members], pp_services = []\<rparr>"

lemmas sample_contracts = line_range_def sample_field_def sample_type_def sample_schema_def empty_graphql_document_def
  sample_observation_def sample_events_def sample_proto_field_def sample_enum_def sample_proto_def

definition sample_column :: "string \<Rightarrow> string \<Rightarrow> nat \<Rightarrow> database_column" where
  "sample_column name data_type line =
     \<lparr>dc_name = name, dc_data_type = Some data_type, dc_nullable = Some False, dc_primary_key = False, dc_unique = False,
      dc_default_present = False, dc_evidence = DataEvidenceLine line\<rparr>"

definition sample_table :: "string option \<Rightarrow> string \<Rightarrow> database_column list \<Rightarrow> database_table" where
  "sample_table schema name columns =
     \<lparr>dt_database = None, dt_schema = schema, dt_name = name, dt_columns = columns, dt_indexes = [], dt_foreign_keys = [],
      dt_evidence = DataEvidenceLine 1\<rparr>"

definition sample_database :: "database_table list \<Rightarrow> data_document" where
  "sample_database tables =
     \<lparr>dd_source_path = ''schema.sql'', dd_artifact_kind = DeclarativeSqlSchema, dd_database_name = None, dd_schema_name = None,
      dd_tables = tables, dd_migration = None, dd_accesses = [], dd_frameworks = [], dd_references = [], dd_owners = [],
      dd_warnings = [], dd_incomplete = False\<rparr>"

definition sample_package :: "string \<Rightarrow> package_coordinate" where
  "sample_package name =
     \<lparr>pc_ecosystem = Cargo, pc_name = name, pc_version = Some ''1.0.0'', pc_source_path = ''Cargo.toml'',
      pc_evidence = \<lparr>pl_line = 2, pl_text = []\<rparr>, pc_confidence = Fin 1\<rparr>"

definition sample_manifest :: "package_coordinate list \<Rightarrow> package_manifest" where
  "sample_manifest packages =
     \<lparr>pk_packages = packages, pk_dependencies = [], pk_workspace_members = [], pk_exports = [], pk_features = [], pk_lockfiles = []\<rparr>"

lemmas sample_declarations = sample_column_def sample_table_def sample_database_def sample_package_def sample_manifest_def

subsection \<open>Properties\<close>



text \<open>
  C18: the verdict on two protobuf files, whose messages and enums are searched at every nesting depth. It is
  breaking exactly when the package changes or a message, field number, wire type, cardinality, enum number, service
  or method signature of the previous file is not retained, or a required field is new.\<close>

theorem protobuf_verdict_exact:
  "cr_status (compare_protobuf_contracts fp before after) =
     (if \<not> proto_retained before after then Breaking
      else if unfingerprinted fp before after then Unknown else Compatible)"
  by (rule protobuf_verdict)

text \<open>
  C17: the verdict on two HTTP inventories. It is never compatible or unknown; it stays incomparable exactly when
  every operation is still there; and it is only potentially breaking when every operation that is gone has a
  replacement of its own among the new ones, with the same role and exactly one of method and path changed.\<close>

theorem http_verdict_exact:
  "cr_status (compare_http_contracts fp before after) \<in> {Breaking, PotentiallyBreaking, Incomparable}
   \<and> (cr_status (compare_http_contracts fp before after) = Incomparable \<longleftrightarrow> http_key ` set before \<subseteq> http_key ` set after)
   \<and> (cr_status (compare_http_contracts fp before after) = PotentiallyBreaking \<longrightarrow>
        (\<exists>\<rho>. inj_on \<rho> (gone_operations before after)
           \<and> (\<forall>k \<in> gone_operations before after. \<rho> k \<in> gone_operations after before \<and> replaces k (\<rho> k))))"
  using http_verdict by blast

text \<open>
  C21: the verdict on two package manifests is breaking exactly when a package coordinate or an export is gone or
  the leading number of a declared version changed, and never compatible.\<close>

theorem package_verdict_exact:
  "(cr_status (compare_package_contracts fp before after) = Breaking \<longleftrightarrow>
      \<not> (package_key ` set (pk_packages before) \<subseteq> package_key ` set (pk_packages after)
         \<and> mv_value ` set (pk_exports before) \<subseteq> mv_value ` set (pk_exports after) \<and> \<not> major_changed before after))
   \<and> cr_status (compare_package_contracts fp before after) \<noteq> Compatible"
  using package_verdict [of fp before after] by blast

text \<open>
  C20: when no column name of the previous document has a dot, the verdict on two database documents is breaking
  exactly when a table, a column or a primary key is gone, a column type is narrowed, a column becomes mandatory
  without a default, or the migration ancestry or order is violated; it is never compatible.\<close>

theorem database_verdict_exact:
  assumes "plain_columns before"
  shows "(cr_status (compare_database_contracts fp before after) = Breaking \<longleftrightarrow> database_broken before after)
    \<and> cr_status (compare_database_contracts fp before after) \<noteq> Compatible"
  using database_verdict [OF assms] by blast

text \<open>
  C39: every report lists its findings in strictly increasing order of path and code, with at most eight values of at
  most 512 characters per list, and its status is the aggregate of the findings it lists.\<close>

theorem compatibility_reports_ok:
  "report_ok (compare_graphql_contracts fg g g') \<and> report_ok (compare_event_contracts fe e e')
   \<and> report_ok (compare_protobuf_contracts fpr p p') \<and> report_ok (compare_http_contracts fh h h')
   \<and> report_ok (compare_package_contracts fm m m') \<and> report_ok (compare_database_contracts fd d d')"
  unfolding compare_graphql_contracts_eq compare_event_contracts_eq compare_protobuf_contracts_eq compare_http_contracts_eq
    compare_package_contracts_eq compare_database_contracts_eq
  by (intro conjI finish_report_ok bounded_graphql bounded_event bounded_protobuf bounded_http bounded_package bounded_database)

text \<open>
  C40: a contract compared with itself is compatible, for a complete GraphQL document with unique type and field
  names, a complete event document with one observation per channel key, and a protobuf file with unique field
  numbers and names, enum numbers, services and methods.\<close>

theorem unchanged_contracts_compatible:
  "(graphql_keyed g \<and> gd_complete g \<and> fg g \<noteq> None \<longrightarrow> cr_status (compare_graphql_contracts fg g g) = Compatible)
   \<and> (event_keyed e \<and> \<not> ed_incomplete e \<and> fe e \<noteq> None \<longrightarrow> cr_status (compare_event_contracts fe e e) = Compatible)
   \<and> (proto_keyed p \<and> fpr p \<noteq> None \<longrightarrow> cr_status (compare_protobuf_contracts fpr p p) = Compatible)"
  by (simp add: graphql_verdict graphql_retained_self event_verdict event_retained_self event_coverage_self
      protobuf_verdict proto_retained_self unfingerprinted_def)

subsection \<open>Witnesses\<close>

lemma sample_gone:
  "gone_operations [sample_boundary ''a'' ''shop'' ''/orders''] [sample_boundary ''a'' ''shop'' ''/v2/orders''] = {(''provider'', ''GET'', ''/orders'')}"
  "gone_operations [sample_boundary ''a'' ''shop'' ''/v2/orders''] [sample_boundary ''a'' ''shop'' ''/orders''] = {(''provider'', ''GET'', ''/v2/orders'')}"
  "gone_operations [sample_boundary ''a'' ''shop'' ''/orders''] [] = {(''provider'', ''GET'', ''/orders'')}"
proof -
  have keys: "http_key (sample_boundary ''a'' ''shop'' ''/orders'') = (''provider'', ''GET'', ''/orders'')"
      "http_key (sample_boundary ''a'' ''shop'' ''/v2/orders'') = (''provider'', ''GET'', ''/v2/orders'')"
    by code_simp+
  show "gone_operations [sample_boundary ''a'' ''shop'' ''/orders''] [sample_boundary ''a'' ''shop'' ''/v2/orders''] = {(''provider'', ''GET'', ''/orders'')}"
    "gone_operations [sample_boundary ''a'' ''shop'' ''/v2/orders''] [sample_boundary ''a'' ''shop'' ''/orders''] = {(''provider'', ''GET'', ''/v2/orders'')}"
    "gone_operations [sample_boundary ''a'' ''shop'' ''/orders''] [] = {(''provider'', ''GET'', ''/orders'')}"
    by (simp_all add: gone_operations_def keys)
qed

lemma sample_moved: "cr_status (compare_http_contracts (\<lambda>_. Some ''digest'') [sample_boundary ''a'' ''shop'' ''/orders''] [sample_boundary ''a'' ''shop'' ''/v2/orders'']) = PotentiallyBreaking"
  by code_simp

theorem http_verdict_exact_witness:
  "cr_status (compare_http_contracts (\<lambda>_. Some ''digest'') [sample_boundary ''a'' ''shop'' ''/orders''] [sample_boundary ''a'' ''shop'' ''/v2/orders'']) = PotentiallyBreaking
   \<and> (\<exists>\<rho>. \<rho> (''provider'', ''GET'', ''/orders'') = (''provider'', ''GET'', ''/v2/orders'')
        \<and> replaces (''provider'', ''GET'', ''/orders'') (\<rho> (''provider'', ''GET'', ''/orders'')))"
  using http_verdict_exact [of "\<lambda>_. Some ''digest''" "[sample_boundary ''a'' ''shop'' ''/orders'']" "[sample_boundary ''a'' ''shop'' ''/v2/orders'']"] sample_moved
  by (simp add: sample_gone)

theorem database_verdict_exact_witness:
  "plain_columns (sample_database [sample_table None ''orders'' [sample_column ''id'' ''bigint'' 2]])
   \<and> cr_status (compare_database_contracts (\<lambda>_. Some ''digest'')
        (sample_database [sample_table None ''orders'' [sample_column ''id'' ''bigint'' 2]]) (sample_database [])) = Breaking"
proof -
  have plain: "plain_columns (sample_database [sample_table None ''orders'' [sample_column ''id'' ''bigint'' 2]])"
    by (simp add: plain_columns_def sample_declarations)
  have "database_broken (sample_database [sample_table None ''orders'' [sample_column ''id'' ''bigint'' 2]]) (sample_database [])"
    unfolding database_broken_def
    by (intro disjI1 exI [of _ "''orders''"]) (simp add: latest_def sample_declarations database_table_key_def List.map_filter_def)
  then show ?thesis using plain database_verdict_exact [OF plain, of "\<lambda>_. Some ''digest''" "sample_database []"] by simp
qed

theorem unchanged_contracts_compatible_witness:
  "cr_status (compare_graphql_contracts (\<lambda>_. Some ''digest'')
     (sample_schema [sample_type ''Query'' [sample_field ''Query'' ''user'' (Named ''User'' True)] False])
     (sample_schema [sample_type ''Query'' [sample_field ''Query'' ''user'' (Named ''User'' True)] False])) = Compatible
   \<and> cr_status (compare_event_contracts (\<lambda>_. Some ''digest'') (sample_events [sample_observation ''created''])
     (sample_events [sample_observation ''created''])) = Compatible
   \<and> cr_status (compare_protobuf_contracts (\<lambda>_. Some ''digest'') (sample_proto [sample_proto_field 1 ''id''] [(0, ''UNSET'')])
     (sample_proto [sample_proto_field 1 ''id''] [(0, ''UNSET'')])) = Compatible"
proof -
  have "graphql_keyed (sample_schema [sample_type ''Query'' [sample_field ''Query'' ''user'' (Named ''User'' True)] False])"
      "gd_complete (sample_schema [sample_type ''Query'' [sample_field ''Query'' ''user'' (Named ''User'' True)] False])"
      "event_keyed (sample_events [sample_observation ''created''])" "\<not> ed_incomplete (sample_events [sample_observation ''created''])"
      "proto_keyed (sample_proto [sample_proto_field 1 ''id''] [(0, ''UNSET'')])"
    by (simp_all add: graphql_keyed_def event_keyed_def proto_keyed_def all_enums_def event_key_def sample_contracts)
  then show ?thesis
    using unchanged_contracts_compatible [of "sample_schema [sample_type ''Query'' [sample_field ''Query'' ''user'' (Named ''User'' True)] False]" "\<lambda>_. Some ''digest''"
        "sample_events [sample_observation ''created'']" "\<lambda>_. Some ''digest''" "sample_proto [sample_proto_field 1 ''id''] [(0, ''UNSET'')]" "\<lambda>_. Some ''digest''"]
    by simp
qed

subsection \<open>Where the rules depart from their intent\<close>

text \<open>
  An unchanged document is reported as breaking when names repeat: a GraphQL type and its extension, two
  routing keys of one channel, two names of one enum number.
\<close>

theorem unchanged_contracts_breaking:
  "cr_status (compare_graphql_contracts (\<lambda>_. Some ''digest'')
     (sample_schema [sample_type ''Query'' [sample_field ''Query'' ''user'' (Named ''User'' True)] False,
        sample_type ''Query'' [sample_field ''Query'' ''order'' (Named ''Order'' True)] True])
     (sample_schema [sample_type ''Query'' [sample_field ''Query'' ''user'' (Named ''User'' True)] False,
        sample_type ''Query'' [sample_field ''Query'' ''order'' (Named ''Order'' True)] True])) = Breaking"
  "cr_status (compare_event_contracts (\<lambda>_. Some ''digest'') (sample_events [sample_observation ''created'', sample_observation ''paid''])
     (sample_events [sample_observation ''created'', sample_observation ''paid''])) = Breaking"
  "cr_status (compare_protobuf_contracts (\<lambda>_. Some ''digest'') (sample_proto [] [(0, ''UNSET''), (1, ''OPEN''), (1, ''STARTED'')])
     (sample_proto [] [(0, ''UNSET''), (1, ''OPEN''), (1, ''STARTED'')])) = Breaking"
proof -
  show "cr_status (compare_graphql_contracts (\<lambda>_. Some ''digest'')
     (sample_schema [sample_type ''Query'' [sample_field ''Query'' ''user'' (Named ''User'' True)] False,
        sample_type ''Query'' [sample_field ''Query'' ''order'' (Named ''Order'' True)] True])
     (sample_schema [sample_type ''Query'' [sample_field ''Query'' ''user'' (Named ''User'' True)] False,
        sample_type ''Query'' [sample_field ''Query'' ''order'' (Named ''Order'' True)] True])) = Breaking"
    by (simp add: graphql_verdict graphql_retained_def graphql_type_kept_def latest_def sample_contracts)
  show "cr_status (compare_event_contracts (\<lambda>_. Some ''digest'') (sample_events [sample_observation ''created'', sample_observation ''paid''])
     (sample_events [sample_observation ''created'', sample_observation ''paid''])) = Breaking"
    by (simp add: event_verdict event_retained_def event_observation_kept_def event_key_def latest_def sample_contracts)
  show "cr_status (compare_protobuf_contracts (\<lambda>_. Some ''digest'') (sample_proto [] [(0, ''UNSET''), (1, ''OPEN''), (1, ''STARTED'')])
     (sample_proto [] [(0, ''UNSET''), (1, ''OPEN''), (1, ''STARTED'')])) = Breaking"
    by (simp add: protobuf_verdict proto_retained_def proto_enum_kept_def all_enums_def latest_def sample_contracts)
qed

text \<open>
  A field that may now return null, although its clients were promised a value, is reported as compatible.
\<close>

theorem nullable_output_compatible:
  "admits (Named ''User'' False) NullValue \<and> \<not> admits (Named ''User'' True) NullValue
   \<and> cr_status (compare_graphql_contracts (\<lambda>_. Some ''digest'')
       (sample_schema [sample_type ''Query'' [sample_field ''Query'' ''user'' (Named ''User'' True)] False])
       (sample_schema [sample_type ''Query'' [sample_field ''Query'' ''user'' (Named ''User'' False)] False])) = Compatible"
  by (simp add: graphql_verdict graphql_retained_def graphql_type_kept_def graphql_field_kept_def latest_def
      unfingerprinted_def sample_contracts)

text \<open>
  Two columns whose dotted paths coincide share one finding, and a narrowed column type is lost with the second.
\<close>

theorem database_breaking_hidden:
  "database_broken
     (sample_database [sample_table None ''a'' [sample_column ''b.c'' ''text'' 2], sample_table (Some ''a'') ''b'' [sample_column ''c'' ''bigint'' 5]])
     (sample_database [sample_table None ''a'' [sample_column ''b.c'' ''json'' 2], sample_table (Some ''a'') ''b'' [sample_column ''c'' ''int'' 5]])
   \<and> cr_status (compare_database_contracts (\<lambda>_. Some ''digest'')
     (sample_database [sample_table None ''a'' [sample_column ''b.c'' ''text'' 2], sample_table (Some ''a'') ''b'' [sample_column ''c'' ''bigint'' 5]])
     (sample_database [sample_table None ''a'' [sample_column ''b.c'' ''json'' 2], sample_table (Some ''a'') ''b'' [sample_column ''c'' ''int'' 5]]))
     = PotentiallyBreaking"
proof
  let ?before = "[sample_table None ''a'' [sample_column ''b.c'' ''text'' 2], sample_table (Some ''a'') ''b'' [sample_column ''c'' ''bigint'' 5]]"
  let ?after = "[sample_table None ''a'' [sample_column ''b.c'' ''json'' 2], sample_table (Some ''a'') ''b'' [sample_column ''c'' ''int'' 5]]"
  have tables: "latest database_table_key ''a.b'' ?before = Some (sample_table (Some ''a'') ''b'' [sample_column ''c'' ''bigint'' 5])"
      "latest database_table_key ''a.b'' ?after = Some (sample_table (Some ''a'') ''b'' [sample_column ''c'' ''int'' 5])"
    by code_simp+
  have narrowed: "database_type_narrowed ''bigint'' ''int''" by code_simp
  have "table_broken (sample_table (Some ''a'') ''b'' [sample_column ''c'' ''bigint'' 5]) (sample_table (Some ''a'') ''b'' [sample_column ''c'' ''int'' 5])"
    unfolding table_broken_def
    by (intro exI [of _ "''c''"] exI [of _ "sample_column ''c'' ''bigint'' 5"])
      (simp add: latest_def sample_declarations column_broken_def narrowed)
  then show "database_broken (sample_database ?before) (sample_database ?after)"
    unfolding database_broken_def using tables by (intro disjI1 exI conjI allI impI) (auto simp: sample_database_def)
  show "cr_status (compare_database_contracts (\<lambda>_. Some ''digest'') (sample_database ?before) (sample_database ?after)) = PotentiallyBreaking"
    by code_simp
qed

text \<open>
  A removed package is reported as renamed to a package that the previous manifest already had.
\<close>

theorem package_renamed_to_existing:
  "map (\<lambda>f. (cf_code f, cf_path f, cf_factors f))
     (compare_package_coordinates (sample_manifest [sample_package ''api'', sample_package ''core'']) (sample_manifest [sample_package ''core'']))
   = [(''package.coordinate_renamed'', ''Cargo:api'', [''package coordinate changed from api to core''])]"
  by code_simp

end
