(* ===== verification/Spec2Isabelle.thy ===== *)
theory Spec2Isabelle
  imports Prelude Floats Model Trace Incremental Text_Ops Route_Shapes Route_Index Symbols Route_Links Budgets
    Execution_Policy Ignore_Policy Manifest Linker Traversal_Correct
    Communities_Correct Communities_Compare Impact_Correct Contract_Correct
begin

text \<open>
  A verification development of the core of Code System Graph, the program under \<open>crates/\<close> that scans the
  repositories of a workspace, builds a typed graph of services, contracts and calls, and answers questions about it.

  \<^bold>\<open>The program and its parts.\<close> A workspace manifest declares repositories and manual relationships. A scan
  decides which files it may read (ignore policy), which of them changed (incremental plan), how much it may consume
  (budgets, execution policy, watchdog), extracts HTTP boundaries, calls, tests and infrastructure documents, and
  links calls to the operations that serve them (route index, call resolution, linker). The resulting graph is
  queried: shortest traces between two nodes, bounded traversals with filters and costs, communities of strongly
  connected nodes and their comparison between two snapshots, and the impact of a change. Two versions of a contract
  document are compared for compatibility, which the impact analysis takes as an input.

  \<^bold>\<open>Theories and source files\<close> (paths under \<open>crates/code-system-graph-core/src\<close> unless another crate is named).

  \<^item> \<open>Prelude\<close>: the parts of the Rust standard library that the crates use, as lists kept in order: \<open>BTreeMap\<close>
    (\<open>bt_get\<close>, \<open>bt_insert\<close>, \<open>bt_wf\<close>), \<open>BTreeSet\<close>, results as sums (\<open>and_then\<close>, \<open>check_all\<close>), \<open>dedup_by\<close>.
    The locale \<open>ordered_map\<close> states what a map promises; \<open>btree\<close> interprets it on the lists.
  \<^item> \<open>Floats\<close>: \<open>f32\<close> and \<open>f64\<close> as exact rationals with the special values, rounded to nearest, ties to even, after
    every operation. The locale \<open>path_weight\<close> (an addition that never decreases) is interpreted by \<open>f64_weight\<close>.
  \<^item> \<open>Text_Ops\<close>: operations of \<open>str\<close> on UTF-8 bytes.
  \<^item> \<open>Model\<close>: \<open>code-system-graph-model/src/lib.rs\<close>, the vocabulary of nodes, edges, evidence and reports.
  \<^item> \<open>Trace\<close>: \<open>trace.rs\<close>, the validated graph and the shortest-path search.
  \<^item> \<open>Incremental\<close>: \<open>incremental.rs\<close>, the plan of a scan from two sets of fingerprints.
  \<^item> \<open>Route_Shapes\<close>, \<open>Route_Index\<close>, \<open>Route_Links\<close>: \<open>routes.rs\<close>, with the parts of \<open>http.rs\<close>, \<open>infrastructure.rs\<close>,
    \<open>test_links.rs\<close> and \<open>linker.rs\<close> it calls: route shapes and mixed segments, the map from authorities to
    repositories, the trie of providers, and the resolution and linking of every call. The locale \<open>route_table\<close> is
    what the resolution relies on; \<open>trie\<close> interprets it on the trie of the source.
  \<^item> \<open>Symbols\<close>: \<open>source_symbol.rs\<close>, stable keys of source symbols and their parser.
  \<^item> \<open>Budgets\<close>: \<open>extraction_budget.rs\<close>, limits, counters, deadlines and the bounded writer.
  \<^item> \<open>Execution_Policy\<close>: \<open>execution_policy.rs\<close> and \<open>execution_policy/tracker.rs\<close>, policies and the scan watchdog.
  \<^item> \<open>Ignore_Policy\<close>: \<open>ignore_policy.rs\<close>, the patterns, the decision whether a path is excluded, and file discovery.
  \<^item> \<open>Manifest\<close>: \<open>manifest.rs\<close>, the manifest and its validation.
  \<^item> \<open>Linker\<close>: \<open>linker.rs\<close>, manual relationships applied to the automatic edges.
  \<^item> \<open>Traversal\<close>, \<open>Traversal_Paths\<close>, \<open>Traversal_Correct\<close>: the traversal half of \<open>query.rs\<close>. The breadth-first and
    the weighted search are runs of one machine that differ in the choice of the next state; the locale
    \<open>queue_discipline\<close> holds what every choice gives, \<open>best_first\<close> extends it with an order that extensions respect.
    The interpretations are \<open>fifo\<close>, \<open>cheapest\<close> and \<open>request_queue\<close>.
  \<^item> \<open>Communities\<close>, \<open>Communities_Correct\<close>, \<open>Communities_Compare\<close>: \<open>communities.rs\<close>. The locale \<open>node_passes\<close> is the
    contract of the iterative algorithms, interpreted by \<open>propagation\<close> and \<open>moving\<close>.
  \<^item> \<open>Impact\<close>, \<open>Impact_Search\<close>, \<open>Impact_Correct\<close>: \<open>impact.rs\<close>, the definitions, the invariant of the propagation
    and the properties of the report.
  \<^item> \<open>Contract_Documents\<close>: the documents extracted by \<open>graphql_contracts.rs\<close>, \<open>events.rs\<close>,
    \<open>protobuf_contracts.rs\<close>, \<open>packages.rs\<close> and \<open>data_contracts.rs\<close>.
  \<^item> \<open>Contract_Compat\<close>, \<open>Contract_Verdicts\<close>, \<open>Contract_Inventories\<close>, \<open>Contract_Correct\<close>: \<open>contract_compat.rs\<close>, the
    six comparators and their verdicts. The locale \<open>consistent_findings\<close> is what the aggregate report relies on; it is
    interpreted for every family (\<open>graphql\<close>, \<open>event\<close>, \<open>protobuf\<close>, \<open>http\<close>, \<open>package\<close>, \<open>database\<close>).

  A Rust struct is a record, an enum a datatype, a function a definition of the same name; a loop is a recursive
  function or a fold over the collection it iterates; a mutable local is a component of the state that the fold
  passes on. Errors are the left values of a sum, in the order in which the source checks them. Strings are lists of
  bytes, so the order of strings is the order of the source.

  \<^bold>\<open>What the theorems show.\<close>
  \<^item> Routes: lookup returns exactly the allowed providers of the most specific matching shapes; a call is unmatched
    exactly when nothing matches; the edges, gaps and coverage of linking are exactly what the calls ask for; the
    greedy matcher of mixed segments agrees with the declarative one on UTF-8 text; canonical forms (of paths without
    the text \<open>$${\<close>) and stable keys (of well-formed identities) round-trip.
  \<^item> Search: traces are shortest and complete; traversals return admissible paths only, the best ones when not
    truncated, within their limits, and end within two clock readings of the timeout; a report is returned only for a
    sound request on a sound graph, and every error names a defect of one of them.
  \<^item> Communities: with connected components two nodes share a community exactly when a chain of participating edges
    links them; every algorithm partitions the nodes in scope; input order does not matter; the comparison of two
    snapshots is exactly its specification.
  \<^item> Impact: every reported item is a route of the graph; without truncation and structural turns the affected nodes are
    exactly those that propagating walks reach; a numeric risk is given exactly when the coverage has no gap.
  \<^item> Compatibility: the verdict of every family is exactly what the candidate retains of the previous document;
    for databases when no column name has a dot; reports are ordered and bounded; a complete, fingerprinted GraphQL,
    event or protobuf document with unique names is compatible with itself. The last section of
    \<open>Contract_Correct\<close> shows where the rules depart from their intent, as do \<open>canonical_route_dollar\<close> and
    \<open>hidden_impact\<close> for routes and impacts.
  \<^item> Scans: the plan is exact; no sequence of charges passes a limit; the watchdog accepts exactly the runs that meet
    both deadlines; a file that an include pattern matches is found
    unless a rule other than the default exclusions leaves it out.
  \<^item> Configuration: manifests and policies are accepted exactly when well formed; manual links are applied exactly.

  \<^bold>\<open>Parameters.\<close> Code outside the repository is an argument of the definitions: the hash of stable identities, the
  version of the package, the readings of clocks, the iteration order of hash maps, the YAML parser, the glob
  library and the directory walk (with the documented behaviour they are used for as named hypotheses), and the Unicode tables.

  \<^bold>\<open>Termination and bounds.\<close> Every definition is total but one: the walk back over the parents of a trace is a
  partial function with an option result, and the completeness theorem of the trace shows that it returns. Worklist
  loops carry a measure: the unvisited nodes or unassigned labels and the pending work, or the remaining edge budget
  and the length of the queue. The source ends the bounded search by a clock as well; a theorem bounds the number of
  clock readings. No loop is run with fuel. Integers are kept within their width where the source saturates or checks.

  \<^bold>\<open>Not modelled.\<close> The command line, the MCP and HTTP servers, the hooks, the agent plugin and the SQLite store are
  input and output on libraries and processes. The extractors of source languages and contract documents are
  heuristic parsers whose output is the input of the modelled linking and of the compatibility rules. Change analysis
  and pull-request reports assemble what those extractors, git and the store produce. The ranked text search of \<open>query.rs\<close> is not modelled.
\<close>

end
